(* ===== verification/Prelude.thy ===== *)
theory Prelude
  imports Main "HOL-Library.Word" "HOL-Library.Finite_Map" "HOL-Library.List_Lexorder"
    "HOL-Library.Product_Lexorder"
begin

text \<open>
  What every component of the development shares: names for Rust's machine integers and
  their checked and saturating operations, the \<open>?\<close> operator of fallible code, and the
  ordered containers. A \<open>BTreeMap\<close> is a finite map \<open>('k, 'v) fmap\<close> and a \<open>BTreeSet\<close> a
  finite set \<open>'a fset\<close>; both iterate in ascending key order, which is
  \<open>sorted_list_of_fmap\<close> and \<open>sorted_list_of_fset\<close>. A \<open>usize\<close> that only counts the
  elements of a container is a \<open>nat\<close>.
\<close>

unbundle bit_operations_syntax

section \<open>Machine integers\<close>

type_synonym u8 = "8 word"
type_synonym u16 = "16 word"
type_synonym u32 = "32 word"
type_synonym u64 = "64 word"
type_synonym u128 = "128 word"

definition checked_add :: "'a::len word \<Rightarrow> 'a word \<Rightarrow> 'a word option" where
  "checked_add a b = (if unat a + unat b < 2 ^ LENGTH('a) then Some (a + b) else None)"

definition saturating_add :: "'a::len word \<Rightarrow> 'a word \<Rightarrow> 'a word" where
  "saturating_add a b = (if unat a + unat b < 2 ^ LENGTH('a) then a + b else - 1)"

definition saturating_sub :: "'a::len word \<Rightarrow> 'a word \<Rightarrow> 'a word" where
  "saturating_sub a b = (if b \<le> a then a - b else 0)"

definition saturating_mul :: "'a::len word \<Rightarrow> 'a word \<Rightarrow> 'a word" where
  "saturating_mul a b = (if unat a * unat b < 2 ^ LENGTH('a) then a * b else - 1)"

definition checked_shl :: "'a::len word \<Rightarrow> nat \<Rightarrow> 'a word option" where
  "checked_shl a n = (if n < LENGTH('a) then Some (push_bit n a) else None)"

lemma unat_minus_one_word_eq: "unat (- 1 :: 'a::len word) = 2 ^ LENGTH('a) - 1"
  by (simp add: unsigned_minus_1_eq_mask mask_eq_exp_minus_1)

lemma unat_less_pow: "unat (a :: 'a::len word) < 2 ^ LENGTH('a)"
  by (rule unsigned_less)

lemma unat_add_no_overflow:
  "unat a + unat b < 2 ^ LENGTH('a) \<Longrightarrow> unat (a + b :: 'a::len word) = unat a + unat b"
  by (simp only: unat_word_ariths(1) mod_less)

lemma unat_mult_no_overflow:
  "unat a * unat b < 2 ^ LENGTH('a) \<Longrightarrow> unat (a * b :: 'a::len word) = unat a * unat b"
  by (simp only: unat_word_ariths(2) mod_less)

lemma unat_sub_le: "b \<le> a \<Longrightarrow> unat (a - b :: 'a::len word) = unat a - unat b"
  by (simp add: unat_sub_if_size word_le_nat_alt)

lemma checked_add_SomeD:
  "checked_add a b = Some c \<Longrightarrow> unat c = unat a + unat b \<and> c = a + b"
  unfolding checked_add_def by (auto simp only: unat_add_no_overflow option.inject option.distinct
      split: if_splits)

lemma checked_add_eq_None_iff:
  "checked_add (a :: 'a::len word) b = None \<longleftrightarrow> 2 ^ LENGTH('a) \<le> unat a + unat b"
  by (auto simp only: checked_add_def not_less option.distinct split: if_splits)

lemma unat_saturating_add:
  "unat (saturating_add (a :: 'a::len word) b) = min (unat a + unat b) (2 ^ LENGTH('a) - 1)"
proof (cases "unat a + unat b < 2 ^ LENGTH('a)")
  case True
  then show ?thesis by (simp only: saturating_add_def if_True unat_add_no_overflow)
next
  case False
  then show ?thesis by (simp only: saturating_add_def if_False unat_minus_one_word_eq)
qed

lemma unat_saturating_sub: "unat (saturating_sub a b) = unat a - unat b"
  by (simp add: saturating_sub_def unat_sub_le word_le_nat_alt)

lemma unat_saturating_mul:
  "unat (saturating_mul (a :: 'a::len word) b) = min (unat a * unat b) (2 ^ LENGTH('a) - 1)"
proof (cases "unat a * unat b < 2 ^ LENGTH('a)")
  case True
  then show ?thesis by (simp only: saturating_mul_def if_True unat_mult_no_overflow)
next
  case False
  then show ?thesis by (simp only: saturating_mul_def if_False unat_minus_one_word_eq)
qed

lemma saturating_add_increasing: "a \<le> saturating_add a b"
  using unat_less_pow [of a] by (simp only: word_le_nat_alt unat_saturating_add)

section \<open>Reversed orders\<close>

text \<open>\<open>std::cmp::Reverse\<close>: the same values, compared the other way round.\<close>

datatype 'a reverse = Reverse (reversed: 'a)

instantiation reverse :: (linorder) linorder
begin

definition less_eq_reverse :: "'a reverse \<Rightarrow> 'a reverse \<Rightarrow> bool" where
  "less_eq_reverse a b \<longleftrightarrow> reversed b \<le> reversed a"

definition less_reverse :: "'a reverse \<Rightarrow> 'a reverse \<Rightarrow> bool" where
  "less_reverse a b \<longleftrightarrow> reversed b < reversed a"

instance
  by standard (auto simp: less_eq_reverse_def less_reverse_def reverse.expand)

end

section \<open>Fallible code\<close>

text \<open>The early return of Rust's \<open>?\<close>: an error ends the function with that error.\<close>

definition bindR :: "'e + 'a \<Rightarrow> ('a \<Rightarrow> 'e + 'b) \<Rightarrow> 'e + 'b" where
  "bindR m f = (case m of Inl e \<Rightarrow> Inl e | Inr x \<Rightarrow> f x)"

definition ok_or :: "'e \<Rightarrow> 'a option \<Rightarrow> 'e + 'a" where
  "ok_or e m = (case m of None \<Rightarrow> Inl e | Some x \<Rightarrow> Inr x)"

definition map_err :: "('e \<Rightarrow> 'f) \<Rightarrow> 'e + 'a \<Rightarrow> 'f + 'a" where
  "map_err f m = (case m of Inl e \<Rightarrow> Inl (f e) | Inr x \<Rightarrow> Inr x)"

definition is_err :: "'e + 'a \<Rightarrow> bool" where
  "is_err m = (case m of Inl _ \<Rightarrow> True | Inr _ \<Rightarrow> False)"

lemma bindR_simps [simp]: "bindR (Inl e) f = Inl e" "bindR (Inr x) f = f x"
  by (simp_all add: bindR_def)

lemma bindR_eq_Inr: "bindR m f = Inr y \<longleftrightarrow> (\<exists>x. m = Inr x \<and> f x = Inr y)"
  by (cases m) auto

lemma bindR_eq_Inl: "bindR m f = Inl e \<longleftrightarrow> m = Inl e \<or> (\<exists>x. m = Inr x \<and> f x = Inl e)"
  by (cases m) auto

lemma ok_or_simps [simp]: "ok_or e None = Inl e" "ok_or e (Some x) = Inr x"
  by (simp_all add: ok_or_def)

lemma ok_or_eq_Inr: "ok_or e m = Inr x \<longleftrightarrow> m = Some x"
  by (cases m) auto

lemma ok_or_eq_Inl: "ok_or e m = Inl e' \<longleftrightarrow> m = None \<and> e' = e"
  by (cases m) auto

lemma map_err_simps [simp]: "map_err f (Inl e) = Inl (f e)" "map_err f (Inr x) = Inr x"
  by (simp_all add: map_err_def)

lemma map_err_eq_Inr [simp]: "map_err f m = Inr x \<longleftrightarrow> m = Inr x"
  by (cases m) auto

lemma is_err_simps [simp]: "is_err (Inl e)" "\<not> is_err (Inr x)"
  by (simp_all add: is_err_def)

text \<open>A \<open>for\<close> loop over a list whose body may return an error early.\<close>

fun foldR :: "('a \<Rightarrow> 's \<Rightarrow> 'e + 's) \<Rightarrow> 'a list \<Rightarrow> 's \<Rightarrow> 'e + 's" where
  "foldR f [] s = Inr s"
| "foldR f (x # xs) s = bindR (f x s) (foldR f xs)"

lemma foldR_append: "foldR f (xs @ ys) s = bindR (foldR f xs s) (foldR f ys)"
proof (induction xs arbitrary: s)
  case (Cons x xs)
  then show ?case by (cases "f x s") simp_all
qed simp

lemma foldR_invariant:
  assumes "foldR f xs s = Inr t" and "P s"
    and "\<And>x s s'. x \<in> set xs \<Longrightarrow> P s \<Longrightarrow> f x s = Inr s' \<Longrightarrow> P s'"
  shows "P t"
  using assms
proof (induction xs arbitrary: s)
  case (Cons x xs)
  from Cons.prems(1) obtain s' where s': "f x s = Inr s'" and rest: "foldR f xs s' = Inr t"
    by (auto simp: bindR_eq_Inr)
  have "P s'" using Cons.prems(3) [of x s s'] Cons.prems(2) s' by simp
  moreover have "P s2" if "y \<in> set xs" "P s1" "f y s1 = Inr s2" for y s1 s2
    using Cons.prems(3) [of y s1 s2] that by simp
  ultimately show ?case using rest Cons.IH [of s'] by blast
qed simp

lemma foldR_check: "foldR f xs () = Inr () \<longleftrightarrow> (\<forall>x\<in>set xs. f x () = Inr ())"
proof (induction xs)
  case (Cons x xs)
  then show ?case by (cases "f x ()") auto
qed simp

text \<open>Collecting an iterator of results into a result: the first error wins.\<close>

fun collectR :: "('e + 'a) list \<Rightarrow> 'e + 'a list" where
  "collectR [] = Inr []"
| "collectR (r # rs) = bindR r (\<lambda>x. bindR (collectR rs) (\<lambda>xs. Inr (x # xs)))"

lemma collectR_eq_Inr: "collectR rs = Inr xs \<longleftrightarrow> rs = map Inr xs"
  by (induction rs arbitrary: xs) (auto simp: bindR_eq_Inr)

lemma collectR_eq_Inl: "collectR rs = Inl e \<Longrightarrow> Inl e \<in> set rs"
  by (induction rs) (auto simp: bindR_eq_Inl)

lemma set_map_filter: "y \<in> set (List.map_filter f xs) \<longleftrightarrow> (\<exists>x\<in>set xs. f x = Some y)"
proof (induction xs)
  case (Cons x xs)
  then show ?case by (cases "f x") (auto simp: map_filter_simps)
qed (simp add: map_filter_simps)

text \<open>A scan that keeps the first of the greatest proposals.\<close>

definition keep_best :: "('p \<Rightarrow> 'k::linorder) \<Rightarrow> 'p option \<Rightarrow> 'p option \<Rightarrow> 'p option" where
  "keep_best key new best =
     (case new of
        None \<Rightarrow> best
      | Some p \<Rightarrow> (case best of None \<Rightarrow> Some p | Some q \<Rightarrow> if key p > key q then Some p else best))"

definition is_best :: "('p \<Rightarrow> 'k::linorder) \<Rightarrow> 'p set \<Rightarrow> 'p option \<Rightarrow> bool" where
  "is_best key A best \<longleftrightarrow>
     (case best of None \<Rightarrow> A = {} | Some p \<Rightarrow> p \<in> A \<and> (\<forall>q\<in>A. key q \<le> key p))"

lemma is_best_keep: "is_best key A best \<Longrightarrow> is_best key (set_option new \<union> A) (keep_best key new best)"
  by (auto simp: is_best_def keep_best_def split: option.splits if_splits
      dest: order_trans less_imp_le)

lemma is_best_fold:
  "is_best key A best \<Longrightarrow>
   is_best key ((\<Union>e\<in>set xs. set_option (f e)) \<union> A) (fold (\<lambda>e. keep_best key (f e)) xs best)"
proof (induction xs arbitrary: A best)
  case (Cons e xs)
  show ?case using Cons.IH [OF is_best_keep [OF Cons.prems, of "f e"]] by (simp add: ac_simps)
qed simp

section \<open>Ordered containers\<close>

definition fm_values :: "('k::linorder, 'v) fmap \<Rightarrow> 'v list" where
  "fm_values m = map snd (sorted_list_of_fmap m)"

definition fm_len :: "('k, 'v) fmap \<Rightarrow> nat" where
  "fm_len m = fcard (fmdom m)"

text \<open>\<open>BTreeMap::retain\<close>: the entries whose key and value satisfy the predicate.\<close>

definition fm_retain :: "('k \<Rightarrow> 'v \<Rightarrow> bool) \<Rightarrow> ('k, 'v) fmap \<Rightarrow> ('k, 'v) fmap" where
  "fm_retain P m =
     fmfilter (\<lambda>k. case fmlookup m k of None \<Rightarrow> False | Some v \<Rightarrow> P k v) m"

lemma fmlookup_fm_retain [simp]:
  "fmlookup (fm_retain P m) k =
     (case fmlookup m k of None \<Rightarrow> None | Some v \<Rightarrow> if P k v then Some v else None)"
  by (simp add: fm_retain_def split: option.splits)

lemma set_sorted_list_of_fmap:
  "set (sorted_list_of_fmap m) = {(k, v). fmlookup m k = Some v}"
  by (auto simp: sorted_list_of_fmap_def fmlookup_dom_iff image_iff)

lemma map_fst_sorted_list_of_fmap [simp]:
  "map fst (sorted_list_of_fmap m) = sorted_list_of_fset (fmdom m)"
  by (simp add: sorted_list_of_fmap_def comp_def)

lemma sorted_list_of_fset_distinct [simp]:
  "distinct (sorted_list_of_fset S)" "sorted (sorted_list_of_fset S)"
  by (simp_all add: sorted_list_of_fset.rep_eq)

lemma distinct_sorted_list_of_fmap: "distinct (sorted_list_of_fmap m)"
  by (rule distinct_map [THEN iffD1, of fst, THEN conjunct1]) simp

lemma set_fm_values: "v \<in> set (fm_values m) \<longleftrightarrow> (\<exists>k. fmlookup m k = Some v)"
  by (force simp: fm_values_def set_sorted_list_of_fmap)

lemma length_fm_values: "length (fm_values m) = fm_len m"
  by (simp add: fm_values_def fm_len_def sorted_list_of_fmap_def sorted_list_of_fset.rep_eq
      fcard.rep_eq)

lemma fm_len_fmupd:
  "fm_len (fmupd k v m) = (if k |\<in>| fmdom m then fm_len m else Suc (fm_len m))"
  by (simp add: fm_len_def fcard_finsert_if)

lemma fm_len_fmempty [simp]: "fm_len fmempty = 0"
  by (simp add: fm_len_def)

lemma fm_len_fmdrop: "fm_len (fmdrop k m) = (if k |\<in>| fmdom m then fm_len m - 1 else fm_len m)"
  by (simp add: fm_len_def fcard_fminus_fsingleton_if)

lemma fm_len_mono: "fmdom m |\<subseteq>| fmdom n \<Longrightarrow> fm_len m \<le> fm_len n"
  by (simp add: fm_len_def fcard_mono)

lemma fcard_fminus_finsert: "x |\<in>| A |-| S \<Longrightarrow> fcard (A |-| finsert x S) < fcard (A |-| S)"
  by (metis fcard_fminus1_less fminus_finsert)

text \<open>Evaluating the sorted enumeration of a container that is given entry by entry.\<close>

lemma sorted_list_of_fset_eval:
  "sorted_list_of_fset {||} = []"
  "sorted_list_of_fset (finsert x S) = insort x (sorted_list_of_fset (S |-| {|x|}))"
  by (simp_all add: sorted_list_of_fset.rep_eq sorted_list_of_set_insert_remove)

text \<open>A map whose values carry their keys is rebuilt by inserting its values.\<close>

lemma fold_fmupd_lookup:
  assumes "list_all (\<lambda>x. fmlookup m (key x) = Some (val x)) xs"
  shows "fmlookup (fold (\<lambda>x. fmupd (key x) (val x)) xs acc) k =
    (if k \<in> key ` set xs then fmlookup m k else fmlookup acc k)"
  using assms by (induction xs arbitrary: acc) auto

lemma fm_rebuild:
  assumes keys: "\<And>k x. fmlookup m k = Some x \<Longrightarrow> key x = k"
  shows "fold (\<lambda>x. fmupd (key x) x) (fm_values m) fmempty = m"
proof (rule fmap_ext)
  fix k
  have "list_all (\<lambda>x. fmlookup m (key x) = Some x) (fm_values m)"
    using keys by (auto simp: list_all_iff set_fm_values)
  then have look: "fmlookup (fold (\<lambda>x. fmupd (key x) x) (fm_values m) fmempty) k =
      (if k \<in> key ` set (fm_values m) then fmlookup m k else fmlookup fmempty k)" by (rule fold_fmupd_lookup)
  have "k \<in> key ` set (fm_values m)" if "fmlookup m k = Some x" for x
  proof -
    from that have "x \<in> set (fm_values m)" by (auto simp: set_fm_values)
    then show ?thesis using keys [OF that] by blast
  qed
  then show "fmlookup (fold (\<lambda>x. fmupd (key x) x) (fm_values m) fmempty) k = fmlookup m k"
    unfolding look by (cases "fmlookup m k") auto
qed

lemma distinct_keys:
  assumes "\<And>k x. fmlookup m k = Some x \<Longrightarrow> key x = k"
  shows "distinct (map key (fm_values m))"
proof -
  have "map key (fm_values m) = map fst (sorted_list_of_fmap m)"
    unfolding fm_values_def map_map by (rule map_cong) (auto simp: set_sorted_list_of_fmap dest: assms)
  then show ?thesis by simp
qed

end
