(* ===== verification/Errors.thy ===== *)
theory Errors
  imports Prelude
begin

text \<open>
  The typed errors of \<open>crates/blueroute-core/src/error.rs\<close>: an error category, a message and
  optional diagnostic context. Messages are kept as the code has them; the numbers and
  enum names that \<open>format!\<close> splices into some of them are rendered by the functions below.
\<close>

section \<open>Error values\<close>

datatype error_kind =
    UnsupportedRuntime
  | MissingAdapter
  | AdapterDisabled
  | CapabilityUnavailable
  | BluezUnavailable
  | NetworkBackendUnavailable
  | PairingFailed
  | AuthenticationFailed
  | PanFailure
  | AddressConflict
  | RouteFailure
  | TopologyFailure
  | ProtocolError
  | InvalidState
  | InvalidInput
  | PersistenceError
  | Internal

definition is_retryable_transport_failure :: "error_kind \<Rightarrow> bool" where
  "is_retryable_transport_failure k =
     (case k of BluezUnavailable \<Rightarrow> True | NetworkBackendUnavailable \<Rightarrow> True
      | PanFailure \<Rightarrow> True | _ \<Rightarrow> False)"

record core_error =
  err_kind :: error_kind
  err_message :: string
  err_diagnostic :: "string option"

definition core_error_new :: "error_kind \<Rightarrow> string \<Rightarrow> core_error" where
  "core_error_new k m = \<lparr>err_kind = k, err_message = m, err_diagnostic = None\<rparr>"

definition with_diagnostic :: "error_kind \<Rightarrow> string \<Rightarrow> string \<Rightarrow> core_error" where
  "with_diagnostic k m d = \<lparr>err_kind = k, err_message = m, err_diagnostic = Some d\<rparr>"

text \<open>The result of a fallible core operation, and the helper \<open>invalid\<close> several modules have.\<close>

type_synonym 'a core_result = "core_error + 'a"

definition invalid :: "string \<Rightarrow> core_error" where
  "invalid m = core_error_new InvalidInput m"

lemma core_error_sels [simp]:
  "err_kind (core_error_new k m) = k" "err_message (core_error_new k m) = m"
  "err_diagnostic (core_error_new k m) = None"
  "err_kind (with_diagnostic k m d) = k" "err_message (with_diagnostic k m d) = m"
  "err_diagnostic (with_diagnostic k m d) = Some d"
  "err_kind (invalid m) = InvalidInput" "err_message (invalid m) = m"
  by (simp_all add: core_error_new_def with_diagnostic_def invalid_def)

section \<open>Effects\<close>

text \<open>Fallible code that drives an external object (a trait object behind \<open>&mut\<close>): a function of the
  object's state that returns a result and the state after the call, also when it fails.\<close>

type_synonym ('w, 'a) eff = "'w \<Rightarrow> 'a core_result \<times> 'w"

definition retE :: "'a \<Rightarrow> ('w, 'a) eff" where
  "retE x w = (Inr x, w)"

definition liftE :: "'a core_result \<Rightarrow> ('w, 'a) eff" where
  "liftE r w = (r, w)"

definition raiseE :: "core_error \<Rightarrow> ('w, 'a) eff" where
  "raiseE e w = (Inl e, w)"

definition bindE :: "('w, 'a) eff \<Rightarrow> ('a \<Rightarrow> ('w, 'b) eff) \<Rightarrow> ('w, 'b) eff" where
  "bindE m f w = (case m w of (Inl e, w') \<Rightarrow> (Inl e, w') | (Inr x, w') \<Rightarrow> f x w')"

lemma eff_simps [simp]:
  "retE x w = (Inr x, w)" "liftE r w = (r, w)" "raiseE e w = (Inl e, w)"
  by (simp_all add: retE_def liftE_def raiseE_def)

lemma bindE_eq_Inr:
  "bindE m f w = (Inr y, w'') \<longleftrightarrow> (\<exists>x w'. m w = (Inr x, w') \<and> f x w' = (Inr y, w''))"
  by (auto simp: bindE_def split: prod.splits sum.splits)

lemma bindE_Inr: "m w = (Inr x, w') \<Longrightarrow> bindE m f w = f x w'"
  by (simp add: bindE_def)

lemma bindE_Inl: "m w = (Inl e, w') \<Longrightarrow> bindE m f w = (Inl e, w')"
  by (simp add: bindE_def)

section \<open>Rendering numbers\<close>

fun show_nat :: "nat \<Rightarrow> string" where
  "show_nat n =
     (if n < 10 then [char_of (48 + n)]
      else show_nat (n div 10) @ [char_of (48 + n mod 10)])"

declare show_nat.simps [simp del]

fun show_hex :: "nat \<Rightarrow> string" where
  "show_hex n =
     (let d = n mod 16; c = char_of (if d < 10 then 48 + d else 87 + d)
      in if n < 16 then [c] else show_hex (n div 16) @ [c])"

declare show_hex.simps [simp del]

end
