(* ===== verification/Ids.thy ===== *)
theory Ids
  imports Errors
begin

text \<open>
  \<open>crates/blueroute-core/src/id.rs\<close>: the 16-byte identifiers that the macro \<open>define_id!\<close>
  declares, their hexadecimal text form, and the display name. The four identifier types
  are one type of 16-byte arrays with a phantom tag, as the macro stamps out one body four
  times; the derived order is the lexicographic order of the bytes. A \<open>&str\<close> that is read
  byte by byte is a list of bytes, one that is read by \<open>chars()\<close> a list of code points.
\<close>

section \<open>Identifiers\<close>

definition ID_BYTES :: nat where
  "ID_BYTES = 16"

definition ID_HEX_CHARS :: nat where
  "ID_HEX_CHARS = ID_BYTES * 2"

typedef 'k ident = "{bs :: u8 list. length bs = ID_BYTES}"
  morphisms as_bytes Abs_ident
  by (rule exI [of _ "replicate ID_BYTES 0"]) simp

datatype node_tag = NodeTag
datatype network_tag = NetworkTag
datatype link_tag = LinkTag
datatype segment_tag = SegmentTag

type_synonym node_id = "node_tag ident"
type_synonym network_id = "network_tag ident"
type_synonym link_id = "link_tag ident"
type_synonym segment_id = "segment_tag ident"

text \<open>The Rust argument is an array of exactly 16 bytes; on such a list nothing is cut or padded.\<close>

definition from_bytes :: "u8 list \<Rightarrow> 'k ident" where
  "from_bytes bs = Abs_ident (take ID_BYTES (bs @ replicate ID_BYTES 0))"

instantiation ident :: (type) linorder
begin

definition less_eq_ident :: "'a ident \<Rightarrow> 'a ident \<Rightarrow> bool" where
  "less_eq_ident a b \<longleftrightarrow> as_bytes a \<le> as_bytes b"

definition less_ident :: "'a ident \<Rightarrow> 'a ident \<Rightarrow> bool" where
  "less_ident a b \<longleftrightarrow> as_bytes a < as_bytes b"

instance
  by standard (auto simp: less_eq_ident_def less_ident_def less_le as_bytes_inject)

end

instantiation ident :: (type) equal
begin

definition equal_ident :: "'a ident \<Rightarrow> 'a ident \<Rightarrow> bool" where
  "equal_ident a b \<longleftrightarrow> as_bytes a = as_bytes b"

instance
  by standard (simp add: equal_ident_def as_bytes_inject)

end

text \<open>The zero identity, which the code spells \<open>from_bytes([0; 16])\<close> or tests byte by byte.\<close>

definition zero_ident :: "'k ident" where
  "zero_ident = from_bytes (replicate ID_BYTES 0)"

definition all_zero :: "'k ident \<Rightarrow> bool" where
  "all_zero i = list_all (\<lambda>b. b = 0) (as_bytes i)"

section \<open>Hexadecimal text\<close>

definition HEX :: "u8 list" where
  "HEX = map (\<lambda>n. of_nat (48 + n)) [0..<10] @ map (\<lambda>n. of_nat (97 + n)) [0..<6]"

fun encode_hex :: "u8 list \<Rightarrow> u8 list" where
  "encode_hex [] = []"
| "encode_hex (b # bs) = HEX ! unat (drop_bit 4 b) # HEX ! unat (b AND 0x0f) # encode_hex bs"

definition decode_nibble :: "u8 \<Rightarrow> u8 option" where
  "decode_nibble v =
     (if 48 \<le> v \<and> v \<le> 57 then Some (v - 48)
      else if 97 \<le> v \<and> v \<le> 102 then Some (v - 97 + 10)
      else if 65 \<le> v \<and> v \<le> 70 then Some (v - 65 + 10)
      else None)"

definition non_hex_error :: core_error where
  "non_hex_error = core_error_new InvalidInput ''identifier contains non-hexadecimal data''"

fun decode_pairs :: "u8 list \<Rightarrow> u8 list core_result" where
  "decode_pairs (h # l # rest) =
     bindR (ok_or non_hex_error (decode_nibble h)) (\<lambda>high.
     bindR (ok_or non_hex_error (decode_nibble l)) (\<lambda>low.
     bindR (decode_pairs rest) (\<lambda>bytes.
       Inr ((push_bit 4 high OR low) # bytes))))"
| "decode_pairs _ = Inr []"

definition decode_hex :: "u8 list \<Rightarrow> u8 list core_result" where
  "decode_hex s =
     (if length s \<noteq> ID_HEX_CHARS
      then Inl (core_error_new InvalidInput
             (''identifier must contain exactly '' @ show_nat ID_HEX_CHARS @
              '' hexadecimal characters''))
      else decode_pairs s)"

definition ident_to_string :: "'k ident \<Rightarrow> u8 list" where
  "ident_to_string i = encode_hex (as_bytes i)"

definition ident_from_str :: "u8 list \<Rightarrow> 'k ident core_result" where
  "ident_from_str s = bindR (decode_hex s) (\<lambda>bytes. Inr (from_bytes bytes))"

section \<open>Display names\<close>

type_synonym ustring = "nat list"

datatype display_name = DisplayName (display_name_as_str: ustring)

definition MAX_CHARS :: nat where
  "MAX_CHARS = 64"

text \<open>\<open>char::is_control\<close> (general category Cc) and \<open>char::is_whitespace\<close> (White\_Space).\<close>

definition is_control :: "nat \<Rightarrow> bool" where
  "is_control c \<longleftrightarrow> c \<le> 0x1f \<or> (0x7f \<le> c \<and> c \<le> 0x9f)"

definition is_whitespace :: "nat \<Rightarrow> bool" where
  "is_whitespace c \<longleftrightarrow>
     (0x09 \<le> c \<and> c \<le> 0x0d) \<or> c = 0x20 \<or> c = 0x85 \<or> c = 0xa0 \<or> c = 0x1680 \<or>
     (0x2000 \<le> c \<and> c \<le> 0x200a) \<or> c = 0x2028 \<or> c = 0x2029 \<or> c = 0x202f \<or>
     c = 0x205f \<or> c = 0x3000"

definition is_unsafe_char :: "nat \<Rightarrow> bool" where
  "is_unsafe_char c \<longleftrightarrow>
     is_control c \<or> c = 0x061c \<or> c = 0x200e \<or> c = 0x200f \<or>
     (0x2028 \<le> c \<and> c \<le> 0x202e) \<or> (0x2066 \<le> c \<and> c \<le> 0x2069)"

definition trim :: "ustring \<Rightarrow> ustring" where
  "trim s = rev (dropWhile is_whitespace (rev (dropWhile is_whitespace s)))"

definition display_name_new :: "ustring \<Rightarrow> display_name core_result" where
  "display_name_new v =
     (if list_ex is_unsafe_char v
      then Inl (core_error_new InvalidInput
             ''display name contains control or bidirectional formatting characters'')
      else let trimmed = trim v; char_count = length trimmed in
        if char_count = 0
        then Inl (core_error_new InvalidInput ''display name cannot be empty'')
        else if char_count > MAX_CHARS
        then Inl (core_error_new InvalidInput
               (''display name cannot exceed '' @ show_nat MAX_CHARS @ '' characters''))
        else Inr (DisplayName trimmed))"

section \<open>Lemmas\<close>

lemma length_as_bytes [simp]: "length (as_bytes i) = ID_BYTES"
  using as_bytes [of i] by simp

lemma as_bytes_from_bytes: "length bs = ID_BYTES \<Longrightarrow> as_bytes (from_bytes bs) = bs"
  by (simp add: from_bytes_def Abs_ident_inverse)

lemma from_bytes_as_bytes [simp]: "from_bytes (as_bytes i) = i"
  by (simp add: as_bytes_inject [symmetric] as_bytes_from_bytes)

lemma as_bytes_zero_ident [simp]: "as_bytes zero_ident = replicate ID_BYTES 0"
  by (simp add: zero_ident_def as_bytes_from_bytes)

lemma all_zero_iff [simp]: "all_zero i \<longleftrightarrow> i = zero_ident"
proof
  assume "all_zero i"
  then have "as_bytes i = replicate ID_BYTES 0"
    by (simp add: all_zero_def list_all_iff list_eq_iff_nth_eq)
  then show "i = zero_ident" by (simp add: as_bytes_inject [symmetric])
qed (simp add: all_zero_def list_all_iff)

text \<open>There are finitely many identifiers, so their order is well-founded; the rank of an identifier
  is the number of smaller ones.\<close>

lemma finite_ident [simp]: "finite (S :: 'k ident set)"
proof -
  have "finite (as_bytes ` S)"
    by (rule finite_subset [OF _ finite_lists_length_eq [of UNIV ID_BYTES]]) auto
  then show ?thesis by (rule finite_imageD) (auto simp: inj_on_def as_bytes_inject)
qed

definition ident_rank :: "'k ident \<Rightarrow> nat" where
  "ident_rank i = card {j. j < i}"

lemma ident_rank_less: "i < j \<Longrightarrow> ident_rank i < ident_rank j"
  unfolding ident_rank_def by (rule psubset_card_mono) auto

text \<open>Identifiers of sixteen equal bytes, as the tests build them; they evaluate by \<open>simp\<close>.\<close>

definition byte_ident :: "u8 \<Rightarrow> 'k ident" where
  "byte_ident b = from_bytes (replicate ID_BYTES b)"

lemma as_bytes_byte_ident: "as_bytes (byte_ident b) = replicate ID_BYTES b"
  by (simp add: byte_ident_def as_bytes_from_bytes)

lemma byte_ident_eq [simp]: "byte_ident a = byte_ident b \<longleftrightarrow> a = b"
  by (simp add: as_bytes_inject [symmetric] as_bytes_byte_ident ID_BYTES_def)

lemma byte_ident_less [simp]: "byte_ident a < byte_ident b \<longleftrightarrow> a < b"
  by (simp add: less_ident_def as_bytes_byte_ident ID_BYTES_def numeral_eq_Suc) auto

lemma byte_ident_less_eq [simp]: "byte_ident a \<le> byte_ident b \<longleftrightarrow> a \<le> b"
  by (simp add: linorder_not_less [symmetric])

lemma byte_ident_zero [simp]:
  "byte_ident b = zero_ident \<longleftrightarrow> b = 0" "zero_ident = byte_ident b \<longleftrightarrow> b = 0"
  by (auto simp: as_bytes_inject [symmetric] as_bytes_byte_ident ID_BYTES_def)

subsection \<open>Hexadecimal round trips\<close>

lemma push_drop_or_take: "push_bit n (drop_bit n b) OR take_bit n b = (b :: 'a::len word)"
  by (rule bit_word_eqI) (auto simp: bit_push_bit_iff bit_drop_bit_eq bit_take_bit_iff bit_or_iff)

lemma nibbles_join: "push_bit 4 (drop_bit 4 b) OR (b AND 0x0f) = (b :: u8)"
proof -
  have "b AND 0x0f = take_bit 4 b"
    by (simp only: take_bit_eq_mask) (simp add: mask_eq_exp_minus_1)
  then show ?thesis by (simp only: push_drop_or_take)
qed

lemma decode_nibble_HEX_all:
  "list_all (\<lambda>n. decode_nibble (HEX ! n) = Some (of_nat n)) [0..<16]"
  by code_simp

lemma decode_nibble_HEX: "n < 16 \<Longrightarrow> decode_nibble (HEX ! n) = Some (of_nat n)"
  using decode_nibble_HEX_all by (simp add: list_all_iff)

lemma unat_high_nibble: "unat (drop_bit 4 b :: u8) < 16"
  using unat_less_pow [of b] by (simp add: drop_bit_eq_div unat_div)

lemma unat_low_nibble: "unat (b AND 0x0f :: u8) < 16"
  by (rule le_less_trans [OF word_and_le1 [THEN word_le_nat_alt [THEN iffD1]]]) simp

lemma length_encode_hex [simp]: "length (encode_hex bs) = 2 * length bs"
  by (induction bs) simp_all

lemma decode_pairs_encode_hex [simp]: "decode_pairs (encode_hex bs) = Inr bs"
  by (induction bs)
    (simp_all add: decode_nibble_HEX unat_high_nibble unat_low_nibble nibbles_join)

lemma decode_pairs_length:
  "decode_pairs s = Inr bs \<Longrightarrow> even (length s) \<Longrightarrow> length bs = length s div 2"
  by (induction s arbitrary: bs rule: decode_pairs.induct) (auto simp: bindR_eq_Inr)

lemma decode_hex_length: "decode_hex s = Inr bs \<Longrightarrow> length bs = ID_BYTES"
  using decode_pairs_length [of s bs]
  by (auto simp: decode_hex_def ID_HEX_CHARS_def split: if_splits)

text \<open>Decoding accepts both cases; encoding prints lower case.\<close>

definition ascii_lower :: "u8 \<Rightarrow> u8" where
  "ascii_lower v = (if 65 \<le> v \<and> v \<le> 90 then v + 32 else v)"

lemma HEX_nth:
  "n < 10 \<Longrightarrow> HEX ! n = of_nat (48 + n)"
  "10 \<le> n \<Longrightarrow> n < 16 \<Longrightarrow> HEX ! n = of_nat (87 + n)"
  by (simp_all add: HEX_def nth_append)

lemma HEX_decode_nibble:
  assumes "decode_nibble v = Some d"
  shows "unat d < 16 \<and> HEX ! unat d = ascii_lower v"
proof -
  consider (digit) "48 \<le> unat v" "unat v \<le> 57" "unat d = unat v - 48"
    | (lower) "97 \<le> unat v" "unat v \<le> 102" "unat d = unat v - 87"
    | (upper) "65 \<le> unat v" "unat v \<le> 70" "unat d = unat v - 55"
    using assms
    by (auto simp: decode_nibble_def word_le_nat_alt unat_sub_le unat_add_no_overflow split: if_splits)
  then show ?thesis
  proof cases
    case digit
    then have "of_nat (48 + unat d) = v" by (simp add: word_unat_eq_iff)
    then show ?thesis using digit by (simp add: HEX_nth ascii_lower_def word_le_nat_alt)
  next
    case lower
    then have "of_nat (87 + unat d) = v" by (simp add: word_unat_eq_iff)
    then show ?thesis using lower by (simp add: HEX_nth ascii_lower_def word_le_nat_alt)
  next
    case upper
    then have "of_nat (87 + unat d) = v + 32"
      by (simp add: word_unat_eq_iff unat_add_no_overflow unsigned_of_nat take_bit_nat_eq_self)
    then show ?thesis using upper by (simp add: HEX_nth ascii_lower_def word_le_nat_alt)
  qed
qed

lemma nibble_bits:
  assumes "unat (h :: u8) < 16"
  shows "bit h n \<Longrightarrow> n < 4"
proof -
  have "unat (take_bit 4 h) = unat h"
    unfolding unsigned_take_bit_eq by (rule take_bit_nat_eq_self) (use assms in simp)
  then have "take_bit 4 h = h" by (simp only: word_unat_eq_iff)
  moreover assume "bit h n"
  ultimately have "bit (take_bit 4 h) n" by simp
  then show "n < 4" by (simp only: bit_take_bit_iff)
qed

lemma nibbles_split:
  assumes "unat (h :: u8) < 16" and "unat (l :: u8) < 16"
  shows "drop_bit 4 (push_bit 4 h OR l) = h" and "(push_bit 4 h OR l) AND 0x0f = l"
proof -
  note hl = nibble_bits [OF assms(1)] nibble_bits [OF assms(2)]
  show "drop_bit 4 (push_bit 4 h OR l) = h"
    by (rule bit_word_eqI)
      (use hl in \<open>auto simp only: bit_drop_bit_eq bit_or_iff bit_push_bit_iff comp_def\<close>, auto dest: hl)
  have m: "(0x0f :: u8) = mask 4" by (simp add: mask_eq_exp_minus_1)
  show "(push_bit 4 h OR l) AND 0x0f = l"
    unfolding m
    by (rule bit_word_eqI, simp only: bit_and_iff bit_or_iff bit_push_bit_iff bit_mask_iff)
      (use hl(2) in auto)
qed

lemma encode_hex_decode_pairs:
  "decode_pairs s = Inr bs \<Longrightarrow> even (length s) \<Longrightarrow> encode_hex bs = map ascii_lower s"
  by (induction s arbitrary: bs rule: decode_pairs.induct)
    (auto simp: bindR_eq_Inr ok_or_eq_Inr nibbles_split HEX_decode_nibble simp del: drop_bit_or)

text \<open>The text form of an identifier reads back as that identifier, and a text that reads as an
  identifier has 32 characters and is that identifier's text up to letter case.\<close>

theorem ident_text_roundtrip:
  "ident_from_str (ident_to_string i) = Inr i \<and>
   (\<forall>s j. ident_from_str s = Inr (j :: 'k ident) \<longrightarrow>
      length s = 32 \<and> ident_to_string j = map ascii_lower s)"
proof (intro conjI allI impI)
  show "ident_from_str (ident_to_string i) = Inr i"
    by (simp add: ident_from_str_def ident_to_string_def decode_hex_def ID_HEX_CHARS_def)
next
  fix s and j :: "'k ident"
  assume "ident_from_str s = Inr j"
  then obtain bs where bs: "decode_hex s = Inr bs" "j = from_bytes bs"
    by (auto simp: ident_from_str_def bindR_eq_Inr)
  then have "as_bytes j = bs" by (simp add: as_bytes_from_bytes decode_hex_length)
  then show "length s = 32" and "ident_to_string j = map ascii_lower s"
    using bs(1) encode_hex_decode_pairs [of s bs]
    by (auto simp: decode_hex_def ident_to_string_def ID_HEX_CHARS_def ID_BYTES_def split: if_splits)
qed

theorem ident_text_roundtrip_witness:
  "ident_to_string (byte_ident 10 :: node_id) = concat (replicate 16 [48, 97]) \<and>
   ident_from_str (concat (replicate 16 [48, 97])) = Inr (byte_ident 10 :: node_id)"
proof -
  have "ident_to_string (byte_ident 10 :: node_id) = concat (replicate 16 [48, 97])"
    unfolding ident_to_string_def as_bytes_byte_ident ID_BYTES_def by code_simp
  then show ?thesis using ident_text_roundtrip [THEN conjunct1, of "byte_ident 10 :: node_id"] by simp
qed

subsection \<open>Display names\<close>

lemma set_trim: "set (trim s) \<subseteq> set s"
  by (auto simp: trim_def dest!: set_dropWhileD)

lemma hd_dropWhile_not: "dropWhile P s \<noteq> [] \<Longrightarrow> \<not> P (hd (dropWhile P s))"
  by (rule hd_dropWhile)

lemma dropWhile_id: "s = [] \<or> \<not> P (hd s) \<Longrightarrow> dropWhile P s = s"
  by (cases s) auto

lemma last_dropWhile_rev:
  assumes "rev (dropWhile P (rev s)) \<noteq> []"
  shows "\<not> P (last (rev (dropWhile P (rev s))))" and "hd (rev (dropWhile P (rev s))) = hd s"
proof -
  have ne: "dropWhile P (rev s) \<noteq> []" using assms by simp
  show "\<not> P (last (rev (dropWhile P (rev s))))" using hd_dropWhile_not [OF ne] by (simp add: last_rev ne)
  have "s = rev (dropWhile P (rev s)) @ rev (takeWhile P (rev s))"
    by (metis rev_append rev_rev_ident takeWhile_dropWhile_id)
  then show "hd (rev (dropWhile P (rev s))) = hd s" using assms by (metis hd_append2)
qed

lemma trim_ends:
  assumes "trim s \<noteq> []"
  shows "\<not> is_whitespace (hd (trim s))" and "\<not> is_whitespace (last (trim s))"
proof -
  have "dropWhile is_whitespace s \<noteq> []" using assms unfolding trim_def by force
  then have "\<not> is_whitespace (hd (dropWhile is_whitespace s))" by (rule hd_dropWhile_not)
  moreover have "hd (trim s) = hd (dropWhile is_whitespace s)"
    using assms unfolding trim_def by (rule last_dropWhile_rev(2))
  ultimately show "\<not> is_whitespace (hd (trim s))" by (simp only: not_False_eq_True)
  show "\<not> is_whitespace (last (trim s))"
    using assms unfolding trim_def by (rule last_dropWhile_rev(1))
qed

lemma trim_idem [simp]: "trim (trim s) = trim s"
proof (cases "trim s = []")
  case False
  have a: "dropWhile is_whitespace (trim s) = trim s" using trim_ends(1) [OF False] by (intro dropWhile_id) simp
  have b: "dropWhile is_whitespace (rev (trim s)) = rev (trim s)"
    using trim_ends(2) [OF False] by (intro dropWhile_id) (simp add: hd_rev False)
  show ?thesis by (simp only: trim_def [of "trim s"] a b rev_rev_ident)
next
  case True
  show ?thesis unfolding True by (simp add: trim_def)
qed

text \<open>C40: a constructed display name has between 1 and 64 characters, none of them a control or
  bidirectional formatting character, no white space at either end, and constructing it again
  from its own text (as deserialization does) gives the same name.\<close>

theorem display_name_canonical:
  assumes "display_name_new s = Inr n"
  shows "1 \<le> length (display_name_as_str n) \<and> length (display_name_as_str n) \<le> 64 \<and>
    list_all (\<lambda>c. \<not> is_unsafe_char c) (display_name_as_str n) \<and>
    \<not> is_whitespace (hd (display_name_as_str n)) \<and> \<not> is_whitespace (last (display_name_as_str n)) \<and>
    display_name_new (display_name_as_str n) = Inr n"
proof -
  have n: "n = DisplayName (trim s)" "trim s \<noteq> []" "length (trim s) \<le> 64"
    and safe: "\<not> list_ex is_unsafe_char s"
    using assms by (auto simp: display_name_new_def Let_def MAX_CHARS_def split: if_splits)
  have "\<not> list_ex is_unsafe_char (trim s)" using safe set_trim [of s] by (auto simp: list_ex_iff)
  then show ?thesis
    using n trim_ends [OF n(2)]
    by (auto simp: display_name_new_def MAX_CHARS_def list_ex_iff list_all_iff Suc_le_eq)
qed

theorem display_name_canonical_witness:
  "display_name_new (map of_char '' node 7 '') = Inr (DisplayName (map of_char ''node 7'')) \<and>
   display_name_new (map of_char ''node 7'') = Inr (DisplayName (map of_char ''node 7''))"
proof -
  have a: "display_name_new (map of_char '' node 7 '') = Inr (DisplayName (map of_char ''node 7''))"
    by (simp add: display_name_new_def trim_def is_unsafe_char_def is_control_def is_whitespace_def
        MAX_CHARS_def Let_def)
  show ?thesis using a display_name_canonical [OF a] by simp
qed

end
