(* ===== verification/Ip_Route.thy ===== *)
theory Ip_Route
  imports Ids
begin

text \<open>
  \<open>crates/blueroute-core/src/route.rs\<close>: IP prefixes, route destinations, owners and routes,
  with the total orders that \<open>derive(Ord)\<close> gives them (variants in declaration order, then
  fields from left to right), which order the keys of the \<open>BTreeMap\<close>s and the sorted route
  vectors. An \<open>Ipv4Addr\<close> is its 32-bit and an \<open>Ipv6Addr\<close> its 128-bit big-endian value.
\<close>

section \<open>Addresses and prefixes\<close>

datatype ip_addr = V4 u32 | V6 u128

datatype ip_prefix = IpPrefix (pfx_address: ip_addr) (pfx_len: u8)

definition is_ipv4 :: "ip_addr \<Rightarrow> bool" where
  "is_ipv4 a = (case a of V4 _ \<Rightarrow> True | V6 _ \<Rightarrow> False)"

subsection \<open>Text of an address (\<open>Display for IpAddr\<close>)\<close>

fun join_with :: "string \<Rightarrow> string list \<Rightarrow> string" where
  "join_with sep [] = []"
| "join_with sep [x] = x"
| "join_with sep (x # y # ys) = x @ sep @ join_with sep (y # ys)"

definition show_ipv4 :: "u32 \<Rightarrow> string" where
  "show_ipv4 a =
     join_with ''.'' (map (\<lambda>k. show_nat (unat (drop_bit k a) mod 256)) [24, 16, 8, 0])"

definition ipv6_segments :: "u128 \<Rightarrow> nat list" where
  "ipv6_segments a = map (\<lambda>k. unat (drop_bit (16 * k) a) mod 65536) [7, 6, 5, 4, 3, 2, 1, 0]"

definition zero_run :: "nat list \<Rightarrow> nat \<Rightarrow> nat" where
  "zero_run segs i = length (takeWhile (\<lambda>s. s = 0) (drop i segs))"

text \<open>Start and length of the longest run of zero segments, the first one among equals.\<close>

definition longest_zero_run :: "nat list \<Rightarrow> nat \<times> nat" where
  "longest_zero_run segs =
     foldl (\<lambda>(start, len) i. if zero_run segs i > len then (i, zero_run segs i) else (start, len))
       (0, 0) [0..<length segs]"

definition show_ipv6 :: "u128 \<Rightarrow> string" where
  "show_ipv6 a =
     (let segs = ipv6_segments a; (start, len) = longest_zero_run segs in
      if take 6 segs = [0, 0, 0, 0, 0, 65535] then ''::ffff:'' @ show_ipv4 (ucast a)
      else if len > 1
      then join_with '':'' (map show_hex (take start segs)) @ ''::'' @
           join_with '':'' (map show_hex (drop (start + len) segs))
      else join_with '':'' (map show_hex segs))"

definition show_ip :: "ip_addr \<Rightarrow> string" where
  "show_ip a = (case a of V4 w \<Rightarrow> show_ipv4 w | V6 w \<Rightarrow> show_ipv6 w)"

definition ip_prefix_new :: "ip_addr \<Rightarrow> u8 \<Rightarrow> ip_prefix core_result" where
  "ip_prefix_new address prefix_len =
     (let maximum = (case address of V4 _ \<Rightarrow> 32 | V6 _ \<Rightarrow> 128) in
      if prefix_len > maximum
      then Inl (core_error_new InvalidInput
             (''prefix length '' @ show_nat (unat prefix_len) @ '' is invalid for '' @
              show_ip address))
      else Inr (IpPrefix address prefix_len))"

section \<open>Routes\<close>

datatype route_destination =
  Node node_id | Segment segment_id | Prefix ip_prefix | Internet

datatype route_owner = BlueRouteNetwork network_id

datatype route =
  Route (rt_destination: route_destination) (rt_next_hop: node_id) (rt_cost: u32)
    (rt_owner: route_owner)

section \<open>Derived orders\<close>

fun ip_addr_key :: "ip_addr \<Rightarrow> nat \<times> nat" where
  "ip_addr_key (V4 a) = (0, unat a)"
| "ip_addr_key (V6 a) = (1, unat a)"

lemma ip_addr_key_inj [simp]: "ip_addr_key a = ip_addr_key b \<longleftrightarrow> a = b"
  by (cases a; cases b) (auto simp: word_unat_eq_iff)

instantiation ip_addr :: linorder
begin

definition less_eq_ip_addr :: "ip_addr \<Rightarrow> ip_addr \<Rightarrow> bool" where
  "less_eq_ip_addr a b \<longleftrightarrow> ip_addr_key a \<le> ip_addr_key b"

definition less_ip_addr :: "ip_addr \<Rightarrow> ip_addr \<Rightarrow> bool" where
  "less_ip_addr a b \<longleftrightarrow> ip_addr_key a < ip_addr_key b"

instance
  by standard (auto simp only: less_eq_ip_addr_def less_ip_addr_def less_le_not_le
      intro: order_trans linear dest: antisym [THEN ip_addr_key_inj [THEN iffD1]])

end

definition ip_prefix_key :: "ip_prefix \<Rightarrow> ip_addr \<times> u8" where
  "ip_prefix_key p = (pfx_address p, pfx_len p)"

lemma ip_prefix_key_inj [simp]: "ip_prefix_key a = ip_prefix_key b \<longleftrightarrow> a = b"
  by (cases a; cases b) (simp add: ip_prefix_key_def)

instantiation ip_prefix :: linorder
begin

definition less_eq_ip_prefix :: "ip_prefix \<Rightarrow> ip_prefix \<Rightarrow> bool" where
  "less_eq_ip_prefix a b \<longleftrightarrow> ip_prefix_key a \<le> ip_prefix_key b"

definition less_ip_prefix :: "ip_prefix \<Rightarrow> ip_prefix \<Rightarrow> bool" where
  "less_ip_prefix a b \<longleftrightarrow> ip_prefix_key a < ip_prefix_key b"

instance
  by standard (auto simp only: less_eq_ip_prefix_def less_ip_prefix_def less_le_not_le
      intro: order_trans linear dest: antisym [THEN ip_prefix_key_inj [THEN iffD1]])

end

text \<open>Variant index first; the fields of the other variants are filled with a fixed value.\<close>

fun route_destination_key ::
  "route_destination \<Rightarrow> nat \<times> node_id \<times> segment_id \<times> ip_prefix" where
  "route_destination_key (Node n) = (0, n, zero_ident, IpPrefix (V4 0) 0)"
| "route_destination_key (Segment s) = (1, zero_ident, s, IpPrefix (V4 0) 0)"
| "route_destination_key (Prefix p) = (2, zero_ident, zero_ident, p)"
| "route_destination_key Internet = (3, zero_ident, zero_ident, IpPrefix (V4 0) 0)"

lemma route_destination_key_inj [simp]:
  "route_destination_key a = route_destination_key b \<longleftrightarrow> a = b"
  by (cases a; cases b) auto

instantiation route_destination :: linorder
begin

definition less_eq_route_destination :: "route_destination \<Rightarrow> route_destination \<Rightarrow> bool" where
  "less_eq_route_destination a b \<longleftrightarrow> route_destination_key a \<le> route_destination_key b"

definition less_route_destination :: "route_destination \<Rightarrow> route_destination \<Rightarrow> bool" where
  "less_route_destination a b \<longleftrightarrow> route_destination_key a < route_destination_key b"

instance
  by standard (auto simp only: less_eq_route_destination_def less_route_destination_def
      less_le_not_le intro: order_trans linear
      dest: antisym [THEN route_destination_key_inj [THEN iffD1]])

end

fun route_key :: "route \<Rightarrow> route_destination \<times> node_id \<times> u32 \<times> network_id" where
  "route_key (Route d h c (BlueRouteNetwork n)) = (d, h, c, n)"

lemma route_key_inj [simp]: "route_key a = route_key b \<longleftrightarrow> a = b"
proof (cases a; cases b)
  fix d h c w d' h' c' w'
  assume "a = Route d h c w" "b = Route d' h' c' w'"
  then show ?thesis by (cases w; cases w') auto
qed

instantiation route :: linorder
begin

definition less_eq_route :: "route \<Rightarrow> route \<Rightarrow> bool" where
  "less_eq_route a b \<longleftrightarrow> route_key a \<le> route_key b"

definition less_route :: "route \<Rightarrow> route \<Rightarrow> bool" where
  "less_route a b \<longleftrightarrow> route_key a < route_key b"

instance
  by standard (auto simp only: less_eq_route_def less_route_def less_le_not_le
      intro: order_trans linear dest: antisym [THEN route_key_inj [THEN iffD1]])

end

lemmas derived_orders =
  less_eq_ip_addr_def less_ip_addr_def less_eq_ip_prefix_def less_ip_prefix_def
  ip_prefix_key_def less_eq_route_destination_def less_route_destination_def
  less_eq_route_def less_route_def

lemma ip_prefix_new_Inr:
  "ip_prefix_new a n = Inr p \<longleftrightarrow>
     p = IpPrefix a n \<and> n \<le> (case a of V4 _ \<Rightarrow> 32 | V6 _ \<Rightarrow> 128)"
  by (auto simp: ip_prefix_new_def Let_def linorder_not_less [symmetric] split: if_splits)

lemma ip_prefix_new_Inl_kind: "ip_prefix_new a n = Inl e \<Longrightarrow> err_kind e = InvalidInput"
  by (auto simp: ip_prefix_new_def Let_def split: if_splits)

end
