(* ===== verification/Config.thy ===== *)
theory Config
  imports Ip_Route
begin

text \<open>
  \<open>crates/blueroute-core/src/config.rs\<close>: the IPv4 pool and its validation, and the durable
  daemon configuration. Prefix lengths are \<open>u8\<close>; a shift amount computed from them is a
  \<open>nat\<close>, and the subtraction under it never underflows because a guard precedes it.
\<close>

section \<open>The IPv4 address pool\<close>

record ipv4_address_pool =
  pool_network :: u32
  pool_prefix_len :: u8
  pool_segment_prefix_len :: u8

text \<open>The local \<open>host_mask\<close> of \<open>validate\<close>, which is also \<open>host_mask\<close> of \<open>addressing.rs\<close>.\<close>

definition host_mask :: "nat \<Rightarrow> u32" where
  "host_mask host_bits =
     (if host_bits = 32 then - 1
      else if host_bits = 0 then 0
      else push_bit host_bits 1 - 1)"

definition PRIVATE_RANGES :: "(u32 \<times> u8) list" where
  "PRIVATE_RANGES = [(0x0a000000, 8), (0xac100000, 12), (0xc0a80000, 16)]"

definition pool_is_rfc1918 :: "u32 \<Rightarrow> u8 \<Rightarrow> bool" where
  "pool_is_rfc1918 network prefix_len =
     list_ex (\<lambda>(private_network, private_prefix).
       if prefix_len < private_prefix then False
       else network AND push_bit (32 - unat private_prefix) (- 1) = private_network)
     PRIVATE_RANGES"

definition pool_validate :: "ipv4_address_pool \<Rightarrow> unit core_result" where
  "pool_validate pool =
     (if pool_prefix_len pool > 32
      then Inl (core_error_new InvalidInput ''IPv4 pool prefix length cannot exceed 32'')
      else if pool_segment_prefix_len pool > 30
      then Inl (core_error_new InvalidInput
             ''PAN segment prefix must leave room for host addresses'')
      else if pool_segment_prefix_len pool < pool_prefix_len pool
      then Inl (core_error_new InvalidInput
             ''PAN segment prefix cannot be broader than the BlueRoute address pool'')
      else let host_bits = 32 - unat (pool_prefix_len pool) in
        if pool_network pool AND host_mask host_bits \<noteq> 0
        then Inl (core_error_new InvalidInput ''IPv4 pool address must be aligned to its prefix'')
        else if \<not> pool_is_rfc1918 (pool_network pool) (pool_prefix_len pool)
        then Inl (core_error_new InvalidInput
          ''BlueRoute IPv4 address pool must be fully contained in RFC1918 private space'')
        else Inr ())"

definition pool_new :: "u32 \<Rightarrow> u8 \<Rightarrow> u8 \<Rightarrow> ipv4_address_pool core_result" where
  "pool_new network prefix_len segment_prefix_len =
     (let pool = \<lparr>pool_network = network, pool_prefix_len = prefix_len,
                  pool_segment_prefix_len = segment_prefix_len\<rparr>
      in bindR (pool_validate pool) (\<lambda>_. Inr pool))"

definition default_pool :: ipv4_address_pool where
  "default_pool =
     \<lparr>pool_network = 0x0ac90000, pool_prefix_len = 16, pool_segment_prefix_len = 24\<rparr>"

section \<open>The daemon configuration\<close>

datatype config_version = ConfigVersion (config_version_get: u32)

definition CURRENT_CONFIG_VERSION :: config_version where
  "CURRENT_CONFIG_VERSION = ConfigVersion 1"

datatype backend_preference =
  Auto | NetworkManager | SystemdNetworkd | DirectNetlink | Other ustring

record topology_policy =
  tp_automatic_role_selection :: bool
  tp_max_active_links :: "u16 option"
  tp_prefer_ac_powered_hubs :: bool

definition default_topology_policy :: topology_policy where
  "default_topology_policy =
     \<lparr>tp_automatic_role_selection = True, tp_max_active_links = None,
      tp_prefer_ac_powered_hubs = True\<rparr>"

record gateway_policy =
  gp_sharing_enabled :: bool

record daemon_config =
  dc_version :: config_version
  dc_display_name :: display_name
  dc_ipv4_address_pool :: ipv4_address_pool
  dc_topology :: topology_policy
  dc_backend :: backend_preference
  dc_gateway :: gateway_policy

definition config_validate :: "daemon_config \<Rightarrow> unit core_result" where
  "config_validate c =
     (if dc_version c \<noteq> CURRENT_CONFIG_VERSION
      then Inl (core_error_new InvalidInput
             (''unsupported configuration version '' @
              show_nat (unat (config_version_get (dc_version c))) @ ''; expected '' @
              show_nat (unat (config_version_get CURRENT_CONFIG_VERSION))))
      else bindR (pool_validate (dc_ipv4_address_pool c)) (\<lambda>_.
        if tp_max_active_links (dc_topology c) = Some 0
        then Inl (core_error_new InvalidInput
               ''maximum active links must be greater than zero when configured'')
        else if (case dc_backend c of Other name \<Rightarrow> trim name = [] | _ \<Rightarrow> False)
        then Inl (core_error_new InvalidInput ''custom network backend name cannot be empty'')
        else if gp_sharing_enabled (dc_gateway c)
        then Inl (core_error_new CapabilityUnavailable
          ''Internet sharing is reserved but not implemented in configuration version 1'')
        else Inr ()))"

definition default_config :: "daemon_config" where
  "default_config =
     \<lparr>dc_version = CURRENT_CONFIG_VERSION,
      dc_display_name = DisplayName (map of_char ''BlueRoute Device''),
      dc_ipv4_address_pool = default_pool, dc_topology = default_topology_policy,
      dc_backend = Auto, dc_gateway = \<lparr>gp_sharing_enabled = False\<rparr>\<rparr>"

section \<open>Lemmas on masks and valid pools\<close>

lemma host_mask_eq_mask: "n \<le> 32 \<Longrightarrow> host_mask n = mask n"
  by (auto simp: host_mask_def mask_eq_exp_minus_1 push_bit_eq_mult)

lemma high_mask_eq: "push_bit n (- 1 :: 'a::len word) = NOT (mask n)"
  by (rule bit_word_eqI) (auto simp: bit_push_bit_iff bit_not_iff bit_mask_iff)

lemma and_high_mask: "a AND push_bit n (- 1) = push_bit n (drop_bit n (a :: 'a::len word))"
  by (rule bit_word_eqI) (auto simp: bit_push_bit_iff bit_and_iff bit_drop_bit_eq bit_not_iff bit_mask_iff)

lemma and_mask_zero_iff_drop: "a AND mask n = 0 \<longleftrightarrow> push_bit n (drop_bit n a) = (a :: 'a::len word)"
proof -
  have "a AND mask n = take_bit n a" by (simp add: take_bit_eq_mask)
  moreover have "push_bit n (drop_bit n a) OR take_bit n a = a" by (rule push_drop_or_take)
  moreover have "take_bit n (push_bit n (drop_bit n a)) = 0" by (simp add: take_bit_push_bit)
  ultimately show ?thesis by (metis or.right_neutral)
qed

text \<open>A validated pool: alignment and the prefix-length bounds the address arithmetic needs.\<close>

definition pool_ok :: "ipv4_address_pool \<Rightarrow> bool" where
  "pool_ok pool \<longleftrightarrow> pool_validate pool = Inr ()"

lemma pool_ok_bounds:
  assumes "pool_ok pool"
  shows "unat (pool_segment_prefix_len pool) \<le> 30"
    and "unat (pool_prefix_len pool) \<le> unat (pool_segment_prefix_len pool)"
    and "8 \<le> unat (pool_prefix_len pool)"
    and "pool_network pool AND mask (32 - unat (pool_prefix_len pool)) = 0"
proof -
  show "unat (pool_segment_prefix_len pool) \<le> 30"
    and "unat (pool_prefix_len pool) \<le> unat (pool_segment_prefix_len pool)"
    using assms
    by (auto simp: pool_ok_def pool_validate_def Let_def word_less_nat_alt split: if_splits)
  show "8 \<le> unat (pool_prefix_len pool)"
    using assms
    by (auto simp: pool_ok_def pool_validate_def Let_def word_less_nat_alt pool_is_rfc1918_def
        PRIVATE_RANGES_def split: if_splits)
  show "pool_network pool AND mask (32 - unat (pool_prefix_len pool)) = 0"
    using assms
    by (auto simp: pool_ok_def pool_validate_def Let_def host_mask_eq_mask split: if_splits)
qed

lemma default_pool_ok: "pool_ok default_pool"
  by (simp add: pool_ok_def pool_validate_def default_pool_def Let_def pool_is_rfc1918_def
      PRIVATE_RANGES_def host_mask_def mask_eq_exp_minus_1)

end
