(* ===== verification/Addressing.thy ===== *)
theory Addressing
  imports Config
begin

text \<open>
  \<open>crates/blueroute-core/src/addressing.rs\<close>: the deterministic single-star address plan and the
  collision test between IPv4 prefixes. The specification of a prefix is the block of
  addresses that agree with it on its first \<open>prefix_len\<close> bits.
\<close>

section \<open>Operations\<close>

record ipv4_star_address_plan =
  sap_segment :: ip_prefix
  sap_host :: ip_prefix
  sap_first_client :: ip_prefix

definition u32_from_be_bytes :: "u8 list \<Rightarrow> u32" where
  "u32_from_be_bytes bs = foldl (\<lambda>acc b. push_bit 8 acc OR ucast b) 0 bs"

definition star_for_network ::
  "network_id \<Rightarrow> ipv4_address_pool \<Rightarrow> ipv4_star_address_plan core_result" where
  "star_for_network network pool =
     bindR (pool_validate pool) (\<lambda>_.
     let segment_bits = pool_segment_prefix_len pool - pool_prefix_len pool;
         segment_count = push_bit (unat segment_bits) (1 :: u32);
         selector = u32_from_be_bytes (take 4 (as_bytes network)) mod segment_count;
         segment_host_bits = 32 - unat (pool_segment_prefix_len pool);
         segment_offset = push_bit segment_host_bits selector
     in bindR (ok_or (core_error_new InvalidInput ''IPv4 pool overflow'')
          (checked_add (pool_network pool) segment_offset)) (\<lambda>segment_network.
        bindR (ok_or (core_error_new InvalidInput ''IPv4 host address overflow'')
          (checked_add segment_network 1)) (\<lambda>host.
        bindR (ok_or (core_error_new InvalidInput ''IPv4 client address overflow'')
          (checked_add segment_network 2)) (\<lambda>first_client.
        bindR (ip_prefix_new (V4 segment_network) (pool_segment_prefix_len pool)) (\<lambda>segment.
        bindR (ip_prefix_new (V4 host) (pool_segment_prefix_len pool)) (\<lambda>host_prefix.
        bindR (ip_prefix_new (V4 first_client) (pool_segment_prefix_len pool)) (\<lambda>client_prefix.
          Inr \<lparr>sap_segment = segment, sap_host = host_prefix,
               sap_first_client = client_prefix\<rparr>)))))))"

definition ipv4_mask :: "u8 \<Rightarrow> u32 core_result" where
  "ipv4_mask prefix_len =
     (if prefix_len > 32
      then Inl (core_error_new InvalidInput ''IPv4 prefix length cannot exceed 32'')
      else Inr (if prefix_len = 0 then 0 else push_bit (32 - unat prefix_len) (- 1)))"

definition normalized_ipv4_prefix :: "ip_prefix \<Rightarrow> ip_prefix core_result" where
  "normalized_ipv4_prefix prefix =
     (case pfx_address prefix of
        V6 _ \<Rightarrow> Inl (core_error_new InvalidInput ''expected an IPv4 prefix'')
      | V4 address \<Rightarrow>
          bindR (ipv4_mask (pfx_len prefix)) (\<lambda>mask.
            ip_prefix_new (V4 (address AND mask)) (pfx_len prefix)))"

definition ipv4_prefixes_overlap :: "ip_prefix \<Rightarrow> ip_prefix \<Rightarrow> bool" where
  "ipv4_prefixes_overlap left right =
     (case pfx_address left of V6 _ \<Rightarrow> False
      | V4 left_start \<Rightarrow>
        (case pfx_address right of V6 _ \<Rightarrow> False
         | V4 right_start \<Rightarrow>
           let left_end = left_start OR host_mask (32 - unat (pfx_len left));
               right_end = right_start OR host_mask (32 - unat (pfx_len right))
           in left_start \<le> right_end \<and> right_start \<le> left_end))"

fun ensure_available_loop :: "ip_prefix \<Rightarrow> ip_prefix list \<Rightarrow> unit core_result" where
  "ensure_available_loop candidate [] = Inr ()"
| "ensure_available_loop candidate (p # active) =
     (if \<not> is_ipv4 (pfx_address p) \<or> pfx_len p = 0
      then ensure_available_loop candidate active
      else bindR (normalized_ipv4_prefix p) (\<lambda>prefix.
        if ipv4_prefixes_overlap candidate prefix
        then Inl (with_diagnostic AddressConflict
          ''BlueRoute IPv4 segment overlaps an active local network''
          (''candidate='' @ show_ip (pfx_address candidate) @ ''/'' @
           show_nat (unat (pfx_len candidate)) @ '' conflicting='' @
           show_ip (pfx_address prefix) @ ''/'' @ show_nat (unat (pfx_len prefix))))
        else ensure_available_loop candidate active))"

definition ensure_ipv4_segment_available :: "ip_prefix \<Rightarrow> ip_prefix list \<Rightarrow> unit core_result" where
  "ensure_ipv4_segment_available candidate active =
     bindR (normalized_ipv4_prefix candidate) (\<lambda>candidate.
       ensure_available_loop candidate active)"

section \<open>Address blocks\<close>

text \<open>The addresses that share their first \<open>32 - h\<close> bits with \<open>a\<close>.\<close>

definition address_block :: "nat \<Rightarrow> u32 \<Rightarrow> u32 set" where
  "address_block h a = {x. drop_bit h x = drop_bit h a}"

definition prefix_block :: "ip_prefix \<Rightarrow> u32 set" where
  "prefix_block p =
     (case pfx_address p of V4 a \<Rightarrow> address_block (32 - unat (pfx_len p)) a | V6 _ \<Rightarrow> {})"

lemma unat_drop_bit_div: "unat (drop_bit h (a :: 'a::len word)) = unat a div 2 ^ h"
proof -
  have "unat (drop_bit h a) = drop_bit h (take_bit LENGTH('a) (unat a))"
    by (rule unsigned_drop_bit_eq)
  also have "take_bit LENGTH('a) (unat a) = unat a"
    by (rule take_bit_nat_eq_self) (rule unat_less_pow)
  finally show ?thesis by (simp only: drop_bit_eq_div)
qed

lemma address_block_nat: "x \<in> address_block h a \<longleftrightarrow> unat x div 2 ^ h = unat a div 2 ^ h"
  by (simp add: address_block_def word_unat_eq_iff unat_drop_bit_div)

lemma and_mask_zero_dvd: "a AND mask h = 0 \<longleftrightarrow> 2 ^ h dvd unat (a :: 'a::len word)"
proof -
  have "a AND mask h = 0 \<longleftrightarrow> unat (take_bit h a) = 0"
    by (simp add: take_bit_eq_mask word_unat_eq_iff)
  also have "unat (take_bit h a) = unat a mod 2 ^ h"
    by (simp only: unsigned_take_bit_eq) (simp only: take_bit_eq_mod)
  finally show ?thesis by (simp add: mod_eq_0_iff_dvd)
qed

lemma unat_mask: "h \<le> LENGTH('a) \<Longrightarrow> unat (mask h :: 'a::len word) = 2 ^ h - 1"
proof -
  assume "h \<le> LENGTH('a)"
  then have "(2 :: nat) ^ h \<le> 2 ^ LENGTH('a)" by (rule power_increasing) simp
  moreover have "0 < (2 :: nat) ^ h" by simp
  ultimately have "(2 :: nat) ^ h - 1 < 2 ^ LENGTH('a)" by linarith
  moreover have "(mask h :: 'a word) = of_nat (2 ^ h - 1)"
    by (simp add: mask_eq_exp_minus_1 of_nat_diff)
  ultimately show ?thesis by (simp only: unsigned_of_nat take_bit_nat_eq_self of_nat_id)
qed

lemma aligned_room:
  assumes "2 ^ h dvd unat (a :: u32)" and "h \<le> 32"
  shows "unat a + 2 ^ h \<le> 2 ^ 32"
proof -
  obtain k where k: "unat a = 2 ^ h * k" using assms(1) by blast
  obtain m where m: "(2 :: nat) ^ 32 = 2 ^ h * m"
    using assms(2) by (metis le_imp_power_dvd dvdE)
  have "2 ^ h * k < 2 ^ h * m" using unat_less_pow [of a] by (simp add: k m [symmetric])
  then have "k < m" by simp
  then have "2 ^ h * Suc k \<le> 2 ^ h * m" by (intro mult_le_mono) simp_all
  then show ?thesis unfolding k m by simp
qed

lemma unat_or_mask:
  assumes "(a :: u32) AND mask h = 0" and "h \<le> 32"
  shows "unat (a OR mask h) = unat a + (2 ^ h - 1)"
proof -
  have "unat a + 2 ^ h \<le> 2 ^ 32"
    using assms by (intro aligned_room) (simp_all only: and_mask_zero_dvd)
  moreover have "a OR mask h = a + mask h"
    using assms(1) by (simp add: disjunctive_add_eq_or)
  ultimately show ?thesis
    using assms(2) by (simp add: unat_add_no_overflow unat_mask)
qed

lemma div_eq_iff_between:
  "(n :: nat) div 2 ^ h = k \<longleftrightarrow> 2 ^ h * k \<le> n \<and> n < 2 ^ h * Suc k"
proof
  assume "n div 2 ^ h = k"
  then show "2 ^ h * k \<le> n \<and> n < 2 ^ h * Suc k"
    using dividend_less_times_div [of "2 ^ h" n] times_div_less_eq_dividend [of "2 ^ h" n] by simp
next
  assume "2 ^ h * k \<le> n \<and> n < 2 ^ h * Suc k"
  then show "n div 2 ^ h = k" by (intro div_nat_eqI) simp_all
qed

lemma aligned_block_nat:
  assumes "2 ^ h dvd unat a"
  shows "x \<in> address_block h a \<longleftrightarrow> unat a \<le> unat x \<and> unat x < unat a + 2 ^ h"
proof -
  obtain k where k: "unat a = 2 ^ h * k" using assms by blast
  have d: "unat a div 2 ^ h = k" by (simp add: k)
  show ?thesis
    by (simp only: address_block_nat d div_eq_iff_between mult_Suc_right) (auto simp: k)
qed

lemma aligned_interval_block:
  assumes "(a :: u32) AND mask h = 0" and "h \<le> 32"
  shows "{x. a \<le> x \<and> x \<le> a OR mask h} = address_block h a"
proof -
  have "unat x < unat a + 2 ^ h \<longleftrightarrow> unat x \<le> unat a + (2 ^ h - 1)" for x :: u32
    using zero_less_power [of "2 :: nat" h] by linarith
  then show ?thesis
    using aligned_block_nat [of h a] assms
    by (simp add: set_eq_iff word_le_nat_alt unat_or_mask and_mask_zero_dvd)
qed

text \<open>Two aligned intervals meet exactly when their blocks meet, so the interval test of
  \<open>ipv4_prefixes_overlap\<close> decides whether two normalized prefixes share an address.\<close>

lemma aligned_intervals_meet:
  assumes "(a :: u32) AND mask h = 0" "h \<le> 32" "b AND mask g = 0" "g \<le> 32"
  shows "a \<le> b OR mask g \<and> b \<le> a OR mask h \<longleftrightarrow> address_block h a \<inter> address_block g b \<noteq> {}"
proof
  have le: "a \<le> a OR mask h" "b \<le> b OR mask g"
    by (simp_all only: word_le_nat_alt unat_or_mask assms le_add1)
  assume meet: "a \<le> b OR mask g \<and> b \<le> a OR mask h"
  have "max a b \<in> address_block h a \<inter> address_block g b"
    using meet le linear [of a b] by (auto simp: assms aligned_interval_block [symmetric] max_def)
  then show "address_block h a \<inter> address_block g b \<noteq> {}" by blast
next
  assume "address_block h a \<inter> address_block g b \<noteq> {}"
  then show "a \<le> b OR mask g \<and> b \<le> a OR mask h"
    by (auto simp: assms aligned_interval_block [symmetric] intro: order_trans)
qed

section \<open>Normalization and the collision test\<close>

lemma ipv4_mask_Inr: "ipv4_mask l = Inr m \<longleftrightarrow> unat l \<le> 32 \<and> m = push_bit (32 - unat l) (- 1)"
  by (auto simp: ipv4_mask_def word_less_nat_alt mask_eq_exp_minus_1)

lemma normalized_V4:
  assumes "unat (pfx_len p) \<le> 32" and "pfx_address p = V4 a"
  shows "normalized_ipv4_prefix p =
    Inr (IpPrefix (V4 (push_bit (32 - unat (pfx_len p)) (drop_bit (32 - unat (pfx_len p)) a)))
      (pfx_len p))"
proof -
  have "ipv4_mask (pfx_len p) = Inr (push_bit (32 - unat (pfx_len p)) (- 1))"
    using assms(1) by (simp only: ipv4_mask_Inr simp_thms)
  then show ?thesis
    using assms by (simp only: normalized_ipv4_prefix_def ip_addr.case bindR_simps and_high_mask)
      (simp add: ip_prefix_new_Inr word_le_nat_alt)
qed

lemma address_block_normalize: "address_block h (push_bit h (drop_bit h a)) = address_block h a"
proof -
  have "drop_bit h (push_bit h (drop_bit h a)) = drop_bit h a"
    by (rule bit_word_eqI) (auto simp: bit_drop_bit_eq bit_push_bit_iff dest: bit_imp_le_length)
  then show ?thesis by (simp add: address_block_def)
qed

lemma normalized_aligned: "push_bit h (drop_bit h (a :: 'a::len word)) AND mask h = 0"
  by (rule bit_word_eqI) (auto simp: bit_and_iff bit_push_bit_iff bit_mask_iff)

lemma normalized_ipv4_prefix_Inr:
  "normalized_ipv4_prefix p = Inr q \<longleftrightarrow>
     (\<exists>a. pfx_address p = V4 a \<and> unat (pfx_len p) \<le> 32 \<and>
        q = IpPrefix (V4 (push_bit (32 - unat (pfx_len p))
              (drop_bit (32 - unat (pfx_len p)) a))) (pfx_len p))"
proof (cases "pfx_address p")
  case (V4 a)
  show ?thesis
  proof (cases "unat (pfx_len p) \<le> 32")
    case False
    then show ?thesis
      using V4 by (simp add: normalized_ipv4_prefix_def ipv4_mask_def word_less_nat_alt)
  qed (use V4 normalized_V4 in auto)
qed (simp add: normalized_ipv4_prefix_def)

lemma overlap_normalized:
  assumes "normalized_ipv4_prefix p = Inr p'" and "normalized_ipv4_prefix q = Inr q'"
  shows "ipv4_prefixes_overlap p' q' \<longleftrightarrow> prefix_block p \<inter> prefix_block q \<noteq> {}"
proof -
  define h g where "h = 32 - unat (pfx_len p)" and "g = 32 - unat (pfx_len q)"
  obtain a b where p: "pfx_address p = V4 a" "p' = IpPrefix (V4 (push_bit h (drop_bit h a))) (pfx_len p)"
    and q: "pfx_address q = V4 b" "q' = IpPrefix (V4 (push_bit g (drop_bit g b))) (pfx_len q)"
    using assms unfolding normalized_ipv4_prefix_Inr h_def g_def by blast
  have le: "h \<le> 32" "g \<le> 32" by (simp_all add: h_def g_def)
  show ?thesis
    using aligned_intervals_meet [OF normalized_aligned le(1) normalized_aligned le(2), of a b]
    by (simp only: ipv4_prefixes_overlap_def prefix_block_def p q ip_prefix.sel ip_addr.case
        Let_def h_def [symmetric] g_def [symmetric] host_mask_eq_mask le address_block_normalize)
qed

lemma ensure_available_loop_Inr:
  assumes "normalized_ipv4_prefix c = Inr c'"
    and "\<And>p. p \<in> set active \<Longrightarrow> is_ipv4 (pfx_address p) \<Longrightarrow> unat (pfx_len p) \<le> 32"
  shows "ensure_available_loop c' active = Inr () \<longleftrightarrow>
    (\<forall>p \<in> set active. pfx_len p \<noteq> 0 \<longrightarrow> prefix_block c \<inter> prefix_block p = {})"
  using assms(2)
proof (induction active)
  case (Cons p active)
  show ?case
  proof (cases "pfx_address p")
    case (V4 a)
    then have "normalized_ipv4_prefix p = Inr (IpPrefix (V4 (push_bit (32 - unat (pfx_len p))
        (drop_bit (32 - unat (pfx_len p)) a))) (pfx_len p))" (is "_ = Inr ?p'")
      using Cons.prems [of p] by (intro normalized_V4) (simp_all add: is_ipv4_def)
    then show ?thesis
      using Cons overlap_normalized [OF assms(1), of p ?p'] by (simp add: is_ipv4_def V4)
  next
    case (V6 x)
    then show ?thesis using Cons by (simp add: is_ipv4_def prefix_block_def)
  qed
qed simp

text \<open>What a caller may rely on when it asks whether a prefix is available: an accepted prefix
  shares nothing with any relevant active prefix, and a well-formed one that shares nothing is
  accepted when the active prefixes are tolerated. The reservation lemmas below need no more than this.\<close>

locale availability_check =
  fixes available :: "'p \<Rightarrow> 'p list \<Rightarrow> 'e + unit"
    and block :: "'p \<Rightarrow> 'x set"
    and relevant :: "'p \<Rightarrow> bool"
    and well_formed :: "'p \<Rightarrow> bool"
    and tolerated :: "'p \<Rightarrow> bool"
  assumes available_sound:
      "available c ps = Inr () \<Longrightarrow> p \<in> set ps \<Longrightarrow> relevant p \<Longrightarrow> block c \<inter> block p = {}"
    and available_complete:
      "well_formed c \<Longrightarrow> \<forall>p \<in> set ps. tolerated p \<and> (relevant p \<longrightarrow> block c \<inter> block p = {}) \<Longrightarrow>
       available c ps = Inr ()"
begin

definition reservations_disjoint :: "('k, 'p) fmap \<Rightarrow> bool" where
  "reservations_disjoint m \<longleftrightarrow> (\<forall>k l p q. fmlookup m k = Some p \<longrightarrow> fmlookup m l = Some q \<longrightarrow> k \<noteq> l \<longrightarrow>
     block p \<inter> block q = {})"

lemma reservations_disjoint_reserve:
  assumes "reservations_disjoint m" and "\<And>k p. fmlookup m k = Some p \<Longrightarrow> relevant p"
    and "available c (fm_values m) = Inr ()"
  shows "reservations_disjoint (fmupd k c m)"
proof -
  have "block c \<inter> block p = {}" if "fmlookup m l = Some p" for l p
    using available_sound [OF assms(3), of p] assms(2) [OF that] that by (auto simp: set_fm_values)
  then show ?thesis
    using assms(1) unfolding reservations_disjoint_def by (auto simp: Int_commute)
qed

lemma reservations_disjoint_release:
  "reservations_disjoint m \<Longrightarrow> reservations_disjoint (fmdrop k m)"
  by (auto simp: reservations_disjoint_def)

end

text \<open>The IPv4 collision test provides this contract: the relevant prefixes are the IPv4 ones that are
  not a default route, a well-formed one has a prefix length of at most 32, and an active prefix is
  tolerated when it is well-formed or not IPv4.\<close>

definition collision_relevant :: "ip_prefix \<Rightarrow> bool" where
  "collision_relevant p \<longleftrightarrow> is_ipv4 (pfx_address p) \<and> pfx_len p \<noteq> 0"

definition wf_ipv4_prefix :: "ip_prefix \<Rightarrow> bool" where
  "wf_ipv4_prefix p \<longleftrightarrow> is_ipv4 (pfx_address p) \<and> unat (pfx_len p) \<le> 32"

definition tolerated_prefix :: "ip_prefix \<Rightarrow> bool" where
  "tolerated_prefix p \<longleftrightarrow> (is_ipv4 (pfx_address p) \<longrightarrow> unat (pfx_len p) \<le> 32)"

lemma ensure_available_loop_sound:
  assumes "normalized_ipv4_prefix c = Inr c'" and "ensure_available_loop c' active = Inr ()"
    and "p \<in> set active" and "collision_relevant p"
  shows "prefix_block c \<inter> prefix_block p = {}"
  using assms(2,3)
proof (induction active)
  case (Cons q active)
  show ?case
  proof (cases "p = q")
    case True
    then obtain q' where "normalized_ipv4_prefix q = Inr q'" "\<not> ipv4_prefixes_overlap c' q'"
      using Cons.prems(1) assms(4)
      by (auto simp: collision_relevant_def bindR_eq_Inr split: if_splits)
    then show ?thesis using True overlap_normalized [OF assms(1)] by blast
  next
    case False
    then show ?thesis
      using Cons by (auto simp: bindR_eq_Inr split: if_splits)
  qed
qed simp

interpretation ipv4_availability:
  availability_check ensure_ipv4_segment_available prefix_block collision_relevant wf_ipv4_prefix
    tolerated_prefix
proof (unfold_locales, goal_cases)
  case (1 c ps p)
  then show ?case
    unfolding ensure_ipv4_segment_available_def bindR_eq_Inr by (metis ensure_available_loop_sound)
next
  case (2 c ps)
  then obtain a where "pfx_address c = V4 a" "unat (pfx_len c) \<le> 32"
    by (auto simp: wf_ipv4_prefix_def is_ipv4_def split: ip_addr.splits)
  then obtain c' where c': "normalized_ipv4_prefix c = Inr c'" using normalized_V4 by blast
  have "ensure_available_loop c' ps = Inr ()"
    using 2 by (subst ensure_available_loop_Inr [OF c'])
      (auto simp: tolerated_prefix_def collision_relevant_def prefix_block_def is_ipv4_def
        split: ip_addr.splits)
  then show ?case by (simp add: ensure_ipv4_segment_available_def c')
qed

text \<open>\<open>ensure_ipv4_segment_available\<close> accepts an IPv4 candidate exactly when no active prefix
  other than a default route shares an address with it, whatever host bits the prefixes carry;
  IPv6 prefixes and default routes never matter.\<close>

theorem ensure_ipv4_segment_available_iff_disjoint:
  assumes "is_ipv4 (pfx_address candidate)" and "pfx_len candidate \<le> 32"
    and "\<forall>p \<in> set active. is_ipv4 (pfx_address p) \<longrightarrow> pfx_len p \<le> 32"
  shows "ensure_ipv4_segment_available candidate active = Inr () \<longleftrightarrow>
    (\<forall>p \<in> set active. pfx_len p \<noteq> 0 \<longrightarrow> prefix_block candidate \<inter> prefix_block p = {})"
proof -
  obtain a where "pfx_address candidate = V4 a"
    using assms(1) by (auto simp: is_ipv4_def split: ip_addr.splits)
  then obtain c' where c': "normalized_ipv4_prefix candidate = Inr c'"
    using assms(2) normalized_V4 [of candidate a] by (auto simp: word_le_nat_alt)
  have "\<And>p. p \<in> set active \<Longrightarrow> is_ipv4 (pfx_address p) \<Longrightarrow> unat (pfx_len p) \<le> 32"
    using assms(3) by (simp add: word_le_nat_alt)
  then show ?thesis
    using ensure_available_loop_Inr [OF c'] by (simp add: ensure_ipv4_segment_available_def c')
qed

theorem ensure_ipv4_segment_available_witness:
  "ensure_ipv4_segment_available (IpPrefix (V4 0x0ac90100) 24)
     [IpPrefix (V4 0xc0a80105) 24, IpPrefix (V4 0) 0, IpPrefix (V6 1) 64] = Inr () \<and>
   prefix_block (IpPrefix (V4 0x0ac90100) 24) \<inter> prefix_block (IpPrefix (V4 0xc0a80105) 24) = {}"
proof -
  have "ensure_ipv4_segment_available (IpPrefix (V4 0x0ac90100) 24)
     [IpPrefix (V4 0xc0a80105) 24, IpPrefix (V4 0) 0, IpPrefix (V6 1) 64] = Inr ()"
    by code_simp
  then show ?thesis
    using ensure_ipv4_segment_available_iff_disjoint [of "IpPrefix (V4 0x0ac90100) 24"
        "[IpPrefix (V4 0xc0a80105) 24, IpPrefix (V4 0) 0, IpPrefix (V6 1) 64]"]
    by (simp add: is_ipv4_def)
qed

section \<open>Slots of a pool\<close>

lemma unat_push_bit:
  assumes "unat (a :: 'a::len word) * 2 ^ n < 2 ^ LENGTH('a)"
  shows "unat (push_bit n a) = unat a * 2 ^ n"
proof -
  have "unat (push_bit n a) = take_bit LENGTH('a) (push_bit n (unat a))"
    by (rule unsigned_push_bit_eq)
  also have "\<dots> = unat a * 2 ^ n"
    using assms by (simp only: push_bit_eq_mult take_bit_nat_eq_self)
  finally show ?thesis .
qed

lemma unat_push_bit_1: "n < LENGTH('a) \<Longrightarrow> unat (push_bit n (1 :: 'a::len word)) = 2 ^ n"
  by (subst unat_push_bit) (simp_all add: power_strict_increasing)

lemma unat_segment_bits:
  assumes "pool_ok pool"
  shows "unat (pool_segment_prefix_len pool - pool_prefix_len pool) =
    unat (pool_segment_prefix_len pool) - unat (pool_prefix_len pool)"
  by (rule unat_sub_le) (simp only: word_le_nat_alt pool_ok_bounds [OF assms])

lemma unat_segment_count:
  assumes "pool_ok pool"
  shows "unat (push_bit (unat (pool_segment_prefix_len pool - pool_prefix_len pool)) (1 :: u32)) =
    2 ^ (unat (pool_segment_prefix_len pool) - unat (pool_prefix_len pool))"
  unfolding unat_segment_bits [OF assms]
  by (rule unat_push_bit_1) (use pool_ok_bounds [OF assms] in simp)

text \<open>Slot \<open>i\<close> of a valid pool starts at \<open>network + i * 2^H\<close> with \<open>H\<close> the host bits of a segment.
  The addition of the code never overflows and the slot lies inside the pool.\<close>

lemma pool_slot:
  fixes slot :: u32
  assumes ok: "pool_ok pool"
    and slot: "unat slot < 2 ^ (unat (pool_segment_prefix_len pool) - unat (pool_prefix_len pool))"
  defines "H \<equiv> 32 - unat (pool_segment_prefix_len pool)"
    and "P \<equiv> 32 - unat (pool_prefix_len pool)"
  obtains n where "checked_add (pool_network pool) (push_bit H slot) = Some n"
    and "unat n = unat (pool_network pool) + unat slot * 2 ^ H"
    and "2 ^ H dvd unat n"
    and "unat n + 2 ^ H \<le> unat (pool_network pool) + 2 ^ P"
    and "unat (pool_network pool) + 2 ^ P \<le> 2 ^ 32"
proof -
  note b = pool_ok_bounds [OF ok]
  have P: "P = H + (unat (pool_segment_prefix_len pool) - unat (pool_prefix_len pool))"
    using b by (simp add: P_def H_def)
  have dvd: "2 ^ P dvd unat (pool_network pool)"
    using b(4) by (simp only: and_mask_zero_dvd P_def)
  have room: "unat (pool_network pool) + 2 ^ P \<le> 2 ^ 32"
    using dvd by (rule aligned_room) (simp add: P_def)
  have "Suc (unat slot) * 2 ^ H \<le> 2 ^ P"
    unfolding P power_add mult.commute [of "2 ^ H"] by (rule mult_le_mono1) (use slot in simp)
  then have off: "unat slot * 2 ^ H + 2 ^ H \<le> 2 ^ P" by simp
  have pos: "0 < (2 :: nat) ^ H" by simp
  have "unat slot * 2 ^ H < 2 ^ 32" using off room pos by linarith
  then have pb: "unat (push_bit H slot) = unat slot * 2 ^ H" by (intro unat_push_bit) simp
  have "unat (pool_network pool) + unat (push_bit H slot) < 2 ^ 32"
    using off room pos unfolding pb by linarith
  then have fits: "unat (pool_network pool) + unat (push_bit H slot) < 2 ^ LENGTH(32)" by simp
  show thesis
  proof (rule that)
    show "checked_add (pool_network pool) (push_bit H slot) = Some (pool_network pool + push_bit H slot)"
      using fits by (simp only: checked_add_def if_True)
    show eq: "unat (pool_network pool + push_bit H slot) = unat (pool_network pool) + unat slot * 2 ^ H"
      using fits by (simp only: unat_add_no_overflow pb)
    have "(2 :: nat) ^ H dvd 2 ^ P" by (rule le_imp_power_dvd) (simp add: P)
    then show "2 ^ H dvd unat (pool_network pool + push_bit H slot)"
      unfolding eq using dvd by (meson dvd_add dvd_trans dvd_triv_right)
    show "unat (pool_network pool + push_bit H slot) + 2 ^ H \<le> unat (pool_network pool) + 2 ^ P"
      unfolding eq using off by simp
    show "unat (pool_network pool) + 2 ^ P \<le> 2 ^ 32" by (rule room)
  qed
qed

text \<open>The facts of one slot that both the star plan and the allocator use.\<close>

definition slot_prefix :: "ipv4_address_pool \<Rightarrow> u32 \<Rightarrow> ip_prefix" where
  "slot_prefix pool slot =
     IpPrefix (V4 (pool_network pool + push_bit (32 - unat (pool_segment_prefix_len pool)) slot))
       (pool_segment_prefix_len pool)"

definition pool_block :: "ipv4_address_pool \<Rightarrow> u32 set" where
  "pool_block pool = address_block (32 - unat (pool_prefix_len pool)) (pool_network pool)"

definition pool_slots :: "ipv4_address_pool \<Rightarrow> nat" where
  "pool_slots pool = 2 ^ (unat (pool_segment_prefix_len pool) - unat (pool_prefix_len pool))"

lemma slot_prefix_in_pool:
  assumes ok: "pool_ok pool" and slot: "unat slot < pool_slots pool"
  shows "prefix_block (slot_prefix pool slot) \<subseteq> pool_block pool"
proof
  define H P where "H = 32 - unat (pool_segment_prefix_len pool)"
    and "P = 32 - unat (pool_prefix_len pool)"
  obtain n where n: "checked_add (pool_network pool) (push_bit H slot) = Some n"
    "unat n = unat (pool_network pool) + unat slot * 2 ^ H" "2 ^ H dvd unat n"
    "unat n + 2 ^ H \<le> unat (pool_network pool) + 2 ^ P"
    using pool_slot [OF ok slot [unfolded pool_slots_def]] unfolding H_def P_def by metis
  have start: "n = pool_network pool + push_bit H slot" using checked_add_SomeD [OF n(1)] by blast
  have dvd: "2 ^ P dvd unat (pool_network pool)"
    using pool_ok_bounds(4) [OF ok] by (simp only: and_mask_zero_dvd P_def)
  fix x
  assume "x \<in> prefix_block (slot_prefix pool slot)"
  then have "x \<in> address_block H n"
    by (simp only: prefix_block_def slot_prefix_def ip_prefix.sel ip_addr.case H_def start)
  then have "unat n \<le> unat x \<and> unat x < unat n + 2 ^ H" by (simp only: aligned_block_nat n(3))
  then have "unat (pool_network pool) \<le> unat x \<and> unat x < unat (pool_network pool) + 2 ^ P"
    using n(2,4) by linarith
  then show "x \<in> pool_block pool" by (simp only: pool_block_def P_def [symmetric] aligned_block_nat dvd)
qed

definition star_selector :: "network_id \<Rightarrow> ipv4_address_pool \<Rightarrow> u32" where
  "star_selector network pool =
     u32_from_be_bytes (take 4 (as_bytes network)) mod
       push_bit (unat (pool_segment_prefix_len pool - pool_prefix_len pool)) 1"

lemma star_selector_less: "pool_ok pool \<Longrightarrow> unat (star_selector network pool) < pool_slots pool"
  by (simp only: star_selector_def unat_mod_distrib unat_segment_count pool_slots_def
      mod_less_divisor zero_less_power zero_less_numeral)

text \<open>On every valid pool the star plan is computed without an error. Its segment is a slot
  of the pool, the host is the first and the client the second address after the network
  address, both lie in the segment and before its broadcast address.\<close>

theorem star_for_network_total:
  assumes "pool_validate pool = Inr ()"
  shows "\<exists>plan n. star_for_network network pool = Inr plan \<and>
    sap_segment plan = slot_prefix pool (star_selector network pool) \<and>
    pfx_address (sap_segment plan) = V4 n \<and>
    sap_host plan = IpPrefix (V4 (n + 1)) (pool_segment_prefix_len pool) \<and>
    sap_first_client plan = IpPrefix (V4 (n + 2)) (pool_segment_prefix_len pool) \<and>
    {n + 1, n + 2} \<subseteq> prefix_block (sap_segment plan) \<and>
    n < n + 1 \<and> n + 1 < n + 2 \<and>
    n + 2 < n OR mask (32 - unat (pool_segment_prefix_len pool)) \<and>
    prefix_block (sap_segment plan) \<subseteq> pool_block pool"
proof -
  have ok: "pool_ok pool" using assms by (simp add: pool_ok_def)
  define H where "H = 32 - unat (pool_segment_prefix_len pool)"
  define slot where "slot = star_selector network pool"
  note slot_less = star_selector_less [OF ok, of network, folded slot_def]
  obtain n where n: "checked_add (pool_network pool) (push_bit H slot) = Some n"
    "2 ^ H dvd unat n" "unat n + 2 ^ H \<le> 2 ^ 32"
    by (rule pool_slot [OF ok slot_less [unfolded pool_slots_def], folded H_def])
      (blast intro: le_trans)
  have start: "n = pool_network pool + push_bit H slot" using checked_add_SomeD [OF n(1)] by blast
  have H: "2 \<le> H" "H \<le> 32" using pool_ok_bounds(1) [OF ok] by (simp_all add: H_def)
  have four: "4 \<le> (2 :: nat) ^ H" using power_increasing [OF H(1), of "2 :: nat"] by simp
  have add: "checked_add n k = Some (n + k)" "unat (n + k) = unat n + unat k" if "unat k \<le> 2" for k
  proof -
    have "unat n + unat k < 2 ^ 32" using n(3) four that by linarith
    then have "unat n + unat k < 2 ^ LENGTH(32)" by simp
    then show "checked_add n k = Some (n + k)" "unat (n + k) = unat n + unat k"
      by (simp_all only: checked_add_def unat_add_no_overflow if_True)
  qed
  have n1: "checked_add n 1 = Some (n + 1)" "unat (n + 1) = unat n + 1"
    and n2: "checked_add n 2 = Some (n + 2)" "unat (n + 2) = unat n + 2"
    using add [of 1] add [of 2] by simp_all
  have len: "pool_segment_prefix_len pool \<le> 32"
    using pool_ok_bounds(1) [OF ok] by (simp add: word_le_nat_alt)
  have pfx: "ip_prefix_new (V4 a) (pool_segment_prefix_len pool) =
      Inr (IpPrefix (V4 a) (pool_segment_prefix_len pool))" for a
    using len by (simp add: ip_prefix_new_Inr)
  have "star_for_network network pool = Inr \<lparr>sap_segment = slot_prefix pool slot,
      sap_host = IpPrefix (V4 (n + 1)) (pool_segment_prefix_len pool),
      sap_first_client = IpPrefix (V4 (n + 2)) (pool_segment_prefix_len pool)\<rparr>"
    by (simp only: star_for_network_def Let_def assms bindR_simps ok_or_simps pfx n(1) n1(1) n2(1)
        slot_prefix_def start [symmetric] H_def [symmetric] slot_def [symmetric]
        star_selector_def [symmetric])
  moreover have "{n + 1, n + 2} \<subseteq> prefix_block (slot_prefix pool slot)"
    using n1(2) n2(2) four
    by (simp add: prefix_block_def slot_prefix_def H_def [symmetric] start [symmetric]
        aligned_block_nat n(2))
  moreover have "n + 2 < n OR mask H"
    using four n2(2) H n(2) by (simp add: word_less_nat_alt unat_or_mask and_mask_zero_dvd)
  moreover have "n < n + 1" "n + 1 < n + 2" using n1(2) n2(2) by (simp_all add: word_less_nat_alt)
  moreover have "pfx_address (slot_prefix pool slot) = V4 n"
    by (simp only: slot_prefix_def ip_prefix.sel start H_def)
  ultimately show ?thesis
    using slot_prefix_in_pool [OF ok slot_less] by (auto simp: H_def slot_def)
qed

theorem star_for_network_witness:
  "\<exists>plan. star_for_network (byte_ident 7) default_pool = Inr plan \<and>
     sap_segment plan = slot_prefix default_pool (star_selector (byte_ident 7) default_pool) \<and>
     prefix_block (sap_segment plan) \<subseteq> pool_block default_pool"
  using star_for_network_total [of default_pool "byte_ident 7"] default_pool_ok
  unfolding pool_ok_def by blast

end
