(* ===== verification/Segment_Allocator.thy ===== *)
theory Segment_Allocator
  imports Addressing
begin

text \<open>
  \<open>crates/blueroute-core/src/segment_allocator.rs\<close>: reservations of IPv4 prefixes for PAN segments.
  A method with \<open>&mut self\<close> returns its result and the allocator after the call, so that what an
  error leaves behind is part of the model. \<open>alloc_reachable\<close> is the set of allocators that a
  sequence of calls can produce.
\<close>

section \<open>State and operations\<close>

record segment_ipv4_allocator =
  al_pool :: ipv4_address_pool
  al_reservations :: "(segment_id, ip_prefix) fmap"

definition MAX_RESERVED_PAN_SEGMENTS :: nat where
  "MAX_RESERVED_PAN_SEGMENTS = 256"

definition MAX_PREFIX_PROBES :: u32 where
  "MAX_PREFIX_PROBES = 4096"

definition allocator_new :: "ipv4_address_pool \<Rightarrow> segment_ipv4_allocator core_result" where
  "allocator_new pool =
     bindR (pool_validate pool) (\<lambda>_. Inr \<lparr>al_pool = pool, al_reservations = fmempty\<rparr>)"

definition allocator_get :: "segment_ipv4_allocator \<Rightarrow> segment_id \<Rightarrow> ip_prefix option" where
  "allocator_get a segment = fmlookup (al_reservations a) segment"

definition ensure_room :: "segment_ipv4_allocator \<Rightarrow> unit core_result" where
  "ensure_room a =
     (if fm_len (al_reservations a) \<ge> MAX_RESERVED_PAN_SEGMENTS
      then Inl (core_error_new CapabilityUnavailable
             ''PAN segment allocator reservation limit reached'')
      else Inr ())"

definition segment_count :: "segment_ipv4_allocator \<Rightarrow> u32" where
  "segment_count a =
     push_bit (unat (pool_segment_prefix_len (al_pool a) - pool_prefix_len (al_pool a))) 1"

definition prefix_at :: "segment_ipv4_allocator \<Rightarrow> u32 \<Rightarrow> ip_prefix core_result" where
  "prefix_at a slot =
     (let host_bits = 32 - unat (pool_segment_prefix_len (al_pool a)) in
      bindR (ok_or (core_error_new InvalidInput ''IPv4 segment shift overflow'')
        (checked_shl slot host_bits)) (\<lambda>offset.
      bindR (ok_or (core_error_new InvalidInput ''IPv4 segment pool overflow'')
        (checked_add (pool_network (al_pool a)) offset)) (\<lambda>number.
      ip_prefix_new (V4 number) (pool_segment_prefix_len (al_pool a)))))"

definition ensure_prefix_in_pool :: "segment_ipv4_allocator \<Rightarrow> ip_prefix \<Rightarrow> unit core_result" where
  "ensure_prefix_in_pool a prefix =
     bindR (if pfx_len prefix \<noteq> pool_segment_prefix_len (al_pool a) then Inr True
            else bindR (normalized_ipv4_prefix prefix) (\<lambda>n. Inr (n \<noteq> prefix)))
       (\<lambda>bad. if bad
          then Inl (core_error_new InvalidInput ''not a canonical PAN segment prefix'')
          else case pfx_address prefix of
            V6 _ \<Rightarrow> Inl (core_error_new InvalidInput ''PAN segment must be IPv4'')
          | V4 address \<Rightarrow>
              let base = pool_network (al_pool a);
                  size = push_bit (32 - unat (pool_segment_prefix_len (al_pool a))) 1
              in if address < base \<or> (address - base) mod size \<noteq> 0 \<or>
                    (address - base) div size \<ge> segment_count a
                 then Inl (core_error_new InvalidInput ''prefix outside BlueRoute address pool'')
                 else Inr ())"

definition reserve_exact ::
  "segment_ipv4_allocator \<Rightarrow> segment_id \<Rightarrow> ip_prefix \<Rightarrow> ip_prefix list \<Rightarrow>
   ip_prefix core_result \<times> segment_ipv4_allocator" where
  "reserve_exact a segment prefix foreign =
     (case ensure_prefix_in_pool a prefix of
        Inl e \<Rightarrow> (Inl e, a)
      | Inr _ \<Rightarrow>
        (case allocator_get a segment of
           Some existing \<Rightarrow>
             (if existing = prefix
              then bindR (ensure_ipv4_segment_available existing foreign) (\<lambda>_. Inr existing)
              else Inl (core_error_new AddressConflict
                     ''segment already owns a different IPv4 prefix''), a)
         | None \<Rightarrow>
             (case bindR (ensure_room a) (\<lambda>_.
                   bindR (ensure_ipv4_segment_available prefix (fm_values (al_reservations a)))
                     (\<lambda>_. ensure_ipv4_segment_available prefix foreign)) of
                Inl e \<Rightarrow> (Inl e, a)
              | Inr _ \<Rightarrow> (Inr prefix, a\<lparr>al_reservations := fmupd segment prefix (al_reservations a)\<rparr>))))"

definition reserve_bootstrap ::
  "segment_ipv4_allocator \<Rightarrow> network_id \<Rightarrow> segment_id \<Rightarrow> ip_prefix list \<Rightarrow>
   ip_prefix core_result \<times> segment_ipv4_allocator" where
  "reserve_bootstrap a network segment foreign =
     (case star_for_network network (al_pool a) of
        Inl e \<Rightarrow> (Inl e, a)
      | Inr plan \<Rightarrow> reserve_exact a segment (sap_segment plan) foreign)"

text \<open>The probing loop of \<open>allocate\<close> over the offsets that are left.\<close>

fun allocate_probe ::
  "segment_ipv4_allocator \<Rightarrow> ip_prefix list \<Rightarrow> u32 \<Rightarrow> u32 \<Rightarrow> nat list \<Rightarrow> ip_prefix core_result" where
  "allocate_probe a foreign first choices [] =
     Inl (core_error_new AddressConflict
       ''no conflict-free PAN prefix found in bounded IPv4 pool search'')"
| "allocate_probe a foreign first choices (offset # offsets) =
     (let slot = (first + of_nat offset) mod choices in
      bindR (prefix_at a slot) (\<lambda>candidate.
        if is_err (ensure_ipv4_segment_available candidate (fm_values (al_reservations a))) \<or>
           is_err (ensure_ipv4_segment_available candidate foreign)
        then allocate_probe a foreign first choices offsets
        else Inr candidate))"

definition allocate ::
  "segment_ipv4_allocator \<Rightarrow> segment_id \<Rightarrow> ip_prefix list \<Rightarrow>
   ip_prefix core_result \<times> segment_ipv4_allocator" where
  "allocate a segment foreign =
     (case allocator_get a segment of
        Some prefix \<Rightarrow>
          (bindR (ensure_ipv4_segment_available prefix foreign) (\<lambda>_. Inr prefix), a)
      | None \<Rightarrow>
          (case bindR (ensure_room a) (\<lambda>_.
             let choices = segment_count a;
                 selector = take 4 (as_bytes segment)
             in if length selector \<noteq> 4
                then Inl (core_error_new InvalidInput ''invalid segment selector'')
                else let first = u32_from_be_bytes selector mod choices
                     in allocate_probe a foreign first choices
                          [0..<unat (min choices MAX_PREFIX_PROBES)]) of
             Inl e \<Rightarrow> (Inl e, a)
           | Inr candidate \<Rightarrow>
               (Inr candidate,
                a\<lparr>al_reservations := fmupd segment candidate (al_reservations a)\<rparr>)))"

definition release ::
  "segment_ipv4_allocator \<Rightarrow> segment_id \<Rightarrow> ip_prefix option \<times> segment_ipv4_allocator" where
  "release a segment =
     (fmlookup (al_reservations a) segment,
      a\<lparr>al_reservations := fmdrop segment (al_reservations a)\<rparr>)"

section \<open>Slots and the pool test\<close>

lemma slot_prefix_sels:
  "pfx_len (slot_prefix pool slot) = pool_segment_prefix_len pool"
  "pfx_address (slot_prefix pool slot) =
     V4 (pool_network pool + push_bit (32 - unat (pool_segment_prefix_len pool)) slot)"
  by (simp_all add: slot_prefix_def)

lemma slot_prefix_relevant:
  assumes "pool_ok pool"
  shows "collision_relevant (slot_prefix pool slot)" and "wf_ipv4_prefix (slot_prefix pool slot)"
  using pool_ok_bounds [OF assms]
  by (auto simp: collision_relevant_def wf_ipv4_prefix_def slot_prefix_sels is_ipv4_def)

lemma slot_start:
  fixes slot :: u32
  assumes "pool_ok pool" and "unat slot < pool_slots pool"
  defines "H \<equiv> 32 - unat (pool_segment_prefix_len pool)"
  shows "checked_add (pool_network pool) (push_bit H slot) = Some (pool_network pool + push_bit H slot)"
    and "unat (pool_network pool + push_bit H slot) = unat (pool_network pool) + unat slot * 2 ^ H"
    and "2 ^ H dvd unat (pool_network pool + push_bit H slot)"
    and "unat (push_bit H slot) = unat slot * 2 ^ H"
proof -
  obtain n where n: "checked_add (pool_network pool) (push_bit H slot) = Some n"
    "unat n = unat (pool_network pool) + unat slot * 2 ^ H" "2 ^ H dvd unat n"
    by (rule pool_slot [OF assms(1) assms(2) [unfolded pool_slots_def], folded H_def]) blast
  then show "checked_add (pool_network pool) (push_bit H slot) = Some (pool_network pool + push_bit H slot)"
    and "unat (pool_network pool + push_bit H slot) = unat (pool_network pool) + unat slot * 2 ^ H"
    and "2 ^ H dvd unat (pool_network pool + push_bit H slot)"
    and "unat (push_bit H slot) = unat slot * 2 ^ H"
    using checked_add_SomeD [OF n(1)] by (auto simp del: unat_of_nat)
qed

lemma prefix_at_slot:
  assumes "pool_ok (al_pool a)" and "unat slot < pool_slots (al_pool a)"
  shows "prefix_at a slot = Inr (slot_prefix (al_pool a) slot)"
proof -
  have "checked_shl slot (32 - unat (pool_segment_prefix_len (al_pool a))) =
      Some (push_bit (32 - unat (pool_segment_prefix_len (al_pool a))) slot)"
    using pool_ok_bounds [OF assms(1)] by (simp add: checked_shl_def)
  moreover have "pool_segment_prefix_len (al_pool a) \<le> 32"
    using pool_ok_bounds(1) [OF assms(1)] by (simp add: word_le_nat_alt)
  ultimately show ?thesis
    using slot_start(1) [OF assms] by (simp add: prefix_at_def ip_prefix_new_Inr slot_prefix_def)
qed

lemma unat_segment_count_slots: "pool_ok (al_pool a) \<Longrightarrow> unat (segment_count a) = pool_slots (al_pool a)"
  by (simp only: segment_count_def unat_segment_count pool_slots_def)

lemma ensure_prefix_in_pool_slotD:
  assumes ok: "pool_ok (al_pool a)" and fits: "ensure_prefix_in_pool a p = Inr ()"
  obtains slot where "unat slot < pool_slots (al_pool a)" and "p = slot_prefix (al_pool a) slot"
proof -
  define base where "base = pool_network (al_pool a)"
  define H where "H = 32 - unat (pool_segment_prefix_len (al_pool a))"
  have H: "H < LENGTH(32)" using pool_ok_bounds [OF ok] by (simp add: H_def)
  obtain addr where addr: "pfx_address p = V4 addr" "pfx_len p = pool_segment_prefix_len (al_pool a)"
    "base \<le> addr" "(addr - base) mod push_bit H 1 = 0" "(addr - base) div push_bit H 1 < segment_count a"
    using fits
    by (auto simp: ensure_prefix_in_pool_def bindR_eq_Inr Let_def H_def base_def not_less not_le
        split: if_splits ip_addr.splits)
  define slot where "slot = (addr - base) div push_bit H 1"
  have "unat slot = unat (addr - base) div 2 ^ H" "unat (addr - base) mod 2 ^ H = 0"
    using addr(4) H by (simp_all only: slot_def unat_div_distrib unat_push_bit_1 word_unat_eq_iff
        unat_mod_distrib unat_0)
  then have eq: "unat slot * 2 ^ H = unat (addr - base)" by (metis add.right_neutral div_mult_mod_eq)
  then have "unat (push_bit H slot) = unat (addr - base)"
    using unat_push_bit [of slot H] unat_less_pow [of "addr - base"] by simp
  then have "push_bit H slot = addr - base" by (simp only: word_unat_eq_iff)
  then have "p = slot_prefix (al_pool a) slot"
    using addr(1,2) by (cases p) (simp add: slot_prefix_def H_def base_def)
  moreover have "unat slot < pool_slots (al_pool a)"
    using addr(5) by (simp only: slot_def word_less_nat_alt unat_segment_count_slots [OF ok])
  ultimately show thesis using that by blast
qed

lemma ensure_prefix_in_pool_slotI:
  assumes ok: "pool_ok (al_pool a)" and slot: "unat slot < pool_slots (al_pool a)"
  shows "ensure_prefix_in_pool a (slot_prefix (al_pool a) slot) = Inr ()"
proof -
  define base where "base = pool_network (al_pool a)"
  define H where "H = 32 - unat (pool_segment_prefix_len (al_pool a))"
  have H: "H < LENGTH(32)" using pool_ok_bounds [OF ok] by (simp add: H_def)
  note st = slot_start [OF ok slot, folded H_def base_def]
  have al: "push_bit H (drop_bit H (base + push_bit H slot)) = base + push_bit H slot"
    using st(3) by (simp only: and_mask_zero_dvd [symmetric] and_mask_zero_iff_drop)
  have norm: "normalized_ipv4_prefix (slot_prefix (al_pool a) slot) = Inr (slot_prefix (al_pool a) slot)"
    by (subst normalized_V4 [of _ "base + push_bit H slot"])
      (use pool_ok_bounds(1) [OF ok] al in \<open>simp_all add: slot_prefix_def base_def H_def\<close>)
  have diff: "base + push_bit H slot - base = push_bit H slot" by simp
  have le: "base \<le> base + push_bit H slot" by (simp only: word_le_nat_alt st(2) le_add1)
  have "push_bit H slot mod push_bit H 1 = 0"
    using H by (simp only: word_unat_eq_iff unat_mod_distrib unat_push_bit_1 st(4) mod_mult_self2_is_0 unat_0)
  moreover have "push_bit H slot div push_bit H 1 = slot"
    using H by (simp add: word_unat_eq_iff unat_div_distrib unat_push_bit_1 st(4)
        del: push_bit_of_1)
  moreover have "slot < segment_count a"
    using slot by (simp only: word_less_nat_alt unat_segment_count_slots [OF ok])
  ultimately show ?thesis
    using norm le by (simp add: ensure_prefix_in_pool_def slot_prefix_sels Let_def H_def [symmetric]
        base_def [symmetric] diff not_less not_le del: push_bit_of_1)
qed

section \<open>The allocator invariant\<close>

text \<open>Every reservation is a slot of the pool, different segments own disjoint blocks, and there
  are at most \<open>MAX_RESERVED_PAN_SEGMENTS\<close> of them.\<close>

definition allocator_inv :: "segment_ipv4_allocator \<Rightarrow> bool" where
  "allocator_inv a \<longleftrightarrow>
     pool_ok (al_pool a) \<and>
     fm_len (al_reservations a) \<le> MAX_RESERVED_PAN_SEGMENTS \<and>
     (\<forall>s p. fmlookup (al_reservations a) s = Some p \<longrightarrow>
        (\<exists>slot. unat slot < pool_slots (al_pool a) \<and> p = slot_prefix (al_pool a) slot)) \<and>
     ipv4_availability.reservations_disjoint (al_reservations a)"

inductive alloc_reachable :: "ipv4_address_pool \<Rightarrow> segment_ipv4_allocator \<Rightarrow> bool" for pool where
  new: "allocator_new pool = Inr a \<Longrightarrow> alloc_reachable pool a"
| reserve_bootstrap: "alloc_reachable pool a \<Longrightarrow>
    alloc_reachable pool (snd (reserve_bootstrap a network segment foreign))"
| reserve_exact: "alloc_reachable pool a \<Longrightarrow>
    alloc_reachable pool (snd (reserve_exact a segment prefix foreign))"
| allocate: "alloc_reachable pool a \<Longrightarrow> alloc_reachable pool (snd (allocate a segment foreign))"
| release: "alloc_reachable pool a \<Longrightarrow> alloc_reachable pool (snd (release a segment))"

lemma allocator_inv_insert:
  assumes "allocator_inv a" and "ensure_room a = Inr ()"
    and "ensure_ipv4_segment_available p (fm_values (al_reservations a)) = Inr ()"
    and "unat slot < pool_slots (al_pool a)" and "p = slot_prefix (al_pool a) slot"
  shows "allocator_inv (a\<lparr>al_reservations := fmupd s p (al_reservations a)\<rparr>)"
proof -
  have ok: "pool_ok (al_pool a)" using assms(1) by (simp add: allocator_inv_def)
  have rel: "collision_relevant q" if "fmlookup (al_reservations a) l = Some q" for l q
    using assms(1) that slot_prefix_relevant(1) [OF ok] by (auto simp: allocator_inv_def)
  have "ipv4_availability.reservations_disjoint (fmupd s p (al_reservations a))"
    by (rule ipv4_availability.reservations_disjoint_reserve [OF _ rel assms(3)])
      (use assms(1) in \<open>simp_all add: allocator_inv_def\<close>)
  then show ?thesis
    using assms(1,2,4,5) by (auto simp: allocator_inv_def ensure_room_def fm_len_fmupd split: if_splits)
qed

lemma allocate_probe_slot:
  assumes ok: "pool_ok (al_pool a)" and choices: "choices = segment_count a"
    and "allocate_probe a foreign first choices offsets = Inr p"
  shows "\<exists>slot. unat slot < pool_slots (al_pool a) \<and> p = slot_prefix (al_pool a) slot \<and>
    ensure_ipv4_segment_available p (fm_values (al_reservations a)) = Inr () \<and>
    ensure_ipv4_segment_available p foreign = Inr ()"
  using assms(3)
proof (induction offsets)
  case (Cons offset offsets)
  define slot where "slot = (first + of_nat offset) mod choices"
  have less: "unat slot < pool_slots (al_pool a)"
    unfolding slot_def choices unat_mod_distrib unat_segment_count_slots [OF ok]
    by (simp add: pool_slots_def)
  have ok_or_err: "is_err m \<or> m = Inr ()" for m :: "unit core_result" by (cases m) auto
  show ?case
  proof (cases "is_err (ensure_ipv4_segment_available (slot_prefix (al_pool a) slot) (fm_values (al_reservations a))) \<or>
      is_err (ensure_ipv4_segment_available (slot_prefix (al_pool a) slot) foreign)")
    case True
    then show ?thesis using Cons prefix_at_slot [OF ok less] by (simp add: slot_def [symmetric])
  next
    case False
    then have "p = slot_prefix (al_pool a) slot"
      using Cons.prems prefix_at_slot [OF ok less] by (simp add: slot_def [symmetric])
    then show ?thesis using False less ok_or_err by blast
  qed
qed simp

lemma allocate_new_Inr:
  assumes "fmlookup (al_reservations a) segment = None" and "allocate a segment foreign = (Inr p, a')"
    and "pool_ok (al_pool a)"
  shows "a' = a\<lparr>al_reservations := fmupd segment p (al_reservations a)\<rparr>"
    and "ensure_room a = Inr ()"
    and "\<exists>slot. unat slot < pool_slots (al_pool a) \<and> p = slot_prefix (al_pool a) slot"
    and "ensure_ipv4_segment_available p (fm_values (al_reservations a)) = Inr ()"
    and "ensure_ipv4_segment_available p foreign = Inr ()"
proof -
  obtain first offsets where probe: "allocate_probe a foreign first (segment_count a) offsets = Inr p"
    and res: "a' = a\<lparr>al_reservations := fmupd segment p (al_reservations a)\<rparr>" "ensure_room a = Inr ()"
    using assms(1,2)
    by (auto simp: allocate_def allocator_get_def bindR_eq_Inr Let_def split: sum.splits if_splits)
  show "a' = a\<lparr>al_reservations := fmupd segment p (al_reservations a)\<rparr>" "ensure_room a = Inr ()"
    by (fact res)+
  show "\<exists>slot. unat slot < pool_slots (al_pool a) \<and> p = slot_prefix (al_pool a) slot"
    and "ensure_ipv4_segment_available p (fm_values (al_reservations a)) = Inr ()"
    and "ensure_ipv4_segment_available p foreign = Inr ()"
    using allocate_probe_slot [OF assms(3) refl probe] by blast+
qed

lemma reserve_exact_new_Inr:
  assumes "fmlookup (al_reservations a) segment = None"
    and "reserve_exact a segment prefix foreign = (Inr p, a')"
  shows "p = prefix" and "a' = a\<lparr>al_reservations := fmupd segment p (al_reservations a)\<rparr>"
    and "ensure_room a = Inr ()" and "ensure_prefix_in_pool a p = Inr ()"
    and "ensure_ipv4_segment_available p (fm_values (al_reservations a)) = Inr ()"
    and "ensure_ipv4_segment_available p foreign = Inr ()"
  using assms
  by (auto simp: reserve_exact_def allocator_get_def bindR_eq_Inr split: sum.splits if_splits)

lemma operations_without_insert:
  "fst (reserve_exact a segment prefix foreign) = Inl e \<Longrightarrow>
     snd (reserve_exact a segment prefix foreign) = a"
  "fst (allocate a segment foreign) = Inl e \<Longrightarrow> snd (allocate a segment foreign) = a"
  "fmlookup (al_reservations a) segment = Some q \<Longrightarrow>
     snd (reserve_exact a segment prefix foreign) = a \<and> snd (allocate a segment foreign) = a"
  by (auto simp: reserve_exact_def allocate_def allocator_get_def split: sum.splits option.splits)

lemma reserve_exact_inv:
  assumes "allocator_inv a"
  shows "allocator_inv (snd (reserve_exact a segment prefix foreign))"
proof (cases "fmlookup (al_reservations a) segment")
  case None
  show ?thesis
  proof (cases "fst (reserve_exact a segment prefix foreign)")
    case (Inr p)
    then have eq: "reserve_exact a segment prefix foreign =
        (Inr p, snd (reserve_exact a segment prefix foreign))"
      by (metis prod.collapse)
    note new = reserve_exact_new_Inr [OF None eq]
    have ok: "pool_ok (al_pool a)" using assms by (simp add: allocator_inv_def)
    show ?thesis
      by (rule ensure_prefix_in_pool_slotD [OF ok new(4)])
        (use allocator_inv_insert [OF assms new(3,5)] new(2) in simp)
  qed (simp add: assms operations_without_insert)
qed (simp add: assms operations_without_insert)

lemma allocate_inv:
  assumes "allocator_inv a"
  shows "allocator_inv (snd (allocate a segment foreign))"
proof (cases "fmlookup (al_reservations a) segment")
  case None
  have ok: "pool_ok (al_pool a)" using assms by (simp add: allocator_inv_def)
  show ?thesis
  proof (cases "fst (allocate a segment foreign)")
    case (Inr p)
    then have "allocate a segment foreign = (Inr p, snd (allocate a segment foreign))"
      by (metis prod.collapse)
    note new = allocate_new_Inr [OF None this ok]
    then show ?thesis using allocator_inv_insert [OF assms new(2,4)] by auto
  qed (simp add: assms operations_without_insert)
qed (simp add: assms operations_without_insert)

lemma release_inv: "allocator_inv a \<Longrightarrow> allocator_inv (snd (release a segment))"
  using ipv4_availability.reservations_disjoint_release [of "al_reservations a" segment]
  by (auto simp: allocator_inv_def release_def fm_len_fmdrop)

lemma operations_pool [simp]:
  "al_pool (snd (reserve_exact a segment prefix foreign)) = al_pool a"
  "al_pool (snd (reserve_bootstrap a network segment foreign)) = al_pool a"
  "al_pool (snd (allocate a segment foreign)) = al_pool a"
  "al_pool (snd (release a segment)) = al_pool a"
proof -
  show re: "al_pool (snd (reserve_exact a segment prefix foreign)) = al_pool a" for prefix
    by (simp add: reserve_exact_def split: sum.splits option.splits)
  show "al_pool (snd (reserve_bootstrap a network segment foreign)) = al_pool a"
    using re by (simp add: reserve_bootstrap_def split: sum.splits)
  show "al_pool (snd (allocate a segment foreign)) = al_pool a"
    by (simp add: allocate_def split: sum.splits option.splits)
  show "al_pool (snd (release a segment)) = al_pool a" by (simp add: release_def)
qed

lemma reachable_inv: "alloc_reachable pool a \<Longrightarrow> allocator_inv a \<and> al_pool a = pool"
proof (induction rule: alloc_reachable.induct)
  case (new a)
  then show ?case
    by (auto simp: allocator_new_def bindR_eq_Inr allocator_inv_def pool_ok_def
        ipv4_availability.reservations_disjoint_def)
next
  case (reserve_bootstrap a network segment foreign)
  then show ?case
    by (auto simp: reserve_bootstrap_def intro: reserve_exact_inv split: sum.splits)
qed (auto intro: reserve_exact_inv allocate_inv release_inv)

text \<open>C5: in every allocator that calls of its methods can produce, there are at most 256
  reservations, each inside the configured pool, and the prefixes of two different segments
  share no address.\<close>

theorem allocator_reservations_safe:
  assumes "alloc_reachable pool a"
  shows "fm_len (al_reservations a) \<le> 256 \<and>
    (\<forall>s p. fmlookup (al_reservations a) s = Some p \<longrightarrow> prefix_block p \<subseteq> pool_block pool) \<and>
    (\<forall>s t p q. fmlookup (al_reservations a) s = Some p \<longrightarrow> fmlookup (al_reservations a) t = Some q \<longrightarrow>
      s \<noteq> t \<longrightarrow> prefix_block p \<inter> prefix_block q = {})"
proof (intro conjI)
  have inv: "allocator_inv a" "al_pool a = pool" using reachable_inv [OF assms] by blast+
  show "fm_len (al_reservations a) \<le> 256"
    using inv(1) by (simp add: allocator_inv_def MAX_RESERVED_PAN_SEGMENTS_def)
  show "\<forall>s p. fmlookup (al_reservations a) s = Some p \<longrightarrow> prefix_block p \<subseteq> pool_block pool"
    using inv slot_prefix_in_pool [of pool] by (fastforce simp: allocator_inv_def)
  show "\<forall>s t p q. fmlookup (al_reservations a) s = Some p \<longrightarrow> fmlookup (al_reservations a) t = Some q \<longrightarrow>
      s \<noteq> t \<longrightarrow> prefix_block p \<inter> prefix_block q = {}"
    using inv(1) unfolding allocator_inv_def ipv4_availability.reservations_disjoint_def by blast
qed

text \<open>A concrete reachable allocator: the default pool with one reserved slot.\<close>

definition sample_allocator :: segment_ipv4_allocator where
  "sample_allocator =
     snd (reserve_exact \<lparr>al_pool = default_pool, al_reservations = fmempty\<rparr> (byte_ident 1)
       (IpPrefix (V4 0x0ac90500) 24) [])"

lemma sample_allocator_reachable: "alloc_reachable default_pool sample_allocator"
  unfolding sample_allocator_def using default_pool_ok
  by (intro alloc_reachable.reserve_exact alloc_reachable.new)
    (simp add: allocator_new_def pool_ok_def)

lemma empty_allocator_eval:
  "ensure_prefix_in_pool \<lparr>al_pool = default_pool, al_reservations = fmempty\<rparr>
     (IpPrefix (V4 0x0ac90500) 24) = Inr ()"
  "ensure_ipv4_segment_available (IpPrefix (V4 0x0ac90500) 24) [] = Inr ()"
proof -
  have slot: "slot_prefix default_pool 5 = IpPrefix (V4 0x0ac90500) 24" "5 < pool_slots default_pool"
    by (simp_all add: slot_prefix_def default_pool_def pool_slots_def)
  show "ensure_prefix_in_pool \<lparr>al_pool = default_pool, al_reservations = fmempty\<rparr>
     (IpPrefix (V4 0x0ac90500) 24) = Inr ()"
    using ensure_prefix_in_pool_slotI [of "\<lparr>al_pool = default_pool, al_reservations = fmempty\<rparr>" 5]
      default_pool_ok slot by simp
  show "ensure_ipv4_segment_available (IpPrefix (V4 0x0ac90500) 24) [] = Inr ()"
    by (rule ipv4_availability.available_complete) (simp_all add: wf_ipv4_prefix_def is_ipv4_def)
qed

lemma sample_allocator_eq:
  "sample_allocator = \<lparr>al_pool = default_pool,
     al_reservations = fmupd (byte_ident 1) (IpPrefix (V4 0x0ac90500) 24) fmempty\<rparr>"
  by (simp add: sample_allocator_def reserve_exact_def empty_allocator_eval allocator_get_def
      ensure_room_def MAX_RESERVED_PAN_SEGMENTS_def fm_values_def sorted_list_of_fmap_def
      sorted_list_of_fset_eval)

theorem allocator_reservations_safe_witness:
  "fmlookup (al_reservations sample_allocator) (byte_ident 1) = Some (IpPrefix (V4 0x0ac90500) 24) \<and>
   prefix_block (IpPrefix (V4 0x0ac90500) 24) \<subseteq> pool_block default_pool"
proof -
  have "fmlookup (al_reservations sample_allocator) (byte_ident 1) = Some (IpPrefix (V4 0x0ac90500) 24)"
    by (simp add: sample_allocator_eq)
  then show ?thesis using allocator_reservations_safe [OF sample_allocator_reachable] by blast
qed

text \<open>\<open>allocate\<close> on every branch. An error leaves the allocator as it was. A success records
  exactly the returned prefix for the segment, keeps every other reservation, returns the prefix
  the segment already had when it had one, and the prefix shares no address with a live IPv4
  prefix of the host other than a default route.\<close>

theorem allocate_spec:
  assumes "alloc_reachable pool a" and "allocate a segment foreign = (r, a')"
  shows "case r of
      Inl e \<Rightarrow> a' = a
    | Inr p \<Rightarrow>
        fmlookup (al_reservations a') segment = Some p \<and>
        (\<forall>t. t \<noteq> segment \<longrightarrow> fmlookup (al_reservations a') t = fmlookup (al_reservations a) t) \<and>
        (\<forall>q. fmlookup (al_reservations a) segment = Some q \<longrightarrow> p = q) \<and>
        (\<forall>q \<in> set foreign. is_ipv4 (pfx_address q) \<and> pfx_len q \<noteq> 0 \<longrightarrow>
           prefix_block p \<inter> prefix_block q = {})"
proof (cases r)
  case (Inl e)
  then show ?thesis using operations_without_insert(2) [of a segment foreign e] assms(2) by simp
next
  case (Inr p)
  have ok: "pool_ok (al_pool a)" using reachable_inv [OF assms(1)] unfolding allocator_inv_def by blast
  have "ensure_ipv4_segment_available p foreign = Inr () \<and>
      fmlookup (al_reservations a') segment = Some p \<and>
      (\<forall>t. t \<noteq> segment \<longrightarrow> fmlookup (al_reservations a') t = fmlookup (al_reservations a) t) \<and>
      (\<forall>q. fmlookup (al_reservations a) segment = Some q \<longrightarrow> p = q)"
  proof (cases "fmlookup (al_reservations a) segment")
    case None
    then show ?thesis using allocate_new_Inr [OF None assms(2) [unfolded Inr] ok] by simp
  next
    case (Some q)
    then show ?thesis using assms(2) Inr by (auto simp: allocate_def allocator_get_def bindR_eq_Inr)
  qed
  then show ?thesis
    using ipv4_availability.available_sound [of p foreign] Inr by (auto simp: collision_relevant_def)
qed

theorem allocate_spec_witness:
  "(case fst (allocate sample_allocator (byte_ident 1) [IpPrefix (V4 0xc0a80105) 24]) of
      Inl e \<Rightarrow> False
    | Inr p \<Rightarrow> p = IpPrefix (V4 0x0ac90500) 24 \<and>
        prefix_block p \<inter> prefix_block (IpPrefix (V4 0xc0a80105) 24) = {})"
proof -
  have "ensure_ipv4_segment_available (IpPrefix (V4 0x0ac90500) 24) [IpPrefix (V4 0xc0a80105) 24] = Inr ()"
    by code_simp
  then have alloc: "allocate sample_allocator (byte_ident 1) [IpPrefix (V4 0xc0a80105) 24] =
      (Inr (IpPrefix (V4 0x0ac90500) 24), sample_allocator)"
    by (simp add: allocate_def allocator_get_def sample_allocator_eq)
  have "prefix_block (IpPrefix (V4 0x0ac90500) 24) \<inter> prefix_block (IpPrefix (V4 0xc0a80105) 24) = {}"
    using allocate_spec [OF sample_allocator_reachable alloc, unfolded sum.case,
        THEN conjunct2, THEN conjunct2, THEN conjunct2]
    by (simp add: is_ipv4_def)
  then show ?thesis by (simp add: alloc)
qed

section \<open>The search finds a free slot\<close>

lemma allocate_probe_finds:
  assumes ok: "pool_ok (al_pool a)" and choices: "choices = segment_count a"
    and "k \<in> set offsets"
    and "(first + of_nat k) mod choices = slot"
    and "ensure_ipv4_segment_available (slot_prefix (al_pool a) slot) (fm_values (al_reservations a)) = Inr ()"
    and "ensure_ipv4_segment_available (slot_prefix (al_pool a) slot) foreign = Inr ()"
  shows "\<exists>p. allocate_probe a foreign first choices offsets = Inr p"
  using assms(3)
proof (induction offsets)
  case (Cons offset offsets)
  have less: "unat ((first + of_nat offset) mod choices) < pool_slots (al_pool a)"
    unfolding choices unat_mod_distrib unat_segment_count_slots [OF ok]
    by (simp add: pool_slots_def)
  show ?case using Cons assms(4-6) by (auto simp: Let_def prefix_at_slot [OF ok less])
qed simp

text \<open>Every slot is one of the first \<open>choices\<close> probes, wherever the probing starts.\<close>

lemma probe_offset_exists:
  assumes "unat (choices :: u32) \<le> 4096" and "unat (first :: u32) < unat choices" and "unat slot < unat choices"
  shows "\<exists>k < unat choices. (first + of_nat k) mod choices = slot"
proof -
  define k where "k = (unat slot + unat choices - unat first) mod unat choices"
  have k: "k < unat choices" using assms by (simp add: k_def)
  have uk: "unat (of_nat k :: u32) = k"
    using k assms(1) by (simp add: unsigned_of_nat take_bit_nat_eq_self)
  have "unat (first + of_nat k) = unat first + k"
    using unat_add_no_overflow [of first "of_nat k"] k assms by (simp add: uk)
  moreover have "(unat first + k) mod unat choices = unat slot"
    using assms by (simp add: k_def mod_add_right_eq)
  ultimately have "(first + of_nat k) mod choices = slot"
    by (simp only: word_unat_eq_iff unat_mod_distrib)
  then show ?thesis using k by blast
qed

text \<open>C38: \<open>allocate\<close> never fails for a new segment while the reservation table has room and the pool
  (of at most 4096 slots, the probe bound) has a slot that shares no address with a reservation
  or with a live prefix of the host.\<close>

theorem allocate_finds_free_slot:
  assumes "alloc_reachable pool a" and "fmlookup (al_reservations a) segment = None"
    and "fm_len (al_reservations a) < 256" and "pool_slots pool \<le> 4096"
    and "unat slot < pool_slots pool"
    and "\<forall>q \<in> set foreign. tolerated_prefix q"
    and "\<forall>q \<in> set foreign. collision_relevant q \<longrightarrow>
      prefix_block (slot_prefix pool slot) \<inter> prefix_block q = {}"
    and "\<forall>q \<in> set (fm_values (al_reservations a)).
      prefix_block (slot_prefix pool slot) \<inter> prefix_block q = {}"
  shows "\<exists>p. fst (allocate a segment foreign) = Inr p"
proof -
  have inv: "allocator_inv a" "al_pool a = pool" using reachable_inv [OF assms(1)] by blast+
  have ok: "pool_ok (al_pool a)" using inv(1) unfolding allocator_inv_def by blast
  note wf = slot_prefix_relevant(2) [OF ok, unfolded inv(2), of slot]
  have count: "unat (segment_count a) = pool_slots pool"
    using unat_segment_count_slots [OF ok] inv(2) by simp
  define first where "first = u32_from_be_bytes (take 4 (as_bytes segment)) mod segment_count a"
  have first: "unat first < unat (segment_count a)"
    unfolding first_def unat_mod_distrib count by (simp add: pool_slots_def)
  obtain k where k: "k < unat (segment_count a)" "(first + of_nat k) mod segment_count a = slot"
    using probe_offset_exists [OF _ first, of slot] assms(4,5) by (auto simp: count)
  have "min (segment_count a) MAX_PREFIX_PROBES = segment_count a"
    using assms(4) by (simp add: min_def MAX_PREFIX_PROBES_def word_le_nat_alt count)
  then have mem: "k \<in> set [0..<unat (min (segment_count a) MAX_PREFIX_PROBES)]"
    using k(1) by simp
  have own: "tolerated_prefix q" if "fmlookup (al_reservations a) s = Some q" for s q
    using inv(1) that slot_prefix_relevant(2) [OF ok]
    by (auto simp: allocator_inv_def tolerated_prefix_def wf_ipv4_prefix_def)
  have res: "ensure_ipv4_segment_available (slot_prefix pool slot) (fm_values (al_reservations a)) = Inr ()"
    by (rule ipv4_availability.available_complete [OF wf]) (use assms(8) own in \<open>auto simp: set_fm_values\<close>)
  have live: "ensure_ipv4_segment_available (slot_prefix pool slot) foreign = Inr ()"
    by (rule ipv4_availability.available_complete [OF wf]) (use assms(6,7) in auto)
  obtain p where "allocate_probe a foreign first (segment_count a)
      [0..<unat (min (segment_count a) MAX_PREFIX_PROBES)] = Inr p"
    using allocate_probe_finds [OF ok refl mem k(2)] res live unfolding inv(2) by blast
  moreover have "length (take 4 (as_bytes segment)) = 4" by (simp add: ID_BYTES_def)
  ultimately show ?thesis
    using assms(2,3) by (simp add: allocate_def allocator_get_def ensure_room_def
        MAX_RESERVED_PAN_SEGMENTS_def Let_def first_def ID_BYTES_def)
qed

theorem allocate_finds_free_slot_witness:
  "\<exists>p. fst (allocate \<lparr>al_pool = default_pool, al_reservations = fmempty\<rparr> (byte_ident 2)
     [IpPrefix (V4 0) 0]) = Inr p"
proof (rule allocate_finds_free_slot [where pool = default_pool and slot = 0])
  show "alloc_reachable default_pool \<lparr>al_pool = default_pool, al_reservations = fmempty\<rparr>"
    using default_pool_ok by (intro alloc_reachable.new) (simp add: allocator_new_def pool_ok_def)
qed (simp_all add: default_pool_def pool_slots_def tolerated_prefix_def collision_relevant_def
    fm_values_def sorted_list_of_fmap_def sorted_list_of_fset_eval)

end
