(* ===== verification/Membership.thy ===== *)
theory Membership
  imports Ids
begin

text \<open>
  \<open>crates/blueroute-core/src/membership.rs\<close>: the membership state machine of the local node and the
  remembered peers of a network. A method with \<open>&mut self\<close> returns its result and the new state.
\<close>

section \<open>Membership states\<close>

datatype membership_state = NotMember | Joining | Member | Leaving

definition show_membership_state :: "membership_state \<Rightarrow> string" where
  "show_membership_state s =
     (case s of NotMember \<Rightarrow> ''NotMember'' | Joining \<Rightarrow> ''Joining'' | Member \<Rightarrow> ''Member''
      | Leaving \<Rightarrow> ''Leaving'')"

definition transition :: "membership_state \<Rightarrow> membership_state \<Rightarrow> membership_state core_result" where
  "transition self next =
     (let allowed = (case (self, next) of
          (NotMember, Joining) \<Rightarrow> True
        | (Joining, Member) \<Rightarrow> True
        | (Joining, NotMember) \<Rightarrow> True
        | (Member, Leaving) \<Rightarrow> True
        | (Leaving, NotMember) \<Rightarrow> True
        | (Leaving, Member) \<Rightarrow> True
        | _ \<Rightarrow> False)
      in if allowed \<or> self = next then Inr next
         else Inl (core_error_new InvalidState
           (''invalid membership transition from '' @ show_membership_state self @ '' to '' @
            show_membership_state next)))"

section \<open>Remembered peers\<close>

record peer_membership =
  pm_node_id :: node_id
  pm_member :: bool
  pm_trusted :: bool

definition peer_membership_new :: "node_id \<Rightarrow> peer_membership" where
  "peer_membership_new n = \<lparr>pm_node_id = n, pm_member = False, pm_trusted = False\<rparr>"

record network_membership =
  nm_network_id :: network_id
  nm_network_name :: display_name
  nm_state :: membership_state
  nm_peers :: "(node_id, peer_membership) fmap"

definition network_membership_new :: "network_id \<Rightarrow> display_name \<Rightarrow> network_membership" where
  "network_membership_new i name =
     \<lparr>nm_network_id = i, nm_network_name = name, nm_state = NotMember, nm_peers = fmempty\<rparr>"

definition remember_peer :: "network_membership \<Rightarrow> node_id \<Rightarrow> bool \<times> network_membership" where
  "remember_peer m p =
     (case fmlookup (nm_peers m) p of
        None \<Rightarrow> (True, m\<lparr>nm_peers := fmupd p (peer_membership_new p) (nm_peers m)\<rparr>)
      | Some _ \<Rightarrow> (False, m))"

text \<open>\<open>entry(peer).or_insert(PeerMembership::new(peer))\<close>.\<close>

definition peer_entry :: "network_membership \<Rightarrow> node_id \<Rightarrow> peer_membership" where
  "peer_entry m p =
     (case fmlookup (nm_peers m) p of None \<Rightarrow> peer_membership_new p | Some e \<Rightarrow> e)"

definition set_peer_member :: "network_membership \<Rightarrow> node_id \<Rightarrow> bool \<Rightarrow> bool \<times> network_membership" where
  "set_peer_member m p member =
     (let e = peer_entry m p; changed = (pm_member e \<noteq> member)
      in (changed, m\<lparr>nm_peers := fmupd p (e\<lparr>pm_member := member\<rparr>) (nm_peers m)\<rparr>))"

definition trust_peer :: "network_membership \<Rightarrow> node_id \<Rightarrow> bool \<times> network_membership" where
  "trust_peer m p =
     (let e = peer_entry m p; changed = (\<not> pm_trusted e)
      in (changed, m\<lparr>nm_peers := fmupd p (e\<lparr>pm_trusted := True\<rparr>) (nm_peers m)\<rparr>))"

definition untrust_peer :: "network_membership \<Rightarrow> node_id \<Rightarrow> bool \<times> network_membership" where
  "untrust_peer m p =
     (case fmlookup (nm_peers m) p of
        None \<Rightarrow> (False, m)
      | Some e \<Rightarrow>
          (pm_trusted e, m\<lparr>nm_peers := fmupd p (e\<lparr>pm_trusted := False\<rparr>) (nm_peers m)\<rparr>))"

definition forget_peer :: "network_membership \<Rightarrow> node_id \<Rightarrow> bool \<times> network_membership" where
  "forget_peer m p =
     (fmlookup (nm_peers m) p \<noteq> None, m\<lparr>nm_peers := fmdrop p (nm_peers m)\<rparr>)"

definition is_peer_known :: "network_membership \<Rightarrow> node_id \<Rightarrow> bool" where
  "is_peer_known m p = (fmlookup (nm_peers m) p \<noteq> None)"

definition is_peer_member :: "network_membership \<Rightarrow> node_id \<Rightarrow> bool" where
  "is_peer_member m p = (case fmlookup (nm_peers m) p of None \<Rightarrow> False | Some e \<Rightarrow> pm_member e)"

definition is_peer_trusted :: "network_membership \<Rightarrow> node_id \<Rightarrow> bool" where
  "is_peer_trusted m p = (case fmlookup (nm_peers m) p of None \<Rightarrow> False | Some e \<Rightarrow> pm_trusted e)"

definition trusted_peers :: "network_membership \<Rightarrow> node_id list" where
  "trusted_peers m = map fst (filter (\<lambda>(n, e). pm_trusted e) (sorted_list_of_fmap (nm_peers m)))"

section \<open>The registry of networks\<close>

record membership_registry =
  mr_networks :: "(network_id, network_membership) fmap"

definition remember_network ::
  "membership_registry \<Rightarrow> network_membership \<Rightarrow> network_membership option \<times> membership_registry" where
  "remember_network r m =
     (fmlookup (mr_networks r) (nm_network_id m),
      r\<lparr>mr_networks := fmupd (nm_network_id m) m (mr_networks r)\<rparr>)"

definition registry_network :: "membership_registry \<Rightarrow> network_id \<Rightarrow> network_membership option" where
  "registry_network r i = fmlookup (mr_networks r) i"

text \<open>The mutable borrow \<open>network_mut\<close>, as the function that runs the update made through it.\<close>

definition network_mut ::
  "membership_registry \<Rightarrow> network_id \<Rightarrow> (network_membership \<Rightarrow> 'a \<times> network_membership) \<Rightarrow>
   ('a \<times> membership_registry) option" where
  "network_mut r i update =
     (case fmlookup (mr_networks r) i of
        None \<Rightarrow> None
      | Some m \<Rightarrow> (case update m of (x, m') \<Rightarrow> Some (x, r\<lparr>mr_networks := fmupd i m' (mr_networks r)\<rparr>)))"

definition forget_network ::
  "membership_registry \<Rightarrow> network_id \<Rightarrow> network_membership option \<times> membership_registry" where
  "forget_network r i =
     (fmlookup (mr_networks r) i, r\<lparr>mr_networks := fmdrop i (mr_networks r)\<rparr>)"

section \<open>The state machine of the local node\<close>

text \<open>The accepted transitions. A node becomes a member only through \<open>Joining\<close> (or by cancelling
  \<open>Leaving\<close>), stops being one only through \<open>Leaving\<close>, every state may repeat itself, and every
  refused transition is an \<open>InvalidState\<close> error.\<close>

theorem transition_allowed:
  "(transition s Member = Inr Member \<longleftrightarrow> s \<noteq> NotMember) \<and>
   (transition s NotMember = Inr NotMember \<longleftrightarrow> s \<noteq> Member) \<and>
   (transition s Joining = Inr Joining \<longleftrightarrow> s = NotMember \<or> s = Joining) \<and>
   (transition s Leaving = Inr Leaving \<longleftrightarrow> s = Member \<or> s = Leaving) \<and>
   (case transition s t of Inr u \<Rightarrow> u = t | Inl e \<Rightarrow> err_kind e = InvalidState)"
  by (cases s; cases t) (simp_all add: transition_def)

section \<open>Trust and membership follow the history of calls\<close>

datatype peer_op =
  RememberPeer node_id | SetPeerMember node_id bool | TrustPeer node_id | UntrustPeer node_id
| ForgetPeer node_id

fun apply_peer_op :: "peer_op \<Rightarrow> network_membership \<Rightarrow> network_membership" where
  "apply_peer_op (RememberPeer p) m = snd (remember_peer m p)"
| "apply_peer_op (SetPeerMember p b) m = snd (set_peer_member m p b)"
| "apply_peer_op (TrustPeer p) m = snd (trust_peer m p)"
| "apply_peer_op (UntrustPeer p) m = snd (untrust_peer m p)"
| "apply_peer_op (ForgetPeer p) m = snd (forget_peer m p)"

text \<open>The specification: the set of trusted peers and the set of member peers.\<close>

fun spec_peer_op :: "peer_op \<Rightarrow> node_id set \<times> node_id set \<Rightarrow> node_id set \<times> node_id set" where
  "spec_peer_op (RememberPeer p) (trusted, members) = (trusted, members)"
| "spec_peer_op (SetPeerMember p b) (trusted, members) =
     (trusted, if b then insert p members else members - {p})"
| "spec_peer_op (TrustPeer p) (trusted, members) = (insert p trusted, members)"
| "spec_peer_op (UntrustPeer p) (trusted, members) = (trusted - {p}, members)"
| "spec_peer_op (ForgetPeer p) (trusted, members) = (trusted - {p}, members - {p})"

definition membership_abs :: "network_membership \<Rightarrow> node_id set \<times> node_id set" where
  "membership_abs m = ({p. is_peer_trusted m p}, {p. is_peer_member m p})"

lemmas peer_op_defs = remember_peer_def set_peer_member_def trust_peer_def untrust_peer_def
  forget_peer_def peer_entry_def peer_membership_new_def is_peer_trusted_def is_peer_member_def

lemma membership_abs_step: "membership_abs (apply_peer_op op m) = spec_peer_op op (membership_abs m)"
  by (cases op)
    (auto simp: membership_abs_def peer_op_defs Let_def split: option.splits if_splits)

text \<open>C39: after any sequence of calls on a new network, the trusted and the member peers are those of
  the set specification. Membership never implies trust, trust never implies membership, and
  forgetting a peer removes both.\<close>

theorem membership_refines_sets:
  "membership_abs (fold apply_peer_op ops (network_membership_new i name)) =
     fold spec_peer_op ops ({}, {})"
proof -
  have "membership_abs (fold apply_peer_op ops m) = fold spec_peer_op ops (membership_abs m)" for m
    by (induction ops arbitrary: m) (simp_all add: membership_abs_step)
  moreover have "membership_abs (network_membership_new i name) = ({}, {})"
    by (simp add: membership_abs_def network_membership_new_def is_peer_trusted_def is_peer_member_def)
  ultimately show ?thesis by simp
qed

lemma set_trusted_peers: "set (trusted_peers m) = {p. is_peer_trusted m p}"
  by (force simp: trusted_peers_def set_sorted_list_of_fmap is_peer_trusted_def split: option.splits)

end
