(* ===== verification/Capability.thy ===== *)
theory Capability
  imports Ids
begin

text \<open>
  \<open>crates/blueroute-core/src/capability.rs\<close> and \<open>health.rs\<close>: sourced capability facts, where
  unknown (\<open>None\<close>) stays distinct from a known \<open>false\<close>, and the aggregate health level.
\<close>

section \<open>Capabilities\<close>

datatype capability_source = Discovered | Measured | Configured | ConservativeDefault

record 'a sourced =
  src_value :: 'a
  src_source :: capability_source

definition sourced_new :: "'a \<Rightarrow> capability_source \<Rightarrow> 'a sourced" where
  "sourced_new v s = \<lparr>src_value = v, src_source = s\<rparr>"

datatype network_backend = NetworkManager | SystemdNetworkd | DirectNetlink | Other ustring

record link_quality =
  lq_score :: u8

definition link_quality_new :: "u8 \<Rightarrow> link_quality" where
  "link_quality_new s = \<lparr>lq_score = s\<rparr>"

datatype power_state = AcPowered | Battery (battery_percent: u8)

record node_capabilities =
  cap_adapter_usable :: "bool sourced option"
  cap_panu :: "bool sourced option"
  cap_nap :: "bool sourced option"
  cap_routing :: "bool sourced option"
  cap_network_backend :: "network_backend sourced option"
  cap_connection_policy_ceiling :: "u16 sourced option"
  cap_link_quality :: "link_quality sourced option"
  cap_power_state :: "power_state sourced option"
  cap_has_internet :: "bool sourced option"
  cap_willing_to_share_internet :: "bool sourced option"

definition default_capabilities :: node_capabilities where
  "default_capabilities =
     \<lparr>cap_adapter_usable = None, cap_panu = None, cap_nap = None, cap_routing = None,
      cap_network_backend = None, cap_connection_policy_ceiling = None,
      cap_link_quality = None, cap_power_state = None, cap_has_internet = None,
      cap_willing_to_share_internet = None\<rparr>"

definition can_join_pan :: "node_capabilities \<Rightarrow> bool option" where
  "can_join_pan c = map_option src_value (cap_panu c)"

definition can_host_pan :: "node_capabilities \<Rightarrow> bool option" where
  "can_host_pan c = map_option src_value (cap_nap c)"

definition can_route :: "node_capabilities \<Rightarrow> bool option" where
  "can_route c = map_option src_value (cap_routing c)"

text \<open>The expression \<open>adapter_usable.as_ref().map(|v| v.value)\<close>, which several modules repeat.\<close>

definition adapter_usable :: "node_capabilities \<Rightarrow> bool option" where
  "adapter_usable c = map_option src_value (cap_adapter_usable c)"

lemma sourced_new_sels [simp]:
  "src_value (sourced_new v s) = v" "src_source (sourced_new v s) = s"
  by (simp_all add: sourced_new_def)

section \<open>Health\<close>

datatype health_level = Healthy | Degraded | Reconnecting | Error

definition severity :: "health_level \<Rightarrow> nat" where
  "severity l = (case l of Healthy \<Rightarrow> 0 | Degraded \<Rightarrow> 1 | Reconnecting \<Rightarrow> 2 | Error \<Rightarrow> 3)"

record health_component =
  hc_level :: health_level
  hc_required :: bool

record node_health =
  nh_adapter :: "health_component option"
  nh_runtime_prerequisites :: "health_component option"
  nh_membership :: "health_component option"
  nh_links :: "health_component option"
  nh_topology :: "health_component option"
  nh_gateway :: "health_component option"

text \<open>One turn of the loop of \<open>aggregate\<close>; an absent component is skipped by \<open>flatten\<close>.\<close>

definition aggregate_step :: "health_component option \<Rightarrow> health_level \<Rightarrow> health_level" where
  "aggregate_step c result =
     (case c of None \<Rightarrow> result
      | Some component \<Rightarrow>
          if \<not> hc_required component \<and> hc_level component = Error
          then (if severity result < severity Degraded then Degraded else result)
          else if severity (hc_level component) > severity result then hc_level component
          else result)"

definition health_components :: "node_health \<Rightarrow> health_component option list" where
  "health_components h =
     [nh_adapter h, nh_runtime_prerequisites h, nh_membership h, nh_links h, nh_topology h,
      nh_gateway h]"

definition aggregate :: "node_health \<Rightarrow> health_level" where
  "aggregate h = fold aggregate_step (health_components h) Healthy"

text \<open>
  What a component contributes: its own level, except that a failed optional component
  counts as degraded only.
\<close>

definition contribution :: "health_component \<Rightarrow> health_level" where
  "contribution c =
     (if \<not> hc_required c \<and> hc_level c = Error then Degraded else hc_level c)"

lemma severity_inj [simp]: "severity a = severity b \<longleftrightarrow> a = b"
  by (cases a; cases b) (simp_all add: severity_def)

lemma severity_aggregate_step:
  "severity (aggregate_step c r) =
     (case c of None \<Rightarrow> severity r | Some k \<Rightarrow> max (severity r) (severity (contribution k)))"
  by (auto simp: aggregate_step_def contribution_def max_def split: option.splits)

lemma severity_fold_aggregate:
  "severity (fold aggregate_step cs r) =
     foldl max (severity r) (map (severity \<circ> contribution) (List.map_filter id cs))"
  by (induction cs arbitrary: r)
    (auto simp: severity_aggregate_step map_filter_simps split: option.splits)

lemma aggregate_contributions:
  "(\<forall>c. Some c \<in> set cs \<longrightarrow> severity (contribution c) \<le> severity (fold aggregate_step cs r)) \<and>
   severity r \<le> severity (fold aggregate_step cs r) \<and>
   (fold aggregate_step cs r = r \<or>
    (\<exists>c. Some c \<in> set cs \<and> fold aggregate_step cs r = contribution c))"
proof (induction cs arbitrary: r)
  case (Cons x cs)
  have step: "severity r \<le> severity (aggregate_step x r) \<and>
      (\<forall>c. x = Some c \<longrightarrow> severity (contribution c) \<le> severity (aggregate_step x r)) \<and>
      (aggregate_step x r = r \<or> (\<exists>c. x = Some c \<and> aggregate_step x r = contribution c))"
  proof (cases x)
    case (Some c)
    then show ?thesis
      by (cases "hc_required c"; cases r; cases "hc_level c")
        (simp_all add: aggregate_step_def contribution_def severity_def)
  qed (simp add: aggregate_step_def)
  show ?case using Cons [of "aggregate_step x r"] step by (fastforce intro: order_trans)
qed simp

text \<open>The aggregate health is the worst contribution of the present components, where an
  optional component in error contributes only \<open>Degraded\<close>; so it is \<open>Error\<close> exactly when a required
  component is in error.\<close>

theorem aggregate_is_worst:
  "(\<forall>c. Some c \<in> set (health_components h) \<longrightarrow> severity (contribution c) \<le> severity (aggregate h)) \<and>
   (aggregate h = Healthy \<or>
    (\<exists>c. Some c \<in> set (health_components h) \<and> aggregate h = contribution c)) \<and>
   (aggregate h = Error \<longleftrightarrow>
    (\<exists>c. Some c \<in> set (health_components h) \<and> hc_required c \<and> hc_level c = Error))"
proof -
  note w = aggregate_contributions [of "health_components h" Healthy, folded aggregate_def]
  have top: "severity l \<le> severity Error \<and> (severity Error \<le> severity l \<longleftrightarrow> l = Error)" for l
    by (cases l) (simp_all add: severity_def)
  have err: "contribution c = Error \<longleftrightarrow> hc_required c \<and> hc_level c = Error" for c
    by (auto simp: contribution_def)
  show ?thesis using w top err by (metis health_level.distinct(5))
qed

theorem aggregate_is_worst_witness:
  "aggregate \<lparr>nh_adapter = Some \<lparr>hc_level = Reconnecting, hc_required = True\<rparr>,
     nh_runtime_prerequisites = None, nh_membership = None, nh_links = None, nh_topology = None,
     nh_gateway = Some \<lparr>hc_level = Error, hc_required = False\<rparr>\<rparr> \<noteq> Error"
  by (subst aggregate_is_worst [THEN conjunct2, THEN conjunct2])
    (auto simp: health_components_def)

end
