(* ===== verification/Topology.thy ===== *)
theory Topology
  imports Capability
begin

text \<open>
  \<open>crates/blueroute-core/src/topology.rs\<close>: PAN links and segments, the topology graph with its
  mutators, and the breadth-first \<open>shortest_path\<close>. The search is a loop over a queue; its state is
  the queue, the \<open>previous\<close> map and the \<open>visited\<close> set, as in the code.
\<close>

section \<open>Links and segments\<close>

datatype link_state = Planned | Connecting | Active | Disconnected | Failed

datatype link_health = Unknown | Healthy | Degraded | Failed

datatype reachability = Local | DirectLink | SamePanSegment | Routed | Unreachable

record pan_link =
  pl_id :: link_id
  pl_segment_id :: segment_id
  pl_nap :: node_id
  pl_panu :: node_id
  pl_state :: link_state
  pl_health :: link_health
  pl_cost :: u32

definition is_forwarding_candidate :: "pan_link \<Rightarrow> bool" where
  "is_forwarding_candidate l \<longleftrightarrow> pl_state l = Active \<and> pl_health l \<noteq> link_health.Failed"

definition other_endpoint :: "pan_link \<Rightarrow> node_id \<Rightarrow> node_id option" where
  "other_endpoint l node =
     (if node = pl_nap l then Some (pl_panu l)
      else if node = pl_panu l then Some (pl_nap l)
      else None)"

record pan_segment =
  ps_id :: segment_id
  ps_nap :: node_id
  ps_members :: "node_id fset"

definition pan_segment_new :: "segment_id \<Rightarrow> node_id \<Rightarrow> pan_segment" where
  "pan_segment_new i nap = \<lparr>ps_id = i, ps_nap = nap, ps_members = {|nap|}\<rparr>"

definition add_member :: "pan_segment \<Rightarrow> node_id \<Rightarrow> bool \<times> pan_segment" where
  "add_member s node = (node |\<notin>| ps_members s, s\<lparr>ps_members := finsert node (ps_members s)\<rparr>)"

section \<open>The topology graph\<close>

record topology_graph =
  tg_nodes :: "(node_id, node_capabilities) fmap"
  tg_links :: "(link_id, pan_link) fmap"
  tg_segments :: "(segment_id, pan_segment) fmap"

definition empty_graph :: topology_graph where
  "empty_graph = \<lparr>tg_nodes = fmempty, tg_links = fmempty, tg_segments = fmempty\<rparr>"

definition add_node :: "topology_graph \<Rightarrow> node_id \<Rightarrow> node_capabilities \<Rightarrow> bool \<times> topology_graph" where
  "add_node g i capabilities =
     (fmlookup (tg_nodes g) i = None, g\<lparr>tg_nodes := fmupd i capabilities (tg_nodes g)\<rparr>)"

definition remove_node :: "topology_graph \<Rightarrow> node_id \<Rightarrow> node_capabilities option \<times> topology_graph" where
  "remove_node g i =
     (case fmlookup (tg_nodes g) i of
        None \<Rightarrow> (None, g)
      | Some removed \<Rightarrow>
          (Some removed,
           g\<lparr>tg_nodes := fmdrop i (tg_nodes g),
             tg_links := fm_retain (\<lambda>_ link. pl_nap link \<noteq> i \<and> pl_panu link \<noteq> i) (tg_links g),
             tg_segments :=
               fmmap (\<lambda>s. s\<lparr>ps_members := ps_members s |-| {|i|}\<rparr>)
                 (fm_retain (\<lambda>_ segment. ps_nap segment \<noteq> i) (tg_segments g))\<rparr>))"

definition graph_node :: "topology_graph \<Rightarrow> node_id \<Rightarrow> node_capabilities option" where
  "graph_node g i = fmlookup (tg_nodes g) i"

definition add_segment :: "topology_graph \<Rightarrow> pan_segment \<Rightarrow> bool core_result \<times> topology_graph" where
  "add_segment g segment =
     (if fmlookup (tg_nodes g) (ps_nap segment) = None
      then (Inl (core_error_new TopologyFailure
              ''PAN segment NAP is not present in the topology''), g)
      else (Inr (fmlookup (tg_segments g) (ps_id segment) = None),
            g\<lparr>tg_segments := fmupd (ps_id segment) segment (tg_segments g)\<rparr>))"

definition add_link :: "topology_graph \<Rightarrow> pan_link \<Rightarrow> bool core_result \<times> topology_graph" where
  "add_link g link =
     (if pl_nap link = pl_panu link
      then (Inl (core_error_new TopologyFailure ''PAN link endpoints must be different nodes''), g)
      else if fmlookup (tg_nodes g) (pl_nap link) = None \<or> fmlookup (tg_nodes g) (pl_panu link) = None
      then (Inl (core_error_new TopologyFailure
              ''PAN link endpoint is not present in the topology''), g)
      else case fmlookup (tg_segments g) (pl_segment_id link) of
        None \<Rightarrow> (Inl (core_error_new TopologyFailure ''PAN link references an unknown segment''), g)
      | Some segment \<Rightarrow>
          if ps_nap segment \<noteq> pl_nap link
          then (Inl (core_error_new TopologyFailure ''PAN link NAP does not match the segment NAP''), g)
          else (Inr (fmlookup (tg_links g) (pl_id link) = None),
                g\<lparr>tg_segments := fmupd (pl_segment_id link) (snd (add_member segment (pl_panu link)))
                    (tg_segments g),
                  tg_links := fmupd (pl_id link) link (tg_links g)\<rparr>))"

definition remove_link :: "topology_graph \<Rightarrow> link_id \<Rightarrow> pan_link option \<times> topology_graph" where
  "remove_link g i =
     (case fmlookup (tg_links g) i of
        None \<Rightarrow> (None, g)
      | Some removed \<Rightarrow>
          let links = fmdrop i (tg_links g);
              segments =
                (case fmlookup (tg_segments g) (pl_segment_id removed) of
                   None \<Rightarrow> tg_segments g
                 | Some segment \<Rightarrow>
                     let still_attached = list_ex (\<lambda>link.
                           pl_segment_id link = pl_segment_id removed \<and> pl_panu link = pl_panu removed)
                           (fm_values links)
                     in if still_attached then tg_segments g
                        else fmupd (pl_segment_id removed)
                               (segment\<lparr>ps_members := ps_members segment |-| {|pl_panu removed|}\<rparr>)
                               (tg_segments g))
          in (Some removed, g\<lparr>tg_links := links, tg_segments := segments\<rparr>))"

definition direct_neighbors :: "topology_graph \<Rightarrow> node_id \<Rightarrow> node_id fset" where
  "direct_neighbors g node =
     fset_of_list (List.map_filter (\<lambda>link. other_endpoint link node)
       (filter is_forwarding_candidate (fm_values (tg_links g))))"

section \<open>Shortest paths\<close>

text \<open>The inner \<open>while let\<close> that walks back from \<open>end\<close> along \<open>previous\<close>. The first argument bounds the
  number of turns; the caller passes the size of \<open>previous\<close>, which the search never exhausts
  because the nodes of the walk are different keys of that map.\<close>

fun walk_back ::
  "nat \<Rightarrow> node_id \<Rightarrow> (node_id, node_id) fmap \<Rightarrow> node_id \<Rightarrow> node_id list \<Rightarrow> node_id list option" where
  "walk_back 0 start previous cursor path = None"
| "walk_back (Suc fuel) start previous cursor path =
     (case fmlookup previous cursor of
        None \<Rightarrow> None
      | Some parent \<Rightarrow>
          let path = path @ [parent] in
          if parent = start then Some (rev path)
          else walk_back fuel start previous parent path)"

text \<open>The \<open>for\<close> loop over the neighbors of \<open>current\<close>: \<open>Inl path\<close> is the early return.\<close>

type_synonym bfs_state = "node_id list \<times> (node_id, node_id) fmap \<times> node_id fset"

fun bfs_neighbors ::
  "node_id \<Rightarrow> node_id \<Rightarrow> node_id \<Rightarrow> node_id list \<Rightarrow> bfs_state \<Rightarrow> node_id list + bfs_state" where
  "bfs_neighbors start end current [] st = Inr st"
| "bfs_neighbors start end current (neighbor # rest) (queue, previous, visited) =
     (if neighbor |\<in>| visited
      then bfs_neighbors start end current rest (queue, previous, visited)
      else let visited = finsert neighbor visited;
               previous = fmupd neighbor current previous;
               continue = bfs_neighbors start end current rest (queue @ [neighbor], previous, visited)
           in if neighbor = end
              then case walk_back (fm_len previous) start previous end [end] of
                     Some path \<Rightarrow> Inl path | None \<Rightarrow> continue
              else continue)"

definition link_endpoints :: "topology_graph \<Rightarrow> node_id set" where
  "link_endpoints g = (\<Union>l \<in> set (fm_values (tg_links g)). {pl_nap l, pl_panu l})"

lemma finite_link_endpoints [simp]: "finite (link_endpoints g)"
  by (simp add: link_endpoints_def)

lemma direct_neighbors_iff:
  "n |\<in>| direct_neighbors g u \<longleftrightarrow>
     (\<exists>i l. fmlookup (tg_links g) i = Some l \<and> is_forwarding_candidate l \<and> other_endpoint l u = Some n)"
  by (auto simp: direct_neighbors_def fset_of_list_elem set_map_filter set_fm_values)

lemma direct_neighbors_endpoints: "n |\<in>| direct_neighbors g u \<Longrightarrow> n \<in> link_endpoints g"
  by (fastforce simp: direct_neighbors_iff link_endpoints_def set_fm_values other_endpoint_def
      split: if_splits)

text \<open>Each neighbor that is queued leaves the unvisited endpoints, so the search ends.\<close>

lemma bfs_neighbors_measure:
  assumes "bfs_neighbors start end current ns (q, p, v) = Inr (q', p', v')"
    and "set ns \<subseteq> E" and "finite E"
  shows "2 * card (E - fset v') + length q' \<le> 2 * card (E - fset v) + length q"
  using assms(1,2)
proof (induction ns arbitrary: q p v)
  case (Cons n ns)
  show ?case
  proof (cases "n |\<in>| v")
    case False
    have cont: "bfs_neighbors start end current ns (q @ [n], fmupd n current p, finsert n v) = Inr (q', p', v')"
      using Cons.prems(1) False by (auto simp: Let_def split: if_splits option.splits)
    have "card (E - fset v) = Suc (card (E - fset (finsert n v)))"
      using False Cons.prems(2) assms(3) card_Suc_Diff1 [of "E - fset v" n]
      by (simp add: Diff_insert [of E n])
    then show ?thesis using Cons.IH [OF cont] Cons.prems(2) by simp
  qed (use Cons in simp)
qed simp

function bfs_loop :: "topology_graph \<Rightarrow> node_id \<Rightarrow> node_id \<Rightarrow> bfs_state \<Rightarrow> node_id list option" where
  "bfs_loop g start end (queue, previous, visited) =
     (case queue of
        [] \<Rightarrow> None
      | current # queue \<Rightarrow>
          (case bfs_neighbors start end current (sorted_list_of_fset (direct_neighbors g current))
                  (queue, previous, visited) of
             Inl path \<Rightarrow> Some path
           | Inr st \<Rightarrow> bfs_loop g start end st))"
  by pat_completeness auto

termination
proof (relation "measure (\<lambda>(g, s, e, q, p, v). 2 * card (link_endpoints g - fset v) + length q)")
  fix g start "end" queue previous visited current rest st
  assume q: "queue = current # rest"
    and r: "bfs_neighbors start end current (sorted_list_of_fset (direct_neighbors g current))
      (rest, previous, visited) = Inr st"
  obtain q' p' v' where st: "st = (q', p', v')" by (cases st)
  have sub: "set (sorted_list_of_fset (direct_neighbors g current)) \<subseteq> link_endpoints g"
    using direct_neighbors_endpoints by auto
  show "((g, start, end, st), (g, start, end, queue, previous, visited)) \<in>
      measure (\<lambda>(g, s, e, q, p, v). 2 * card (link_endpoints g - fset v) + length q)"
    using bfs_neighbors_measure [OF r [unfolded st] sub] by (simp add: q st)
qed simp

declare bfs_loop.simps [simp del]

definition shortest_path :: "topology_graph \<Rightarrow> node_id \<Rightarrow> node_id \<Rightarrow> node_id list option" where
  "shortest_path g start end =
     (if fmlookup (tg_nodes g) start = None \<or> fmlookup (tg_nodes g) end = None then None
      else if start = end then Some [start]
      else bfs_loop g start end ([start], fmempty, {|start|}))"

definition is_directly_reachable :: "topology_graph \<Rightarrow> node_id \<Rightarrow> node_id \<Rightarrow> bool" where
  "is_directly_reachable g start end \<longleftrightarrow> end |\<in>| direct_neighbors g start"

definition node_is_active_in_segment :: "topology_graph \<Rightarrow> node_id \<Rightarrow> segment_id \<Rightarrow> bool" where
  "node_is_active_in_segment g node segment_id =
     (case fmlookup (tg_segments g) segment_id of
        None \<Rightarrow> False
      | Some segment \<Rightarrow>
          node = ps_nap segment \<or>
          list_ex (\<lambda>link. pl_segment_id link = segment_id \<and> pl_panu link = node \<and>
            is_forwarding_candidate link) (fm_values (tg_links g)))"

definition graph_reachability :: "topology_graph \<Rightarrow> node_id \<Rightarrow> node_id \<Rightarrow> reachability" where
  "graph_reachability g start end =
     (case shortest_path g start end of
        None \<Rightarrow> Unreachable
      | Some path \<Rightarrow>
          if length path = 1 then Local
          else if length path = 2 then DirectLink
          else if list_ex (\<lambda>segment. node_is_active_in_segment g start (ps_id segment) \<and>
                 node_is_active_in_segment g end (ps_id segment)) (fm_values (tg_segments g))
          then SamePanSegment else Routed)"

definition is_routed_reachable :: "topology_graph \<Rightarrow> node_id \<Rightarrow> node_id \<Rightarrow> bool" where
  "is_routed_reachable g start end \<longleftrightarrow> graph_reachability g start end = Routed"

section \<open>The graph invariant\<close>

definition segment_panus :: "topology_graph \<Rightarrow> segment_id \<Rightarrow> node_id set" where
  "segment_panus g j = pl_panu ` {l \<in> fmran' (tg_links g). pl_segment_id l = j}"

lemma fmran'_insert_new: "fmlookup m k = None \<Longrightarrow> fmran' (fmupd k v m) = insert v (fmran' m)"
  by (rule set_eqI) (simp add: fmlookup_ran'_iff, metis option.distinct(1))

lemma fmran'_drop: "fmlookup m k = Some v \<Longrightarrow> fmran' m = insert v (fmran' (fmdrop k m))"
  by (rule set_eqI) (simp add: fmlookup_ran'_iff, metis option.distinct(1) option.inject)

lemma set_fm_values_ran: "set (fm_values m) = fmran' m"
  by (auto simp: set_fm_values fmlookup_ran'_iff)

lemma pan_segment_new_sels [simp]:
  "ps_id (pan_segment_new i nap) = i" "ps_nap (pan_segment_new i nap) = nap"
  "ps_members (pan_segment_new i nap) = {|nap|}"
  by (simp_all add: pan_segment_new_def)

text \<open>A link joins two different nodes of the graph, its segment exists and has the link's NAP.\<close>

definition link_ok :: "topology_graph \<Rightarrow> link_id \<Rightarrow> pan_link \<Rightarrow> bool" where
  "link_ok g i l \<longleftrightarrow> pl_id l = i \<and> pl_nap l \<noteq> pl_panu l \<and>
     pl_nap l |\<in>| fmdom (tg_nodes g) \<and> pl_panu l |\<in>| fmdom (tg_nodes g) \<and>
     (\<exists>s. fmlookup (tg_segments g) (pl_segment_id l) = Some s \<and> ps_nap s = pl_nap l)"

text \<open>A segment's NAP is a node, and its members are the NAP and the PANUs of its links.\<close>

definition segment_ok :: "topology_graph \<Rightarrow> segment_id \<Rightarrow> pan_segment \<Rightarrow> bool" where
  "segment_ok g j s \<longleftrightarrow> ps_id s = j \<and> ps_nap s |\<in>| fmdom (tg_nodes g) \<and>
     fset (ps_members s) = insert (ps_nap s) (segment_panus g j)"

definition graph_inv :: "topology_graph \<Rightarrow> bool" where
  "graph_inv g \<longleftrightarrow> (\<forall>i l. fmlookup (tg_links g) i = Some l \<longrightarrow> link_ok g i l) \<and>
     (\<forall>j s. fmlookup (tg_segments g) j = Some s \<longrightarrow> segment_ok g j s)"

text \<open>The graphs that the mutators build when segments and links get new identifiers;
  \<open>add_segment\<close> and \<open>add_link\<close> themselves replace an entry whose identifier is in use.\<close>

inductive graph_built :: "topology_graph \<Rightarrow> bool" where
  empty: "graph_built empty_graph"
| add_node: "graph_built g \<Longrightarrow> graph_built (snd (add_node g i caps))"
| remove_node: "graph_built g \<Longrightarrow> graph_built (snd (remove_node g i))"
| add_segment: "graph_built g \<Longrightarrow> fmlookup (tg_segments g) i = None \<Longrightarrow>
    graph_built (snd (add_segment g (pan_segment_new i nap)))"
| add_link: "graph_built g \<Longrightarrow> fmlookup (tg_links g) (pl_id l) = None \<Longrightarrow>
    graph_built (snd (add_link g l))"
| remove_link: "graph_built g \<Longrightarrow> graph_built (snd (remove_link g i))"

lemma graph_invD:
  assumes "graph_inv g"
  shows "fmlookup (tg_links g) i = Some l \<Longrightarrow> link_ok g i l"
    and "fmlookup (tg_segments g) j = Some s \<Longrightarrow> segment_ok g j s"
  using assms unfolding graph_inv_def by blast+

lemma graph_inv_add_node: "graph_inv g \<Longrightarrow> graph_inv (snd (add_node g i caps))"
  by (auto simp: graph_inv_def add_node_def link_ok_def segment_ok_def segment_panus_def)

lemma graph_inv_remove_node:
  assumes inv: "graph_inv g"
  shows "graph_inv (snd (remove_node g i))" (is "graph_inv ?g")
proof (cases "fmlookup (tg_nodes g) i")
  case (Some caps)
  have nodes: "fmdom (tg_nodes ?g) = fmdom (tg_nodes g) |-| {|i|}"
    using Some by (simp add: remove_node_def)
  have links: "fmlookup (tg_links ?g) k = Some l \<longleftrightarrow>
      fmlookup (tg_links g) k = Some l \<and> pl_nap l \<noteq> i \<and> pl_panu l \<noteq> i" for k l
    using Some by (auto simp: remove_node_def split: option.splits)
  have segments: "fmlookup (tg_segments ?g) j = Some t \<longleftrightarrow>
      (\<exists>s. fmlookup (tg_segments g) j = Some s \<and> ps_nap s \<noteq> i \<and>
         t = s\<lparr>ps_members := ps_members s |-| {|i|}\<rparr>)" for j t
    using Some by (auto simp: remove_node_def split: option.splits)
  have "link_ok ?g k l" if "fmlookup (tg_links ?g) k = Some l" for k l
  proof -
    have l: "fmlookup (tg_links g) k = Some l" "pl_nap l \<noteq> i" "pl_panu l \<noteq> i"
      using that links by simp_all
    then obtain s where "fmlookup (tg_segments g) (pl_segment_id l) = Some s" "ps_nap s = pl_nap l"
      using graph_invD(1) [OF inv l(1)] by (auto simp: link_ok_def)
    then have "fmlookup (tg_segments ?g) (pl_segment_id l) = Some (s\<lparr>ps_members := ps_members s |-| {|i|}\<rparr>)"
      using l(2) by (auto simp only: segments)
    then show ?thesis
      using graph_invD(1) [OF inv l(1)] l \<open>ps_nap s = pl_nap l\<close> by (simp add: link_ok_def nodes)
  qed
  moreover have "segment_ok ?g j t" if t: "fmlookup (tg_segments ?g) j = Some t" for j t
  proof -
    obtain s where s: "fmlookup (tg_segments g) j = Some s" "ps_nap s \<noteq> i"
      "t = s\<lparr>ps_members := ps_members s |-| {|i|}\<rparr>"
      using t unfolding segments by blast
    have nap: "pl_nap l \<noteq> i" if "fmlookup (tg_links g) k = Some l" "pl_segment_id l = j" for k l
      using graph_invD(1) [OF inv that(1)] that(2) s(1,2) by (auto simp: link_ok_def)
    have "l \<in> fmran' (tg_links ?g) \<longleftrightarrow> l \<in> fmran' (tg_links g) \<and> pl_panu l \<noteq> i" if "pl_segment_id l = j" for l
      using nap that by (auto simp: fmlookup_ran'_iff links)
    then have "segment_panus ?g j = segment_panus g j - {i}" by (auto simp: segment_panus_def)
    then show ?thesis using graph_invD(2) [OF inv s(1)] s by (auto simp: segment_ok_def nodes)
  qed
  ultimately show ?thesis unfolding graph_inv_def by blast
qed (simp add: remove_node_def inv)

lemma graph_inv_add_segment:
  assumes inv: "graph_inv g" and new: "fmlookup (tg_segments g) i = None"
  shows "graph_inv (snd (add_segment g (pan_segment_new i nap)))" (is "graph_inv ?g")
proof (cases "nap |\<in>| fmdom (tg_nodes g)")
  case True
  then have nodes: "tg_nodes ?g = tg_nodes g" and links: "tg_links ?g = tg_links g"
    and segs: "tg_segments ?g = fmupd i (pan_segment_new i nap) (tg_segments g)"
    by (auto simp: add_segment_def fmlookup_dom_iff)
  have none: "segment_panus g i = {}"
    using graph_invD(1) [OF inv] new
    by (fastforce simp: segment_panus_def fmlookup_ran'_iff link_ok_def)
  have "link_ok ?g k l" if "fmlookup (tg_links ?g) k = Some l" for k l
    using that graph_invD(1) [OF inv, of k l] new by (auto simp: nodes links segs link_ok_def)
  moreover have "segment_ok ?g j t" if "fmlookup (tg_segments ?g) j = Some t" for j t
    using that graph_invD(2) [OF inv, of j t] none True
    by (auto simp: nodes links segs segment_panus_def segment_ok_def split: if_splits)
  ultimately show ?thesis unfolding graph_inv_def by blast
qed (use inv in \<open>simp add: add_segment_def fmlookup_dom_iff\<close>)

lemma graph_inv_add_link:
  assumes inv: "graph_inv g" and new: "fmlookup (tg_links g) (pl_id l) = None"
  shows "graph_inv (snd (add_link g l))" (is "graph_inv ?g")
proof (cases "snd (add_link g l) = g")
  case False
  then obtain s where s: "fmlookup (tg_segments g) (pl_segment_id l) = Some s" "ps_nap s = pl_nap l"
    "pl_nap l \<noteq> pl_panu l" "pl_nap l |\<in>| fmdom (tg_nodes g)" "pl_panu l |\<in>| fmdom (tg_nodes g)"
    and segs: "tg_segments ?g = fmupd (pl_segment_id l)
        (s\<lparr>ps_members := finsert (pl_panu l) (ps_members s)\<rparr>) (tg_segments g)"
    and links: "tg_links ?g = fmupd (pl_id l) l (tg_links g)" and nodes: "tg_nodes ?g = tg_nodes g"
    by (auto simp: add_link_def add_member_def fmlookup_dom_iff split: if_splits option.splits)
  have panus: "segment_panus ?g j =
      (if j = pl_segment_id l then insert (pl_panu l) (segment_panus g j) else segment_panus g j)" for j
    using fmran'_insert_new [OF new] by (auto simp: segment_panus_def links)
  have "link_ok ?g k m" if "fmlookup (tg_links ?g) k = Some m" for k m
    using that s graph_invD(1) [OF inv, of k m]
    by (auto simp: links nodes segs link_ok_def split: if_splits)
  moreover have "segment_ok ?g j t" if t: "fmlookup (tg_segments ?g) j = Some t" for j t
  proof (cases "j = pl_segment_id l")
    case True
    then have "t = s\<lparr>ps_members := finsert (pl_panu l) (ps_members s)\<rparr>" using t by (simp add: segs)
    then show ?thesis
      using True graph_invD(2) [OF inv s(1)] panus [of j] by (auto simp: segment_ok_def nodes)
  next
    case False
    then show ?thesis
      using t graph_invD(2) [OF inv, of j t] panus [of j] by (auto simp: segment_ok_def nodes segs)
  qed
  ultimately show ?thesis unfolding graph_inv_def by blast
qed (simp add: inv)

lemma graph_inv_remove_link:
  assumes inv: "graph_inv g"
  shows "graph_inv (snd (remove_link g i))" (is "graph_inv ?g")
proof (cases "fmlookup (tg_links g) i")
  case (Some r)
  obtain s where s: "fmlookup (tg_segments g) (pl_segment_id r) = Some s" "ps_nap s = pl_nap r"
    using graph_invD(1) [OF inv Some] by (auto simp: link_ok_def)
  have ne: "pl_nap r \<noteq> pl_panu r" using graph_invD(1) [OF inv Some] by (simp add: link_ok_def)
  have nodes: "tg_nodes ?g = tg_nodes g" and links: "tg_links ?g = fmdrop i (tg_links g)"
    using Some by (simp_all add: remove_link_def Let_def)
  define gone where "gone \<longleftrightarrow> pl_panu r \<notin> segment_panus ?g (pl_segment_id r)"
  have segs: "tg_segments ?g = (if gone then fmupd (pl_segment_id r)
      (s\<lparr>ps_members := ps_members s |-| {|pl_panu r|}\<rparr>) (tg_segments g) else tg_segments g)"
  proof -
    have "list_ex (\<lambda>link. pl_segment_id link = pl_segment_id r \<and> pl_panu link = pl_panu r)
        (fm_values (fmdrop i (tg_links g))) \<longleftrightarrow> \<not> gone"
      unfolding gone_def segment_panus_def links list_ex_iff set_fm_values_ran
      by (simp add: image_iff) metis
    then show ?thesis using Some s by (simp add: remove_link_def Let_def)
  qed
  have panus: "segment_panus ?g j = (if gone \<and> j = pl_segment_id r then segment_panus g j - {pl_panu r}
      else segment_panus g j)" for j
  proof -
    have "segment_panus g j = (if j = pl_segment_id r then insert (pl_panu r) (segment_panus ?g j)
        else segment_panus ?g j)"
      using fmran'_drop [OF Some] by (auto simp: segment_panus_def links)
    then show ?thesis
      unfolding gone_def by (cases "j = pl_segment_id r") (simp_all add: insert_absorb)
  qed
  have "link_ok ?g k l" if "fmlookup (tg_links ?g) k = Some l" for k l
  proof -
    have "link_ok g k l" using that graph_invD(1) [OF inv, of k l] by (simp add: links split: if_splits)
    moreover from this have "\<exists>s. fmlookup (tg_segments ?g) (pl_segment_id l) = Some s \<and> ps_nap s = pl_nap l"
      using s unfolding segs link_ok_def
      by (cases gone; cases "pl_segment_id l = pl_segment_id r") simp_all
    ultimately show ?thesis by (simp add: link_ok_def nodes)
  qed
  moreover have "segment_ok ?g j t" if t: "fmlookup (tg_segments ?g) j = Some t" for j t
  proof (cases "gone \<and> j = pl_segment_id r")
    case True
    then have "t = s\<lparr>ps_members := ps_members s |-| {|pl_panu r|}\<rparr>" using t by (simp add: segs)
    then show ?thesis
      using True graph_invD(2) [OF inv s(1)] panus [of j] s(2) ne by (auto simp: segment_ok_def nodes)
  next
    case False
    then have "fmlookup (tg_segments g) j = Some t" using t by (auto simp: segs split: if_splits)
    then show ?thesis
      using False graph_invD(2) [OF inv, of j t] panus [of j] by (auto simp: segment_ok_def nodes)
  qed
  ultimately show ?thesis unfolding graph_inv_def by blast
qed (simp add: remove_link_def inv)

lemma graph_built_inv: "graph_built g \<Longrightarrow> graph_inv g"
proof (induction rule: graph_built.induct)
  case empty
  then show ?case by (simp add: graph_inv_def empty_graph_def)
qed (auto intro: graph_inv_add_node graph_inv_remove_node graph_inv_add_segment graph_inv_add_link
    graph_inv_remove_link)

text \<open>In a graph built by the mutators, forwarding adjacency is symmetric, irreflexive and only
  between nodes of the graph; every link's segment exists with the link's NAP; and the members of
  a segment are exactly its NAP and the PANUs of its links.\<close>

theorem built_graph_consistent:
  assumes "graph_built g"
  shows "(\<forall>u n. n |\<in>| direct_neighbors g u \<longrightarrow>
      n \<noteq> u \<and> u |\<in>| direct_neighbors g n \<and> n |\<in>| fmdom (tg_nodes g) \<and> u |\<in>| fmdom (tg_nodes g)) \<and>
    (\<forall>i l. fmlookup (tg_links g) i = Some l \<longrightarrow>
      (\<exists>s. fmlookup (tg_segments g) (pl_segment_id l) = Some s \<and> ps_nap s = pl_nap l)) \<and>
    (\<forall>j s n. fmlookup (tg_segments g) j = Some s \<longrightarrow>
      (n |\<in>| ps_members s \<longleftrightarrow> n = ps_nap s \<or>
        (\<exists>i l. fmlookup (tg_links g) i = Some l \<and> pl_segment_id l = j \<and> pl_panu l = n)))"
proof (intro conjI allI impI)
  note inv = graph_built_inv [OF assms]
  fix u n
  assume "n |\<in>| direct_neighbors g u"
  then obtain i l where l: "fmlookup (tg_links g) i = Some l" "is_forwarding_candidate l"
    "other_endpoint l u = Some n"
    by (auto simp: direct_neighbors_iff)
  have ends: "n \<noteq> u \<and> other_endpoint l n = Some u \<and> n |\<in>| fmdom (tg_nodes g) \<and> u |\<in>| fmdom (tg_nodes g)"
    using graph_invD(1) [OF inv l(1)] l(3) by (auto simp: other_endpoint_def link_ok_def split: if_splits)
  then show "n \<noteq> u" "n |\<in>| fmdom (tg_nodes g)" "u |\<in>| fmdom (tg_nodes g)" by simp_all
  show "u |\<in>| direct_neighbors g n" using l(1,2) ends by (auto simp: direct_neighbors_iff)
next
  fix i l
  assume "fmlookup (tg_links g) i = Some l"
  then show "\<exists>s. fmlookup (tg_segments g) (pl_segment_id l) = Some s \<and> ps_nap s = pl_nap l"
    using graph_invD(1) [OF graph_built_inv [OF assms]] by (simp add: link_ok_def)
next
  fix j s n
  assume "fmlookup (tg_segments g) j = Some s"
  then have "fset (ps_members s) = insert (ps_nap s) (segment_panus g j)"
    using graph_invD(2) [OF graph_built_inv [OF assms]] by (simp add: segment_ok_def)
  then show "n |\<in>| ps_members s \<longleftrightarrow> n = ps_nap s \<or>
      (\<exists>i l. fmlookup (tg_links g) i = Some l \<and> pl_segment_id l = j \<and> pl_panu l = n)"
    by (auto simp: segment_panus_def fmlookup_ran'_iff)
qed

definition sample_pair :: topology_graph where
  "sample_pair =
     snd (add_link (snd (add_segment (snd (add_node (snd (add_node empty_graph
       (byte_ident 1) default_capabilities)) (byte_ident 2) default_capabilities))
       (pan_segment_new (byte_ident 9) (byte_ident 1))))
       \<lparr>pl_id = byte_ident 5, pl_segment_id = byte_ident 9, pl_nap = byte_ident 1,
        pl_panu = byte_ident 2, pl_state = Active, pl_health = Healthy, pl_cost = 1\<rparr>)"

theorem built_graph_consistent_witness:
  "byte_ident 2 |\<in>| direct_neighbors sample_pair (byte_ident 1) \<and>
   byte_ident 1 |\<in>| direct_neighbors sample_pair (byte_ident 2)"
proof -
  have built: "graph_built sample_pair"
    unfolding sample_pair_def
    by (intro graph_built.add_link graph_built.add_segment graph_built.add_node graph_built.empty)
      (simp_all add: add_segment_def add_node_def empty_graph_def)
  have "byte_ident 2 |\<in>| direct_neighbors sample_pair (byte_ident 1)"
    by (simp add: direct_neighbors_iff sample_pair_def add_link_def add_segment_def add_node_def
        empty_graph_def is_forwarding_candidate_def other_endpoint_def)
  then show ?thesis using built_graph_consistent [OF built] by blast
qed

end
