(* ===== verification/Topology_Search.thy ===== *)
theory Topology_Search
  imports Topology
begin

text \<open>
  Correctness of \<open>shortest_path\<close>: the search returns a path exactly when one exists, and the path
  it returns has the fewest hops. The specification is the set of nodes at exactly \<open>n\<close> hops and
  the hop distance; the invariant is the usual one of breadth-first search.
\<close>

section \<open>Hop distances\<close>

definition hop_path :: "topology_graph \<Rightarrow> node_id \<Rightarrow> node_id list \<Rightarrow> node_id \<Rightarrow> bool" where
  "hop_path g s p e \<longleftrightarrow>
     p \<noteq> [] \<and> hd p = s \<and> last p = e \<and> successively (\<lambda>u v. v |\<in>| direct_neighbors g u) p"

fun hops :: "topology_graph \<Rightarrow> node_id \<Rightarrow> nat \<Rightarrow> node_id set" where
  "hops g s 0 = {s}"
| "hops g s (Suc n) = (\<Union>u \<in> hops g s n. fset (direct_neighbors g u))"

definition hop_reachable :: "topology_graph \<Rightarrow> node_id \<Rightarrow> node_id \<Rightarrow> bool" where
  "hop_reachable g s v \<longleftrightarrow> (\<exists>n. v \<in> hops g s n)"

definition hop_distance :: "topology_graph \<Rightarrow> node_id \<Rightarrow> node_id \<Rightarrow> nat" where
  "hop_distance g s v = (LEAST n. v \<in> hops g s n)"

lemma hop_path_snoc:
  "hop_path g s p u \<Longrightarrow> v |\<in>| direct_neighbors g u \<Longrightarrow> hop_path g s (p @ [v]) v"
  by (auto simp: hop_path_def successively_append_iff)

lemma hops_iff_path: "v \<in> hops g s n \<longleftrightarrow> (\<exists>p. hop_path g s p v \<and> length p = Suc n)"
proof (induction n arbitrary: v)
  case 0
  show ?case
  proof
    assume "\<exists>p. hop_path g s p v \<and> length p = Suc 0"
    then show "v \<in> hops g s 0" by (auto simp: hop_path_def length_Suc_conv)
  qed (auto simp: hop_path_def intro: exI [of _ "[s]"])
next
  case (Suc n)
  show ?case
  proof
    assume "v \<in> hops g s (Suc n)"
    then obtain u p where "v |\<in>| direct_neighbors g u" "hop_path g s p u" "length p = Suc n"
      using Suc by auto
    then show "\<exists>p. hop_path g s p v \<and> length p = Suc (Suc n)"
      using hop_path_snoc [of g s p u v] by (intro exI [of _ "p @ [v]"]) simp
  next
    assume "\<exists>p. hop_path g s p v \<and> length p = Suc (Suc n)"
    then obtain p where p: "hop_path g s p v" "length p = Suc (Suc n)" by blast
    then obtain q where q: "p = q @ [v]" "q \<noteq> []"
      by (cases p rule: rev_cases) (fastforce simp: hop_path_def)+
    then have "hop_path g s q (last q)" "v |\<in>| direct_neighbors g (last q)"
      using p(1) by (auto simp: hop_path_def successively_append_iff)
    moreover have "length q = Suc n" using p(2) q by simp
    ultimately show "v \<in> hops g s (Suc n)" using Suc by auto
  qed
qed

lemma hop_distance_hops: "hop_reachable g s v \<Longrightarrow> v \<in> hops g s (hop_distance g s v)"
  unfolding hop_reachable_def hop_distance_def by (erule exE) (rule LeastI)

lemma hop_distance_le: "v \<in> hops g s n \<Longrightarrow> hop_distance g s v \<le> n"
  unfolding hop_distance_def by (rule Least_le)

lemma hop_distance_start [simp]: "hop_distance g s s = 0" "hop_reachable g s s"
proof -
  have "s \<in> hops g s 0" by simp
  then show "hop_distance g s s = 0" "hop_reachable g s s"
    using hop_distance_le [of s g s 0] unfolding hop_reachable_def by blast+
qed

lemma hop_distance_0: "hop_reachable g s v \<Longrightarrow> hop_distance g s v = 0 \<Longrightarrow> v = s"
  using hop_distance_hops [of g s v] by simp

lemma hop_step:
  assumes "hop_reachable g s u" and "v |\<in>| direct_neighbors g u"
  shows "hop_reachable g s v" and "hop_distance g s v \<le> Suc (hop_distance g s u)"
proof -
  have "v \<in> hops g s (Suc (hop_distance g s u))" using hop_distance_hops [OF assms(1)] assms(2) by auto
  then show "hop_reachable g s v" and "hop_distance g s v \<le> Suc (hop_distance g s u)"
    unfolding hop_reachable_def by (blast, rule hop_distance_le)
qed

lemma hop_predecessor:
  assumes "hop_reachable g s v" and "hop_distance g s v = Suc k"
  obtains u where "hop_reachable g s u" and "hop_distance g s u = k" and "v |\<in>| direct_neighbors g u"
proof -
  obtain u where u: "u \<in> hops g s k" "v |\<in>| direct_neighbors g u"
    using hop_distance_hops [OF assms(1)] assms(2) by auto
  have r: "hop_reachable g s u" using u(1) unfolding hop_reachable_def by blast
  then have "hop_distance g s u = k"
    using hop_distance_le [OF u(1)] hop_step(2) [OF r u(2)] assms(2) by simp
  then show thesis using that r u(2) by blast
qed

section \<open>The search invariant\<close>

definition tree_inv :: "topology_graph \<Rightarrow> node_id \<Rightarrow> (node_id, node_id) fmap \<Rightarrow> node_id fset \<Rightarrow> bool" where
  "tree_inv g s p v \<longleftrightarrow>
     s |\<in>| v \<and> fmdom p = v |-| {|s|} \<and> (\<forall>x. x |\<in>| v \<longrightarrow> hop_reachable g s x) \<and>
     (\<forall>x y. fmlookup p x = Some y \<longrightarrow> y |\<in>| v \<and> x |\<in>| direct_neighbors g y \<and>
        hop_distance g s x = Suc (hop_distance g s y))"

definition bfs_inv :: "topology_graph \<Rightarrow> node_id \<Rightarrow> bfs_state \<Rightarrow> bool" where
  "bfs_inv g s st = (case st of (q, p, v) \<Rightarrow>
     tree_inv g s p v \<and> set q \<subseteq> fset v \<and> sorted (map (hop_distance g s) q) \<and>
     (\<forall>x \<in> set q. hop_distance g s x \<le> Suc (hop_distance g s (hd q))) \<and>
     (\<forall>x. x |\<in>| v \<longrightarrow> x \<notin> set q \<longrightarrow> direct_neighbors g x |\<subseteq>| v))"

text \<open>The invariant inside the loop over the neighbors \<open>ns\<close> still to do of \<open>c\<close>.\<close>

definition bfs_inner_inv ::
  "topology_graph \<Rightarrow> node_id \<Rightarrow> node_id \<Rightarrow> node_id list \<Rightarrow> bfs_state \<Rightarrow> bool" where
  "bfs_inner_inv g s c ns st = (case st of (q, p, v) \<Rightarrow>
     tree_inv g s p v \<and> c |\<in>| v \<and> set q \<subseteq> fset v \<and> sorted (map (hop_distance g s) q) \<and>
     (\<forall>x \<in> set q. hop_distance g s c \<le> hop_distance g s x \<and>
        hop_distance g s x \<le> Suc (hop_distance g s c)) \<and>
     (\<forall>x. x |\<in>| v \<longrightarrow> x \<notin> set q \<longrightarrow> x \<noteq> c \<longrightarrow> direct_neighbors g x |\<subseteq>| v) \<and>
     fset (direct_neighbors g c) \<subseteq> fset v \<union> set ns \<and> set ns \<subseteq> fset (direct_neighbors g c) \<and>
     (\<forall>x. x |\<notin>| v \<longrightarrow> hop_reachable g s x \<longrightarrow> Suc (hop_distance g s c) \<le> hop_distance g s x))"

lemma unvisited_is_farther:
  assumes "bfs_inv g s (c # q, p, v)" and "x |\<notin>| v" and "hop_reachable g s x"
  shows "Suc (hop_distance g s c) \<le> hop_distance g s x"
  using assms(2,3)
proof (induction "hop_distance g s x" arbitrary: x)
  case 0
  then have "x = s" using hop_distance_0 by simp
  then show ?case using assms(1) 0 by (simp add: bfs_inv_def tree_inv_def)
next
  case (Suc k)
  obtain u where u: "hop_reachable g s u" "hop_distance g s u = k" "x |\<in>| direct_neighbors g u"
    by (rule hop_predecessor [OF Suc.prems(2) Suc.hyps(2) [symmetric]])
  show ?case
  proof (cases "u |\<in>| v")
    case True
    then have "u \<in> set (c # q)" using assms(1) u(3) Suc.prems(1) unfolding bfs_inv_def by blast
    then have "hop_distance g s c \<le> hop_distance g s u" using assms(1) by (auto simp: bfs_inv_def)
    then show ?thesis using u(2) Suc.hyps(2) by simp
  next
    case False
    then show ?thesis using Suc.hyps(1) [of u] u Suc.hyps(2) by simp
  qed
qed

lemma bfs_inner_start:
  assumes "bfs_inv g s (c # q, p, v)"
  shows "bfs_inner_inv g s c (sorted_list_of_fset (direct_neighbors g c)) (q, p, v)"
  using assms unvisited_is_farther [OF assms] by (simp add: bfs_inv_def bfs_inner_inv_def)

lemma bfs_inner_end: "bfs_inner_inv g s c [] (q, p, v) \<Longrightarrow> bfs_inv g s (q, p, v)"
proof -
  assume inv: "bfs_inner_inv g s c [] (q, p, v)"
  have "hop_distance g s x \<le> Suc (hop_distance g s (hd q))" if "x \<in> set q" for x
  proof -
    have "hd q \<in> set q" using that by (cases q) auto
    then have "hop_distance g s c \<le> hop_distance g s (hd q)" "hop_distance g s x \<le> Suc (hop_distance g s c)"
      using inv that by (simp_all add: bfs_inner_inv_def)
    then show ?thesis by simp
  qed
  moreover have "direct_neighbors g x |\<subseteq>| v" if "x |\<in>| v" "x \<notin> set q" for x
    using inv that by (cases "x = c") (auto simp: bfs_inner_inv_def less_eq_fset.rep_eq)
  ultimately show ?thesis using inv by (simp add: bfs_inner_inv_def bfs_inv_def)
qed

lemma bfs_inner_skip:
  "bfs_inner_inv g s c (n # ns) (q, p, v) \<Longrightarrow> n |\<in>| v \<Longrightarrow> bfs_inner_inv g s c ns (q, p, v)"
  by (auto simp: bfs_inner_inv_def)

lemma bfs_inner_push:
  assumes "bfs_inner_inv g s c (n # ns) (q, p, v)" and "n |\<notin>| v"
  shows "bfs_inner_inv g s c ns (q @ [n], fmupd n c p, finsert n v)"
proof -
  note inv = assms(1) [unfolded bfs_inner_inv_def, simplified]
  have nc: "n |\<in>| direct_neighbors g c" and rc: "hop_reachable g s c"
    using inv by (auto simp: tree_inv_def)
  have r: "hop_reachable g s n" using hop_step(1) [OF rc nc] .
  have d: "hop_distance g s n = Suc (hop_distance g s c)"
    using hop_step(2) [OF rc nc] inv assms(2) r by (simp add: order_antisym)
  have "n \<noteq> s" using inv assms(2) by (auto simp: tree_inv_def)
  then have "tree_inv g s (fmupd n c p) (finsert n v)"
    using inv r d nc by (auto simp: tree_inv_def)
  moreover have "direct_neighbors g x |\<subseteq>| finsert n v" if "x |\<in>| v" "x \<notin> set q" "x \<noteq> c" for x
    using inv that by blast
  moreover have "set q \<subseteq> insert n (fset v)" "fset (direct_neighbors g c) \<subseteq> insert n (fset v \<union> set ns)"
    using inv by auto
  moreover have "sorted (map (hop_distance g s) (q @ [n]))" using inv d by (simp add: sorted_append)
  ultimately show ?thesis using inv d by (simp add: bfs_inner_inv_def)
qed

section \<open>Walking back\<close>

text \<open>The keys of \<open>previous\<close> realize every distance up to that of a visited node, so the size of the
  map bounds the walk.\<close>

lemma tree_distances:
  assumes "tree_inv g s p v" and "x |\<in>| fmdom p"
  shows "{1..hop_distance g s x} \<subseteq> hop_distance g s ` fset (fmdom p)"
  using assms(2)
proof (induction "hop_distance g s x" arbitrary: x)
  case (Suc k)
  obtain y where y: "fmlookup p x = Some y" using Suc.prems by (auto simp: fmlookup_dom_iff)
  then have y2: "y |\<in>| v" "hop_distance g s x = Suc (hop_distance g s y)"
    using assms(1) by (auto simp: tree_inv_def)
  have split: "{1..Suc k} = insert (Suc k) {1..k}" by auto
  have top: "hop_distance g s x \<in> hop_distance g s ` fset (fmdom p)" using Suc.prems by blast
  have "{1..k} \<subseteq> hop_distance g s ` fset (fmdom p)"
  proof (cases "y = s")
    case True
    then show ?thesis using y2 Suc.hyps(2) by simp
  next
    case False
    then have "y |\<in>| fmdom p" using assms(1) y2(1) by (simp add: tree_inv_def)
    then show ?thesis using Suc.hyps y2 by auto
  qed
  then show ?case using top Suc.hyps(2) split by auto
qed simp

lemma tree_distance_bound:
  assumes "tree_inv g s p v" and "x |\<in>| v"
  shows "hop_distance g s x \<le> fm_len p"
proof (cases "x = s")
  case False
  then have "x |\<in>| fmdom p" using assms by (simp add: tree_inv_def)
  then have "card {1..hop_distance g s x} \<le> card (hop_distance g s ` fset (fmdom p))"
    by (intro card_mono tree_distances [OF assms(1)]) simp_all
  also have "\<dots> \<le> card (fset (fmdom p))" by (rule card_image_le) simp
  finally show ?thesis by (simp add: fm_len_def fcard.rep_eq)
qed simp

lemma walk_back_path:
  assumes "tree_inv g s p v"
  shows "x |\<in>| v \<Longrightarrow> x \<noteq> s \<Longrightarrow> hop_distance g s x \<le> fuel \<Longrightarrow>
    \<exists>r. walk_back fuel s p x path = Some (r @ rev path) \<and> length r = hop_distance g s x \<and>
      hop_path g s (r @ [x]) x"
proof (induction fuel arbitrary: x path)
  case 0
  then have "x = s" using assms hop_distance_0 by (auto simp: tree_inv_def)
  then show ?case using 0 by simp
next
  case (Suc fuel)
  have "x |\<in>| fmdom p" using assms Suc.prems(1,2) by (simp add: tree_inv_def)
  then obtain y where y: "fmlookup p x = Some y" by (auto simp: fmlookup_dom_iff)
  then have y2: "y |\<in>| v" "x |\<in>| direct_neighbors g y" "hop_distance g s x = Suc (hop_distance g s y)"
    using assms by (auto simp: tree_inv_def)
  show ?case
  proof (cases "y = s")
    case True
    then show ?thesis
      using y y2 by (intro exI [of _ "[s]"]) (auto simp: hop_path_def)
  next
    case False
    then obtain r where r: "walk_back fuel s p y (path @ [y]) = Some (r @ rev (path @ [y]))"
      "length r = hop_distance g s y" "hop_path g s (r @ [y]) y"
      using Suc.IH [of y "path @ [y]"] y2 Suc.prems(3) by auto
    have "hop_path g s ((r @ [y]) @ [x]) x" using hop_path_snoc [OF r(3) y2(2)] .
    then show ?thesis
      using r False y y2(3) by (intro exI [of _ "r @ [y]"]) simp
  qed
qed

section \<open>Correctness of the search\<close>

definition is_shortest :: "topology_graph \<Rightarrow> node_id \<Rightarrow> node_id \<Rightarrow> node_id list \<Rightarrow> bool" where
  "is_shortest g s e p \<longleftrightarrow> hop_path g s p e \<and> length p = Suc (hop_distance g s e)"

lemma bfs_neighbors_correct:
  assumes "bfs_inner_inv g s c ns st" and "e |\<notin>| snd (snd st)" and "e \<noteq> s"
  shows "case bfs_neighbors s e c ns st of
      Inl path \<Rightarrow> is_shortest g s e path
    | Inr st' \<Rightarrow> bfs_inv g s st' \<and> e |\<notin>| snd (snd st')"
  using assms(1,2)
proof (induction ns arbitrary: st)
  case Nil
  then show ?case using bfs_inner_end by (cases st) auto
next
  case (Cons n ns)
  obtain q p v where st: "st = (q, p, v)" by (cases st)
  show ?case
  proof (cases "n |\<in>| v")
    case True
    then show ?thesis using Cons bfs_inner_skip [of g s c n ns q p v] by (simp add: st)
  next
    case False
    note push = bfs_inner_push [OF Cons.prems(1) [unfolded st] False]
    show ?thesis
    proof (cases "n = e")
      case True
      have tree: "tree_inv g s (fmupd e c p) (finsert e v)"
        using push True by (simp add: bfs_inner_inv_def)
      obtain r where "walk_back (fm_len (fmupd e c p)) s (fmupd e c p) e [e] = Some (r @ [e])"
        "length r = hop_distance g s e" "hop_path g s (r @ [e]) e"
        using walk_back_path [OF tree _ assms(3) tree_distance_bound [OF tree], of "[e]"] by auto
      then show ?thesis using False True by (simp add: st is_shortest_def Let_def)
    next
      case neq: False
      then show ?thesis
        using Cons.IH [OF push] False Cons.prems(2) by (simp add: st Let_def)
    qed
  qed
qed

lemma bfs_loop_correct:
  assumes "bfs_inv g s st" and "e |\<notin>| snd (snd st)" and "e \<noteq> s"
  shows "case bfs_loop g s e st of
      Some path \<Rightarrow> is_shortest g s e path | None \<Rightarrow> \<not> hop_reachable g s e"
  using assms
proof (induction g s e st rule: bfs_loop.induct)
  case (1 g s e queue p v)
  show ?case
  proof (cases queue)
    case Nil
    have "x |\<in>| v" if "hop_reachable g s x" for x
      using that
    proof (induction "hop_distance g s x" arbitrary: x)
      case 0
      then show ?case using hop_distance_0 "1.prems"(1) by (auto simp: bfs_inv_def tree_inv_def)
    next
      case (Suc k)
      obtain u where "hop_reachable g s u" "hop_distance g s u = k" "x |\<in>| direct_neighbors g u"
        by (rule hop_predecessor [OF Suc.prems Suc.hyps(2) [symmetric]])
      then show ?case using Suc.hyps(1) [of u] "1.prems"(1) Nil unfolding bfs_inv_def by force
    qed
    then show ?thesis using Nil "1.prems"(2) by (auto simp: bfs_loop.simps)
  next
    case (Cons c q)
    note inner = bfs_neighbors_correct
      [OF bfs_inner_start [OF "1.prems"(1) [unfolded Cons]], of e, simplified, OF "1.prems"(2) [simplified] "1.prems"(3)]
    show ?thesis
    proof (cases "bfs_neighbors s e c (sorted_list_of_fset (direct_neighbors g c)) (q, p, v)")
      case (Inl path)
      then show ?thesis using inner Cons by (simp add: bfs_loop.simps)
    next
      case (Inr st')
      then show ?thesis using inner Cons "1.IH" [OF Cons Inr] "1.prems"(3) by (simp add: bfs_loop.simps)
    qed
  qed
qed

lemma shortest_path_correct:
  shows shortest_path_sound: "shortest_path g s e = Some p \<Longrightarrow> is_shortest g s e p"
    and shortest_path_defined: "shortest_path g s e \<noteq> None \<longleftrightarrow>
      s |\<in>| fmdom (tg_nodes g) \<and> e |\<in>| fmdom (tg_nodes g) \<and> hop_reachable g s e"
proof -
  have init: "bfs_inv g s ([s], fmempty, {|s|})" by (auto simp: bfs_inv_def tree_inv_def)
  have loop: "case bfs_loop g s e ([s], fmempty, {|s|}) of
      Some path \<Rightarrow> is_shortest g s e path | None \<Rightarrow> \<not> hop_reachable g s e" if "e \<noteq> s"
    by (rule bfs_loop_correct [OF init]) (use that in simp_all)
  have reach: "hop_reachable g s e" if "is_shortest g s e q" for q
    using that unfolding is_shortest_def hop_reachable_def hops_iff_path by blast
  have self: "is_shortest g s s [s]" by (simp add: is_shortest_def hop_path_def)
  show sound: "is_shortest g s e p" if "shortest_path g s e = Some p" for p
    using that loop self by (auto simp: shortest_path_def split: if_splits option.splits)
  have "hop_reachable g s e" if "shortest_path g s e \<noteq> None"
    using that sound reach by blast
  then show "shortest_path g s e \<noteq> None \<longleftrightarrow>
      s |\<in>| fmdom (tg_nodes g) \<and> e |\<in>| fmdom (tg_nodes g) \<and> hop_reachable g s e"
    using loop by (auto simp: shortest_path_def fmlookup_dom_iff split: option.splits if_splits)
qed

lemma shortest_is_minimal: "is_shortest g s e p \<Longrightarrow> hop_path g s q e \<Longrightarrow> length p \<le> length q"
proof -
  assume p: "is_shortest g s e p" and q: "hop_path g s q e"
  obtain n where n: "length q = Suc n" using q by (cases q) (auto simp: hop_path_def)
  then have "e \<in> hops g s n" using q hops_iff_path by blast
  then show "length p \<le> length q" using p n hop_distance_le by (fastforce simp: is_shortest_def)
qed

lemma hop_reachable_iff_path: "hop_reachable g s e \<longleftrightarrow> (\<exists>p. hop_path g s p e)"
proof
  assume "\<exists>p. hop_path g s p e"
  then obtain p where p: "hop_path g s p e" by blast
  then obtain n where "length p = Suc n" by (cases p) (auto simp: hop_path_def)
  then show "hop_reachable g s e" using p unfolding hop_reachable_def hops_iff_path by blast
qed (auto simp: hop_reachable_def hops_iff_path)

text \<open>C4: \<open>shortest_path\<close> ends on every graph. It returns a path exactly when both nodes are in the
  topology and forwarding links connect them; the path runs from the start to the end over
  forwarding links and no path has fewer hops.\<close>

theorem shortest_path_minimum_hops:
  "(shortest_path g s e \<noteq> None \<longleftrightarrow>
      s |\<in>| fmdom (tg_nodes g) \<and> e |\<in>| fmdom (tg_nodes g) \<and> (\<exists>p. hop_path g s p e)) \<and>
   (\<forall>p. shortest_path g s e = Some p \<longrightarrow>
      hop_path g s p e \<and> (\<forall>q. hop_path g s q e \<longrightarrow> length p \<le> length q))"
  using shortest_path_sound [of g s e] shortest_path_defined [of g s e] shortest_is_minimal [of g s e]
  by (auto simp: hop_reachable_iff_path is_shortest_def)

text \<open>A line of three nodes with one failed shortcut, evaluated by the simplifier.\<close>

definition sample_link :: "u8 \<Rightarrow> u8 \<Rightarrow> u8 \<Rightarrow> link_health \<Rightarrow> pan_link" where
  "sample_link i a b h =
     \<lparr>pl_id = byte_ident i, pl_segment_id = byte_ident a, pl_nap = byte_ident a,
      pl_panu = byte_ident b, pl_state = Active, pl_health = h, pl_cost = 10\<rparr>"

definition sample_line :: topology_graph where
  "sample_line =
     \<lparr>tg_nodes = fmap_of_list [(byte_ident 1, default_capabilities), (byte_ident 2, default_capabilities),
        (byte_ident 3, default_capabilities)],
      tg_links = fmap_of_list [(byte_ident 1, sample_link 1 1 2 Healthy),
        (byte_ident 2, sample_link 2 2 3 Degraded), (byte_ident 3, sample_link 3 1 3 link_health.Failed)],
      tg_segments = fmempty\<rparr>"

lemma sample_line_link:
  "fmlookup (tg_links sample_line) (byte_ident 1) = Some (sample_link 1 1 2 Healthy)"
  "fmlookup (tg_links sample_line) (byte_ident 2) = Some (sample_link 2 2 3 Degraded)"
  by (simp_all add: sample_line_def fmlookup_of_list)

lemma sample_line_neighbors:
  "byte_ident 2 |\<in>| direct_neighbors sample_line (byte_ident 1)"
  "byte_ident 3 |\<in>| direct_neighbors sample_line (byte_ident 2)"
  unfolding direct_neighbors_iff using sample_line_link
  by (force simp: sample_link_def is_forwarding_candidate_def other_endpoint_def)+

theorem shortest_path_minimum_hops_witness:
  "\<exists>p. shortest_path sample_line (byte_ident 1) (byte_ident 3) = Some p \<and>
     hop_path sample_line (byte_ident 1) p (byte_ident 3) \<and> length p \<le> 3"
proof -
  have path: "hop_path sample_line (byte_ident 1) [byte_ident 1, byte_ident 2, byte_ident 3] (byte_ident 3)"
    by (simp add: hop_path_def sample_line_neighbors)
  moreover have "byte_ident 1 |\<in>| fmdom (tg_nodes sample_line)" "byte_ident 3 |\<in>| fmdom (tg_nodes sample_line)"
    by (simp_all add: sample_line_def)
  ultimately obtain p where "shortest_path sample_line (byte_ident 1) (byte_ident 3) = Some p"
    using shortest_path_minimum_hops [of sample_line "byte_ident 1" "byte_ident 3"] by blast
  then show ?thesis
    using shortest_path_minimum_hops [of sample_line "byte_ident 1" "byte_ident 3"] path by fastforce
qed

lemma is_shortest_length:
  assumes "is_shortest g s e p"
  shows "length p = 1 \<longleftrightarrow> e = s" and "length p = 2 \<longleftrightarrow> e \<noteq> s \<and> e |\<in>| direct_neighbors g s"
proof -
  have r: "hop_reachable g s e" using assms by (auto simp: is_shortest_def hop_reachable_iff_path)
  have l: "length p = Suc (hop_distance g s e)" using assms by (simp add: is_shortest_def)
  show one: "length p = 1 \<longleftrightarrow> e = s" using l hop_distance_0 [OF r] by auto
  show "length p = 2 \<longleftrightarrow> e \<noteq> s \<and> e |\<in>| direct_neighbors g s"
  proof
    assume "length p = 2"
    then have d: "hop_distance g s e = Suc 0" using l by simp
    obtain u where "hop_reachable g s u" "hop_distance g s u = 0" "e |\<in>| direct_neighbors g u"
      by (rule hop_predecessor [OF r d])
    then show "e \<noteq> s \<and> e |\<in>| direct_neighbors g s" using hop_distance_0 d by fastforce
  next
    assume "e \<noteq> s \<and> e |\<in>| direct_neighbors g s"
    then show "length p = 2" using hop_step(2) [of g s s e] l one by force
  qed
qed

text \<open>The reachability class. For two nodes of the topology, the class is \<open>Local\<close> for the same
  node, \<open>DirectLink\<close> exactly when a forwarding link joins them, \<open>Unreachable\<close> exactly when no path of
  forwarding links does, and one of the other two classes otherwise.\<close>

theorem reachability_classes:
  assumes "s |\<in>| fmdom (tg_nodes g)" and "e |\<in>| fmdom (tg_nodes g)"
  shows "(graph_reachability g s e = Local \<longleftrightarrow> s = e) \<and>
    (graph_reachability g s e = DirectLink \<longleftrightarrow> s \<noteq> e \<and> is_directly_reachable g s e) \<and>
    (graph_reachability g s e = Unreachable \<longleftrightarrow> (\<nexists>p. hop_path g s p e))"
proof (cases "shortest_path g s e")
  case None
  then have no: "\<not> hop_reachable g s e" using shortest_path_defined [of g s e] assms by simp
  then have "s \<noteq> e" by auto
  moreover have "\<not> is_directly_reachable g s e"
    using no hop_step(1) [of g s s e] by (auto simp: is_directly_reachable_def)
  ultimately show ?thesis using None no by (simp add: graph_reachability_def hop_reachable_iff_path)
next
  case (Some p)
  then have "hop_reachable g s e" using shortest_path_defined [of g s e] by simp
  then show ?thesis
    using Some is_shortest_length [OF shortest_path_sound [OF Some]]
    by (auto simp: graph_reachability_def hop_reachable_iff_path is_directly_reachable_def)
qed

theorem reachability_classes_witness:
  "graph_reachability sample_line (byte_ident 1) (byte_ident 2) = DirectLink"
  using reachability_classes [of "byte_ident 1" sample_line "byte_ident 2"] sample_line_neighbors
  by (simp add: is_directly_reachable_def sample_line_def)

end
