(* ===== verification/Neighbor.thy ===== *)
theory Neighbor
  imports Topology
begin

text \<open>
  \<open>crates/blueroute-core/src/neighbor.rs\<close> and \<open>forwarding_policy.rs\<close>: the table of untrusted
  candidate observations, and the desired state of IPv4 forwarding.
\<close>

section \<open>Candidate observations\<close>

definition CANDIDATE_LIFETIME_MS :: u64 where
  "CANDIDATE_LIFETIME_MS = 120000"

definition MAX_CANDIDATES :: nat where
  "MAX_CANDIDATES = 256"

datatype candidate_source = BluetoothDiscovery | PeerAdvertisement

record candidate_observation =
  co_node :: node_id
  co_source :: candidate_source
  co_capabilities :: node_capabilities
  co_observed_at_ms :: u64
  co_expires_at_ms :: u64

record neighbor_observations =
  no_candidates :: "(node_id, candidate_observation) fmap"

definition neighbor_observations_new :: neighbor_observations where
  "neighbor_observations_new = \<lparr>no_candidates = fmempty\<rparr>"

definition observe ::
  "neighbor_observations \<Rightarrow> node_id \<Rightarrow> node_id \<Rightarrow> candidate_source \<Rightarrow> node_capabilities \<Rightarrow> u64 \<Rightarrow>
   bool core_result \<times> neighbor_observations" where
  "observe t local peer source capabilities observed_at_ms =
     (if local = peer
      then (Inl (core_error_new InvalidInput ''self-discovery candidate is invalid''), t)
      else case checked_add observed_at_ms CANDIDATE_LIFETIME_MS of
        None \<Rightarrow> (Inl (core_error_new InvalidInput ''candidate timestamp overflow''), t)
      | Some expires_at_ms \<Rightarrow>
          let insert = (Inr True, t\<lparr>no_candidates := fmupd peer
                \<lparr>co_node = peer, co_source = source, co_capabilities = capabilities,
                 co_observed_at_ms = observed_at_ms, co_expires_at_ms = expires_at_ms\<rparr>
                (no_candidates t)\<rparr>)
          in case fmlookup (no_candidates t) peer of
            Some previous \<Rightarrow>
              if observed_at_ms \<le> co_observed_at_ms previous then (Inr False, t) else insert
          | None \<Rightarrow>
              if fm_len (no_candidates t) \<ge> MAX_CANDIDATES
              then (Inl (core_error_new CapabilityUnavailable ''candidate discovery table is full''), t)
              else insert)"

definition candidates_at :: "neighbor_observations \<Rightarrow> u64 \<Rightarrow> candidate_observation list" where
  "candidates_at t now_ms = filter (\<lambda>c. now_ms < co_expires_at_ms c) (fm_values (no_candidates t))"

definition expire :: "neighbor_observations \<Rightarrow> u64 \<Rightarrow> nat \<times> neighbor_observations" where
  "expire t now_ms =
     (let before = fm_len (no_candidates t);
          kept = fm_retain (\<lambda>_ c. now_ms < co_expires_at_ms c) (no_candidates t)
      in (before - fm_len kept, t\<lparr>no_candidates := kept\<rparr>))"

definition active_direct_peers :: "neighbor_observations \<Rightarrow> topology_graph \<Rightarrow> node_id \<Rightarrow> node_id fset" where
  "active_direct_peers t g local = direct_neighbors g local"

section \<open>The forwarding decision\<close>

definition desired_ipv4_forwarding :: "topology_graph \<Rightarrow> node_id \<Rightarrow> bool core_result" where
  "desired_ipv4_forwarding g local =
     bindR (ok_or (core_error_new InvalidInput ''local node is not in topology'') (graph_node g local))
       (\<lambda>capabilities.
          if can_route capabilities \<noteq> Some True then Inr False
          else let active_segments = fset_of_list (map pl_segment_id
                 (filter (\<lambda>link. is_forwarding_candidate link \<and>
                    (pl_nap link = local \<or> pl_panu link = local)) (fm_values (tg_links g))))
               in Inr (fcard active_segments \<ge> 2))"

section \<open>Lemmas\<close>

text \<open>Every candidate is stored under its own node, expires \<open>CANDIDATE_LIFETIME_MS\<close> after it was
  observed, and the table is bounded.\<close>

definition candidates_inv :: "node_id \<Rightarrow> neighbor_observations \<Rightarrow> bool" where
  "candidates_inv local t \<longleftrightarrow>
     fm_len (no_candidates t) \<le> MAX_CANDIDATES \<and>
     (\<forall>p c. fmlookup (no_candidates t) p = Some c \<longrightarrow> p \<noteq> local \<and> co_node c = p \<and>
        unat (co_expires_at_ms c) = unat (co_observed_at_ms c) + 120000)"

inductive candidates_reachable :: "node_id \<Rightarrow> neighbor_observations \<Rightarrow> bool" for local where
  new: "candidates_reachable local neighbor_observations_new"
| observe: "candidates_reachable local t \<Longrightarrow>
    candidates_reachable local (snd (observe t local peer source caps now))"
| expire: "candidates_reachable local t \<Longrightarrow> candidates_reachable local (snd (expire t now))"

lemma candidates_inv_observe:
  assumes "candidates_inv local t"
  shows "candidates_inv local (snd (observe t local peer source caps now))"
proof -
  have exp: "unat x = unat now + 120000" if "checked_add now CANDIDATE_LIFETIME_MS = Some x" for x
    using checked_add_SomeD [OF that, THEN conjunct1] by (simp add: CANDIDATE_LIFETIME_MS_def)
  show ?thesis
    using assms exp
    by (auto simp: candidates_inv_def observe_def Let_def fm_len_fmupd fmlookup_dom_iff
        split: option.splits if_splits)
qed

lemma fmdom_fm_retain_subset: "fmdom (fm_retain P m) |\<subseteq>| fmdom m"
  by (auto simp: fm_retain_def)

lemma candidates_inv_expire: "candidates_inv local t \<Longrightarrow> candidates_inv local (snd (expire t now))"
  using fm_len_mono [OF fmdom_fm_retain_subset [of "\<lambda>_ c. now < co_expires_at_ms c" "no_candidates t"]]
  by (auto simp: candidates_inv_def expire_def Let_def split: option.splits if_splits)

lemma candidates_reachable_inv: "candidates_reachable local t \<Longrightarrow> candidates_inv local t"
proof (induction rule: candidates_reachable.induct)
  case new
  then show ?case by (simp add: candidates_inv_def neighbor_observations_new_def)
qed (auto intro: candidates_inv_observe candidates_inv_expire)

text \<open>Whatever was observed and expired before, the table holds at most 256 candidates, never
  the local node, and the candidates listed at a time are exactly those observed less than 120
  seconds earlier. An older or equally old observation never replaces a newer one.\<close>

theorem candidate_table_safe:
  assumes "candidates_reachable local t"
  shows "fm_len (no_candidates t) \<le> 256 \<and> fmlookup (no_candidates t) local = None \<and>
    set (candidates_at t now) =
      {c. fmlookup (no_candidates t) (co_node c) = Some c \<and>
          unat now < unat (co_observed_at_ms c) + 120000} \<and>
    (\<forall>peer source caps at c c'. fmlookup (no_candidates t) peer = Some c \<longrightarrow>
       fmlookup (no_candidates (snd (observe t local peer source caps at))) peer = Some c' \<longrightarrow>
       co_observed_at_ms c \<le> co_observed_at_ms c')"
proof (intro conjI allI impI)
  note inv = candidates_reachable_inv [OF assms]
  show "fm_len (no_candidates t) \<le> 256" "fmlookup (no_candidates t) local = None"
    using inv by (auto simp: candidates_inv_def MAX_CANDIDATES_def)
      (metis option.exhaust)
  show "set (candidates_at t now) = {c. fmlookup (no_candidates t) (co_node c) = Some c \<and>
      unat now < unat (co_observed_at_ms c) + 120000}"
    using inv by (fastforce simp: candidates_at_def set_fm_values candidates_inv_def word_less_nat_alt)
  fix peer source caps at c c'
  assume "fmlookup (no_candidates t) peer = Some c"
    and "fmlookup (no_candidates (snd (observe t local peer source caps at))) peer = Some c'"
  then show "co_observed_at_ms c \<le> co_observed_at_ms c'"
    by (auto simp: observe_def Let_def split: if_splits option.splits)
qed

theorem candidate_table_safe_witness:
  "fm_len (no_candidates (snd (observe neighbor_observations_new (byte_ident 1) (byte_ident 2)
     BluetoothDiscovery default_capabilities 5))) \<le> 256 \<and>
   fmlookup (no_candidates (snd (observe neighbor_observations_new (byte_ident 1) (byte_ident 2)
     BluetoothDiscovery default_capabilities 5))) (byte_ident 1) = None"
  using candidate_table_safe [OF candidates_reachable.observe [OF candidates_reachable.new],
      of "byte_ident 1" "byte_ident 2" BluetoothDiscovery default_capabilities 5]
  by blast

lemma fcard_ge_2_iff: "2 \<le> fcard S \<longleftrightarrow> (\<exists>a b. a |\<in>| S \<and> b |\<in>| S \<and> a \<noteq> b)"
proof
  assume "2 \<le> fcard S"
  then show "\<exists>a b. a |\<in>| S \<and> b |\<in>| S \<and> a \<noteq> b"
    unfolding fcard.rep_eq by (metis card_2_iff' obtain_subset_with_card_n subsetD)
next
  assume "\<exists>a b. a |\<in>| S \<and> b |\<in>| S \<and> a \<noteq> b"
  then obtain a b where ab: "a |\<in>| S" "b |\<in>| S" "a \<noteq> b" by blast
  then have "card {a, b} \<le> card (fset S)" by (intro card_mono) auto
  then show "2 \<le> fcard S" using ab(3) by (simp add: fcard.rep_eq)
qed

definition live_local_link :: "topology_graph \<Rightarrow> node_id \<Rightarrow> pan_link \<Rightarrow> bool" where
  "live_local_link g local l \<longleftrightarrow> (\<exists>i. fmlookup (tg_links g) i = Some l) \<and>
     is_forwarding_candidate l \<and> local \<in> {pl_nap l, pl_panu l}"

lemma live_segments:
  "a |\<in>| fset_of_list (map pl_segment_id (filter (\<lambda>link. is_forwarding_candidate link \<and>
     (pl_nap link = local \<or> pl_panu link = local)) (fm_values (tg_links g)))) \<longleftrightarrow>
   (\<exists>l. live_local_link g local l \<and> pl_segment_id l = a)"
  unfolding fset_of_list_elem set_map set_filter live_local_link_def set_fm_values by blast

text \<open>Forwarding is wanted exactly on a node that is known to route and has forwarding links in
  two different segments; a node outside the topology is an error, unknown capability is a denial.\<close>

theorem desired_ipv4_forwarding_iff:
  "(desired_ipv4_forwarding g local = Inr True \<longleftrightarrow>
     (\<exists>caps. fmlookup (tg_nodes g) local = Some caps \<and> can_route caps = Some True) \<and>
     (\<exists>l m. live_local_link g local l \<and> live_local_link g local m \<and>
        pl_segment_id l \<noteq> pl_segment_id m)) \<and>
   (is_err (desired_ipv4_forwarding g local) \<longleftrightarrow> fmlookup (tg_nodes g) local = None)"
proof (cases "fmlookup (tg_nodes g) local")
  case (Some caps)
  show ?thesis
  proof (cases "can_route caps = Some True")
    case True
    then have eq: "desired_ipv4_forwarding g local = Inr (\<exists>a b.
        (\<exists>l. live_local_link g local l \<and> pl_segment_id l = a) \<and>
        (\<exists>l. live_local_link g local l \<and> pl_segment_id l = b) \<and> a \<noteq> b)"
      using Some unfolding desired_ipv4_forwarding_def graph_node_def Let_def fcard_ge_2_iff live_segments
      by simp
    show ?thesis unfolding eq using Some True by (simp only: is_err_simps sum.inject) auto
  next
    case False
    then show ?thesis using Some by (simp add: desired_ipv4_forwarding_def graph_node_def)
  qed
qed (simp add: desired_ipv4_forwarding_def graph_node_def)

end
