(* ===== verification/Route_Table.thy ===== *)
theory Route_Table
  imports Errors "HOL-Library.Multiset"
begin

text \<open>
  What the core and the Linux route reconciliation have in common: both index the desired and the observed
  routes by destination, subtract the two indexes, and apply the difference through an operator that they
  observe before and after every change. The two locales state what the loops of such a reconciliation do;
  their facts are proved once here and interpreted on the loops of both.
\<close>

section \<open>Indexes and tables\<close>

text \<open>A map indexes a set of routes by their destinations.\<close>

definition indexes :: "('r \<Rightarrow> 'd) \<Rightarrow> ('d, 'r) fmap \<Rightarrow> 'r set \<Rightarrow> bool" where
  "indexes dest m R \<longleftrightarrow> (\<forall>d r. fmlookup m d = Some r \<longleftrightarrow> r \<in> R \<and> dest r = d)"

lemma indexes_empty: "indexes dest fmempty {}"
  by (simp add: indexes_def)

lemma indexes_insert:
  assumes "indexes dest m R" and "fmlookup m (dest r) = None"
  shows "indexes dest (fmupd (dest r) r m) (insert r R)"
  using assms unfolding indexes_def by (auto split: if_splits) (metis option.distinct(1))+

lemma indexes_inj: "indexes dest m R \<Longrightarrow> r \<in> R \<Longrightarrow> q \<in> R \<Longrightarrow> dest r = dest q \<Longrightarrow> r = q"
  unfolding indexes_def by (metis option.inject)

lemma indexes_None: "indexes dest m R \<Longrightarrow> fmlookup m d = None \<longleftrightarrow> d \<notin> dest ` R"
proof -
  assume i: "indexes dest m R"
  have "d \<in> dest ` R \<longleftrightarrow> (\<exists>r. fmlookup m d = Some r)" using i unfolding indexes_def by auto
  then show ?thesis by auto
qed

lemma indexes_distinct:
  assumes "indexes dest m R"
  shows "distinct (map dest (map snd (filter P (sorted_list_of_fmap m))))"
proof -
  have "map dest (map snd (filter P (sorted_list_of_fmap m))) = map fst (filter P (sorted_list_of_fmap m))"
    using assms by (auto simp: set_sorted_list_of_fmap indexes_def)
  moreover have "distinct (map fst (filter P (sorted_list_of_fmap m)))"
    by (rule distinct_map_filter) simp
  ultimately show ?thesis by (simp only:)
qed

text \<open>The table after an upsert: the owned route of that destination is replaced, everything else stays.\<close>

definition put_route :: "('r \<Rightarrow> bool) \<Rightarrow> ('r \<Rightarrow> 'd) \<Rightarrow> 'r \<Rightarrow> 'r set \<Rightarrow> 'r set" where
  "put_route mine dest new R = insert new {r \<in> R. \<not> (mine r \<and> dest r = dest new)}"

lemma fold_put_route:
  assumes "distinct (map dest us)" and "\<forall>u \<in> set us. mine u"
  shows "fold (put_route mine dest) us R = set us \<union> {r \<in> R. \<not> (mine r \<and> dest r \<in> dest ` set us)}"
  using assms
proof (induction us arbitrary: R)
  case (Cons u us)
  then show ?case by (auto simp: put_route_def)
qed simp

section \<open>Planning\<close>

text \<open>A table that a plan with the desired destinations \<open>D\<close> accepts: one sound, canonical route per owned
  destination, and foreign routes whose effective destinations are neither desired nor owned.\<close>

definition clean_table ::
  "('r \<Rightarrow> bool) \<Rightarrow> ('r \<Rightarrow> 'd) \<Rightarrow> ('r \<Rightarrow> bool) \<Rightarrow> ('d \<Rightarrow> 'e + 'd) \<Rightarrow> 'd set \<Rightarrow> 'r list \<Rightarrow> bool" where
  "clean_table mine dest sound canon D observed \<longleftrightarrow>
     distinct (map dest (filter mine observed)) \<and>
     (\<forall>r \<in> set observed. \<exists>d. canon (dest r) = Inr d \<and>
        (if mine r then sound r \<and> d = dest r else d \<notin> D \<and> d \<notin> dest ` {q \<in> set observed. mine q}))"

locale route_diff =
  fixes dest :: "'r \<Rightarrow> 'd::linorder"
    and mine :: "'r \<Rightarrow> bool"
    and valid :: "'r \<Rightarrow> bool"
    and sound :: "'r \<Rightarrow> bool"
    and canon :: "'d \<Rightarrow> 'e + 'd"
    and want :: "'r \<Rightarrow> ('d, 'r) fmap \<Rightarrow> 'e + ('d, 'r) fmap"
    and scan :: "('d, 'r) fmap \<Rightarrow> 'r \<Rightarrow> ('d, 'r) fmap \<times> 'd fset \<Rightarrow> 'e + (('d, 'r) fmap \<times> 'd fset)"
  assumes valid_mine: "valid r \<Longrightarrow> mine r"
    and want_Inr: "want r m = Inr m' \<longleftrightarrow> valid r \<and> fmlookup m (dest r) = None \<and> m' = fmupd (dest r) r m"
    and scan_Inr: "scan wanted r (e, f) = Inr st \<longleftrightarrow>
      (\<exists>d. canon (dest r) = Inr d \<and>
        (if mine r then sound r \<and> d = dest r \<and> fmlookup e d = None \<and> st = (fmupd d r e, f)
         else fmlookup wanted d = None \<and> st = (e, finsert d f)))"
begin

lemma want_all:
  assumes "foldR want desired m = Inr wanted" and "indexes dest m R"
  shows "indexes dest wanted (R \<union> set desired) \<and> (\<forall>r \<in> set desired. valid r) \<and> distinct (map dest desired) \<and>
    (\<forall>r \<in> set desired. fmlookup m (dest r) = None)"
  using assms
proof (induction desired arbitrary: m R)
  case (Cons r desired)
  have v: "valid r" and n: "fmlookup m (dest r) = None"
    and f: "foldR want desired (fmupd (dest r) r m) = Inr wanted"
    using Cons.prems(1) by (auto simp: want_Inr bindR_eq_Inr)
  show ?case
    using Cons.IH [OF f indexes_insert [OF Cons.prems(2) n]] v n by (auto split: if_splits)
qed simp

lemma want_total:
  assumes "\<forall>r \<in> set desired. valid r" and "distinct (map dest desired)"
    and "\<forall>r \<in> set desired. fmlookup m (dest r) = None"
  shows "\<exists>wanted. foldR want desired m = Inr wanted"
  using assms
proof (induction desired arbitrary: m)
  case (Cons r desired)
  then have "want r m = Inr (fmupd (dest r) r m)" by (simp add: want_Inr)
  moreover have "\<forall>q \<in> set desired. fmlookup (fmupd (dest r) r m) (dest q) = None"
    using Cons.prems(2,3) by auto
  ultimately show ?case using Cons by simp
qed simp

lemma scan_all:
  assumes "foldR (scan wanted) observed (e, f) = Inr (existing, foreign)" and "indexes dest e R"
  shows "indexes dest existing (R \<union> {r \<in> set observed. mine r}) \<and> (\<forall>r \<in> set observed. mine r \<longrightarrow> sound r) \<and>
    (\<forall>r \<in> set observed. \<not> mine r \<longrightarrow>
       (\<exists>d. canon (dest r) = Inr d \<and> d |\<in>| foreign \<and> fmlookup wanted d = None)) \<and> f |\<subseteq>| foreign"
  using assms
proof (induction observed arbitrary: e f R)
  case Nil
  then show ?case by auto
next
  case (Cons r observed)
  obtain d where d: "canon (dest r) = Inr d"
    using Cons.prems(1) by (auto simp: scan_Inr bindR_eq_Inr)
  show ?case
  proof (cases "mine r")
    case True
    then have new: "fmlookup e (dest r) = None" and ok: "sound r"
      and rest: "foldR (scan wanted) observed (fmupd (dest r) r e, f) = Inr (existing, foreign)"
      using Cons.prems(1) d by (auto simp: scan_Inr bindR_eq_Inr)
    have "{q \<in> set (r # observed). mine q} = insert r {q \<in> set observed. mine q}" using True by auto
    then show ?thesis
      using Cons.IH [OF rest indexes_insert [OF Cons.prems(2) new]] True ok by auto
  next
    case False
    then have fresh: "fmlookup wanted d = None"
      and rest: "foldR (scan wanted) observed (e, finsert d f) = Inr (existing, foreign)"
      using Cons.prems(1) d by (auto simp: scan_Inr bindR_eq_Inr)
    have "{q \<in> set (r # observed). mine q} = {q \<in> set observed. mine q}" using False by auto
    then show ?thesis using Cons.IH [OF rest Cons.prems(2)] False fresh d by auto
  qed
qed

text \<open>The scan succeeds on a clean table, and the destinations it collects are foreign ones.\<close>

lemma scan_total:
  assumes "\<forall>r \<in> set observed. \<exists>d. canon (dest r) = Inr d \<and>
      (if mine r then sound r \<and> d = dest r else fmlookup wanted d = None)"
    and "distinct (map dest (filter mine observed))"
    and "\<forall>r \<in> set observed. mine r \<longrightarrow> fmlookup e (dest r) = None"
  shows "\<exists>existing foreign. foldR (scan wanted) observed (e, f) = Inr (existing, foreign) \<and>
    (\<forall>d. d |\<in>| foreign \<longrightarrow> d |\<in>| f \<or> (\<exists>r \<in> set observed. \<not> mine r \<and> canon (dest r) = Inr d))"
  using assms
proof (induction observed arbitrary: e f)
  case Nil
  then show ?case by simp
next
  case (Cons r observed)
  obtain d where d: "canon (dest r) = Inr d"
    and ok: "if mine r then sound r \<and> d = dest r else fmlookup wanted d = None"
    using Cons.prems(1) by auto
  show ?case
  proof (cases "mine r")
    case True
    then have "scan wanted r (e, f) = Inr (fmupd d r e, f)"
      using d ok Cons.prems(3) by (simp add: scan_Inr)
    moreover have "\<exists>existing foreign. foldR (scan wanted) observed (fmupd d r e, f) = Inr (existing, foreign) \<and>
        (\<forall>d. d |\<in>| foreign \<longrightarrow> d |\<in>| f \<or> (\<exists>r \<in> set observed. \<not> mine r \<and> canon (dest r) = Inr d))"
      by (rule Cons.IH) (use Cons.prems True ok in auto)
    ultimately show ?thesis by auto
  next
    case False
    then have "scan wanted r (e, f) = Inr (e, finsert d f)" using d ok by (simp add: scan_Inr)
    moreover have "\<exists>existing foreign. foldR (scan wanted) observed (e, finsert d f) = Inr (existing, foreign) \<and>
        (\<forall>c. c |\<in>| foreign \<longrightarrow> c |\<in>| finsert d f \<or> (\<exists>r \<in> set observed. \<not> mine r \<and> canon (dest r) = Inr c))"
      by (rule Cons.IH) (use Cons.prems False in auto)
    ultimately show ?thesis using d False by auto
  qed
qed

lemma diff_exists:
  assumes v: "\<forall>r \<in> set desired. valid r" "distinct (map dest desired)"
    and clean: "clean_table mine dest sound canon (dest ` set desired) observed"
  obtains wanted existing foreign where "foldR want desired fmempty = Inr wanted"
    "foldR (scan wanted) observed (fmempty, {||}) = Inr (existing, foreign)"
    "\<not> list_ex (\<lambda>key. key |\<in>| foreign) (sorted_list_of_fset (fmdom existing))"
proof -
  obtain wanted where w: "foldR want desired fmempty = Inr wanted"
    using want_total [OF v, of fmempty] by auto
  have wn: "fmlookup wanted d = None \<longleftrightarrow> d \<notin> dest ` set desired" for d
    by (rule indexes_None) (use want_all [OF w indexes_empty] in simp)
  obtain existing foreign where e: "foldR (scan wanted) observed (fmempty, {||}) = Inr (existing, foreign)"
    and f: "\<forall>d. d |\<in>| foreign \<longrightarrow> d |\<in>| {||} \<or> (\<exists>r \<in> set observed. \<not> mine r \<and> canon (dest r) = Inr d)"
    using scan_total [of observed wanted fmempty "{||}"] clean unfolding clean_table_def wn by fastforce
  have "d |\<notin>| foreign" if "d |\<in>| fmdom existing" for d
  proof
    assume "d |\<in>| foreign"
    then obtain r where "r \<in> set observed" "\<not> mine r" "canon (dest r) = Inr d" using f by auto
    then have "d \<notin> dest ` {q \<in> set observed. mine q}" using clean unfolding clean_table_def by auto
    moreover have "fmlookup existing d = None \<longleftrightarrow> d \<notin> dest ` {q \<in> set observed. mine q}"
      by (rule indexes_None) (use scan_all [OF e indexes_empty] in simp)
    ultimately show False using that by (simp add: fmlookup_dom_iff)
  qed
  then have "\<not> list_ex (\<lambda>key. key |\<in>| foreign) (sorted_list_of_fset (fmdom existing))"
    by (auto simp: list_ex_iff)
  with w e show thesis by (rule that)
qed

text \<open>The facts of a plan that its consumers need.\<close>

lemma diff_facts:
  assumes w: "foldR want desired fmempty = Inr wanted"
    and e: "foldR (scan wanted) observed (fmempty, {||}) = Inr (existing, foreign)"
    and clash: "\<not> list_ex (\<lambda>key. key |\<in>| foreign) (sorted_list_of_fset (fmdom existing))"
    and up: "up = map snd (filter (\<lambda>(d, r). fmlookup existing d \<noteq> Some r) (sorted_list_of_fmap wanted))"
    and rm: "rm = map snd (filter (\<lambda>(d, _). fmlookup wanted d = None) (sorted_list_of_fmap existing))"
  shows "set up = set desired - {r \<in> set observed. mine r}"
    and "set rm = {r \<in> set observed. mine r \<and> dest r \<notin> dest ` set desired}"
    and "distinct (map dest up)" and "distinct (map dest rm)"
    and "\<forall>r \<in> set desired. valid r" and "distinct (map dest desired)"
    and "r \<in> set observed \<Longrightarrow> q \<in> set observed \<Longrightarrow> mine r \<Longrightarrow> mine q \<Longrightarrow> dest r = dest q \<Longrightarrow> r = q"
    and "p \<in> set observed \<Longrightarrow> \<not> mine p \<Longrightarrow>
      \<exists>d. canon (dest p) = Inr d \<and> d \<notin> dest ` (set desired \<union> {r \<in> set observed. mine r})"
proof -
  note W = want_all [OF w indexes_empty, simplified] and E = scan_all [OF e indexes_empty, simplified]
  have wl: "fmlookup wanted d = Some r \<longleftrightarrow> r \<in> set desired \<and> dest r = d" for d r
    using W unfolding indexes_def by blast
  have el: "fmlookup existing d = Some r \<longleftrightarrow> r \<in> set observed \<and> mine r \<and> dest r = d" for d r
    using E unfolding indexes_def by blast
  have wn: "fmlookup wanted d = None \<longleftrightarrow> d \<notin> dest ` set desired" for d
    by (rule indexes_None) (use W in blast)
  show "set up = set desired - {r \<in> set observed. mine r}"
    by (auto simp: up set_sorted_list_of_fmap wl el image_iff)
  show "set rm = {r \<in> set observed. mine r \<and> dest r \<notin> dest ` set desired}"
    by (auto simp: rm set_sorted_list_of_fmap wn el image_iff)
  show "distinct (map dest up)" "distinct (map dest rm)"
    unfolding up rm by (rule indexes_distinct, use W E in blast)+
  show "\<forall>r \<in> set desired. valid r" "distinct (map dest desired)" using W by blast+
  show "r = q" if "r \<in> set observed" "q \<in> set observed" "mine r" "mine q" "dest r = dest q"
    using indexes_inj [of dest existing "{r \<in> set observed. mine r}"] E that by blast
  show "\<exists>d. canon (dest p) = Inr d \<and> d \<notin> dest ` (set desired \<union> {r \<in> set observed. mine r})"
    if p: "p \<in> set observed" "\<not> mine p"
  proof -
    obtain d where d: "canon (dest p) = Inr d" "d |\<in>| foreign" "fmlookup wanted d = None"
      using E p by auto
    have "d |\<notin>| fmdom existing" using clash d(2) by (auto simp: list_ex_iff)
    then have "d \<notin> dest ` {r \<in> set observed. mine r}" using el by (auto simp: fmlookup_dom_iff)
    then show ?thesis using d wn by (auto simp: image_Un)
  qed
qed

lemma diff_result:
  assumes up: "set up = set desired - {r \<in> set observed. mine r}"
    and rm: "set rm = {r \<in> set observed. mine r \<and> dest r \<notin> dest ` set desired}"
    and dist: "distinct (map dest up)" "distinct (map dest desired)" and v: "\<forall>r \<in> set desired. valid r"
    and inj: "\<And>r q. r \<in> set observed \<Longrightarrow> q \<in> set observed \<Longrightarrow> mine r \<Longrightarrow> mine q \<Longrightarrow> dest r = dest q \<Longrightarrow> r = q"
  shows "fold (put_route mine dest) up (set observed) - set rm = set desired \<union> {r \<in> set observed. \<not> mine r}"
proof -
  have own: "\<forall>u \<in> set desired. mine u" using v valid_mine by blast
  have same: "r = q" if "r \<in> set desired" "q \<in> set desired" "dest r = dest q" for r q
    using dist(2) that by (metis distinct_map inj_onD)
  have "\<forall>u \<in> set up. mine u" unfolding up using own by blast
  note fold = fold_put_route [OF dist(1) this, of "set observed"]
  show ?thesis
  proof (rule set_eqI)
    fix r
    have new: "r \<in> set desired \<Longrightarrow> r \<in> set observed \<Longrightarrow> dest r \<notin> dest ` (set desired - {r \<in> set observed. mine r})"
      using same own by auto
    have kept: "r \<in> set observed \<Longrightarrow> mine r \<Longrightarrow> dest r \<in> dest ` set desired \<Longrightarrow>
        dest r \<notin> dest ` (set desired - {r \<in> set observed. mine r}) \<Longrightarrow> r \<in> set desired"
      using inj own by (auto simp: image_iff)
    show "r \<in> fold (put_route mine dest) up (set observed) - set rm \<longleftrightarrow>
        r \<in> set desired \<union> {r \<in> set observed. \<not> mine r}"
      unfolding fold up rm using own new kept by auto
  qed
qed

lemma diff_idle:
  assumes up: "set up = set desired - {r \<in> set observed. mine r}"
    and rm: "set rm = {r \<in> set observed. mine r \<and> dest r \<notin> dest ` set desired}"
    and inj: "\<And>r q. r \<in> set observed \<Longrightarrow> q \<in> set observed \<Longrightarrow> mine r \<Longrightarrow> mine q \<Longrightarrow> dest r = dest q \<Longrightarrow> r = q"
  shows "up = [] \<and> rm = [] \<longleftrightarrow> {r \<in> set observed. mine r} = set desired"
proof -
  have "up = [] \<and> rm = [] \<longleftrightarrow> set desired - {r \<in> set observed. mine r} = {} \<and>
      {r \<in> set observed. mine r \<and> dest r \<notin> dest ` set desired} = {}"
    unfolding up [symmetric] rm [symmetric] by simp
  also have "\<dots> \<longleftrightarrow> {r \<in> set observed. mine r} = set desired"
    using inj by (auto simp: image_iff) blast
  finally show ?thesis .
qed

end

section \<open>Execution\<close>

text \<open>The documented contract of a kernel operator: observations reflect the kernel state and change nothing; a
  replacement whose previous value is the owned route at the destination (or none) is carried out; a removal of a
  present route is carried out. \<open>table\<close> reads the routes of the state.\<close>

definition honest_table ::
  "('r \<Rightarrow> bool) \<Rightarrow> ('r \<Rightarrow> 'd) \<Rightarrow> ('w, 'r list) eff \<Rightarrow> ('r option \<Rightarrow> 'r \<Rightarrow> ('w, unit) eff) \<Rightarrow> ('r \<Rightarrow> ('w, unit) eff) \<Rightarrow>
   ('w \<Rightarrow> 'r list) \<Rightarrow> bool" where
  "honest_table mine dest observe replace remove table \<longleftrightarrow>
     (\<forall>w. observe w = (Inr (table w), w)) \<and>
     (\<forall>w new previous.
        (case previous of
           None \<Rightarrow> \<forall>r \<in> set (table w). \<not> (mine r \<and> dest r = dest new)
         | Some p \<Rightarrow> p \<in> set (table w) \<and> mine p \<and> dest p = dest new) \<longrightarrow>
        (\<exists>w'. replace previous new w = (Inr (), w') \<and>
           mset (table w') = mset (filter (\<lambda>r. \<not> (mine r \<and> dest r = dest new)) (table w) @ [new]))) \<and>
     (\<forall>w old. old \<in> set (table w) \<longrightarrow>
        (\<exists>w'. remove old w = (Inr (), w') \<and> mset (table w') = mset (filter (\<lambda>r. r \<noteq> old) (table w))))"

lemma sort_mset_cong: "mset xs = mset ys \<Longrightarrow> sort xs = sort (ys :: 'a::linorder list)"
  by (metis properties_for_sort sorted_sort mset_sort)

locale table_executor =
  fixes dest :: "'r::linorder \<Rightarrow> 'd"
    and mine :: "'r \<Rightarrow> bool"
    and observe :: "('w, 'r list) eff"
    and replace :: "'r option \<Rightarrow> 'r \<Rightarrow> ('w, unit) eff"
    and remove :: "'r \<Rightarrow> ('w, unit) eff"
    and upserted :: "'r \<Rightarrow> 'c"
    and removed :: "'r \<Rightarrow> 'c"
    and stale :: core_error
    and bad_upsert :: core_error
    and bad_removal :: core_error
    and upserts :: "'r list \<Rightarrow> 'r list \<times> 'c list \<Rightarrow> ('w, 'r list \<times> 'c list) eff"
    and removals :: "'r list \<Rightarrow> 'r list \<times> 'c list \<Rightarrow> ('w, 'r list \<times> 'c list) eff"
  assumes upserts_Nil: "upserts [] st = retE st"
    and upserts_Cons: "upserts (u # us) (observed, applied) =
      bindE observe (\<lambda>actual. if sort actual \<noteq> observed then raiseE stale
        else bindE (replace (List.find (\<lambda>r. mine r \<and> dest r = dest u) observed) u) (\<lambda>_.
          bindE observe (\<lambda>post.
            if sort post \<noteq> sort (filter (\<lambda>r. \<not> (mine r \<and> dest r = dest u)) observed @ [u]) then raiseE bad_upsert
            else upserts us (sort post, applied @ [upserted u]))))"
    and removals_Nil: "removals [] st = retE st"
    and removals_Cons: "removals (old # rest) (observed, applied) =
      bindE observe (\<lambda>actual. if sort actual \<noteq> observed then raiseE stale
        else bindE (remove old) (\<lambda>_. bindE observe (\<lambda>post.
          if sort post \<noteq> filter (\<lambda>r. r \<noteq> old) observed then raiseE bad_removal
          else removals rest (sort post, applied @ [removed old]))))"
begin

lemma upserts_Inr:
  "upserts us (observed, applied) w = (Inr (observed', applied'), w') \<Longrightarrow>
   set observed' = fold (put_route mine dest) us (set observed) \<and>
   applied' = applied @ map upserted us \<and> (sorted observed \<longrightarrow> sorted observed')"
proof (induction us arbitrary: observed applied w)
  case Nil
  then show ?case by (simp add: upserts_Nil)
next
  case (Cons u us)
  obtain w1 where
    rest: "upserts us (sort (filter (\<lambda>r. \<not> (mine r \<and> dest r = dest u)) observed @ [u]), applied @ [upserted u]) w1 =
     (Inr (observed', applied'), w')"
    using Cons.prems by (auto simp: upserts_Cons bindE_eq_Inr split: if_splits)
  have "set (sort (filter (\<lambda>r. \<not> (mine r \<and> dest r = dest u)) observed @ [u])) = put_route mine dest u (set observed)"
    by (auto simp: put_route_def)
  then show ?case using Cons.IH [OF rest] by simp
qed

lemma removals_Inr:
  "removals rs (observed, applied) w = (Inr (observed', applied'), w') \<Longrightarrow>
   set observed' = set observed - set rs \<and> applied' = applied @ map removed rs \<and>
   (sorted observed \<longrightarrow> sorted observed')"
proof (induction rs arbitrary: observed applied w)
  case Nil
  then show ?case by (simp add: removals_Nil)
next
  case (Cons r rs)
  obtain w1 where rest: "removals rs (filter (\<lambda>q. q \<noteq> r) observed, applied @ [removed r]) w1 =
      (Inr (observed', applied'), w')"
    using Cons.prems by (auto simp: removals_Cons bindE_eq_Inr split: if_splits)
  show ?case using Cons.IH [OF rest] by (auto intro: sorted_wrt_filter)
qed

lemma upserts_honest:
  assumes honest: "honest_table mine dest observe replace remove table" and "sort (table w) = observed"
  shows "\<exists>applied' w'. upserts us (observed, applied) w = (Inr (sort (table w'), applied'), w')"
  using assms(2)
proof (induction us arbitrary: observed applied w)
  case Nil
  then show ?case by (auto simp: upserts_Nil)
next
  case (Cons u us)
  let ?at = "\<lambda>r. mine r \<and> dest r = dest u"
  define prev where "prev = List.find ?at observed"
  have obs: "observe v = (Inr (table v), v)" for v
    using honest by (simp add: honest_table_def)
  have set: "set observed = set (table w)" using Cons.prems by auto
  have "case prev of None \<Rightarrow> \<forall>r \<in> set (table w). \<not> ?at r | Some p \<Rightarrow> p \<in> set (table w) \<and> ?at p"
    unfolding set [symmetric] prev_def
    by (auto simp: find_None_iff find_Some_iff split: option.splits)
  then obtain w1 where w1: "replace prev u w = (Inr (), w1)"
    "mset (table w1) = mset (filter (\<lambda>r. \<not> ?at r) (table w) @ [u])"
    using honest unfolding honest_table_def by blast
  have "mset (filter (\<lambda>r. \<not> ?at r) observed @ [u]) = mset (table w1)"
    using w1(2) Cons.prems by (auto simp: mset_filter)
  then have post: "sort (filter (\<lambda>r. \<not> ?at r) observed @ [u]) = sort (table w1)"
    by (rule sort_mset_cong)
  have "upserts (u # us) (observed, applied) w = upserts us (sort (table w1), applied @ [upserted u]) w1"
    using Cons.prems w1(1) post unfolding prev_def by (simp add: upserts_Cons bindE_def obs)
  then show ?case using Cons.IH [OF refl, of w1] by simp
qed

lemma removals_honest:
  assumes honest: "honest_table mine dest observe replace remove table" and "sort (table w) = observed"
    and "set rs \<subseteq> set observed" and "distinct rs"
  shows "\<exists>applied' w'. removals rs (observed, applied) w = (Inr (sort (table w'), applied'), w')"
  using assms(2-4)
proof (induction rs arbitrary: observed applied w)
  case Nil
  then show ?case by (auto simp: removals_Nil)
next
  case (Cons r rs)
  have obs: "observe v = (Inr (table v), v)" for v
    using honest by (simp add: honest_table_def)
  have "r \<in> set (table w)" using Cons.prems by auto
  then obtain w1 where w1: "remove r w = (Inr (), w1)"
    "mset (table w1) = mset (filter (\<lambda>q. q \<noteq> r) (table w))"
    using honest unfolding honest_table_def by blast
  have "mset (filter (\<lambda>q. q \<noteq> r) observed) = mset (table w1)"
    using w1(2) Cons.prems(1) by (auto simp: mset_filter)
  then have "sort (filter (\<lambda>q. q \<noteq> r) observed) = sort (table w1)" by (rule sort_mset_cong)
  moreover have "sorted (filter (\<lambda>q. q \<noteq> r) observed)"
    using Cons.prems(1) by (auto intro: sorted_wrt_filter)
  ultimately have post: "filter (\<lambda>q. q \<noteq> r) observed = sort (table w1)" by (simp add: sorted_sort_id)
  have step: "removals (r # rs) (observed, applied) w = removals rs (sort (table w1), applied @ [removed r]) w1"
    using Cons.prems(1) post w1(1) by (simp add: removals_Cons bindE_def obs)
  have "set rs \<subseteq> set (sort (table w1))" using Cons.prems(2,3) unfolding post [symmetric] by auto
  then show ?case unfolding step using Cons.IH [OF refl] Cons.prems(3) by simp
qed

text \<open>A difference is carried out completely by an honest operator.\<close>

lemma diff_honest:
  assumes honest: "honest_table mine dest observe replace remove table"
    and up: "set up = set desired - {r \<in> set (table w). mine r}"
    and rm: "set rm = {r \<in> set (table w). mine r \<and> dest r \<notin> dest ` set desired}"
    and dist: "distinct (map dest up)" "distinct (map dest rm)" and own: "\<forall>r \<in> set desired. mine r"
  obtains applied1 w1 applied2 w2 where "upserts up (sort (table w), []) w = (Inr (sort (table w1), applied1), w1)"
    "removals rm (sort (table w1), applied1) w1 = (Inr (sort (table w2), applied2), w2)"
proof -
  obtain a1 w1 where u: "upserts up (sort (table w), []) w = (Inr (sort (table w1), a1), w1)"
    using upserts_honest [OF honest refl, of up w "[]"] by blast
  have "\<forall>u \<in> set up. mine u" unfolding up using own by blast
  from fold_put_route [OF dist(1) this, of "set (table w)"]
  have "set (table w1) = set up \<union> {r \<in> set (table w). \<not> (mine r \<and> dest r \<in> dest ` set up)}"
    using upserts_Inr [OF u] by simp
  then have "set rm \<subseteq> set (sort (table w1))" unfolding rm up by auto
  moreover have "distinct rm" using dist(2) distinct_map by blast
  ultimately obtain a2 w2 where "removals rm (sort (table w1), a1) w1 = (Inr (sort (table w2), a2), w2)"
    using removals_honest [OF honest refl, of rm w1 a1] by blast
  with u show thesis by (rule that)
qed

end

end
