(* ===== verification/Route_Reconciliation.thy ===== *)
theory Route_Reconciliation
  imports Ip_Route Route_Table
begin

text \<open>
  \<open>crates/blueroute-core/src/route_reconciliation.rs\<close>: the difference between the desired routes of a
  network and the observed routes, as upserts and removals. The \<open>for\<close> loops with early return are
  \<open>foldR\<close>; the loop state is the pair of maps the code fills. The facts of the two loops come from the
  interpretation of \<open>route_diff\<close>.
\<close>

section \<open>Operations\<close>

record route_reconciliation_plan =
  rp_upsert :: "route list"
  rp_remove :: "route list"

definition canonical_observed_destination :: "route_destination \<Rightarrow> route_destination core_result" where
  "canonical_observed_destination destination =
     (case destination of
        Prefix prefix \<Rightarrow>
          bindR (ip_prefix_new (pfx_address prefix) (pfx_len prefix)) (\<lambda>_.
            let address =
              (case pfx_address prefix of
                 V4 a \<Rightarrow>
                   let mask = (case checked_shl (- 1) (unat (32 - pfx_len prefix)) of
                                 None \<Rightarrow> 0 | Some m \<Rightarrow> m)
                   in V4 (a AND mask)
               | V6 a \<Rightarrow>
                   let mask = (case checked_shl (- 1) (unat (128 - pfx_len prefix)) of
                                 None \<Rightarrow> 0 | Some m \<Rightarrow> m)
                   in V6 (a AND mask))
            in bindR (ip_prefix_new address (pfx_len prefix)) (\<lambda>p. Inr (Prefix p)))
      | _ \<Rightarrow> Inr destination)"

definition prefix_is_canonical :: "ip_prefix \<Rightarrow> bool" where
  "prefix_is_canonical prefix =
     (case pfx_address prefix of
        V4 bits \<Rightarrow> bits AND push_bit (32 - unat (pfx_len prefix)) (- 1) = bits
      | V6 bits \<Rightarrow> bits AND push_bit (128 - unat (pfx_len prefix)) (- 1) = bits)"

definition validate_desired :: "route \<Rightarrow> network_id \<Rightarrow> unit core_result" where
  "validate_desired route network =
     (if rt_owner route \<noteq> BlueRouteNetwork network
      then Inl (invalid ''desired route belongs to another network'')
      else if all_zero (rt_next_hop route)
      then Inl (invalid ''route next hop has zero identity'')
      else if rt_cost route = 0
      then Inl (invalid ''route cost must be positive'')
      else case rt_destination route of
        Internet \<Rightarrow> Inl (invalid ''default/Internet route is outside local LAN policy'')
      | Node node \<Rightarrow>
          if all_zero node then Inl (invalid ''route destination has zero identity'') else Inr ()
      | Segment segment \<Rightarrow>
          if all_zero segment then Inl (invalid ''route segment has zero identity'') else Inr ()
      | Prefix prefix \<Rightarrow>
          bindR (ip_prefix_new (pfx_address prefix) (pfx_len prefix)) (\<lambda>_.
            if pfx_len prefix = 0
            then Inl (invalid ''zero-length prefix is not a local route'')
            else if \<not> prefix_is_canonical prefix
            then Inl (invalid ''route prefix contains noncanonical host bits'')
            else Inr ()))"

definition want_route ::
  "network_id \<Rightarrow> route \<Rightarrow> (route_destination, route) fmap \<Rightarrow> (route_destination, route) fmap core_result" where
  "want_route network route wanted =
     bindR (validate_desired route network) (\<lambda>_.
       if fmlookup wanted (rt_destination route) \<noteq> None
       then Inl (invalid ''duplicate desired route destination'')
       else Inr (fmupd (rt_destination route) route wanted))"

definition note_observed ::
  "network_id \<Rightarrow> (route_destination, route) fmap \<Rightarrow> route \<Rightarrow>
   (route_destination, route) fmap \<times> route_destination fset \<Rightarrow>
   ((route_destination, route) fmap \<times> route_destination fset) core_result" where
  "note_observed network wanted route st =
     (case st of (existing, foreign_destinations) \<Rightarrow>
      bindR (canonical_observed_destination (rt_destination route)) (\<lambda>destination.
        if rt_owner route \<noteq> BlueRouteNetwork network
        then if fmlookup wanted destination \<noteq> None
             then Inl (invalid ''desired destination conflicts with foreign route'')
             else Inr (existing, finsert destination foreign_destinations)
        else if destination \<noteq> rt_destination route
        then Inl (invalid ''observed owned route has noncanonical prefix'')
        else if fmlookup existing destination \<noteq> None
        then Inl (invalid ''duplicate observed owned route destination'')
        else Inr (fmupd destination route existing, foreign_destinations)))"

definition plan_route_reconciliation ::
  "network_id \<Rightarrow> route list \<Rightarrow> route list \<Rightarrow> route_reconciliation_plan core_result" where
  "plan_route_reconciliation network desired observed =
     (if all_zero network
      then Inl (invalid ''route reconciliation requires a nonzero network'')
      else bindR (foldR (want_route network) desired fmempty) (\<lambda>wanted.
        bindR (foldR (note_observed network wanted) observed (fmempty, {||}))
          (\<lambda>(existing, foreign_destinations).
            if list_ex (\<lambda>key. key |\<in>| foreign_destinations) (sorted_list_of_fset (fmdom existing))
            then Inl (invalid ''owned destination conflicts with foreign route'')
            else Inr \<lparr>rp_upsert = map snd (filter (\<lambda>(destination, route).
                          fmlookup existing destination \<noteq> Some route) (sorted_list_of_fmap wanted)),
                      rp_remove = map snd (filter (\<lambda>(destination, _).
                          fmlookup wanted destination = None) (sorted_list_of_fmap existing))\<rparr>)))"

section \<open>The two loops\<close>

definition owned :: "network_id \<Rightarrow> route list \<Rightarrow> route set" where
  "owned network rs = {r \<in> set rs. rt_owner r = BlueRouteNetwork network}"

lemma desired_owned:
  "validate_desired r network = Inr () \<Longrightarrow> rt_owner r = BlueRouteNetwork network"
  by (simp add: validate_desired_def split: if_splits)

interpretation core_diff: route_diff rt_destination "\<lambda>r. rt_owner r = BlueRouteNetwork network"
  "\<lambda>r. validate_desired r network = Inr ()" "\<lambda>_. True" canonical_observed_destination
  "want_route network" "note_observed network" for network
proof unfold_locales
  show "note_observed network wanted r (e, f) = Inr st \<longleftrightarrow>
      (\<exists>d. canonical_observed_destination (rt_destination r) = Inr d \<and>
        (if rt_owner r = BlueRouteNetwork network
         then True \<and> d = rt_destination r \<and> fmlookup e d = None \<and> st = (fmupd d r e, f)
         else fmlookup wanted d = None \<and> st = (e, finsert d f)))" for wanted r e f st
    by (cases "canonical_observed_destination (rt_destination r)")
      (auto simp: note_observed_def split: if_splits)
qed (auto simp: want_route_def bindR_eq_Inr dest: desired_owned)

section \<open>What a plan does\<close>

definition apply_upsert :: "network_id \<Rightarrow> route \<Rightarrow> route set \<Rightarrow> route set" where
  "apply_upsert network new R =
     insert new {r \<in> R. \<not> (rt_owner r = BlueRouteNetwork network \<and> rt_destination r = rt_destination new)}"

definition apply_plan :: "network_id \<Rightarrow> route_reconciliation_plan \<Rightarrow> route set \<Rightarrow> route set" where
  "apply_plan network plan R = fold (apply_upsert network) (rp_upsert plan) R - set (rp_remove plan)"

definition foreign_routes :: "network_id \<Rightarrow> route list \<Rightarrow> route set" where
  "foreign_routes network rs = {r \<in> set rs. rt_owner r \<noteq> BlueRouteNetwork network}"

lemma apply_upsert_put: "apply_upsert network = put_route (\<lambda>r. rt_owner r = BlueRouteNetwork network) rt_destination"
  by (simp add: fun_eq_iff apply_upsert_def put_route_def)

lemma fold_apply_upsert:
  assumes "distinct (map rt_destination us)" and "\<forall>u \<in> set us. rt_owner u = BlueRouteNetwork network"
  shows "fold (apply_upsert network) us R = set us \<union>
    {r \<in> R. \<not> (rt_owner r = BlueRouteNetwork network \<and> rt_destination r \<in> rt_destination ` set us)}"
  unfolding apply_upsert_put by (rule fold_put_route [OF assms])

text \<open>The facts of a successful plan that its consumers need.\<close>

lemma plan_facts:
  assumes "plan_route_reconciliation network desired observed = Inr plan"
  shows "set (rp_upsert plan) = set desired - owned network observed"
    and "set (rp_remove plan) = {r \<in> owned network observed. rt_destination r \<notin> rt_destination ` set desired}"
    and "distinct (map rt_destination (rp_upsert plan))"
    and "distinct (map rt_destination (rp_remove plan))"
    and "\<forall>r \<in> set desired. validate_desired r network = Inr ()"
    and "r \<in> owned network observed \<Longrightarrow> q \<in> owned network observed \<Longrightarrow>
      rt_destination r = rt_destination q \<Longrightarrow> r = q"
    and "distinct (map rt_destination desired)"
    and "f \<in> foreign_routes network observed \<Longrightarrow>
      \<exists>d. canonical_observed_destination (rt_destination f) = Inr d \<and>
        d \<notin> rt_destination ` (set desired \<union> owned network observed)"
proof -
  obtain wanted existing foreign
    where w: "foldR (want_route network) desired fmempty = Inr wanted"
    and e: "foldR (note_observed network wanted) observed (fmempty, {||}) = Inr (existing, foreign)"
    and clash: "\<not> list_ex (\<lambda>key. key |\<in>| foreign) (sorted_list_of_fset (fmdom existing))"
    and plan: "rp_upsert plan = map snd (filter (\<lambda>(d, r). fmlookup existing d \<noteq> Some r) (sorted_list_of_fmap wanted))"
       "rp_remove plan = map snd (filter (\<lambda>(d, _). fmlookup wanted d = None) (sorted_list_of_fmap existing))"
    using assms
    by (auto simp: plan_route_reconciliation_def bindR_eq_Inr split: if_splits prod.splits)
  note F = core_diff.diff_facts [OF w e clash plan]
  show "set (rp_upsert plan) = set desired - owned network observed"
    "set (rp_remove plan) = {r \<in> owned network observed. rt_destination r \<notin> rt_destination ` set desired}"
    "distinct (map rt_destination (rp_upsert plan))" "distinct (map rt_destination (rp_remove plan))"
    "\<forall>r \<in> set desired. validate_desired r network = Inr ()" "distinct (map rt_destination desired)"
    using F(1-6) by (simp_all add: owned_def)
  show "r \<in> owned network observed \<Longrightarrow> q \<in> owned network observed \<Longrightarrow> rt_destination r = rt_destination q \<Longrightarrow> r = q"
    using F(7) unfolding owned_def by blast
  show "f \<in> foreign_routes network observed \<Longrightarrow> \<exists>d. canonical_observed_destination (rt_destination f) = Inr d \<and>
      d \<notin> rt_destination ` (set desired \<union> owned network observed)"
    using F(8) unfolding owned_def foreign_routes_def by blast
qed

lemma apply_plan_result:
  assumes "plan_route_reconciliation network desired observed = Inr plan"
  shows "apply_plan network plan (set observed) = set desired \<union> foreign_routes network observed"
proof -
  note F = plan_facts [OF assms, unfolded owned_def]
  show ?thesis unfolding apply_plan_def apply_upsert_put foreign_routes_def
    by (rule core_diff.diff_result) (use F(1-5,7) in \<open>auto intro: F(6)\<close>)
qed

text \<open>C19: a reconciliation plan is right. Applied to the observed routes it leaves exactly the desired
  routes of the network and every route of other owners; none of its upserts and removals has the
  effective destination of a foreign route; and it is empty exactly when the owned routes are
  already the desired ones.\<close>

theorem reconciliation_plan_correct:
  assumes "plan_route_reconciliation network desired observed = Inr plan"
  shows "apply_plan network plan (set observed) = set desired \<union> foreign_routes network observed \<and>
    (\<forall>f \<in> foreign_routes network observed. \<exists>d. canonical_observed_destination (rt_destination f) = Inr d \<and>
       d \<notin> rt_destination ` set (rp_upsert plan @ rp_remove plan)) \<and>
    (rp_upsert plan = [] \<and> rp_remove plan = [] \<longleftrightarrow> owned network observed = set desired)"
proof (intro conjI)
  note F = plan_facts [OF assms]
  show "apply_plan network plan (set observed) = set desired \<union> foreign_routes network observed"
    by (rule apply_plan_result [OF assms])
  show "\<forall>f \<in> foreign_routes network observed. \<exists>d. canonical_observed_destination (rt_destination f) = Inr d \<and>
      d \<notin> rt_destination ` set (rp_upsert plan @ rp_remove plan)"
    using F(8) unfolding set_append F(1,2) by blast
  show "rp_upsert plan = [] \<and> rp_remove plan = [] \<longleftrightarrow> owned network observed = set desired"
    unfolding owned_def
    by (rule core_diff.diff_idle) (use F(1,2) in \<open>auto simp: owned_def intro: F(6)\<close>)
qed

theorem reconciliation_plan_correct_witness:
  "plan_route_reconciliation (byte_ident 8)
     [Route (Node (byte_ident 2)) (byte_ident 3) 5 (BlueRouteNetwork (byte_ident 8))]
     [Route (Node (byte_ident 4)) (byte_ident 3) 5 (BlueRouteNetwork (byte_ident 8)),
      Route (Node (byte_ident 9)) (byte_ident 3) 1 (BlueRouteNetwork (byte_ident 7))] =
   Inr \<lparr>rp_upsert = [Route (Node (byte_ident 2)) (byte_ident 3) 5 (BlueRouteNetwork (byte_ident 8))],
     rp_remove = [Route (Node (byte_ident 4)) (byte_ident 3) 5 (BlueRouteNetwork (byte_ident 8))]\<rparr> \<and>
   apply_plan (byte_ident 8)
     \<lparr>rp_upsert = [Route (Node (byte_ident 2)) (byte_ident 3) 5 (BlueRouteNetwork (byte_ident 8))],
      rp_remove = [Route (Node (byte_ident 4)) (byte_ident 3) 5 (BlueRouteNetwork (byte_ident 8))]\<rparr>
     {Route (Node (byte_ident 4)) (byte_ident 3) 5 (BlueRouteNetwork (byte_ident 8)),
      Route (Node (byte_ident 9)) (byte_ident 3) 1 (BlueRouteNetwork (byte_ident 7))} =
   {Route (Node (byte_ident 9)) (byte_ident 3) 1 (BlueRouteNetwork (byte_ident 7)),
    Route (Node (byte_ident 2)) (byte_ident 3) 5 (BlueRouteNetwork (byte_ident 8))}"
  (is "?plan \<and> ?result")
proof
  show plan: ?plan
    by (simp add: plan_route_reconciliation_def want_route_def note_observed_def validate_desired_def
        canonical_observed_destination_def sorted_list_of_fmap_def sorted_list_of_fset_eval)
  have "{r. (r = Route (Node (byte_ident 4)) (byte_ident 3) 5 (BlueRouteNetwork (byte_ident 8)) \<or>
      r = Route (Node (byte_ident 9)) (byte_ident 3) 1 (BlueRouteNetwork (byte_ident 7))) \<and>
      rt_owner r \<noteq> BlueRouteNetwork (byte_ident 8)} =
    {Route (Node (byte_ident 9)) (byte_ident 3) 1 (BlueRouteNetwork (byte_ident 7))}"
    by auto
  then show ?result
    using reconciliation_plan_correct [OF plan] by (simp add: foreign_routes_def)
qed

end
