(* ===== verification/Route_Planner.thy ===== *)
theory Route_Planner
  imports Topology Ip_Route "HOL-Library.Multiset"
begin

text \<open>
  \<open>crates/blueroute-core/src/route_planner.rs\<close>: the routes from one node, computed by a search with
  a priority queue. The binary heap of \<open>Reverse\<close> tuples pops its least element; it is a list that
  is kept sorted. A label is \<open>(total cost, hop count, first hop)\<close> with the cost a \<open>u64\<close>.
\<close>

section \<open>The search\<close>

type_synonym route_label = "u64 \<times> nat \<times> node_id"
type_synonym route_entry = "u64 \<times> nat \<times> node_id \<times> node_id"
type_synonym plan_state = "(node_id, route_label) fmap \<times> route_entry list"

definition DEGRADED_LINK_COST_PENALTY :: u64 where
  "DEGRADED_LINK_COST_PENALTY = 100"

definition link_edge :: "pan_link \<Rightarrow> u64" where
  "link_edge link =
     ucast (max (pl_cost link) 1) +
     (if pl_health link = Degraded then DEGRADED_LINK_COST_PENALTY else 0)"

text \<open>One turn of the \<open>for\<close> loop over the links, for the entry that was popped.\<close>

definition relax_link ::
  "node_id \<Rightarrow> route_entry \<Rightarrow> pan_link \<Rightarrow> plan_state \<Rightarrow> plan_state core_result" where
  "relax_link source entry link st =
     (case entry of (cost, hops, first_hop, current) \<Rightarrow> case st of (best, queue) \<Rightarrow>
      if \<not> is_forwarding_candidate link then Inr st
      else case other_endpoint link current of
        None \<Rightarrow> Inr st
      | Some next \<Rightarrow>
          bindR (ok_or (core_error_new TopologyFailure ''route cost overflow'')
              (checked_add cost (link_edge link))) (\<lambda>next_cost.
            let next_hops = hops + 1;
                next_first_hop = (if current = source then next else first_hop);
                candidate = (next_cost, next_hops, next_first_hop)
            in if (case fmlookup best next of None \<Rightarrow> True | Some previous \<Rightarrow> candidate < previous)
               then Inr (fmupd next candidate best,
                         insort (next_cost, next_hops, next_first_hop, next) queue)
               else Inr st))"

definition node_can_route :: "topology_graph \<Rightarrow> node_id \<Rightarrow> bool" where
  "node_can_route g n \<longleftrightarrow> Option.bind (graph_node g n) can_route = Some True"

subsection \<open>Termination\<close>

text \<open>A turn that pushes an entry lowers the label of one link endpoint, so the multiset of labels
  goes down; a turn that pushes none shortens the queue.\<close>

definition label_rank :: "route_label option \<Rightarrow> nat \<times> nat \<times> nat \<times> nat" where
  "label_rank l = (case l of None \<Rightarrow> (1, 0, 0, 0) | Some (c, h, f) \<Rightarrow> (0, unat c, h, ident_rank f))"

definition rank_less :: "((nat \<times> nat \<times> nat \<times> nat) \<times> (nat \<times> nat \<times> nat \<times> nat)) set" where
  "rank_less = less_than <*lex*> less_than <*lex*> less_than <*lex*> less_than"

definition label_ranks :: "topology_graph \<Rightarrow> (node_id, route_label) fmap \<Rightarrow> (nat \<times> nat \<times> nat \<times> nat) multiset" where
  "label_ranks g best = image_mset (\<lambda>n. label_rank (fmlookup best n)) (mset_set (link_endpoints g))"

lemma wf_rank_less: "wf rank_less"
  unfolding rank_less_def by (intro wf_lex_prod wf_less_than)

lemma label_rank_less: "a < b \<Longrightarrow> (label_rank (Some a), label_rank (Some b)) \<in> rank_less"
  by (cases a; cases b) (auto simp: rank_less_def label_rank_def word_less_nat_alt word_le_nat_alt
      dest: ident_rank_less)

lemma label_rank_None: "(label_rank (Some a), label_rank None) \<in> rank_less"
  by (cases a) (simp add: rank_less_def label_rank_def)

lemma label_ranks_update:
  assumes "n \<in> link_endpoints g"
    and "case fmlookup best n of None \<Rightarrow> True | Some previous \<Rightarrow> l < previous"
  shows "(label_ranks g (fmupd n l best), label_ranks g best) \<in> mult rank_less"
proof -
  have E: "mset_set (link_endpoints g) = add_mset n (mset_set (link_endpoints g - {n}))"
    using assms(1) by (simp add: mset_set.remove)
  have same: "image_mset (\<lambda>m. label_rank (fmlookup (fmupd n l best) m)) (mset_set (link_endpoints g - {n})) =
      image_mset (\<lambda>m. label_rank (fmlookup best m)) (mset_set (link_endpoints g - {n}))"
    by (rule image_mset_cong) auto
  have "(label_rank (Some l), label_rank (fmlookup best n)) \<in> rank_less"
    using assms(2) label_rank_less label_rank_None by (cases "fmlookup best n") simp_all
  then show ?thesis
    using one_step_implies_mult [of "{#label_rank (fmlookup best n)#}" "{#label_rank (Some l)#}" rank_less]
    unfolding label_ranks_def E by (simp add: same del: fmupd_lookup) simp
qed

lemma other_endpoint_in_endpoints:
  "l \<in> set (fm_values (tg_links g)) \<Longrightarrow> other_endpoint l u = Some n \<Longrightarrow> n \<in> link_endpoints g"
  by (auto simp: link_endpoints_def other_endpoint_def split: if_splits)

lemma relax_links_decrease:
  assumes "foldR (relax_link source entry) links (best, queue) = Inr (best', queue')"
    and "set links \<subseteq> set (fm_values (tg_links g))"
  shows "(best', queue') = (best, queue) \<or> (label_ranks g best', label_ranks g best) \<in> mult rank_less"
  using assms
proof (induction links arbitrary: best queue)
  case (Cons l links)
  obtain b q where step: "relax_link source entry l (best, queue) = Inr (b, q)"
    and rest: "foldR (relax_link source entry) links (b, q) = Inr (best', queue')"
    using Cons.prems(1) by (auto simp: bindR_eq_Inr)
  have "(b, q) = (best, queue) \<or> (label_ranks g b, label_ranks g best) \<in> mult rank_less"
    using step Cons.prems(2) other_endpoint_in_endpoints [of l g]
    by (auto simp: relax_link_def Let_def bindR_eq_Inr intro!: label_ranks_update
        split: prod.splits if_splits option.splits)
  then show ?case
    using Cons.IH [OF rest] Cons.prems(2) by (auto simp: mult_def dest: trancl_trans)
qed simp

function plan_loop :: "topology_graph \<Rightarrow> node_id \<Rightarrow> plan_state \<Rightarrow> (node_id, route_label) fmap core_result" where
  "plan_loop g source (best, queue) =
     (case queue of
        [] \<Rightarrow> Inr best
      | (cost, hops, first_hop, current) # queue \<Rightarrow>
          if fmlookup best current \<noteq> Some (cost, hops, first_hop)
          then plan_loop g source (best, queue)
          else if current \<noteq> source \<and> \<not> node_can_route g current
          then plan_loop g source (best, queue)
          else case foldR (relax_link source (cost, hops, first_hop, current))
                      (fm_values (tg_links g)) (best, queue) of
                 Inl e \<Rightarrow> Inl e
               | Inr st \<Rightarrow> plan_loop g source st)"
  by pat_completeness auto

termination
proof (relation "inv_image (mult rank_less <*lex*> less_than)
    (\<lambda>(g, s, best, queue). (label_ranks g best, length queue))", goal_cases)
  case 1
  show ?case by (intro wf_inv_image wf_lex_prod wf_mult wf_rank_less wf_less_than)
next
  case (4 g source best queue entry rest cost b hops c first_hop current st)
  then show ?case using relax_links_decrease [of source "(cost, hops, first_hop, current)"
      "fm_values (tg_links g)" best rest _ _ g] by (cases st) fastforce
qed simp_all

declare plan_loop.simps [simp del]

definition label_route :: "network_id \<Rightarrow> node_id \<times> route_label \<Rightarrow> route core_result" where
  "label_route network e =
     (case e of (node, cost, _, next_hop) \<Rightarrow>
        if unat cost < 2 ^ 32
        then Inr (Route (Node node) next_hop (ucast cost) (BlueRouteNetwork network))
        else Inl (core_error_new TopologyFailure ''route metric exceeds u32''))"

definition desired_node_routes :: "topology_graph \<Rightarrow> node_id \<Rightarrow> network_id \<Rightarrow> route list core_result" where
  "desired_node_routes g source network =
     (if graph_node g source = None
      then Inl (core_error_new InvalidInput ''source is not in the topology'')
      else bindR (plan_loop g source
               (fmupd source (0, 0, source) fmempty, [(0, 0, source, source)])) (\<lambda>best.
             collectR (map (label_route network)
               (filter (\<lambda>(node, _). node \<noteq> source) (sorted_list_of_fmap best)))))"

section \<open>Walks\<close>

text \<open>The specification: the labels of the walks from \<open>s\<close> over forwarding links in which every node
  that is passed through is known to route. The label of a walk is its total cost, its number of
  hops and its first hop, compared lexicographically.\<close>

type_synonym walk_label = "nat \<times> nat \<times> node_id"

definition edge_cost :: "pan_link \<Rightarrow> nat" where
  "edge_cost l = max (unat (pl_cost l)) 1 + (if pl_health l = Degraded then 100 else 0)"

fun extend_label :: "node_id \<Rightarrow> node_id \<Rightarrow> node_id \<Rightarrow> pan_link \<Rightarrow> walk_label \<Rightarrow> walk_label" where
  "extend_label s u v l (c, h, f) = (c + edge_cost l, h + 1, if u = s then v else f)"

definition may_extend :: "topology_graph \<Rightarrow> node_id \<Rightarrow> node_id \<Rightarrow> bool" where
  "may_extend g s u \<longleftrightarrow> u = s \<or> node_can_route g u"

definition hop_link :: "topology_graph \<Rightarrow> node_id \<Rightarrow> pan_link \<Rightarrow> node_id \<Rightarrow> bool" where
  "hop_link g u l v \<longleftrightarrow> l \<in> set (fm_values (tg_links g)) \<and> is_forwarding_candidate l \<and>
     other_endpoint l u = Some v"

inductive route_walk :: "topology_graph \<Rightarrow> node_id \<Rightarrow> node_id \<Rightarrow> walk_label \<Rightarrow> bool" for g s where
  start: "route_walk g s s (0, 0, s)"
| step: "route_walk g s u k \<Longrightarrow> may_extend g s u \<Longrightarrow> hop_link g u l v \<Longrightarrow>
    route_walk g s v (extend_label s u v l k)"

fun nat_label :: "route_label \<Rightarrow> walk_label" where
  "nat_label (c, h, f) = (unat c, h, f)"

fun entry :: "route_label \<Rightarrow> node_id \<Rightarrow> route_entry" where
  "entry (c, h, f) v = (c, h, f, v)"

lemma nat_label_less: "nat_label a < nat_label b \<longleftrightarrow> a < b"
  by (cases a; cases b) (auto simp: word_less_nat_alt word_le_nat_alt)

lemma nat_label_le: "nat_label a \<le> nat_label b \<longleftrightarrow> a \<le> b"
  by (simp add: linorder_not_less [symmetric] nat_label_less)

lemma entry_le: "entry a u \<le> entry b v \<Longrightarrow> a \<le> b"
  by (cases a; cases b) auto

lemma extend_mono: "a \<le> b \<Longrightarrow> extend_label s u v l a \<le> extend_label s u v l b"
  by (cases a; cases b) auto

lemma edge_cost_pos: "0 < edge_cost l"
  by (simp add: edge_cost_def max_def)

lemma extend_greater: "a < extend_label s u v l a"
  using edge_cost_pos [of l] by (cases a) simp

lemma unat_link_edge: "unat (link_edge l) = edge_cost l" and edge_cost_bound: "edge_cost l < 2 ^ 33"
proof -
  have m: "unat (max (pl_cost l) 1) = max (unat (pl_cost l)) 1"
    by (simp add: max_def word_le_nat_alt)
  have b: "unat (max (pl_cost l) 1) < 2 ^ 32" using unat_less_pow [of "max (pl_cost l) 1"] by simp
  then have u: "unat (ucast (max (pl_cost l) 1) :: u64) = unat (max (pl_cost l) 1)"
    by (simp add: unsigned_ucast_eq take_bit_nat_eq_self)
  then have "unat (ucast (max (pl_cost l) 1) + (100 :: u64)) = unat (max (pl_cost l) 1) + 100"
    using b unat_add_no_overflow [of "ucast (max (pl_cost l) 1) :: u64" 100] by simp
  then show "unat (link_edge l) = edge_cost l"
    using u m by (simp add: link_edge_def edge_cost_def DEGRADED_LINK_COST_PENALTY_def)
  show "edge_cost l < 2 ^ 33" using b m by (simp add: edge_cost_def)
qed

section \<open>The invariant of the search\<close>

text \<open>\<open>settled\<close>: every extension of the label \<open>k\<close> of \<open>v\<close> is matched or beaten.\<close>

definition beats :: "(node_id, route_label) fmap \<Rightarrow> node_id \<Rightarrow> walk_label \<Rightarrow> bool" where
  "beats best v k \<longleftrightarrow> (\<exists>b. fmlookup best v = Some b \<and> nat_label b \<le> k)"

definition settled :: "topology_graph \<Rightarrow> node_id \<Rightarrow> (node_id, route_label) fmap \<Rightarrow> node_id \<Rightarrow> route_label \<Rightarrow> bool" where
  "settled g s best v k \<longleftrightarrow>
     (may_extend g s v \<longrightarrow> (\<forall>l w. hop_link g v l w \<longrightarrow> beats best w (extend_label s v w l (nat_label k))))"

definition labels_inv :: "topology_graph \<Rightarrow> node_id \<Rightarrow> (node_id, route_label) fmap \<Rightarrow> bool" where
  "labels_inv g s best \<longleftrightarrow> fmlookup best s = Some (0, 0, s) \<and>
     (\<forall>v k. fmlookup best v = Some k \<longrightarrow> route_walk g s v (nat_label k))"

text \<open>All labels but possibly the label \<open>k\<close> of \<open>u\<close>, which is being expanded, are queued or settled.\<close>

definition plan_inv_except ::
  "topology_graph \<Rightarrow> node_id \<Rightarrow> (node_id \<times> route_label) set \<Rightarrow> plan_state \<Rightarrow> bool" where
  "plan_inv_except g s X st = (case st of (best, queue) \<Rightarrow>
     sorted queue \<and> labels_inv g s best \<and>
     (\<forall>v k. fmlookup best v = Some k \<longrightarrow>
        entry k v \<in> set queue \<or> settled g s best v k \<or> (v, k) \<in> X))"

lemma beats_improve:
  assumes "case fmlookup best n of None \<Rightarrow> True | Some p \<Rightarrow> l < p" and "beats best v k"
  shows "beats (fmupd n l best) v k"
proof (cases "v = n")
  case True
  then obtain b where "fmlookup best n = Some b" "nat_label b \<le> k" using assms(2) by (auto simp: beats_def)
  moreover from this have "nat_label l < nat_label b" using assms(1) by (simp add: nat_label_less)
  ultimately show ?thesis using True by (simp add: beats_def)
next
  case False
  then show ?thesis using assms(2) by (simp add: beats_def)
qed

lemma settled_improve:
  assumes "case fmlookup best n of None \<Rightarrow> True | Some p \<Rightarrow> l < p" and "settled g s best v k"
  shows "settled g s (fmupd n l best) v k"
  using assms(2) beats_improve [OF assms(1)] unfolding settled_def by blast

text \<open>One relaxation keeps the invariant and matches the extension over its link.\<close>

lemma relax_link_inv:
  assumes inv: "plan_inv_except g s {(u, k)} (best, queue)" and walk: "route_walk g s u (nat_label k)"
    and may: "may_extend g s u" and l: "l \<in> set (fm_values (tg_links g))"
    and step: "relax_link s (entry k u) l (best, queue) = Inr (best', queue')"
  shows "plan_inv_except g s {(u, k)} (best', queue')"
    and "hop_link g u l w \<Longrightarrow> beats best' w (extend_label s u w l (nat_label k))"
    and "beats best v x \<Longrightarrow> beats best' v x"
proof -
  obtain c h f where k: "k = (c, h, f)" by (cases k)
  have all: "plan_inv_except g s {(u, k)} (best', queue') \<and>
      (\<forall>w. hop_link g u l w \<longrightarrow> beats best' w (extend_label s u w l (nat_label k))) \<and>
      (\<forall>v x. beats best v x \<longrightarrow> beats best' v x)"
  proof (cases "is_forwarding_candidate l \<and> other_endpoint l u \<noteq> None")
    case False
    then have "(best', queue') = (best, queue)"
      using step by (auto simp: relax_link_def k split: option.splits)
    then show ?thesis using inv False by (auto simp: hop_link_def)
  next
    case True
    then obtain v where v: "other_endpoint l u = Some v" by blast
    then have hop: "hop_link g u l w \<longleftrightarrow> w = v" for w using l True by (auto simp: hop_link_def)
    obtain nc where nc: "checked_add c (link_edge l) = Some nc"
      using step True v by (auto simp: relax_link_def k bindR_eq_Inr ok_or_eq_Inr)
    define cand :: route_label where "cand = (nc, h + 1, if u = s then v else f)"
    have cand: "nat_label cand = extend_label s u v l (nat_label k)"
      using checked_add_SomeD [OF nc, THEN conjunct1] by (simp add: cand_def k unat_link_edge)
    define better where "better \<longleftrightarrow> (case fmlookup best v of None \<Rightarrow> True | Some p \<Rightarrow> cand < p)"
    have res: "(best', queue') = (if better then (fmupd v cand best, insort (entry cand v) queue) else (best, queue))"
      using step True v nc by (auto simp: relax_link_def k Let_def cand_def better_def split: option.splits if_splits)
    show ?thesis
    proof (cases better)
      case True
      have "v \<noteq> s"
      proof
        assume "v = s"
        then have "cand < (0, 0, s)" using True inv by (simp add: better_def plan_inv_except_def labels_inv_def)
        then have "nat_label cand < nat_label (0, 0, s)" by (simp only: nat_label_less)
        then show False using edge_cost_pos [of l] by (simp add: cand k)
      qed
      moreover have "route_walk g s v (nat_label cand)"
        unfolding cand using route_walk.step [OF walk may] hop by blast
      ultimately have labels: "labels_inv g s (fmupd v cand best)"
        using inv by (auto simp: plan_inv_except_def labels_inv_def)
      have keep: "beats (fmupd v cand best) x y" if "beats best x y" for x y
        using beats_improve [OF True [unfolded better_def] that] .
      have "entry kx x \<in> set (insort (entry cand v) queue) \<or> settled g s (fmupd v cand best) x kx \<or> (x, kx) \<in> {(u, k)}"
        if "fmlookup (fmupd v cand best) x = Some kx" for x kx
      proof (cases "x = v")
        case False
        then have "entry kx x \<in> set queue \<or> settled g s best x kx \<or> (x, kx) \<in> {(u, k)}"
          using inv that unfolding plan_inv_except_def prod.case by (metis fmupd_lookup)
        then show ?thesis
          using settled_improve [OF True [unfolded better_def], of g s x kx] by (auto simp: set_insort_key)
      qed (use that in \<open>simp add: set_insort_key\<close>)
      then have "plan_inv_except g s {(u, k)} (best', queue')"
        using labels inv res True unfolding plan_inv_except_def prod.case by (simp only: if_True prod.inject sorted_insort) blast
      moreover have "beats best' v (nat_label cand)" using res True by (simp add: beats_def)
      ultimately show ?thesis using res True keep hop by (simp add: cand)
    next
      case False
      then obtain p where p: "fmlookup best v = Some p" "p \<le> cand"
        by (auto simp: better_def split: option.splits)
      then have "beats best v (nat_label cand)" by (auto simp: beats_def nat_label_le)
      then show ?thesis using res False inv hop by (simp add: cand)
    qed
  qed
  show "plan_inv_except g s {(u, k)} (best', queue')"
    and "hop_link g u l w \<Longrightarrow> beats best' w (extend_label s u w l (nat_label k))"
    and "beats best v x \<Longrightarrow> beats best' v x"
    using all by blast+
qed

lemma relax_links_inv:
  assumes "plan_inv_except g s {(u, k)} st" and walk: "route_walk g s u (nat_label k)"
    and may: "may_extend g s u" and "set links \<subseteq> set (fm_values (tg_links g))"
    and "foldR (relax_link s (entry k u)) links st = Inr st'"
  shows "plan_inv_except g s {(u, k)} st' \<and>
    (\<forall>l \<in> set links. \<forall>w. hop_link g u l w \<longrightarrow> beats (fst st') w (extend_label s u w l (nat_label k))) \<and>
    (\<forall>v x. beats (fst st) v x \<longrightarrow> beats (fst st') v x)"
  using assms(1,4,5)
proof (induction links arbitrary: st)
  case (Cons l links)
  obtain best queue where st: "st = (best, queue)" by (cases st)
  obtain st1 where s1: "relax_link s (entry k u) l st = Inr st1"
    and rest: "foldR (relax_link s (entry k u)) links st1 = Inr st'"
    using Cons.prems(3) by (auto simp: bindR_eq_Inr)
  obtain b1 q1 where st1: "st1 = (b1, q1)" by (cases st1)
  have l: "l \<in> set (fm_values (tg_links g))" using Cons.prems(2) by simp
  note one = relax_link_inv [OF Cons.prems(1) [unfolded st] walk may l s1 [unfolded st st1]]
  have "set links \<subseteq> set (fm_values (tg_links g))" using Cons.prems(2) by simp
  then have "plan_inv_except g s {(u, k)} st' \<and>
      (\<forall>l \<in> set links. \<forall>w. hop_link g u l w \<longrightarrow> beats (fst st') w (extend_label s u w l (nat_label k))) \<and>
      (\<forall>v x. beats b1 v x \<longrightarrow> beats (fst st') v x)"
    using Cons.IH [OF one(1)] rest by (simp add: st1)
  then have rest': "plan_inv_except g s {(u, k)} st'"
      "\<And>l w. l \<in> set links \<Longrightarrow> hop_link g u l w \<Longrightarrow> beats (fst st') w (extend_label s u w l (nat_label k))"
      "\<And>v x. beats b1 v x \<Longrightarrow> beats (fst st') v x"
    by blast+
  show ?case
  proof (intro conjI ballI allI impI)
    show "plan_inv_except g s {(u, k)} st'" by (fact rest'(1))
    fix m w assume "m \<in> set (l # links)" and "hop_link g u m w"
    then show "beats (fst st') w (extend_label s u w m (nat_label k))"
      using rest'(2,3) one(2) by (cases "m = l") auto
  next
    fix v x assume "beats (fst st) v x"
    then show "beats (fst st') v x" using rest'(3) one(3) by (simp add: st)
  qed
qed simp

lemma pop_inv:
  assumes inv: "plan_inv_except g s {} (best, entry k u # queue)"
  shows "plan_inv_except g s {(u, k)} (best, queue)"
proof -
  have inj: "entry a v = entry k u \<Longrightarrow> (v, a) = (u, k)" for a v by (cases a; cases k) simp
  have "entry a v \<in> set queue \<or> settled g s best v a \<or> (v, a) \<in> {(u, k)}"
    if "fmlookup best v = Some a" for v a
  proof -
    have "entry a v \<in> set (entry k u # queue) \<or> settled g s best v a \<or> (v, a) \<in> {}"
      using inv that unfolding plan_inv_except_def prod.case by blast
    then show ?thesis using inj [of a v] by (simp only: set_simps insert_iff) blast
  qed
  then show ?thesis using inv unfolding plan_inv_except_def prod.case by simp
qed

lemma expand_inv:
  assumes inv: "plan_inv_except g s {} (best, entry k u # queue)" and "fmlookup best u = Some k"
    and may: "may_extend g s u"
    and fold: "foldR (relax_link s (entry k u)) (fm_values (tg_links g)) (best, queue) = Inr st'"
  shows "plan_inv_except g s {} st'"
proof -
  have walk: "route_walk g s u (nat_label k)"
    using inv assms(2) unfolding plan_inv_except_def labels_inv_def prod.case by blast
  note fin = relax_links_inv [OF pop_inv [OF inv] walk may order_refl fold]
  obtain b q where st': "st' = (b, q)" by (cases st')
  have "settled g s b u k" using fin unfolding settled_def hop_link_def st' by fastforce
  then show ?thesis using fin unfolding plan_inv_except_def prod.case st' by blast
qed

lemma skip_inv:
  assumes inv: "plan_inv_except g s {} (best, entry k u # queue)"
    and "fmlookup best u \<noteq> Some k \<or> \<not> may_extend g s u"
  shows "plan_inv_except g s {} (best, queue)"
proof -
  have "entry a v \<in> set queue \<or> settled g s best v a \<or> (v, a) \<in> {}"
    if "fmlookup best v = Some a" for v a
  proof -
    have "entry a v \<in> set queue \<or> settled g s best v a \<or> (v, a) \<in> {(u, k)}"
      using pop_inv [OF inv] that unfolding plan_inv_except_def prod.case by blast
    then show ?thesis using assms(2) that by (auto simp: settled_def)
  qed
  then show ?thesis using pop_inv [OF inv] unfolding plan_inv_except_def prod.case by simp
qed

text \<open>Every walk is beaten by a label, or a queued entry is already no worse than it.\<close>

lemma walk_beaten:
  assumes inv: "plan_inv_except g s {} (best, queue)"
  shows "route_walk g s v x \<Longrightarrow>
    beats best v x \<or> (\<exists>k u. entry k u \<in> set queue \<and> nat_label k \<le> x)"
proof (induction rule: route_walk.induct)
  case start
  have "fmlookup best s = Some (0, 0, s)"
    using inv unfolding plan_inv_except_def labels_inv_def prod.case by blast
  then show ?case by (simp add: beats_def)
next
  case (step u x l v)
  then consider (best) "beats best u x" | (queued) k w where "entry k w \<in> set queue" "nat_label k \<le> x"
    by blast
  then show ?case
  proof cases
    case best
    then obtain b where b: "fmlookup best u = Some b" "nat_label b \<le> x" by (auto simp: beats_def)
    then have "entry b u \<in> set queue \<or> settled g s best u b"
      using inv unfolding plan_inv_except_def prod.case by blast
    then show ?thesis
    proof
      assume "entry b u \<in> set queue"
      then show ?thesis using b(2) extend_greater [of x s u v l] by (meson less_imp_le order_trans)
    next
      assume "settled g s best u b"
      then have "beats best v (extend_label s u v l (nat_label b))"
        using step.hyps unfolding settled_def by blast
      then show ?thesis using extend_mono [OF b(2)] unfolding beats_def by (meson order_trans)
    qed
  next
    case queued
    then show ?thesis using extend_greater [of x s u v l] by (meson less_imp_le order_trans)
  qed
qed

lemma popped_is_minimal:
  assumes inv: "plan_inv_except g s {} (best, entry k u # queue)" and "fmlookup best u = Some k"
    and "route_walk g s u x"
  shows "nat_label k \<le> x"
proof -
  consider "beats best u x" | k' w where "entry k' w \<in> set (entry k u # queue)" "nat_label k' \<le> x"
    using walk_beaten [OF inv assms(3)] by blast
  then show ?thesis
  proof cases
    case 1
    then show ?thesis using assms(2) by (simp add: beats_def)
  next
    case (2 k' w)
    have "entry k u \<le> entry k' w"
      using inv 2(1) unfolding plan_inv_except_def prod.case by auto
    then have "k \<le> k'" by (rule entry_le)
    then show ?thesis using 2(2) nat_label_le order_trans by blast
  qed
qed

lemma relax_links_overflow:
  assumes "foldR (relax_link s (c, h, f, u)) links st = Inl e"
  shows "err_kind e = TopologyFailure \<and> (\<exists>l. 2 ^ 64 \<le> unat c + edge_cost l)"
  using assms
proof (induction links arbitrary: st)
  case (Cons l links)
  show ?case
  proof (cases "relax_link s (c, h, f, u) l st")
    case (Inl e')
    then have "checked_add c (link_edge l) = None" "e = core_error_new TopologyFailure ''route cost overflow''"
      using Cons.prems
      by (auto simp: relax_link_def Let_def bindR_eq_Inl ok_or_eq_Inl split: prod.splits if_splits option.splits)
    then show ?thesis by (auto simp: checked_add_eq_None_iff unat_link_edge)
  next
    case (Inr st1)
    then show ?thesis using Cons by simp
  qed
qed simp

section \<open>The computed routes\<close>

text \<open>A node is costly when it has a walk but every walk to it exceeds the \<open>u32\<close> metric.\<close>

definition costly :: "topology_graph \<Rightarrow> node_id \<Rightarrow> node_id \<Rightarrow> bool" where
  "costly g s v \<longleftrightarrow> (\<exists>x. route_walk g s v x) \<and> (\<forall>c h f. route_walk g s v (c, h, f) \<longrightarrow> 2 ^ 32 \<le> c)"

lemma label_le_cost: "(c, h, f) \<le> ((c', h', f') :: walk_label) \<Longrightarrow> c \<le> c'"
  by auto

lemma overflow_costly:
  assumes inv: "plan_inv_except g s {} (best, (c, h, f, u) # queue)"
    and best: "fmlookup best u = Some (c, h, f)" and over: "2 ^ 64 \<le> unat c + edge_cost l"
  shows "u \<noteq> s \<and> costly g s u"
proof -
  have big: "2 ^ 32 \<le> unat c" using over edge_cost_bound [of l] by simp
  have labels: "labels_inv g s best" using inv unfolding plan_inv_except_def prod.case by blast
  have "u \<noteq> s" using labels best big by (auto simp: labels_inv_def)
  moreover have "route_walk g s u (unat c, h, f)" using labels best by (auto simp: labels_inv_def)
  moreover have "2 ^ 32 \<le> c'" if "route_walk g s u (c', h', f')" for c' h' f'
    using popped_is_minimal [of g s best "(c, h, f)" u queue "(c', h', f')"] inv best that big
    by (auto dest: label_le_cost)
  ultimately show ?thesis unfolding costly_def by blast
qed

lemma plan_loop_correct:
  assumes "plan_inv_except g s {} st"
  shows "case plan_loop g s st of
      Inr best \<Rightarrow> plan_inv_except g s {} (best, [])
    | Inl e \<Rightarrow> err_kind e = TopologyFailure \<and> (\<exists>v. v \<noteq> s \<and> costly g s v)"
  using assms
proof (induction g s st rule: plan_loop.induct)
  case (1 g s best queue)
  show ?case
  proof (cases queue)
    case Nil
    then show ?thesis using 1 by (simp add: plan_loop.simps)
  next
    case (Cons e rest)
    obtain c h f u where e: "e = (c, h, f, u)" by (cases e)
    have inv: "plan_inv_except g s {} (best, entry (c, h, f) u # rest)"
      using "1.prems" by (simp add: Cons e)
    show ?thesis
    proof (cases "fmlookup best u = Some (c, h, f) \<and> may_extend g s u")
      case False
      then have "plan_loop g s (best, queue) = plan_loop g s (best, rest)"
        by (subst plan_loop.simps) (simp add: Cons e may_extend_def)
      moreover have "plan_inv_except g s {} (best, rest)" using False skip_inv [OF inv] by blast
      moreover note "1.IH"(1) [OF Cons e [symmetric] refl refl] "1.IH"(2) [OF Cons e [symmetric] refl refl]
      ultimately show ?thesis
        using False by (cases "fmlookup best u = Some (c, h, f)") (simp_all add: may_extend_def)
    next
      case True
      then have best: "fmlookup best u = Some (c, h, f)" and may: "may_extend g s u" by simp_all
      then have cont: "\<not> (u \<noteq> s \<and> \<not> node_can_route g u)" by (auto simp: may_extend_def)
      have eq: "plan_loop g s (best, queue) =
          (case foldR (relax_link s (c, h, f, u)) (fm_values (tg_links g)) (best, rest) of
             Inl e \<Rightarrow> Inl e | Inr st \<Rightarrow> plan_loop g s st)"
        by (subst plan_loop.simps) (use best cont in \<open>auto simp: Cons e\<close>)
      show ?thesis
      proof (cases "foldR (relax_link s (c, h, f, u)) (fm_values (tg_links g)) (best, rest)")
        case (Inl err)
        then show ?thesis
          using relax_links_overflow [OF Inl] overflow_costly [OF inv [simplified] best] eq by auto
      next
        case (Inr st)
        then have "plan_inv_except g s {} st" using expand_inv [OF inv best may] by simp
        then show ?thesis using "1.IH"(3) [OF Cons e [symmetric] refl refl] Inr eq best cont by auto
      qed
    qed
  qed
qed

lemma plan_start_inv: "plan_inv_except g s {} (fmupd s (0, 0, s) fmempty, [(0, 0, s, s)])"
  using route_walk.start [of g s] by (auto simp: plan_inv_except_def labels_inv_def)

lemma final_labels:
  assumes "plan_inv_except g s {} (best, [])"
  shows "fmlookup best v = Some k \<longleftrightarrow>
    route_walk g s v (nat_label k) \<and> (\<forall>x. route_walk g s v x \<longrightarrow> nat_label k \<le> x)"
proof -
  have walks: "route_walk g s v (nat_label k)" if "fmlookup best v = Some k" for k
    using assms that unfolding plan_inv_except_def labels_inv_def prod.case by blast
  have beaten: "beats best v x" if "route_walk g s v x" for x
    using walk_beaten [OF assms that] by simp
  have inj: "nat_label a = nat_label b \<Longrightarrow> a = b" for a b
    by (metis nat_label_le order_antisym order_refl)
  show ?thesis
  proof
    assume "fmlookup best v = Some k"
    then show "route_walk g s v (nat_label k) \<and> (\<forall>x. route_walk g s v x \<longrightarrow> nat_label k \<le> x)"
      using walks beaten by (auto simp: beats_def)
  next
    assume min: "route_walk g s v (nat_label k) \<and> (\<forall>x. route_walk g s v x \<longrightarrow> nat_label k \<le> x)"
    then obtain b where b: "fmlookup best v = Some b" "nat_label b \<le> nat_label k"
      using beaten unfolding beats_def by blast
    then show "fmlookup best v = Some k" using min walks [OF b(1)] inj order_antisym by metis
  qed
qed

lemma label_route_Inr:
  "label_route n (v, c, h, f) = Inr r \<longleftrightarrow> unat c < 2 ^ 32 \<and>
     r = Route (Node v) f (ucast c) (BlueRouteNetwork n)"
  by (auto simp: label_route_def)

lemma unat_ucast_metric: "unat (c :: u64) < 2 ^ 32 \<Longrightarrow> unat (ucast c :: u32) = unat c"
  by (simp add: unsigned_ucast_eq take_bit_nat_eq_self)

lemma set_routes:
  assumes "collectR (map (label_route n) (filter (\<lambda>(v, _). v \<noteq> s) (sorted_list_of_fmap best))) = Inr rs"
  shows "set rs = {Route (Node v) f (ucast c) (BlueRouteNetwork n) | v c h f.
      fmlookup best v = Some (c, h, f) \<and> v \<noteq> s}"
    and "fmlookup best v = Some (c, h, f) \<Longrightarrow> v \<noteq> s \<Longrightarrow> unat c < 2 ^ 32"
proof -
  have eq: "map (label_route n) (filter (\<lambda>(v, _). v \<noteq> s) (sorted_list_of_fmap best)) = map Inr rs"
    using assms by (simp only: collectR_eq_Inr)
  have set: "label_route n ` {(v, k). fmlookup best v = Some k \<and> v \<noteq> s} = Inr ` set rs"
    using arg_cong [OF eq, of set] by (auto simp: set_sorted_list_of_fmap)
  show small: "unat c < 2 ^ 32" if "fmlookup best v = Some (c, h, f)" "v \<noteq> s" for v c h f
  proof -
    have "label_route n (v, c, h, f) \<in> Inr ` set rs" unfolding set [symmetric] using that by blast
    then show ?thesis by (auto simp: label_route_def split: if_splits)
  qed
  show "set rs = {Route (Node v) f (ucast c) (BlueRouteNetwork n) | v c h f.
      fmlookup best v = Some (c, h, f) \<and> v \<noteq> s}" (is "_ = ?R")
  proof (rule set_eqI)
    fix r
    have "r \<in> set rs \<longleftrightarrow> Inr r \<in> label_route n ` {(v, k). fmlookup best v = Some k \<and> v \<noteq> s}"
      unfolding set by blast
    also have "\<dots> \<longleftrightarrow> (\<exists>v c h f. fmlookup best v = Some (c, h, f) \<and> v \<noteq> s \<and> label_route n (v, c, h, f) = Inr r)"
      by (auto simp: image_iff) metis+
    also have "\<dots> \<longleftrightarrow> r \<in> ?R" unfolding label_route_Inr using small by blast
    finally show "r \<in> set rs \<longleftrightarrow> r \<in> ?R" .
  qed
qed

text \<open>C1: the planner is correct. When it returns routes there is one for exactly the other nodes that
  a walk through routing nodes reaches; its metric and next hop are the cost and the first hop of
  the best walk, ties going to fewer hops and then to the lower first hop.\<close>

theorem desired_node_routes_optimal:
  assumes "desired_node_routes g s network = Inr rs"
  shows "(\<forall>v. (\<exists>r \<in> set rs. rt_destination r = Node v) \<longleftrightarrow> v \<noteq> s \<and> (\<exists>x. route_walk g s v x)) \<and>
    (\<forall>r \<in> set rs. \<exists>v h. rt_destination r = Node v \<and> rt_owner r = BlueRouteNetwork network \<and>
       route_walk g s v (unat (rt_cost r), h, rt_next_hop r) \<and>
       (\<forall>x. route_walk g s v x \<longrightarrow> (unat (rt_cost r), h, rt_next_hop r) \<le> x))"
proof -
  obtain best where loop: "plan_loop g s (fmupd s (0, 0, s) fmempty, [(0, 0, s, s)]) = Inr best"
    and rs: "collectR (map (label_route network) (filter (\<lambda>(v, _). v \<noteq> s) (sorted_list_of_fmap best))) = Inr rs"
    using assms by (auto simp: desired_node_routes_def bindR_eq_Inr split: if_splits)
  have inv: "plan_inv_except g s {} (best, [])"
    using plan_loop_correct [OF plan_start_inv [of g s]] loop by simp
  have reached: "(\<exists>x. route_walk g s v x) \<longleftrightarrow> (\<exists>k. fmlookup best v = Some k)" for v
  proof
    assume "\<exists>x. route_walk g s v x"
    then show "\<exists>k. fmlookup best v = Some k" using walk_beaten [OF inv] unfolding beats_def by fastforce
  next
    assume "\<exists>k. fmlookup best v = Some k"
    then show "\<exists>x. route_walk g s v x" using final_labels [OF inv] by blast
  qed
  show ?thesis
  proof (intro conjI allI ballI)
    fix v
    show "(\<exists>r \<in> set rs. rt_destination r = Node v) \<longleftrightarrow> v \<noteq> s \<and> (\<exists>x. route_walk g s v x)"
      unfolding set_routes(1) [OF rs] reached by fastforce
  next
    fix r assume "r \<in> set rs"
    then obtain v c h f where r: "r = Route (Node v) f (ucast c) (BlueRouteNetwork network)"
      and b: "fmlookup best v = Some (c, h, f)" "v \<noteq> s"
      unfolding set_routes(1) [OF rs] by blast
    have "unat (rt_cost r) = unat c"
      using unat_ucast_metric [OF set_routes(2) [OF rs b]] by (simp add: r)
    then show "\<exists>v h. rt_destination r = Node v \<and> rt_owner r = BlueRouteNetwork network \<and>
       route_walk g s v (unat (rt_cost r), h, rt_next_hop r) \<and>
       (\<forall>x. route_walk g s v x \<longrightarrow> (unat (rt_cost r), h, rt_next_hop r) \<le> x)"
      using final_labels [OF inv, of v "(c, h, f)"] b(1) r by (intro exI [of _ v] exI [of _ h]) simp
  qed
qed

lemma sample_pair_links: "fm_values (tg_links sample_pair) =
    [\<lparr>pl_id = byte_ident 5, pl_segment_id = byte_ident 9, pl_nap = byte_ident 1,
      pl_panu = byte_ident 2, pl_state = Active, pl_health = Healthy, pl_cost = 1\<rparr>]"
  by (simp add: sample_pair_def add_link_def add_segment_def add_node_def empty_graph_def
      fm_values_def sorted_list_of_fmap_def sorted_list_of_fset_eval)

lemma sample_pair_routes:
  "desired_node_routes sample_pair (byte_ident 1) (byte_ident 8) =
     Inr [Route (Node (byte_ident 2)) (byte_ident 2) 1 (BlueRouteNetwork (byte_ident 8))]"
proof -
  have node: "graph_node sample_pair (byte_ident 1) \<noteq> None" "\<not> node_can_route sample_pair (byte_ident 2)"
    by (simp_all add: graph_node_def sample_pair_def add_link_def add_segment_def add_node_def
        empty_graph_def node_can_route_def can_route_def default_capabilities_def)
  then have "plan_loop sample_pair (byte_ident 1)
      (fmupd (byte_ident 1) (0, 0, byte_ident 1) fmempty, [(0, 0, byte_ident 1, byte_ident 1)]) =
    Inr (fmupd (byte_ident 2) (1, 1, byte_ident 2) (fmupd (byte_ident 1) (0, 0, byte_ident 1) fmempty))"
    by (simp add: plan_loop.simps sample_pair_links relax_link_def is_forwarding_candidate_def
        other_endpoint_def checked_add_def link_edge_def Let_def)
  then show ?thesis
    using node by (simp add: desired_node_routes_def fm_values_def sorted_list_of_fmap_def
        sorted_list_of_fset_eval label_route_def)
qed

theorem desired_node_routes_optimal_witness:
  "\<exists>h. route_walk sample_pair (byte_ident 1) (byte_ident 2) (1, h, byte_ident 2) \<and>
     (\<forall>x. route_walk sample_pair (byte_ident 1) (byte_ident 2) x \<longrightarrow> (1, h, byte_ident 2) \<le> x)"
  using desired_node_routes_optimal [OF sample_pair_routes] by simp

text \<open>The planner ends on every graph and refuses only for a source outside the topology, or
  when some reachable node has no walk whose cost fits the \<open>u32\<close> metric.\<close>

theorem desired_node_routes_error_iff:
  "is_err (desired_node_routes g s network) \<longleftrightarrow>
     fmlookup (tg_nodes g) s = None \<or> (\<exists>v. v \<noteq> s \<and> costly g s v)"
proof (cases "fmlookup (tg_nodes g) s")
  case (Some caps)
  show ?thesis
  proof (cases "plan_loop g s (fmupd s (0, 0, s) fmempty, [(0, 0, s, s)])")
    case (Inl e)
    then show ?thesis
      using plan_loop_correct [OF plan_start_inv [of g s]] Some
      by (simp add: desired_node_routes_def graph_node_def)
  next
    case (Inr best)
    have inv: "plan_inv_except g s {} (best, [])"
      using plan_loop_correct [OF plan_start_inv [of g s]] Inr by simp
    have eq: "desired_node_routes g s network =
        collectR (map (label_route network) (filter (\<lambda>(v, _). v \<noteq> s) (sorted_list_of_fmap best)))"
      using Some Inr by (simp add: desired_node_routes_def graph_node_def)
    have costly: "costly g s v \<longleftrightarrow> (\<exists>c h f. fmlookup best v = Some (c, h, f) \<and> 2 ^ 32 \<le> unat c)" for v
    proof
      assume "costly g s v"
      then obtain x where x: "route_walk g s v x" unfolding costly_def by blast
      then obtain c h f where b: "fmlookup best v = Some (c, h, f)"
        using walk_beaten [OF inv x] by (cases "fmlookup best v") (auto simp: beats_def)
      then have "route_walk g s v (unat c, h, f)" using final_labels [OF inv] by fastforce
      then show "\<exists>c h f. fmlookup best v = Some (c, h, f) \<and> 2 ^ 32 \<le> unat c"
        using b \<open>costly g s v\<close> unfolding costly_def by blast
    next
      assume "\<exists>c h f. fmlookup best v = Some (c, h, f) \<and> 2 ^ 32 \<le> unat c"
      then obtain c h f where b: "fmlookup best v = Some (c, h, f)" "2 ^ 32 \<le> unat c" by blast
      then show "costly g s v"
        using final_labels [OF inv, of v "(c, h, f)"] unfolding costly_def
        by (metis (no_types, lifting) label_le_cost nat_label.simps order_trans)
    qed
    show ?thesis
    proof (cases "desired_node_routes g s network")
      case (Inl e)
      then have "Inl e \<in> label_route network ` {(v, k). fmlookup best v = Some k \<and> v \<noteq> s}"
        using collectR_eq_Inl [of _ e] eq by (force simp: set_sorted_list_of_fmap)
      then have "\<exists>v. v \<noteq> s \<and> (\<exists>c h f. fmlookup best v = Some (c, h, f) \<and> 2 ^ 32 \<le> unat c)"
        by (auto simp: label_route_def split: if_splits)
      then show ?thesis using Inl Some costly by simp
    next
      case (Inr rs)
      then show ?thesis
        using set_routes(2) [of network s best rs] Some eq costly
        by (fastforce simp: not_le [symmetric])
    qed
  qed
qed (simp add: desired_node_routes_def graph_node_def)

end
