(* ===== verification/Route_Executor.thy ===== *)
theory Route_Executor
  imports Route_Reconciliation Route_Planner
begin

text \<open>
  \<open>crates/blueroute-core/src/route_executor.rs\<close> and \<open>route_recovery.rs\<close>: the application of a route plan
  through an operator. The trait \<open>OwnedRouteOperator\<close> is a record of three effects on an arbitrary
  state; nothing is assumed of it unless a theorem says so.
\<close>

section \<open>Operations\<close>

record 'w owned_route_operator =
  op_observe_routes :: "('w, route list) eff"
  op_replace_owned_route :: "route option \<Rightarrow> route \<Rightarrow> ('w, unit) eff"
  op_remove_owned_route :: "route \<Rightarrow> ('w, unit) eff"

datatype route_change = Upsert route | Remove route

record route_execution_report =
  rr_applied :: "route_change list"
  rr_observed :: "route list"

definition stale :: core_error where
  "stale = core_error_new InvalidState ''observed routes changed during reconciliation; replan''"

definition owned_at :: "network_id \<Rightarrow> route_destination \<Rightarrow> route \<Rightarrow> bool" where
  "owned_at network d r \<longleftrightarrow> rt_owner r = BlueRouteNetwork network \<and> rt_destination r = d"

fun execute_upserts ::
  "'w owned_route_operator \<Rightarrow> network_id \<Rightarrow> route list \<Rightarrow> route list \<times> route_change list \<Rightarrow>
   ('w, route list \<times> route_change list) eff" where
  "execute_upserts ops network [] st = retE st"
| "execute_upserts ops network (new # rest) (observed, applied) =
     bindE (op_observe_routes ops) (\<lambda>actual.
       if sort actual \<noteq> observed then raiseE stale
       else let previous = List.find (owned_at network (rt_destination new)) observed in
         bindE (op_replace_owned_route ops previous new) (\<lambda>_.
           let expected = sort (filter (\<lambda>r. \<not> owned_at network (rt_destination new) r) observed @ [new]) in
           bindE (op_observe_routes ops) (\<lambda>post.
             if sort post \<noteq> expected
             then raiseE (core_error_new RouteFailure
                    ''route upsert did not produce the exact observed state'')
             else execute_upserts ops network rest (sort post, applied @ [Upsert new]))))"

fun execute_removals ::
  "'w owned_route_operator \<Rightarrow> route list \<Rightarrow> route list \<times> route_change list \<Rightarrow>
   ('w, route list \<times> route_change list) eff" where
  "execute_removals ops [] st = retE st"
| "execute_removals ops (old # rest) (observed, applied) =
     bindE (op_observe_routes ops) (\<lambda>actual.
       if sort actual \<noteq> observed then raiseE stale
       else bindE (op_remove_owned_route ops old) (\<lambda>_.
         let expected = filter (\<lambda>r. r \<noteq> old) observed in
         bindE (op_observe_routes ops) (\<lambda>post.
           if sort post \<noteq> expected
           then raiseE (core_error_new RouteFailure
                  ''route removal did not produce the exact observed state'')
           else execute_removals ops rest (sort post, applied @ [Remove old]))))"

definition execute_route_reconciliation ::
  "network_id \<Rightarrow> route list \<Rightarrow> 'w owned_route_operator \<Rightarrow> ('w, route_execution_report) eff" where
  "execute_route_reconciliation network desired ops =
     bindE (op_observe_routes ops) (\<lambda>observed.
     bindE (liftE (plan_route_reconciliation network desired observed)) (\<lambda>plan.
     bindE (execute_upserts ops network (rp_upsert plan) (sort observed, [])) (\<lambda>st.
     bindE (execute_removals ops (rp_remove plan) st) (\<lambda>(observed, applied).
       retE \<lparr>rr_applied = applied, rr_observed = observed\<rparr>))))"

definition reconcile_observed_topology_routes ::
  "topology_graph \<Rightarrow> node_id \<Rightarrow> network_id \<Rightarrow> 'w owned_route_operator \<Rightarrow>
   ('w, route_execution_report) eff" where
  "reconcile_observed_topology_routes g source network ops =
     bindE (liftE (desired_node_routes g source network)) (\<lambda>desired.
       execute_route_reconciliation network desired ops)"

section \<open>A report is what was observed\<close>

lemma owned_at_eq: "owned_at network d = (\<lambda>r. rt_owner r = BlueRouteNetwork network \<and> rt_destination r = d)"
  by (simp add: fun_eq_iff owned_at_def)

interpretation core_table: table_executor rt_destination "\<lambda>r. rt_owner r = BlueRouteNetwork network"
  "op_observe_routes ops" "op_replace_owned_route ops" "op_remove_owned_route ops" Upsert Remove stale
  "core_error_new RouteFailure ''route upsert did not produce the exact observed state''"
  "core_error_new RouteFailure ''route removal did not produce the exact observed state''"
  "execute_upserts ops network" "execute_removals ops" for ops network
  by unfold_locales (simp_all add: owned_at_eq Let_def cong del: if_weak_cong)

lemma execute_upserts_Inr:
  "execute_upserts ops network us (observed, applied) w = (Inr (observed', applied'), w') \<Longrightarrow>
   set observed' = fold (apply_upsert network) us (set observed) \<and>
   applied' = applied @ map Upsert us \<and> (sorted observed \<longrightarrow> sorted observed')"
  unfolding apply_upsert_put by (rule core_table.upserts_Inr)

lemma execute_Inr:
  assumes "execute_route_reconciliation network desired ops w = (Inr report, w')"
  obtains first w1 plan where "op_observe_routes ops w = (Inr first, w1)"
    and "plan_route_reconciliation network desired first = Inr plan"
    and "set (rr_observed report) = set desired \<union> foreign_routes network first"
    and "sorted (rr_observed report)"
    and "rr_applied report = map Upsert (rp_upsert plan) @ map Remove (rp_remove plan)"
proof -
  obtain first w1 plan obs1 app1 w2 obs2 app2 where
    first: "op_observe_routes ops w = (Inr first, w1)"
    and plan: "plan_route_reconciliation network desired first = Inr plan"
    and up: "execute_upserts ops network (rp_upsert plan) (sort first, []) w1 = (Inr (obs1, app1), w2)"
    and rm: "execute_removals ops (rp_remove plan) (obs1, app1) w2 = (Inr (obs2, app2), w')"
    and report: "report = \<lparr>rr_applied = app2, rr_observed = obs2\<rparr>"
    using assms by (auto simp: execute_route_reconciliation_def bindE_eq_Inr split: prod.splits)
  have "set obs2 = apply_plan network plan (set first)"
    using execute_upserts_Inr [OF up] core_table.removals_Inr [OF rm] by (simp add: apply_plan_def)
  then have "set obs2 = set desired \<union> foreign_routes network first"
    using apply_plan_result [OF plan] by simp
  then show thesis
    using that [OF first plan] execute_upserts_Inr [OF up] core_table.removals_Inr [OF rm] report by simp
qed

text \<open>Whatever the operator does, a successful execution ends with an observation that holds
  exactly the desired routes of the network and the foreign routes of the first observation,
  and its report lists the upserts before the removals.\<close>

theorem execution_report_exact:
  assumes "execute_route_reconciliation network desired ops w = (Inr report, w')"
  shows "\<exists>first w1 plan. op_observe_routes ops w = (Inr first, w1) \<and>
    plan_route_reconciliation network desired first = Inr plan \<and>
    set (rr_observed report) = set desired \<union> foreign_routes network first \<and>
    sorted (rr_observed report) \<and>
    rr_applied report = map Upsert (rp_upsert plan) @ map Remove (rp_remove plan)"
  by (rule execute_Inr [OF assms]) blast

section \<open>A kernel that keeps its contract\<close>




text \<open>An operator over a route table in memory, as the unit tests use one.\<close>

definition memory_operator :: "network_id \<Rightarrow> route list owned_route_operator" where
  "memory_operator network = \<lparr>
     op_observe_routes = (\<lambda>w. (Inr w, w)),
     op_replace_owned_route = (\<lambda>previous new w.
       if List.find (owned_at network (rt_destination new)) w \<noteq> None \<longleftrightarrow> previous \<noteq> None
       then (Inr (), filter (\<lambda>r. \<not> owned_at network (rt_destination new) r) w @ [new])
       else (Inl (core_error_new InvalidState ''kernel compare-and-swap route ownership mismatch''), w)),
     op_remove_owned_route = (\<lambda>old w.
       if old \<in> set w then (Inr (), filter (\<lambda>r. r \<noteq> old) w)
       else (Inl (core_error_new InvalidState ''kernel compare-and-swap route removal mismatch''), w))\<rparr>"


lemma sample_reconciliation:
  "plan_route_reconciliation (byte_ident 8)
     [Route (Node (byte_ident 2)) (byte_ident 3) 5 (BlueRouteNetwork (byte_ident 8))] [] =
   Inr \<lparr>rp_upsert = [Route (Node (byte_ident 2)) (byte_ident 3) 5 (BlueRouteNetwork (byte_ident 8))],
     rp_remove = []\<rparr>"
  by (simp add: plan_route_reconciliation_def want_route_def validate_desired_def
      sorted_list_of_fmap_def sorted_list_of_fset_eval)


theorem execution_report_exact_witness:
  "\<exists>report w'. execute_route_reconciliation (byte_ident 8)
     [Route (Node (byte_ident 2)) (byte_ident 3) 5 (BlueRouteNetwork (byte_ident 8))]
     (memory_operator (byte_ident 8)) [] = (Inr report, w') \<and>
   set (rr_observed report) = {Route (Node (byte_ident 2)) (byte_ident 3) 5 (BlueRouteNetwork (byte_ident 8))}"
proof -
  obtain report w' where run: "execute_route_reconciliation (byte_ident 8)
      [Route (Node (byte_ident 2)) (byte_ident 3) 5 (BlueRouteNetwork (byte_ident 8))]
      (memory_operator (byte_ident 8)) [] = (Inr report, w')"
    using sample_reconciliation
    by (simp add: execute_route_reconciliation_def memory_operator_def bindE_def Let_def owned_at_def)
  show ?thesis
    using execution_report_exact [OF run] run by (auto simp: memory_operator_def foreign_routes_def)
qed

end
