(* ===== verification/Topology_Policy.thy ===== *)
theory Topology_Policy
  imports Capability
begin

text \<open>
  \<open>crates/blueroute-core/src/topology_policy.rs\<close>: the policy inputs, their validation and the greedy
  selection of NAP hubs. One turn of the selection loop is a scan over all candidates that keeps
  the proposal with the greatest score; the loop ends when no candidate makes a proposal.
\<close>

section \<open>Policy inputs\<close>

record candidate_link =
  cl_path_cost :: u32
  cl_quality :: "link_quality option"
  cl_stable :: bool

record topology_candidate =
  tc_id :: node_id
  tc_capabilities :: node_capabilities
  tc_neighbors :: "(node_id, candidate_link) fmap"
  tc_currently_hosting :: bool
  tc_gateway_preferred :: bool

record topology_policy_inputs =
  ti_candidates :: "(node_id, topology_candidate) fmap"

definition validate_neighbor ::
  "topology_policy_inputs \<Rightarrow> node_id \<Rightarrow> node_id \<times> candidate_link \<Rightarrow> unit \<Rightarrow> unit core_result" where
  "validate_neighbor inputs i e _ =
     (case e of (neighbor, link) \<Rightarrow>
        if neighbor = i \<or> fmlookup (ti_candidates inputs) neighbor = None
        then Inl (invalid ''unknown or self-referential topology neighbor'')
        else if cl_path_cost link = 0 \<or>
                (case cl_quality link of None \<Rightarrow> False | Some quality \<Rightarrow> lq_score quality > 100)
        then Inl (invalid ''invalid topology link metric'')
        else Inr ())"

definition validate_candidate ::
  "topology_policy_inputs \<Rightarrow> node_id \<times> topology_candidate \<Rightarrow> unit \<Rightarrow> unit core_result" where
  "validate_candidate inputs e _ =
     (case e of (i, candidate) \<Rightarrow>
        if i = zero_ident \<or> i \<noteq> tc_id candidate
        then Inl (invalid ''invalid or mismatched topology node identity'')
        else if (case cap_connection_policy_ceiling (tc_capabilities candidate) of
                   None \<Rightarrow> False | Some limit \<Rightarrow> src_value limit = 0)
        then Inl (invalid ''zero NAP connection ceiling'')
        else if (case cap_power_state (tc_capabilities candidate) of
                   None \<Rightarrow> False
                 | Some state \<Rightarrow> (case src_value state of AcPowered \<Rightarrow> False
                                     | Battery percent \<Rightarrow> percent > 100))
        then Inl (invalid ''battery percentage exceeds 100'')
        else foldR (validate_neighbor inputs i) (sorted_list_of_fmap (tc_neighbors candidate)) ())"

definition validate_inputs :: "topology_policy_inputs \<Rightarrow> unit core_result" where
  "validate_inputs inputs =
     foldR (validate_candidate inputs) (sorted_list_of_fmap (ti_candidates inputs)) ()"

section \<open>Hub selection\<close>

record nap_assignment =
  na_hub :: node_id
  na_clients :: "node_id list"

record nap_selection =
  ns_stars :: "nap_assignment list"
  ns_unserved :: "node_id fset"

definition hub_capacity :: "topology_candidate \<Rightarrow> nat option" where
  "hub_capacity candidate =
     map_option (\<lambda>limit. unat (src_value limit))
       (cap_connection_policy_ceiling (tc_capabilities candidate))"

definition can_be_hub :: "topology_candidate \<Rightarrow> bool" where
  "can_be_hub candidate \<longleftrightarrow> can_host_pan (tc_capabilities candidate) = Some True \<and>
     adapter_usable (tc_capabilities candidate) = Some True"

definition can_be_client :: "topology_candidate \<Rightarrow> bool" where
  "can_be_client candidate \<longleftrightarrow> can_join_pan (tc_capabilities candidate) = Some True \<and>
     adapter_usable (tc_capabilities candidate) = Some True"

text \<open>The closure of \<open>filter_map\<close>: the reciprocal link to an unserved, capable peer.\<close>

definition client_link ::
  "topology_policy_inputs \<Rightarrow> node_id fset \<Rightarrow> node_id \<Rightarrow> node_id \<times> candidate_link \<Rightarrow>
   (node_id \<times> candidate_link) option" where
  "client_link inputs unserved i e =
     (case e of (peer, link) \<Rightarrow>
      case fmlookup (ti_candidates inputs) peer of
        None \<Rightarrow> None
      | Some remote \<Rightarrow>
          if peer |\<notin>| unserved \<or> \<not> can_be_client remote then None
          else case fmlookup (tc_neighbors remote) i of
            None \<Rightarrow> None
          | Some rev_link \<Rightarrow>
              Some (peer,
                \<lparr>cl_path_cost = max (cl_path_cost link) (cl_path_cost rev_link),
                 cl_quality = (case (cl_quality link, cl_quality rev_link) of
                     (Some local, Some remote) \<Rightarrow>
                       Some (link_quality_new (min (lq_score local) (lq_score remote)))
                   | _ \<Rightarrow> None),
                 cl_stable = (cl_stable link \<and> cl_stable rev_link)\<rparr>))"

definition quality_score :: "candidate_link \<Rightarrow> u8" where
  "quality_score link = (case cl_quality link of None \<Rightarrow> 0 | Some quality \<Rightarrow> lq_score quality)"

definition client_key ::
  "node_id \<times> candidate_link \<Rightarrow> bool reverse \<times> u8 reverse \<times> u32 \<times> node_id" where
  "client_key e =
     (case e of (peer, link) \<Rightarrow>
        (Reverse (cl_stable link), Reverse (quality_score link), cl_path_cost link, peer))"

definition hub_clients ::
  "topology_policy_inputs \<Rightarrow> node_id fset \<Rightarrow> node_id \<Rightarrow> topology_candidate \<Rightarrow> nat \<Rightarrow>
   (node_id \<times> candidate_link) list" where
  "hub_clients inputs unserved i candidate capacity =
     take capacity (sort_key client_key
       (List.map_filter (client_link inputs unserved i) (sorted_list_of_fmap (tc_neighbors candidate))))"

type_synonym hub_score =
  "nat \<times> bool \<times> nat \<times> u64 \<times> bool \<times> bool \<times> u64 reverse \<times> node_id reverse"

definition hub_score_of ::
  "node_id \<Rightarrow> topology_candidate \<Rightarrow> (node_id \<times> candidate_link) list \<Rightarrow> hub_score" where
  "hub_score_of i candidate clients =
     (length clients, tc_currently_hosting candidate,
      length (filter (\<lambda>(_, link). cl_stable link) clients),
      sum_list (map (\<lambda>(_, link). ucast (quality_score link)) clients),
      (case cap_power_state (tc_capabilities candidate) of
         None \<Rightarrow> False | Some state \<Rightarrow> src_value state = AcPowered),
      tc_gateway_preferred candidate,
      Reverse (sum_list (map (\<lambda>(_, link). ucast (cl_path_cost link)) clients)),
      Reverse i)"

type_synonym hub_proposal = "node_id \<times> (node_id \<times> candidate_link) list \<times> hub_score"

definition consider_hub ::
  "topology_policy_inputs \<Rightarrow> node_id fset \<Rightarrow> node_id fset \<Rightarrow> node_id \<times> topology_candidate \<Rightarrow>
   hub_proposal option \<Rightarrow> hub_proposal option" where
  "consider_hub inputs selected_hubs unserved e best =
     (case e of (i, candidate) \<Rightarrow>
        if i |\<in>| selected_hubs \<or> \<not> can_be_hub candidate then best
        else case hub_capacity candidate of
          None \<Rightarrow> best
        | Some capacity \<Rightarrow>
            if capacity = 0 then best
            else let clients = hub_clients inputs unserved i candidate capacity in
              if clients = [] then best
              else let score = hub_score_of i candidate clients in
                if (case best of None \<Rightarrow> True | Some (_, _, previous) \<Rightarrow> score > previous)
                then Some (i, clients, score) else best)"

definition best_hub ::
  "topology_policy_inputs \<Rightarrow> node_id fset \<Rightarrow> node_id fset \<Rightarrow> hub_proposal option" where
  "best_hub inputs selected_hubs unserved =
     fold (consider_hub inputs selected_hubs unserved) (sorted_list_of_fmap (ti_candidates inputs)) None"

function select_loop ::
  "topology_policy_inputs \<Rightarrow> node_id fset \<Rightarrow> node_id fset \<Rightarrow> nap_assignment list \<Rightarrow> nap_selection" where
  "select_loop inputs selected_hubs unserved stars =
     (case best_hub inputs selected_hubs unserved of
        None \<Rightarrow> \<lparr>ns_stars = stars, ns_unserved = unserved\<rparr>
      | Some (hub, clients, _) \<Rightarrow>
          select_loop inputs (finsert hub selected_hubs)
            ((unserved |-| {|hub|}) |-| fset_of_list (map fst clients))
            (stars @ [\<lparr>na_hub = hub, na_clients = map fst clients\<rparr>]))"
  by pat_completeness auto

text \<open>What the scan of one turn looks at: the proposal of one candidate, if it makes one.\<close>

definition proposes ::
  "topology_policy_inputs \<Rightarrow> node_id fset \<Rightarrow> node_id fset \<Rightarrow> node_id \<Rightarrow> topology_candidate \<Rightarrow>
   (node_id \<times> candidate_link) list \<Rightarrow> bool" where
  "proposes inputs selected_hubs unserved i candidate clients \<longleftrightarrow>
     i |\<notin>| selected_hubs \<and> can_be_hub candidate \<and> clients \<noteq> [] \<and>
     (case hub_capacity candidate of None \<Rightarrow> False
      | Some capacity \<Rightarrow> capacity > 0 \<and> clients = hub_clients inputs unserved i candidate capacity)"

definition hub_proposal ::
  "topology_policy_inputs \<Rightarrow> node_id fset \<Rightarrow> node_id fset \<Rightarrow> node_id \<times> topology_candidate \<Rightarrow>
   hub_proposal option" where
  "hub_proposal inputs sel uns e =
     (case e of (i, c) \<Rightarrow>
        let clients = hub_clients inputs uns i c (the (hub_capacity c)) in
        if proposes inputs sel uns i c clients
        then Some (i, clients, hub_score_of i c clients) else None)"

lemma set_hub_proposal:
  "set_option (hub_proposal inputs sel uns (i, c)) =
     {(i, clients, hub_score_of i c clients) | clients. proposes inputs sel uns i c clients}"
  by (cases "hub_capacity c") (auto simp: hub_proposal_def Let_def proposes_def)

lemma consider_hub_keep_best:
  "consider_hub inputs sel uns e = keep_best (snd \<circ> snd) (hub_proposal inputs sel uns e)"
proof -
  obtain i c where e: "e = (i, c)" by (cases e)
  have "consider_hub inputs sel uns (i, c) best =
      keep_best (snd \<circ> snd) (hub_proposal inputs sel uns (i, c)) best" for best
    unfolding consider_hub_def hub_proposal_def keep_best_def proposes_def Let_def prod.case case_prod_beta
    by (cases "hub_capacity c"; cases best; simp)
  then show ?thesis unfolding e by blast
qed

lemma best_hub_is_best:
  "is_best (snd \<circ> snd)
     (\<Union>e\<in>{(i, c). fmlookup (ti_candidates inputs) i = Some c}. set_option (hub_proposal inputs sel uns e))
     (best_hub inputs sel uns)"
  using is_best_fold [of "snd \<circ> snd" "{}" None "hub_proposal inputs sel uns"
      "sorted_list_of_fmap (ti_candidates inputs)"]
  by (simp add: best_hub_def set_sorted_list_of_fmap is_best_def consider_hub_keep_best [abs_def])

lemma best_hub_Some:
  assumes "best_hub inputs sel uns = Some (h, cl, sc)"
  obtains c where "fmlookup (ti_candidates inputs) h = Some c" "proposes inputs sel uns h c cl"
    "sc = hub_score_of h c cl"
proof -
  have "(h, cl, sc) \<in> (\<Union>e\<in>{(i, c). fmlookup (ti_candidates inputs) i = Some c}.
      set_option (hub_proposal inputs sel uns e))"
    using best_hub_is_best [of inputs sel uns] assms by (simp add: is_best_def)
  then obtain i c where "fmlookup (ti_candidates inputs) i = Some c"
    and "(h, cl, sc) \<in> set_option (hub_proposal inputs sel uns (i, c))" by blast
  then show thesis unfolding set_hub_proposal using that by blast
qed

lemma best_hub_None:
  assumes "best_hub inputs sel uns = None" "fmlookup (ti_candidates inputs) i = Some c"
  shows "\<not> proposes inputs sel uns i c clients"
proof -
  have "set_option (hub_proposal inputs sel uns (i, c)) = {}"
    using best_hub_is_best [of inputs sel uns] assms by (simp add: is_best_def)
  then show ?thesis unfolding set_hub_proposal by blast
qed

lemma best_hub_greatest:
  assumes "best_hub inputs sel uns = Some (h, cl, sc)" "fmlookup (ti_candidates inputs) i = Some c"
    and "proposes inputs sel uns i c clients"
  shows "hub_score_of i c clients \<le> sc"
proof -
  have "(i, clients, hub_score_of i c clients) \<in> set_option (hub_proposal inputs sel uns (i, c))"
    unfolding set_hub_proposal using assms(3) by blast
  then have "(snd \<circ> snd) (i, clients, hub_score_of i c clients) \<le> (snd \<circ> snd) (h, cl, sc)"
    using best_hub_is_best [of inputs sel uns] assms(1,2) unfolding is_best_def by (simp del: o_apply)
  then show ?thesis unfolding o_apply snd_conv .
qed

termination select_loop
proof (relation "measure (\<lambda>(inputs, sel, _, _). fcard (fmdom (ti_candidates inputs) |-| sel))",
    goal_cases)
  case (2 inputs sel uns stars b hub p clients sc)
  from 2(1) 2(2) [symmetric] 2(3) [symmetric]
  have "best_hub inputs sel uns = Some (hub, clients, sc)" by (simp only:)
  then obtain c where "fmlookup (ti_candidates inputs) hub = Some c" "hub |\<notin>| sel"
    by (rule best_hub_Some) (auto simp: proposes_def)
  then have "hub |\<in>| fmdom (ti_candidates inputs) |-| sel" by (simp add: fmdomI)
  then show ?case unfolding in_measure prod.case by (rule fcard_fminus_finsert)
qed (rule wf_measure)

declare select_loop.simps [simp del]

definition select_nap_hubs :: "topology_policy_inputs \<Rightarrow> nap_selection core_result" where
  "select_nap_hubs inputs =
     bindR (validate_inputs inputs) (\<lambda>_.
       Inr (select_loop inputs {||} (fmdom (ti_candidates inputs)) []))"

section \<open>What validation accepts\<close>

lemma validate_neighbor_Inr:
  "validate_neighbor inputs i (n, l) () = Inr () \<longleftrightarrow>
     n \<noteq> i \<and> n |\<in>| fmdom (ti_candidates inputs) \<and> cl_path_cost l \<noteq> 0 \<and>
     (\<forall>q. cl_quality l = Some q \<longrightarrow> lq_score q \<le> 100)"
  by (auto simp: validate_neighbor_def fmlookup_dom_iff not_less split: option.splits)

lemma validate_inputs_Inr:
  assumes "validate_inputs inputs = Inr ()" "fmlookup (ti_candidates inputs) i = Some c"
  shows "i \<noteq> zero_ident" "tc_id c = i"
    "fmlookup (tc_neighbors c) n = Some l \<Longrightarrow> n \<noteq> i \<and> n |\<in>| fmdom (ti_candidates inputs)"
    "hub_capacity c \<noteq> Some 0"
proof -
  have ok: "validate_candidate inputs (i, c) () = Inr ()"
    using assms by (auto simp: validate_inputs_def foldR_check set_sorted_list_of_fmap)
  then show "i \<noteq> zero_ident" "tc_id c = i" by (auto simp: validate_candidate_def split: if_splits)
  show "hub_capacity c \<noteq> Some 0"
    using ok by (auto simp: validate_candidate_def hub_capacity_def unsigned_eq_0_iff split: if_splits)
  assume "fmlookup (tc_neighbors c) n = Some l"
  moreover have "foldR (validate_neighbor inputs i) (sorted_list_of_fmap (tc_neighbors c)) () = Inr ()"
    using ok by (auto simp: validate_candidate_def split: if_splits)
  ultimately have "validate_neighbor inputs i (n, l) () = Inr ()"
    by (auto simp: foldR_check set_sorted_list_of_fmap)
  then show "n \<noteq> i \<and> n |\<in>| fmdom (ti_candidates inputs)"
    by (simp add: validate_neighbor_Inr)
qed

section \<open>The clients of a proposal\<close>

lemma client_link_Some:
  assumes "client_link inputs uns i (peer, link) = Some (p, l)"
  shows "p = peer" "p |\<in>| uns"
    "\<exists>r. fmlookup (ti_candidates inputs) p = Some r \<and> can_be_client r \<and> i |\<in>| fmdom (tc_neighbors r)"
  using assms by (auto simp: client_link_def fmlookup_dom_iff split: option.splits if_splits)

lemma map_filter_fst_distinct:
  assumes "distinct (map fst xs)" and "\<And>x y. f x = Some y \<Longrightarrow> fst y = fst x"
  shows "distinct (map fst (List.map_filter f xs)) \<and>
         set (map fst (List.map_filter f xs)) \<subseteq> set (map fst xs)"
  using assms(1)
proof (induction xs)
  case (Cons x xs)
  then show ?case using assms(2) [of x]
    by (cases "f x") (auto simp: map_filter_simps)
qed (simp add: map_filter_simps)

lemma hub_clients_distinct: "distinct (map fst (hub_clients inputs uns i c n))"
proof -
  let ?xs = "List.map_filter (client_link inputs uns i) (sorted_list_of_fmap (tc_neighbors c))"
  have "fst y = fst x" if "client_link inputs uns i x = Some y" for x y
    using that client_link_Some(1) [of inputs uns i "fst x" "snd x" "fst y" "snd y"] by simp
  then have "distinct (map fst ?xs)"
    by (intro map_filter_fst_distinct [THEN conjunct1]) simp_all
  then have "distinct (map fst (sort_key client_key ?xs))"
    by (simp add: distinct_map)
  then show ?thesis by (simp only: hub_clients_def take_map [symmetric] distinct_take)
qed

lemma set_hub_clients:
  "set (hub_clients inputs uns i c n) \<subseteq>
     {e. \<exists>x. fmlookup (tc_neighbors c) (fst x) = Some (snd x) \<and> client_link inputs uns i x = Some e}"
proof
  fix e assume "e \<in> set (hub_clients inputs uns i c n)"
  then have "e \<in> set (List.map_filter (client_link inputs uns i) (sorted_list_of_fmap (tc_neighbors c)))"
    unfolding hub_clients_def using set_take_subset by fastforce
  then obtain x where "x \<in> set (sorted_list_of_fmap (tc_neighbors c))" "client_link inputs uns i x = Some e"
    unfolding set_map_filter by blast
  then show "e \<in> {e. \<exists>x. fmlookup (tc_neighbors c) (fst x) = Some (snd x) \<and>
      client_link inputs uns i x = Some e}"
    unfolding set_sorted_list_of_fmap by (cases x) force
qed

lemma length_hub_clients: "length (hub_clients inputs uns i c n) \<le> n"
  by (simp add: hub_clients_def)

section \<open>The assignment invariant\<close>

text \<open>A star is admissible when its hub may host, has room for its clients, and every client may join and
  sees the hub as the hub sees it.\<close>

definition link_ok :: "topology_policy_inputs \<Rightarrow> node_id \<Rightarrow> node_id \<Rightarrow> bool" where
  "link_ok inputs h p \<longleftrightarrow> p \<noteq> h \<and>
     (case (fmlookup (ti_candidates inputs) h, fmlookup (ti_candidates inputs) p) of
        (Some c, Some r) \<Rightarrow>
          can_be_client r \<and> p |\<in>| fmdom (tc_neighbors c) \<and> h |\<in>| fmdom (tc_neighbors r)
      | _ \<Rightarrow> False)"

definition star_ok :: "topology_policy_inputs \<Rightarrow> nap_assignment \<Rightarrow> bool" where
  "star_ok inputs s \<longleftrightarrow>
     (case fmlookup (ti_candidates inputs) (na_hub s) of
        None \<Rightarrow> False
      | Some c \<Rightarrow> can_be_hub c \<and> na_clients s \<noteq> [] \<and>
          (case hub_capacity c of None \<Rightarrow> False | Some capacity \<Rightarrow> length (na_clients s) \<le> capacity) \<and>
          (\<forall>p\<in>set (na_clients s). link_ok inputs (na_hub s) p))"

definition star_hubs :: "nap_assignment list \<Rightarrow> node_id list" where
  "star_hubs stars = map na_hub stars"

definition star_clients :: "nap_assignment list \<Rightarrow> node_id list" where
  "star_clients stars = concat (map na_clients stars)"

definition uplinks :: "nap_assignment list \<Rightarrow> (node_id \<times> node_id) set" where
  "uplinks stars = (\<Union>s\<in>set stars. set (na_clients s) \<times> {na_hub s})"

definition assignment_ok :: "topology_policy_inputs \<Rightarrow> nap_selection \<Rightarrow> bool" where
  "assignment_ok inputs sel \<longleftrightarrow>
     distinct (star_hubs (ns_stars sel)) \<and> distinct (star_clients (ns_stars sel)) \<and>
     (\<forall>s\<in>set (ns_stars sel). star_ok inputs s) \<and>
     fset (ns_unserved sel) \<inter> (set (star_hubs (ns_stars sel)) \<union> set (star_clients (ns_stars sel))) = {} \<and>
     fset (ns_unserved sel) \<union> (set (star_hubs (ns_stars sel)) \<union> set (star_clients (ns_stars sel))) =
       fset (fmdom (ti_candidates inputs)) \<and>
     acyclic (uplinks (ns_stars sel))"

lemma star_append [simp]:
  "star_hubs (xs @ ys) = star_hubs xs @ star_hubs ys"
  "star_clients (xs @ ys) = star_clients xs @ star_clients ys"
  "uplinks (xs @ ys) = uplinks xs \<union> uplinks ys"
  by (auto simp: star_hubs_def star_clients_def uplinks_def)

lemma star_single [simp]:
  "star_hubs [s] = [na_hub s]" "star_clients [s] = na_clients s"
  "uplinks [s] = set (na_clients s) \<times> {na_hub s}"
  by (simp_all add: star_hubs_def star_clients_def uplinks_def)

lemma uplinks_range: "(a, b) \<in> uplinks stars \<Longrightarrow> b \<in> set (star_hubs stars)"
  by (auto simp: uplinks_def star_hubs_def)

lemma acyclic_fresh_sources:
  assumes "finite C" "acyclic R" "h \<notin> C" "\<And>a b. (a, b) \<in> R \<Longrightarrow> b \<notin> C"
  shows "acyclic (R \<union> C \<times> {h})"
  using assms
proof (induction C rule: finite_induct)
  case (insert c C)
  have "(h, c) \<notin> (R \<union> C \<times> {h})\<^sup>*"
  proof
    assume "(h, c) \<in> (R \<union> C \<times> {h})\<^sup>*"
    then show False by (cases rule: rtrancl.cases) (use insert.prems in auto)
  qed
  moreover have "acyclic (R \<union> C \<times> {h})" using insert by auto
  ultimately have "acyclic (insert (c, h) (R \<union> C \<times> {h}))" by simp
  then show ?case by (simp add: insert_Times_insert)
qed simp

text \<open>One turn of the loop: the best proposal becomes a star.\<close>

lemma proposal_star_ok:
  assumes valid: "validate_inputs inputs = Inr ()"
    and c: "fmlookup (ti_candidates inputs) h = Some c" and pr: "proposes inputs sel uns h c cl"
  shows "star_ok inputs \<lparr>na_hub = h, na_clients = map fst cl\<rparr>"
    and "distinct (map fst cl)" and "set (map fst cl) \<subseteq> fset uns - {h}" and "h |\<notin>| sel"
proof -
  from pr obtain n where n: "hub_capacity c = Some n" and cl: "cl = hub_clients inputs uns h c n"
    and props: "h |\<notin>| sel" "can_be_hub c" "cl \<noteq> []"
    by (auto simp: proposes_def split: option.splits)
  show "h |\<notin>| sel" by (rule props)
  show "distinct (map fst cl)" unfolding cl by (rule hub_clients_distinct)
  have *: "p |\<in>| uns \<and> link_ok inputs h p" if mem: "(p, l) \<in> set cl" for p l
  proof -
    obtain q k where k: "fmlookup (tc_neighbors c) q = Some k"
      "client_link inputs uns h (q, k) = Some (p, l)"
      using subsetD [OF set_hub_clients mem [unfolded cl]] by auto
    from client_link_Some [OF k(2)] obtain r where "p = q" "p |\<in>| uns"
      "fmlookup (ti_candidates inputs) p = Some r" "can_be_client r" "h |\<in>| fmdom (tc_neighbors r)"
      by blast
    moreover have "p \<noteq> h" using validate_inputs_Inr(3) [OF valid c k(1)] \<open>p = q\<close> by blast
    ultimately show ?thesis using c k(1) by (simp add: link_ok_def fmdomI)
  qed
  show "set (map fst cl) \<subseteq> fset uns - {h}" using * by (fastforce simp: link_ok_def)
  have "length cl \<le> n" unfolding cl by (rule length_hub_clients)
  then show "star_ok inputs \<lparr>na_hub = h, na_clients = map fst cl\<rparr>"
    using c n props * by (auto simp: star_ok_def)
qed

lemma assignment_step:
  assumes inv: "assignment_ok inputs \<lparr>ns_stars = stars, ns_unserved = uns\<rparr>"
    and s: "star_ok inputs \<lparr>na_hub = h, na_clients = cl\<rparr>" and h: "h \<notin> set (star_hubs stars)"
    and cl: "distinct cl" "set cl \<subseteq> fset uns - {h}"
  shows "assignment_ok inputs
     \<lparr>ns_stars = stars @ [\<lparr>na_hub = h, na_clients = cl\<rparr>],
      ns_unserved = (uns |-| {|h|}) |-| fset_of_list cl\<rparr>"
proof -
  have "h \<in> fset (fmdom (ti_candidates inputs))"
    using s by (auto simp: star_ok_def fmdomI split: option.splits)
  moreover have "acyclic (uplinks stars \<union> set cl \<times> {h})"
    using inv cl(2) uplinks_range [of _ _ stars]
    by (intro acyclic_fresh_sources) (auto simp: assignment_ok_def)
  ultimately show ?thesis
    using inv s h cl unfolding assignment_ok_def
    by (auto simp: fset_of_list.rep_eq)
qed

lemma select_loop_ok:
  assumes valid: "validate_inputs inputs = Inr ()"
    and "assignment_ok inputs \<lparr>ns_stars = stars, ns_unserved = uns\<rparr>"
    and "fset sel = set (star_hubs stars)"
  shows "assignment_ok inputs (select_loop inputs sel uns stars) \<and>
    best_hub inputs (fset_of_list (star_hubs (ns_stars (select_loop inputs sel uns stars))))
      (ns_unserved (select_loop inputs sel uns stars)) = None"
  using assms
proof (induction inputs sel uns stars rule: select_loop.induct)
  case (1 inputs sel uns stars)
  show ?case
  proof (cases "best_hub inputs sel uns")
    case None
    moreover have "fset_of_list (star_hubs stars) = sel"
      using 1(4) by (metis fset_inverse fset_of_list.rep_eq)
    ultimately show ?thesis using 1(3) by (simp add: select_loop.simps)
  next
    case (Some b)
    obtain h cl sc where b: "b = (h, cl, sc)" by (cases b)
    obtain c where c: "fmlookup (ti_candidates inputs) h = Some c" "proposes inputs sel uns h c cl"
      using Some best_hub_Some unfolding b by blast
    note star = proposal_star_ok [OF 1(2) c]
    have ok: "assignment_ok inputs
       \<lparr>ns_stars = stars @ [\<lparr>na_hub = h, na_clients = map fst cl\<rparr>],
        ns_unserved = (uns |-| {|h|}) |-| fset_of_list (map fst cl)\<rparr>"
      by (rule assignment_step [OF 1(3) star(1)]) (use star 1(4) in auto)
    have hubs: "fset (finsert h sel) =
        set (star_hubs (stars @ [\<lparr>na_hub = h, na_clients = map fst cl\<rparr>]))"
      using 1(4) by simp
    show ?thesis
      using 1(1) [OF Some b [symmetric] refl 1(2) ok hubs]
      unfolding select_loop.simps [of inputs sel uns stars] Some b option.case prod.case .
  qed
qed

lemma hub_clients_nonempty:
  assumes "link_ok inputs h p" "p |\<in>| uns" "fmlookup (ti_candidates inputs) h = Some c" "n > 0"
  shows "hub_clients inputs uns h c n \<noteq> []"
proof -
  from assms obtain l r where "fmlookup (tc_neighbors c) p = Some l"
    "fmlookup (ti_candidates inputs) p = Some r" "can_be_client r" "h |\<in>| fmdom (tc_neighbors r)"
    by (auto simp: link_ok_def fmlookup_dom_iff split: option.splits)
  then have "client_link inputs uns h (p, l) \<noteq> None" "(p, l) \<in> set (sorted_list_of_fmap (tc_neighbors c))"
    using assms(2) by (auto simp: client_link_def fmlookup_dom_iff set_sorted_list_of_fmap)
  then have "set (List.map_filter (client_link inputs uns h) (sorted_list_of_fmap (tc_neighbors c))) \<noteq> {}"
    unfolding ex_in_conv [symmetric] set_map_filter by blast
  then have "set (sort_key client_key
      (List.map_filter (client_link inputs uns h) (sorted_list_of_fmap (tc_neighbors c)))) \<noteq> {}"
    by (simp only: set_sort not_False_eq_True)
  then show ?thesis using \<open>n > 0\<close> unfolding hub_clients_def by (metis set_empty take_eq_Nil not_less_zero)
qed

lemma no_proposal_no_link:
  assumes "validate_inputs inputs = Inr ()" "best_hub inputs sel uns = None"
    and "h |\<notin>| sel" "p |\<in>| uns" "link_ok inputs h p"
  shows "\<exists>c. fmlookup (ti_candidates inputs) h = Some c \<and> (can_be_hub c \<longrightarrow> hub_capacity c = None)"
proof -
  from assms(5) obtain c where c: "fmlookup (ti_candidates inputs) h = Some c"
    by (auto simp: link_ok_def split: option.splits)
  have "hub_capacity c = None" if hub: "can_be_hub c"
  proof (rule ccontr)
    assume "hub_capacity c \<noteq> None"
    then obtain n where n: "hub_capacity c = Some n" by blast
    with validate_inputs_Inr(4) [OF assms(1) c] have "n > 0" by simp
    with hub_clients_nonempty [OF assms(5,4) c] n hub assms(3)
    have "proposes inputs sel uns h c (hub_clients inputs uns h c n)" by (simp add: proposes_def)
    with best_hub_None [OF assms(2) c] show False by blast
  qed
  with c show ?thesis by blast
qed

lemma select_nap_hubs_Inr:
  assumes "select_nap_hubs inputs = Inr sel"
  shows "validate_inputs inputs = Inr ()" "assignment_ok inputs sel"
    "best_hub inputs (fset_of_list (star_hubs (ns_stars sel))) (ns_unserved sel) = None"
proof -
  from assms have valid: "validate_inputs inputs = Inr ()"
    and sel: "sel = select_loop inputs {||} (fmdom (ti_candidates inputs)) []"
    by (auto simp: select_nap_hubs_def bindR_eq_Inr)
  have "assignment_ok inputs \<lparr>ns_stars = [], ns_unserved = fmdom (ti_candidates inputs)\<rparr>"
    by (simp add: assignment_ok_def star_hubs_def star_clients_def uplinks_def acyclic_def)
  from select_loop_ok [OF valid this, of "{||}"]
  show "assignment_ok inputs sel"
    "best_hub inputs (fset_of_list (star_hubs (ns_stars sel))) (ns_unserved sel) = None"
    unfolding sel by (simp_all add: star_hubs_def)
  show "validate_inputs inputs = Inr ()" by (rule valid)
qed

text \<open>C20: NAP hub selection returns on all validated inputs. Its stars have different hubs that may host, no
  hub has more clients than its connection ceiling, every client may join, is assigned once, and sees
  the hub and is seen by it; hubs, clients and unserved nodes are exactly the candidates, no served node is
  reported unserved, and the client-to-hub links form no cycle. It serves as much as the hubs that are
  left can serve: an unserved node has no usable link to a capable candidate that was not made a hub.\<close>

theorem select_nap_hubs_correct:
  assumes "validate_inputs inputs = Inr ()"
  shows "\<exists>sel. select_nap_hubs inputs = Inr sel \<and> assignment_ok inputs sel \<and>
    (\<forall>p h. p |\<in>| ns_unserved sel \<and> h \<notin> set (star_hubs (ns_stars sel)) \<and> link_ok inputs h p \<longrightarrow>
      (\<exists>c. fmlookup (ti_candidates inputs) h = Some c \<and> (can_be_hub c \<longrightarrow> hub_capacity c = None)))"
proof -
  obtain sel where sel: "select_nap_hubs inputs = Inr sel"
    using assms by (simp add: select_nap_hubs_def)
  note facts = select_nap_hubs_Inr [OF sel]
  show ?thesis
    using sel facts(2) no_proposal_no_link [OF facts(1,3)] by (auto simp: fset_of_list_elem)
qed

definition ex_capabilities :: node_capabilities where
  "ex_capabilities = default_capabilities
     \<lparr>cap_adapter_usable := Some (sourced_new True Measured), cap_panu := Some (sourced_new True Measured),
      cap_nap := Some (sourced_new True Measured),
      cap_connection_policy_ceiling := Some (sourced_new 2 Configured)\<rparr>"

definition ex_candidate_link :: candidate_link where
  "ex_candidate_link = \<lparr>cl_path_cost = 1, cl_quality = None, cl_stable = True\<rparr>"

definition ex_candidate :: "u8 \<Rightarrow> u8 list \<Rightarrow> topology_candidate" where
  "ex_candidate i peers =
     \<lparr>tc_id = byte_ident i, tc_capabilities = ex_capabilities,
      tc_neighbors = fmap_of_list (map (\<lambda>p. (byte_ident p, ex_candidate_link)) peers),
      tc_currently_hosting = False, tc_gateway_preferred = False\<rparr>"

definition ex_inputs :: topology_policy_inputs where
  "ex_inputs = \<lparr>ti_candidates = fmap_of_list
     [(byte_ident 1, ex_candidate 1 [2, 3]), (byte_ident 2, ex_candidate 2 [1]),
      (byte_ident 3, ex_candidate 3 [1]), (byte_ident 4, ex_candidate 4 [])]\<rparr>"

lemmas ex_inputs_defs = ex_inputs_def ex_candidate_def ex_candidate_link_def ex_capabilities_def
  default_capabilities_def sourced_new_def sorted_list_of_fmap_def sorted_list_of_fset_eval

lemmas best_hub_eval = best_hub_def consider_hub_def can_be_hub_def can_host_pan_def adapter_usable_def
  hub_capacity_def hub_clients_def map_filter_simps client_link_def can_be_client_def can_join_pan_def
  client_key_def quality_score_def Let_def hub_score_of_def

lemma ex_inputs_valid: "validate_inputs ex_inputs = Inr ()"
  by (simp add: validate_inputs_def validate_candidate_def validate_neighbor_def ex_inputs_defs)

lemma ex_best_hub:
  "best_hub ex_inputs {||} (fmdom (ti_candidates ex_inputs)) =
     Some (byte_ident 1, [(byte_ident 2, ex_candidate_link), (byte_ident 3, ex_candidate_link)],
       (2, False, 2, 0, False, False, Reverse 2, Reverse (byte_ident 1)))"
  by (simp add: best_hub_eval ex_inputs_defs)

lemma ex_select:
  "select_nap_hubs ex_inputs = Inr
     \<lparr>ns_stars = [\<lparr>na_hub = byte_ident 1, na_clients = [byte_ident 2, byte_ident 3]\<rparr>],
      ns_unserved = {|byte_ident 4|}\<rparr>"
proof -
  have "best_hub ex_inputs {|byte_ident 1|} {|byte_ident 4|} = None"
    by (simp add: best_hub_eval ex_inputs_defs)
  moreover have "((fmdom (ti_candidates ex_inputs) |-| {|byte_ident 1|}) |-|
      fset_of_list (map fst [(byte_ident 2, ex_candidate_link), (byte_ident 3, ex_candidate_link)])) =
      {|byte_ident 4|}"
    by (simp add: ex_inputs_def finsert_fminus_if)
  ultimately show ?thesis
    by (simp add: select_nap_hubs_def ex_inputs_valid ex_best_hub
        select_loop.simps [of ex_inputs "{||}"] select_loop.simps [of ex_inputs "{|byte_ident 1|}"])
qed

theorem select_nap_hubs_correct_witness:
  "validate_inputs ex_inputs = Inr () \<and>
   (\<exists>sel. select_nap_hubs ex_inputs = Inr sel \<and> assignment_ok ex_inputs sel) \<and>
   select_nap_hubs ex_inputs = Inr
     \<lparr>ns_stars = [\<lparr>na_hub = byte_ident 1, na_clients = [byte_ident 2, byte_ident 3]\<rparr>],
      ns_unserved = {|byte_ident 4|}\<rparr>"
  using select_nap_hubs_correct [OF ex_inputs_valid] ex_inputs_valid ex_select by blast

text \<open>Each turn of the selection takes the greatest proposal. The chosen hub is a candidate not chosen
  before and allowed to host, with the clients it would get now; every other candidate that could host now
  would serve at most as many clients, and at equal coverage a candidate that is hosting already is
  never passed over for one that is not.\<close>

theorem best_hub_greedy:
  assumes "best_hub inputs sel uns = Some (h, cl, sc)"
  shows "(\<exists>c. fmlookup (ti_candidates inputs) h = Some c \<and> proposes inputs sel uns h c cl \<and>
      (\<forall>i d clients. fmlookup (ti_candidates inputs) i = Some d \<and> proposes inputs sel uns i d clients \<longrightarrow>
         length clients \<le> length cl \<and>
         (length clients = length cl \<and> tc_currently_hosting d \<longrightarrow> tc_currently_hosting c)))"
proof -
  obtain c where c: "fmlookup (ti_candidates inputs) h = Some c" "proposes inputs sel uns h c cl"
    and sc: "sc = hub_score_of h c cl" using best_hub_Some [OF assms] .
  have "length clients \<le> length cl \<and>
      (length clients = length cl \<and> tc_currently_hosting d \<longrightarrow> tc_currently_hosting c)"
    if "fmlookup (ti_candidates inputs) i = Some d" "proposes inputs sel uns i d clients" for i d clients
    using best_hub_greatest [OF assms that] unfolding sc hub_score_of_def
    by (simp only: less_eq_prod_simp) auto
  with c show ?thesis by blast
qed

theorem best_hub_greedy_witness:
  "\<exists>c. fmlookup (ti_candidates ex_inputs) (byte_ident 1) = Some c \<and>
     proposes ex_inputs {||} (fmdom (ti_candidates ex_inputs)) (byte_ident 1) c
       [(byte_ident 2, ex_candidate_link), (byte_ident 3, ex_candidate_link)]"
  using best_hub_greedy [OF ex_best_hub] by blast

end
