(* ===== verification/Topology_Plan.thy ===== *)
theory Topology_Plan
  imports Topology_Policy
begin

text \<open>
  \<open>crates/blueroute-core/src/topology_plan.rs\<close>: the link set of a NAP selection, with the checks a desired
  selection has to pass, and the ordered plan of connects and disconnects that leads from the active
  links to the desired ones.
\<close>

section \<open>Links and steps\<close>

datatype nap_link = NapLink (nl_hub: node_id) (nl_client: node_id)

definition nap_link_key :: "nap_link \<Rightarrow> node_id \<times> node_id" where
  "nap_link_key l = (nl_hub l, nl_client l)"

lemma nap_link_key_inject: "nap_link_key a = nap_link_key b \<longleftrightarrow> a = b"
  by (cases a; cases b) (simp add: nap_link_key_def)

instantiation nap_link :: linorder
begin

definition less_eq_nap_link :: "nap_link \<Rightarrow> nap_link \<Rightarrow> bool" where
  "less_eq_nap_link a b \<longleftrightarrow> nap_link_key a \<le> nap_link_key b"

definition less_nap_link :: "nap_link \<Rightarrow> nap_link \<Rightarrow> bool" where
  "less_nap_link a b \<longleftrightarrow> nap_link_key a < nap_link_key b"

instance
proof
  fix x y z :: nap_link
  show "x < y \<longleftrightarrow> x \<le> y \<and> \<not> y \<le> x"
    unfolding less_eq_nap_link_def less_nap_link_def by (rule less_le_not_le)
  show "x \<le> x" unfolding less_eq_nap_link_def by (rule order_refl)
  show "x \<le> y \<Longrightarrow> y \<le> z \<Longrightarrow> x \<le> z" unfolding less_eq_nap_link_def by (rule order_trans)
  show "x \<le> y \<Longrightarrow> y \<le> x \<Longrightarrow> x = y"
    unfolding less_eq_nap_link_def nap_link_key_inject [symmetric] by (rule order_antisym)
  show "x \<le> y \<or> y \<le> x" unfolding less_eq_nap_link_def by (rule linear)
qed

end

datatype nap_plan_step = Connect nap_link | Disconnect nap_link

record nap_plan_diff =
  pd_steps :: "nap_plan_step list"
  pd_reconnect_interruptions :: "node_id fset"

section \<open>The link set of a selection\<close>

text \<open>The inner loop of \<open>link_set\<close>, over the clients of one star. The table \<open>client_hubs\<close>, the served nodes
  and the links are threaded through. The lookup \<open>inputs.candidates[&star.hub]\<close> cannot fail there: the star
  was checked before its clients.\<close>

definition link_set_client ::
  "topology_policy_inputs \<Rightarrow> bool \<Rightarrow> node_id \<Rightarrow> node_id \<Rightarrow>
   (node_id, node_id) fmap \<times> node_id fset \<times> nap_link fset \<Rightarrow>
   ((node_id, node_id) fmap \<times> node_id fset \<times> nap_link fset) core_result" where
  "link_set_client inputs desired hub client st =
     (case st of (client_hubs, served, links) \<Rightarrow>
        if client = hub \<or> client |\<in>| fmdom client_hubs
        then Inl (invalid ''self-link or multiply assigned PANU client'')
        else bindR
          (if desired then
             bindR (ok_or (invalid ''unknown desired PANU client'')
                     (fmlookup (ti_candidates inputs) client)) (\<lambda>peer.
               if \<not> can_be_client peer \<or>
                  \<not> (case fmlookup (ti_candidates inputs) hub of
                       None \<Rightarrow> False | Some host \<Rightarrow> client |\<in>| fmdom (tc_neighbors host)) \<or>
                  hub |\<notin>| fmdom (tc_neighbors peer)
               then Inl (invalid ''desired link lacks reciprocal, capable neighbors'')
               else Inr ())
           else Inr ())
          (\<lambda>_. Inr (fmupd client hub client_hubs, finsert client served,
                    finsert (NapLink hub client) links)))"

definition check_desired_hub ::
  "topology_policy_inputs \<Rightarrow> nap_assignment \<Rightarrow> unit core_result" where
  "check_desired_hub inputs star =
     bindR (ok_or (invalid ''unknown desired NAP hub'')
             (fmlookup (ti_candidates inputs) (na_hub star))) (\<lambda>hub.
       if \<not> can_be_hub hub
       then Inl (invalid ''desired NAP host lacks affirmative capability'')
       else bindR (ok_or (invalid ''desired NAP host capacity is unknown'') (hub_capacity hub)) (\<lambda>capacity.
         if length (na_clients star) > capacity
         then Inl (invalid ''desired NAP host exceeds capacity'')
         else Inr ()))"

definition link_set_star ::
  "topology_policy_inputs \<Rightarrow> bool \<Rightarrow> nap_assignment \<Rightarrow>
   node_id fset \<times> (node_id, node_id) fmap \<times> node_id fset \<times> nap_link fset \<Rightarrow>
   (node_id fset \<times> (node_id, node_id) fmap \<times> node_id fset \<times> nap_link fset) core_result" where
  "link_set_star inputs desired star st =
     (case st of (hubs, client_hubs, served, links) \<Rightarrow>
        if na_hub star |\<in>| hubs \<or> na_clients star = []
        then Inl (invalid ''duplicate or empty NAP assignment'')
        else bindR (if desired then check_desired_hub inputs star else Inr ()) (\<lambda>_.
          bindR (foldR (link_set_client inputs desired (na_hub star)) (na_clients star)
                   (client_hubs, finsert (na_hub star) served, links)) (\<lambda>st'.
            Inr (finsert (na_hub star) hubs, st'))))"

definition link_set ::
  "nap_selection \<Rightarrow> topology_policy_inputs \<Rightarrow> bool \<Rightarrow> nap_link fset core_result" where
  "link_set plan inputs desired =
     bindR (foldR (link_set_star inputs desired) (ns_stars plan) ({||}, fmempty, {||}, {||}))
       (\<lambda>(hubs, client_hubs, served, links).
          let known = fmdom (ti_candidates inputs) in
          if desired \<and>
             (ns_unserved plan |\<inter>| served \<noteq> {||} \<or> \<not> ns_unserved plan |\<subseteq>| known \<or>
              served |\<union>| ns_unserved plan \<noteq> known)
          then Inl (invalid ''desired topology has inconsistent unserved nodes'')
          else Inr links)"

section \<open>The transition plan\<close>

text \<open>The capacity of the hub of a target link; the hub is a candidate there.\<close>

definition link_capacity :: "topology_policy_inputs \<Rightarrow> node_id \<Rightarrow> nat" where
  "link_capacity inputs hub =
     (case fmlookup (ti_candidates inputs) hub of
        None \<Rightarrow> 0
      | Some candidate \<Rightarrow> (case hub_capacity candidate of None \<Rightarrow> 0 | Some capacity \<Rightarrow> capacity))"

definition attached :: "nap_link fset \<Rightarrow> node_id \<Rightarrow> bool" where
  "attached current client \<longleftrightarrow> list_ex (\<lambda>old. nl_client old = client) (sorted_list_of_fset current)"

definition occupied :: "nap_link fset \<Rightarrow> node_id \<Rightarrow> nat" where
  "occupied current hub = length (filter (\<lambda>old. nl_hub old = hub) (sorted_list_of_fset current))"

definition link_ready :: "topology_policy_inputs \<Rightarrow> nap_link fset \<Rightarrow> nap_link \<Rightarrow> bool" where
  "link_ready inputs current link \<longleftrightarrow>
     \<not> attached current (nl_client link) \<and> occupied current (nl_hub link) < link_capacity inputs (nl_hub link)"

definition obsolete_for :: "nap_link fset \<Rightarrow> nap_link fset \<Rightarrow> nap_link \<Rightarrow> nap_link option" where
  "obsolete_for current target link =
     (case List.find (\<lambda>old. nl_client old = nl_client link) (sorted_list_of_fset (current |-| target)) of
        Some old \<Rightarrow> Some old
      | None \<Rightarrow> List.find (\<lambda>old. nl_hub old = nl_hub link) (sorted_list_of_fset (current |-| target)))"

fun find_map :: "('a \<Rightarrow> 'b option) \<Rightarrow> 'a list \<Rightarrow> 'b option" where
  "find_map f [] = None"
| "find_map f (x # xs) = (case f x of None \<Rightarrow> find_map f xs | Some y \<Rightarrow> Some y)"

lemma find_map_Some: "find_map f xs = Some y \<Longrightarrow> \<exists>x\<in>set xs. f x = Some y"
  by (induction xs) (auto split: option.splits)

lemma find_map_None: "find_map f xs = None \<longleftrightarrow> (\<forall>x\<in>set xs. f x = None)"
  by (induction xs) (auto split: option.splits)

lemma obsolete_for_Some:
  "obsolete_for current target link = Some old \<Longrightarrow> old |\<in>| current |-| target"
  by (auto simp: obsolete_for_def find_Some_iff split: option.splits dest!: nth_mem)

function diff_loop ::
  "topology_policy_inputs \<Rightarrow> nap_link fset \<Rightarrow> nap_link fset \<Rightarrow> nap_link fset \<Rightarrow> nap_plan_diff \<Rightarrow>
   (nap_link fset \<times> nap_plan_diff) core_result" where
  "diff_loop inputs target current pending result =
     (if pending = {||} then Inr (current, result)
      else case List.find (link_ready inputs current) (sorted_list_of_fset pending) of
        Some link \<Rightarrow>
          diff_loop inputs target (finsert link current) (pending |-| {|link|})
            (result\<lparr>pd_steps := pd_steps result @ [Connect link]\<rparr>)
      | None \<Rightarrow>
          (case find_map (obsolete_for current target) (sorted_list_of_fset pending) of
             None \<Rightarrow> Inl (invalid ''topology transition cannot free a safe slot'')
           | Some old \<Rightarrow>
               diff_loop inputs target (current |-| {|old|}) pending
                 (result\<lparr>pd_steps := pd_steps result @ [Disconnect old],
                   pd_reconnect_interruptions :=
                     (if attached target (nl_client old)
                      then finsert (nl_client old) (pd_reconnect_interruptions result)
                      else pd_reconnect_interruptions result)\<rparr>)))"
  by pat_completeness auto

termination diff_loop
proof (relation "measure (\<lambda>(_, target, current, pending, _). 2 * fcard pending + fcard (current |-| target))",
    goal_cases)
  case (3 inputs target current pending result link)
  then have "link |\<in>| pending" by (auto simp: find_Some_iff dest!: nth_mem)
  then have "fcard (pending |-| {|link|}) < fcard pending" by (rule fcard_fminus1_less)
  moreover have "fcard (finsert link current |-| target) \<le> Suc (fcard (current |-| target))"
    by (cases "link |\<in>| target") (simp_all add: fcard_finsert_if finsert_fminus_if)
  ultimately show ?case by simp
next
  case (2 inputs target current pending result old)
  then obtain link where "obsolete_for current target link = Some old" by (blast dest: find_map_Some)
  then have "old |\<in>| current |-| target" by (rule obsolete_for_Some)
  then have "fcard ((current |-| target) |-| {|old|}) < fcard (current |-| target)"
    by (rule fcard_fminus1_less)
  moreover have "(current |-| {|old|}) |-| target = (current |-| target) |-| {|old|}" by auto
  ultimately show ?case by simp
qed simp

declare diff_loop.simps [simp del]

definition diff_nap_topology ::
  "topology_policy_inputs \<Rightarrow> nap_selection \<Rightarrow> nap_selection \<Rightarrow> nap_plan_diff core_result" where
  "diff_nap_topology inputs active desired =
     bindR (validate_inputs inputs) (\<lambda>_.
     bindR (link_set active inputs False) (\<lambda>current.
     bindR (link_set desired inputs True) (\<lambda>target.
     bindR (diff_loop inputs target current (target |-| current)
              \<lparr>pd_steps = [], pd_reconnect_interruptions = {||}\<rparr>) (\<lambda>(current', result).
       Inr (result\<lparr>pd_steps := pd_steps result @
              map Disconnect (sorted_list_of_fset (current' |-| target))\<rparr>)))))"

section \<open>What a link set is\<close>

definition plan_links :: "nap_assignment list \<Rightarrow> nap_link set" where
  "plan_links stars = (\<Union>s\<in>set stars. NapLink (na_hub s) ` set (na_clients s))"

lemma plan_links_simps [simp]:
  "plan_links [] = {}"
  "plan_links (s # stars) = NapLink (na_hub s) ` set (na_clients s) \<union> plan_links stars"
  by (simp_all add: plan_links_def)

lemma star_Cons [simp]:
  "star_hubs (s # stars) = na_hub s # star_hubs stars"
  "star_clients (s # stars) = na_clients s @ star_clients stars"
  "star_hubs [] = []" "star_clients [] = []"
  by (simp_all add: star_hubs_def star_clients_def)

lemma link_set_client_Inr:
  "link_set_client inputs d h p (ch, srv, ls) = Inr r \<longleftrightarrow>
     p \<noteq> h \<and> p |\<notin>| fmdom ch \<and> (d \<longrightarrow> link_ok inputs h p) \<and>
     r = (fmupd p h ch, finsert p srv, finsert (NapLink h p) ls)"
  by (auto simp: link_set_client_def link_ok_def bindR_eq_Inr ok_or_eq_Inr split: option.splits)

lemma foldR_link_set_client:
  "foldR (link_set_client inputs d h) ps (ch, srv, ls) = Inr (ch', srv', ls') \<longleftrightarrow>
     distinct ps \<and> h \<notin> set ps \<and> set ps \<inter> fset (fmdom ch) = {} \<and> (\<forall>p\<in>set ps. d \<longrightarrow> link_ok inputs h p) \<and>
     ch' = fold (\<lambda>p. fmupd p h) ps ch \<and> srv' = fset_of_list ps |\<union>| srv \<and>
     ls' = fset_of_list (map (NapLink h) ps) |\<union>| ls"
proof (induction ps arbitrary: ch srv ls)
  case (Cons p ps)
  show ?case unfolding foldR.simps bindR_eq_Inr link_set_client_Inr
    by (auto simp: Cons.IH)
qed auto

lemma fmdom_fold_fmupd: "fmdom (fold (\<lambda>p. fmupd p h) ps ch) = fset_of_list ps |\<union>| fmdom ch"
  by (induction ps arbitrary: ch) auto

lemma check_desired_hub_Inr:
  "check_desired_hub inputs s = Inr () \<and> na_clients s \<noteq> [] \<and> (\<forall>p\<in>set (na_clients s). link_ok inputs (na_hub s) p)
     \<longleftrightarrow> star_ok inputs s"
proof (cases "fmlookup (ti_candidates inputs) (na_hub s)")
  case (Some c)
  then show ?thesis
    by (cases "hub_capacity c") (auto simp: check_desired_hub_def star_ok_def)
qed (simp add: check_desired_hub_def star_ok_def)

definition star_admitted :: "topology_policy_inputs \<Rightarrow> bool \<Rightarrow> nap_assignment \<Rightarrow> bool" where
  "star_admitted inputs d s \<longleftrightarrow>
     na_clients s \<noteq> [] \<and> na_hub s \<notin> set (na_clients s) \<and> (d \<longrightarrow> star_ok inputs s)"

lemma link_set_star_Inr:
  "link_set_star inputs d s (hubs, ch, srv, ls) = Inr (hubs', ch', srv', ls') \<longleftrightarrow>
     na_hub s |\<notin>| hubs \<and> star_admitted inputs d s \<and> distinct (na_clients s) \<and>
     set (na_clients s) \<inter> fset (fmdom ch) = {} \<and> hubs' = finsert (na_hub s) hubs \<and>
     ch' = fold (\<lambda>p. fmupd p (na_hub s)) (na_clients s) ch \<and>
     srv' = fset_of_list (na_clients s) |\<union>| finsert (na_hub s) srv \<and>
     ls' = fset_of_list (map (NapLink (na_hub s)) (na_clients s)) |\<union>| ls"
  unfolding link_set_star_def star_admitted_def check_desired_hub_Inr [symmetric]
  by (cases d) (auto simp: bindR_eq_Inr foldR_link_set_client)

lemma foldR_link_set_star:
  "foldR (link_set_star inputs d) stars (hubs, ch, srv, ls) = Inr (hubs', ch', srv', ls') \<Longrightarrow>
     distinct (star_hubs stars) \<and> set (star_hubs stars) \<inter> fset hubs = {} \<and>
     distinct (star_clients stars) \<and> set (star_clients stars) \<inter> fset (fmdom ch) = {} \<and>
     (\<forall>s\<in>set stars. star_admitted inputs d s) \<and>
     fset srv' = set (star_hubs stars) \<union> set (star_clients stars) \<union> fset srv \<and>
     fset ls' = plan_links stars \<union> fset ls"
proof (induction stars arbitrary: hubs ch srv ls)
  case (Cons s stars)
  from Cons.prems obtain hubs1 ch1 srv1 ls1 where
    first: "link_set_star inputs d s (hubs, ch, srv, ls) = Inr (hubs1, ch1, srv1, ls1)" and
    rest: "foldR (link_set_star inputs d) stars (hubs1, ch1, srv1, ls1) = Inr (hubs', ch', srv', ls')"
    by (auto simp: bindR_eq_Inr)
  show ?case
    using Cons.IH [OF rest] first [unfolded link_set_star_Inr]
    by (auto simp: fmdom_fold_fmupd fset_of_list.rep_eq)
qed auto

lemma foldR_link_set_star_total:
  assumes "distinct (star_hubs stars)" "set (star_hubs stars) \<inter> fset hubs = {}"
    "distinct (star_clients stars)" "set (star_clients stars) \<inter> fset (fmdom ch) = {}"
    "\<forall>s\<in>set stars. star_admitted inputs d s"
  shows "\<exists>st. foldR (link_set_star inputs d) stars (hubs, ch, srv, ls) = Inr st"
  using assms
proof (induction stars arbitrary: hubs ch srv ls)
  case (Cons s stars)
  let ?hubs = "finsert (na_hub s) hubs" and ?ch = "fold (\<lambda>p. fmupd p (na_hub s)) (na_clients s) ch"
  let ?srv = "fset_of_list (na_clients s) |\<union>| finsert (na_hub s) srv"
  let ?ls = "fset_of_list (map (NapLink (na_hub s)) (na_clients s)) |\<union>| ls"
  have "link_set_star inputs d s (hubs, ch, srv, ls) = Inr (?hubs, ?ch, ?srv, ?ls)"
    unfolding link_set_star_Inr using Cons.prems by auto
  moreover have "\<exists>st. foldR (link_set_star inputs d) stars (?hubs, ?ch, ?srv, ?ls) = Inr st"
    by (rule Cons.IH) (use Cons.prems in \<open>auto simp: fmdom_fold_fmupd fset_of_list.rep_eq\<close>)
  ultimately show ?case by simp
qed simp

definition selection_ok :: "topology_policy_inputs \<Rightarrow> bool \<Rightarrow> nap_selection \<Rightarrow> bool" where
  "selection_ok inputs d plan \<longleftrightarrow>
     distinct (star_hubs (ns_stars plan)) \<and> distinct (star_clients (ns_stars plan)) \<and>
     (\<forall>s\<in>set (ns_stars plan). star_admitted inputs d s) \<and>
     (d \<longrightarrow>
       fset (ns_unserved plan) \<inter> (set (star_hubs (ns_stars plan)) \<union> set (star_clients (ns_stars plan))) = {} \<and>
       fset (ns_unserved plan) \<union> (set (star_hubs (ns_stars plan)) \<union> set (star_clients (ns_stars plan))) =
         fset (fmdom (ti_candidates inputs)))"

lemma fset_disjoint_iff: "A |\<inter>| B = {||} \<longleftrightarrow> fset A \<inter> fset B = {}"
  by (metis bot_fset.rep_eq fset_inject inf_fset.rep_eq)

lemma fset_union_eq_iff: "A |\<union>| B = C \<longleftrightarrow> fset A \<union> fset B = fset C"
  by (metis fset_inject sup_fset.rep_eq)

lemma link_set_Inr:
  "link_set plan inputs d = Inr L \<longleftrightarrow> selection_ok inputs d plan \<and> fset L = plan_links (ns_stars plan)"
proof
  assume "link_set plan inputs d = Inr L"
  then obtain hubs ch srv where
    stars: "foldR (link_set_star inputs d) (ns_stars plan) ({||}, fmempty, {||}, {||}) = Inr (hubs, ch, srv, L)"
    and ok: "d \<longrightarrow> fset (ns_unserved plan) \<inter> fset srv = {} \<and>
      fset srv \<union> fset (ns_unserved plan) = fset (fmdom (ti_candidates inputs))"
    by (auto simp: link_set_def bindR_eq_Inr Let_def fset_disjoint_iff fset_union_eq_iff split: if_splits)
  from foldR_link_set_star [OF stars] ok
  show "selection_ok inputs d plan \<and> fset L = plan_links (ns_stars plan)"
    by (auto simp: selection_ok_def)
next
  assume *: "selection_ok inputs d plan \<and> fset L = plan_links (ns_stars plan)"
  then obtain hubs ch srv L' where
    stars: "foldR (link_set_star inputs d) (ns_stars plan) ({||}, fmempty, {||}, {||}) = Inr (hubs, ch, srv, L')"
    using foldR_link_set_star_total [of "ns_stars plan" "{||}" fmempty inputs d "{||}" "{||}"]
    by (auto simp: selection_ok_def)
  from foldR_link_set_star [OF stars] * have
    "fset srv = set (star_hubs (ns_stars plan)) \<union> set (star_clients (ns_stars plan))" "fset L' = fset L"
    by auto
  moreover from this(2) have "L' = L" by (simp add: fset_inject)
  ultimately show "link_set plan inputs d = Inr L"
    using * unfolding selection_ok_def
    by (auto simp: link_set_def stars Let_def fset_disjoint_iff fset_union_eq_iff less_eq_fset.rep_eq)
qed

lemma plan_links_single_client:
  assumes "distinct (star_hubs stars)" "distinct (star_clients stars)"
  shows "inj_on nl_client (plan_links stars)"
  using assms
proof (induction stars)
  case (Cons s stars)
  have "nl_client ` plan_links stars = set (star_clients stars)"
    by (simp add: plan_links_def star_clients_def image_UN image_image)
  moreover have "nl_client ` NapLink (na_hub s) ` set (na_clients s) = set (na_clients s)"
    by (simp add: image_image)
  moreover have "inj_on nl_client (NapLink (na_hub s) ` set (na_clients s))" by (auto intro: inj_onI)
  ultimately show ?case using Cons unfolding plan_links_simps inj_on_Un by auto
qed simp

lemma plan_links_of_hub:
  assumes "distinct (star_hubs stars)" "s \<in> set stars"
  shows "{l \<in> plan_links stars. nl_hub l = na_hub s} = NapLink (na_hub s) ` set (na_clients s)"
proof -
  have "t = s" if "t \<in> set stars" "na_hub t = na_hub s" for t
    using assms that by (auto simp: star_hubs_def distinct_map inj_on_def)
  then show ?thesis using assms(2) by (fastforce simp: plan_links_def)
qed

lemma plan_links_capacity:
  assumes "selection_ok inputs True plan" "l \<in> plan_links (ns_stars plan)"
  shows "card {m \<in> plan_links (ns_stars plan). nl_hub m = nl_hub l} \<le> link_capacity inputs (nl_hub l)"
proof -
  from assms(2) obtain s where s: "s \<in> set (ns_stars plan)" "nl_hub l = na_hub s"
    by (auto simp: plan_links_def)
  have "card (NapLink (na_hub s) ` set (na_clients s)) \<le> length (na_clients s)"
    by (meson card_image_le card_length finite_set order_trans)
  also have "\<dots> \<le> link_capacity inputs (na_hub s)"
  proof -
    have "star_ok inputs s" using assms(1) s(1) by (simp add: selection_ok_def star_admitted_def)
    then show ?thesis by (auto simp: star_ok_def link_capacity_def split: option.splits)
  qed
  finally show ?thesis
    using plan_links_of_hub [OF _ s(1)] assms(1) by (simp add: selection_ok_def s(2))
qed

section \<open>Safe execution of a plan\<close>

lemma attached_iff: "attached cur c \<longleftrightarrow> (\<exists>l\<in>fset cur. nl_client l = c)"
  by (auto simp: attached_def list_ex_iff)

lemma attached_image: "attached cur c \<longleftrightarrow> c \<in> nl_client ` fset cur"
  unfolding attached_iff by blast

lemma occupied_card: "occupied cur h = card {l \<in> fset cur. nl_hub l = h}"
proof -
  have "occupied cur h = card (set (filter (\<lambda>l. nl_hub l = h) (sorted_list_of_fset cur)))"
    unfolding occupied_def by (rule distinct_card [symmetric]) simp
  then show ?thesis by simp
qed

text \<open>What the executor of a plan may do with the links there are: connect a client that is not attached, to a
  hub with a free slot, and disconnect a link that is there.\<close>

fun run_step :: "topology_policy_inputs \<Rightarrow> nap_plan_step \<Rightarrow> nap_link set \<Rightarrow> nap_link set option" where
  "run_step inputs (Connect l) cur =
     (if (\<exists>m\<in>cur. nl_client m = nl_client l) \<or>
         \<not> card {m \<in> cur. nl_hub m = nl_hub l} < link_capacity inputs (nl_hub l)
      then None else Some (insert l cur))"
| "run_step inputs (Disconnect l) cur = (if l \<in> cur then Some (cur - {l}) else None)"

fun run_plan :: "topology_policy_inputs \<Rightarrow> nap_plan_step list \<Rightarrow> nap_link set \<Rightarrow> nap_link set option" where
  "run_plan inputs [] cur = Some cur"
| "run_plan inputs (x # xs) cur = Option.bind (run_step inputs x cur) (run_plan inputs xs)"

lemma run_plan_append:
  "run_plan inputs (xs @ ys) cur = Option.bind (run_plan inputs xs cur) (run_plan inputs ys)"
proof (induction xs arbitrary: cur)
  case (Cons x xs)
  then show ?case by (cases "run_step inputs x cur") simp_all
qed simp

lemma run_plan_disconnects:
  "distinct ls \<Longrightarrow> set ls \<subseteq> cur \<Longrightarrow> run_plan inputs (map Disconnect ls) cur = Some (cur - set ls)"
proof (induction ls arbitrary: cur)
  case (Cons l ls)
  have "run_plan inputs (map Disconnect ls) (cur - {l}) = Some (cur - {l} - set ls)"
    using Cons.prems by (intro Cons.IH) auto
  moreover have "cur - {l} - set ls = cur - set (l # ls)" by auto
  ultimately show ?case using Cons.prems by simp
qed simp

definition moved_clients :: "nap_link set \<Rightarrow> nap_link set \<Rightarrow> node_id set" where
  "moved_clients old T = nl_client ` (old - T) \<inter> nl_client ` T"

definition diff_inv ::
  "topology_policy_inputs \<Rightarrow> nap_link set \<Rightarrow> nap_link set \<Rightarrow> nap_link set \<Rightarrow> nap_plan_diff \<Rightarrow> bool" where
  "diff_inv inputs T C0 C r \<longleftrightarrow>
     inj_on nl_client C \<and> C - C0 \<subseteq> T \<and> (C0 - C) \<inter> T = {} \<and>
     run_plan inputs (pd_steps r) C0 = Some C \<and> distinct (pd_steps r) \<and>
     set (pd_steps r) = Connect ` (C - C0) \<union> Disconnect ` (C0 - C) \<and>
     fset (pd_reconnect_interruptions r) = nl_client ` (C0 - C) \<inter> nl_client ` T"

lemma diff_inv_connect:
  assumes inv: "diff_inv inputs T C0 (fset cur) r" and l: "l \<in> T" "l |\<notin>| cur" "link_ready inputs cur l"
  shows "diff_inv inputs T C0 (fset (finsert l cur)) (r\<lparr>pd_steps := pd_steps r @ [Connect l]\<rparr>)"
proof -
  have ready: "\<forall>m\<in>fset cur. nl_client m \<noteq> nl_client l"
    "card {m \<in> fset cur. nl_hub m = nl_hub l} < link_capacity inputs (nl_hub l)"
    using l(3) by (auto simp: link_ready_def attached_iff occupied_card)
  have "l \<notin> C0" using inv l by (auto simp: diff_inv_def)
  have "C0 - insert l (fset cur) = C0 - fset cur" using \<open>l \<notin> C0\<close> by blast
  moreover have "insert l (fset cur) - C0 = insert l (fset cur - C0)" using \<open>l \<notin> C0\<close> by blast
  moreover have "inj_on nl_client (insert l (fset cur))"
    using inv ready(1) by (auto simp: diff_inv_def)
  moreover have "Connect l \<notin> set (pd_steps r)" using inv l(2) by (auto simp: diff_inv_def)
  moreover have "run_plan inputs (pd_steps r @ [Connect l]) C0 = Some (insert l (fset cur))"
    using inv ready by (auto simp: diff_inv_def run_plan_append)
  ultimately show ?thesis using inv l(1) unfolding diff_inv_def by auto
qed

lemma diff_inv_disconnect:
  assumes inv: "diff_inv inputs T C0 (fset cur) r" and l: "l \<notin> T" "l |\<in>| cur"
    and r': "pd_steps r' = pd_steps r @ [Disconnect l]"
      "fset (pd_reconnect_interruptions r') =
         (if nl_client l \<in> nl_client ` T then insert (nl_client l) (fset (pd_reconnect_interruptions r))
          else fset (pd_reconnect_interruptions r))"
  shows "diff_inv inputs T C0 (fset (cur |-| {|l|})) r'"
proof -
  have "l \<in> C0" using inv l by (auto simp: diff_inv_def)
  have "C0 - (fset cur - {l}) = insert l (C0 - fset cur)" using \<open>l \<in> C0\<close> by blast
  moreover have "fset cur - {l} - C0 = fset cur - C0" using \<open>l \<in> C0\<close> by blast
  moreover have "inj_on nl_client (fset cur - {l})" using inv by (auto simp: diff_inv_def inj_on_diff)
  moreover have "Disconnect l \<notin> set (pd_steps r)" using inv l(2) by (auto simp: diff_inv_def)
  moreover have "run_plan inputs (pd_steps r @ [Disconnect l]) C0 = Some (fset cur - {l})"
    using inv l(2) by (auto simp: diff_inv_def run_plan_append)
  ultimately show ?thesis using inv l(1) r' unfolding diff_inv_def by auto
qed

lemma diff_inv_disconnect':
  assumes inv: "diff_inv inputs (fset T) C0 (fset cur) r" and l: "l \<notin> fset T" "l |\<in>| cur"
  shows "diff_inv inputs (fset T) C0 (fset (cur |-| {|l|}))
    (r\<lparr>pd_steps := pd_steps r @ [Disconnect l],
       pd_reconnect_interruptions :=
         (if attached T (nl_client l) then finsert (nl_client l) (pd_reconnect_interruptions r)
          else pd_reconnect_interruptions r)\<rparr>)"
proof (rule diff_inv_disconnect [OF inv l])
  show "pd_steps (r\<lparr>pd_steps := xs, pd_reconnect_interruptions := ys\<rparr>) = xs" for xs ys by simp
  show "fset (pd_reconnect_interruptions
      (r\<lparr>pd_steps := pd_steps r @ [Disconnect l],
         pd_reconnect_interruptions :=
           (if attached T (nl_client l) then finsert (nl_client l) (pd_reconnect_interruptions r)
            else pd_reconnect_interruptions r)\<rparr>)) =
      (if nl_client l \<in> nl_client ` fset T
       then insert (nl_client l) (fset (pd_reconnect_interruptions r))
       else fset (pd_reconnect_interruptions r))"
    unfolding attached_image by simp
qed

lemma obsolete_for_None:
  "obsolete_for cur T l = None \<longleftrightarrow>
     (\<forall>old. old |\<in>| cur \<and> old |\<notin>| T \<longrightarrow> nl_client old \<noteq> nl_client l \<and> nl_hub old \<noteq> nl_hub l)"
proof (cases "List.find (\<lambda>old. nl_client old = nl_client l) (sorted_list_of_fset (cur |-| T))")
  case None
  show ?thesis unfolding obsolete_for_def None option.case
    using None by (auto simp: find_None_iff)
next
  case (Some old)
  then have "old |\<in>| cur |-| T" "nl_client old = nl_client l"
    by (auto simp: find_Some_iff dest!: nth_mem)
  with Some show ?thesis by (auto simp: obsolete_for_def)
qed

text \<open>A link that cannot be connected yet has an obsolete link in its way.\<close>

lemma blocked_has_obsolete:
  assumes C: "inj_on nl_client (fset cur)" and T: "inj_on nl_client (fset T)"
    and cap: "card {m \<in> fset T. nl_hub m = nl_hub l} \<le> link_capacity inputs (nl_hub l)"
    and l: "l |\<in>| T" "l |\<notin>| cur" "\<not> link_ready inputs cur l"
  shows "obsolete_for cur T l \<noteq> None"
proof (cases "attached cur (nl_client l)")
  case True
  then obtain old where old: "old |\<in>| cur" "nl_client old = nl_client l" by (auto simp: attached_iff)
  then have "old |\<notin>| T" using T l(1,2) by (auto dest: inj_onD)
  with old show ?thesis unfolding obsolete_for_None by blast
next
  case False
  let ?H = "\<lambda>S. {m \<in> fset S. nl_hub m = nl_hub l}"
  from False l(3) have full: "link_capacity inputs (nl_hub l) \<le> card (?H cur)"
    by (simp add: link_ready_def occupied_card)
  have "\<not> ?H cur \<subseteq> ?H T - {l}"
  proof
    assume "?H cur \<subseteq> ?H T - {l}"
    then have "card (?H cur) \<le> card (?H T - {l})" by (intro card_mono) auto
    also have "\<dots> < card (?H T)" by (rule card_Diff1_less) (use l(1) in auto)
    finally show False using cap full by simp
  qed
  then obtain old where "old |\<in>| cur" "nl_hub old = nl_hub l" "old |\<notin>| T" using l(2) by auto
  then show ?thesis unfolding obsolete_for_None by blast
qed

lemma diff_loop_correct:
  assumes "diff_inv inputs (fset T) C0 (fset cur) r" "pending = T |-| cur"
    and "inj_on nl_client (fset T)"
    and "\<forall>l\<in>fset T. card {m \<in> fset T. nl_hub m = nl_hub l} \<le> link_capacity inputs (nl_hub l)"
  shows "\<exists>cur' r'. diff_loop inputs T cur pending r = Inr (cur', r') \<and>
     diff_inv inputs (fset T) C0 (fset cur') r' \<and> fset T \<subseteq> fset cur'"
  using assms
proof (induction inputs T cur pending r rule: diff_loop.induct)
  case (1 inputs T cur pending r)
  note inv = 1(3) and pending = 1(4) and T = 1(5) and cap = 1(6)
  consider (finish) "pending = {||}"
    | (ready) l where "pending \<noteq> {||}" "List.find (link_ready inputs cur) (sorted_list_of_fset pending) = Some l"
    | (blocked) "pending \<noteq> {||}" "List.find (link_ready inputs cur) (sorted_list_of_fset pending) = None"
    by fastforce
  then show ?case
  proof cases
    case finish
    then have "fset T \<subseteq> fset cur" using pending by (metis bot_fset.rep_eq Diff_eq_empty_iff minus_fset.rep_eq)
    then show ?thesis using inv finish by (auto simp: diff_loop.simps)
  next
    case ready
    then have l: "l |\<in>| T" "l |\<notin>| cur" "link_ready inputs cur l"
      using pending by (auto simp: find_Some_iff dest!: nth_mem)
    have p: "pending |-| {|l|} = T |-| finsert l cur" using pending by auto
    show ?thesis
      using 1(2) [OF ready diff_inv_connect [OF inv l] p T cap]
      unfolding diff_loop.simps [of inputs T cur pending r] if_not_P [OF ready(1)] ready(2) option.case .
  next
    case blocked
    from blocked(1) obtain l where "l |\<in>| pending" by blast
    then have "obsolete_for cur T l \<noteq> None"
      using blocked(2) pending cap inv T
      by (intro blocked_has_obsolete) (auto simp: find_None_iff diff_inv_def)
    then obtain old where old: "find_map (obsolete_for cur T) (sorted_list_of_fset pending) = Some old"
      using \<open>l |\<in>| pending\<close> find_map_None [of "obsolete_for cur T" "sorted_list_of_fset pending"]
      by fastforce
    then have "old |\<in>| cur |-| T" by (blast dest: find_map_Some obsolete_for_Some)
    then have mem: "old \<notin> fset T" "old |\<in>| cur" by auto
    have p: "pending = T |-| (cur |-| {|old|})" using pending mem by auto
    let ?r = "r\<lparr>pd_steps := pd_steps r @ [Disconnect old],
        pd_reconnect_interruptions :=
          (if attached T (nl_client old) then finsert (nl_client old) (pd_reconnect_interruptions r)
           else pd_reconnect_interruptions r)\<rparr>"
    have inv': "diff_inv inputs (fset T) C0 (fset (cur |-| {|old|})) ?r"
      by (rule diff_inv_disconnect' [OF inv mem])
    show ?thesis
      using 1(1) [OF blocked old inv' p T cap]
      unfolding diff_loop.simps [of inputs T cur pending r] if_not_P [OF blocked(1)] blocked(2) old
        option.case .
  qed
qed

lemma diff_nap_topology_plan:
  assumes valid: "validate_inputs inputs = Inr ()" and C: "link_set active inputs False = Inr C"
    and T: "link_set desired inputs True = Inr T"
  shows "\<exists>d. diff_nap_topology inputs active desired = Inr d \<and>
     run_plan inputs (pd_steps d) (fset C) = Some (fset T) \<and> distinct (pd_steps d) \<and>
     set (pd_steps d) = Connect ` (fset T - fset C) \<union> Disconnect ` (fset C - fset T) \<and>
     fset (pd_reconnect_interruptions d) = moved_clients (fset C) (fset T)"
proof -
  let ?r = "\<lparr>pd_steps = [], pd_reconnect_interruptions = {||}\<rparr>"
  note Cok = C [unfolded link_set_Inr] and Tok = T [unfolded link_set_Inr]
  have injC: "inj_on nl_client (fset C)" and injT: "inj_on nl_client (fset T)"
    using Cok Tok by (auto simp: selection_ok_def intro: plan_links_single_client)
  have "\<exists>cur' r'. diff_loop inputs T C (T |-| C) ?r = Inr (cur', r') \<and>
      diff_inv inputs (fset T) (fset C) (fset cur') r' \<and> fset T \<subseteq> fset cur'"
    using injC injT Tok plan_links_capacity [of inputs desired]
    by (intro diff_loop_correct) (auto simp: diff_inv_def)
  then obtain cur' r' where loop: "diff_loop inputs T C (T |-| C) ?r = Inr (cur', r')"
    and inv: "diff_inv inputs (fset T) (fset C) (fset cur') r'" and sub: "fset T \<subseteq> fset cur'" by blast
  let ?rest = "sorted_list_of_fset (cur' |-| T)"
  have run: "run_plan inputs (pd_steps r' @ map Disconnect ?rest) (fset C) = Some (fset T)"
  proof -
    have "run_plan inputs (map Disconnect ?rest) (fset cur') = Some (fset cur' - set ?rest)"
      by (rule run_plan_disconnects) auto
    moreover have "fset cur' - set ?rest = fset T" using sub by auto
    ultimately show ?thesis using inv by (simp add: diff_inv_def run_plan_append)
  qed
  have steps: "set (pd_steps r') = Connect ` (fset cur' - fset C) \<union> Disconnect ` (fset C - fset cur')"
    and kept: "fset cur' - fset C \<subseteq> fset T" "(fset C - fset cur') \<inter> fset T = {}"
    and inj: "inj_on nl_client (fset cur')"
    using inv by (simp_all add: diff_inv_def)
  have conn: "fset cur' - fset C = fset T - fset C" using kept(1) sub by blast
  have disc: "fset C - fset T = (fset C - fset cur') \<union> (fset cur' - fset T)"
    using kept sub by blast
  have "set (pd_steps r' @ map Disconnect ?rest) =
      Connect ` (fset T - fset C) \<union> Disconnect ` (fset C - fset T)"
    unfolding disc by (simp add: steps conn image_Un Un_assoc)
  moreover have "distinct (pd_steps r' @ map Disconnect ?rest)"
    using inv steps by (auto simp: diff_inv_def distinct_map inj_on_def)
  moreover have "nl_client ` (fset cur' - fset T) \<inter> nl_client ` fset T = {}"
    using inj_on_image_Int [OF inj, of "fset cur' - fset T" "fset T"] sub by auto
  then have "fset (pd_reconnect_interruptions r') = moved_clients (fset C) (fset T)"
    using inv unfolding moved_clients_def disc by (auto simp: diff_inv_def)
  ultimately show ?thesis
    using run by (simp add: diff_nap_topology_def valid C T loop)
qed

text \<open>C22: a transition plan exists for every valid desired selection and every consistent set of active links,
  so planning never gets stuck in a state where no safe slot can be freed. Executed in order from the active
  links, each step is safe (a client is connected only while it is attached nowhere, to a hub that has a
  free slot; only an existing link is disconnected) and the last state is exactly the desired one. The
  plan is minimal: every step occurs once, links of both topologies are never touched, and the clients
  reported as interrupted are exactly those that move from one hub to another.\<close>

theorem diff_nap_topology_correct:
  assumes "validate_inputs inputs = Inr ()" "link_set active inputs False = Inr C"
    and "link_set desired inputs True = Inr T"
  shows "\<exists>d. diff_nap_topology inputs active desired = Inr d \<and>
     run_plan inputs (pd_steps d) (fset C) = Some (fset T) \<and> distinct (pd_steps d) \<and>
     set (pd_steps d) = Connect ` (fset T - fset C) \<union> Disconnect ` (fset C - fset T) \<and>
     fset (pd_reconnect_interruptions d) = moved_clients (fset C) (fset T)"
  by (rule diff_nap_topology_plan [OF assms])

definition ex_active :: nap_selection where
  "ex_active =
     \<lparr>ns_stars = [\<lparr>na_hub = byte_ident 3, na_clients = [byte_ident 2]\<rparr>], ns_unserved = {||}\<rparr>"

definition ex_desired :: nap_selection where
  "ex_desired =
     \<lparr>ns_stars = [\<lparr>na_hub = byte_ident 1, na_clients = [byte_ident 2, byte_ident 3]\<rparr>],
      ns_unserved = {|byte_ident 4|}\<rparr>"

lemmas link_set_eval = link_set_def link_set_star_def link_set_client_def check_desired_hub_def
  can_be_hub_def can_host_pan_def adapter_usable_def hub_capacity_def can_be_client_def can_join_pan_def

lemma ex_link_sets:
  "link_set ex_active ex_inputs False = Inr {|NapLink (byte_ident 3) (byte_ident 2)|}"
  "link_set ex_desired ex_inputs True =
     Inr {|NapLink (byte_ident 1) (byte_ident 2), NapLink (byte_ident 1) (byte_ident 3)|}"
  by (simp_all add: link_set_eval ex_active_def ex_desired_def ex_inputs_defs Let_def
      finsert_commute insert_commute)

theorem diff_nap_topology_correct_witness:
  "\<exists>d. diff_nap_topology ex_inputs ex_active ex_desired = Inr d \<and>
     run_plan ex_inputs (pd_steps d) {NapLink (byte_ident 3) (byte_ident 2)} =
       Some {NapLink (byte_ident 1) (byte_ident 2), NapLink (byte_ident 1) (byte_ident 3)}"
  using diff_nap_topology_correct [OF ex_inputs_valid ex_link_sets] by auto

end
