(* ===== verification/Topology_Recovery.thy ===== *)
theory Topology_Recovery
  imports Topology_Plan
begin

text \<open>
  \<open>crates/blueroute-core/src/topology_recovery.rs\<close>: the proposal that replaces lost hubs. It selects among
  the nodes that are left and plans the transition from the links that were observed.
\<close>

section \<open>Operations\<close>

record hub_loss_recovery_plan =
  rp_desired :: nap_selection
  rp_transition :: nap_plan_diff
  rp_unavailable :: "node_id fset"

text \<open>\<open>active_stars.entry(link.hub).or_default().push(link.client)\<close>\<close>

definition push_client :: "nap_link \<Rightarrow> (node_id, node_id list) fmap \<Rightarrow> (node_id, node_id list) fmap" where
  "push_client link stars =
     fmupd (nl_hub link)
       ((case fmlookup stars (nl_hub link) of None \<Rightarrow> [] | Some cs \<Rightarrow> cs) @ [nl_client link]) stars"

definition stars_selection :: "(node_id, node_id list) fmap \<Rightarrow> nap_selection" where
  "stars_selection stars =
     \<lparr>ns_stars = map (\<lambda>(hub, clients). \<lparr>na_hub = hub, na_clients = clients\<rparr>) (sorted_list_of_fmap stars),
      ns_unserved = {||}\<rparr>"

definition recovery_link ::
  "topology_policy_inputs \<Rightarrow> node_id fset \<Rightarrow> nap_link \<Rightarrow>
   (node_id, node_id list) fmap \<times> node_id fset \<Rightarrow> ((node_id, node_id list) fmap \<times> node_id fset) core_result"
where
  "recovery_link inputs lost_hubs link st =
     (case st of (active_stars, attached_clients) \<Rightarrow>
        if nl_hub link = nl_client link \<or> nl_hub link |\<notin>| fmdom (ti_candidates inputs) \<or>
           nl_client link |\<notin>| fmdom (ti_candidates inputs) \<or> nl_hub link |\<in>| lost_hubs \<or>
           nl_client link |\<in>| lost_hubs \<or> nl_client link |\<in>| attached_clients
        then Inl (invalid ''stale, unknown or conflicting PAN observations'')
        else Inr (push_client link active_stars, finsert (nl_client link) attached_clients))"

definition available_candidate ::
  "nap_link fset \<Rightarrow> node_id fset \<Rightarrow> node_id \<Rightarrow> topology_candidate \<Rightarrow> topology_candidate" where
  "available_candidate observed_links lost_hubs i candidate =
     candidate
       \<lparr>tc_neighbors := fm_retain (\<lambda>peer _. peer |\<notin>| lost_hubs) (tc_neighbors candidate),
        tc_currently_hosting := list_ex (\<lambda>link. nl_hub link = i) (sorted_list_of_fset observed_links)\<rparr>"

definition available_inputs ::
  "topology_policy_inputs \<Rightarrow> nap_link fset \<Rightarrow> node_id fset \<Rightarrow> topology_policy_inputs" where
  "available_inputs inputs observed_links lost_hubs =
     \<lparr>ti_candidates =
        fmmap_keys (available_candidate observed_links lost_hubs)
          (fm_retain (\<lambda>i _. i |\<notin>| lost_hubs) (ti_candidates inputs))\<rparr>"

definition plan_hub_loss_recovery ::
  "topology_policy_inputs \<Rightarrow> nap_link fset \<Rightarrow> node_id fset \<Rightarrow> hub_loss_recovery_plan core_result" where
  "plan_hub_loss_recovery inputs observed_links lost_hubs =
     bindR (validate_inputs inputs) (\<lambda>_.
       if lost_hubs = {||} \<or> \<not> lost_hubs |\<subseteq>| fmdom (ti_candidates inputs)
       then Inl (invalid ''hub loss requires known failed node identities'')
       else
         bindR (foldR (recovery_link inputs lost_hubs) (sorted_list_of_fset observed_links) (fmempty, {||}))
           (\<lambda>(active_stars, _).
         bindR (select_nap_hubs (available_inputs inputs observed_links lost_hubs)) (\<lambda>selected.
           let desired = selected\<lparr>ns_unserved := ns_unserved selected |\<union>| lost_hubs\<rparr> in
           bindR (diff_nap_topology inputs (stars_selection active_stars) desired) (\<lambda>transition.
             Inr \<lparr>rp_desired = desired, rp_transition = transition, rp_unavailable = ns_unserved desired\<rparr>))))"

section \<open>The selection that observed links make up\<close>

definition star_table :: "nap_link list \<Rightarrow> (node_id, node_id list) fmap \<Rightarrow> (node_id, node_id list) fmap" where
  "star_table links stars = fold push_client links stars"

definition table_links :: "(node_id, node_id list) fmap \<Rightarrow> nap_link set" where
  "table_links stars = {NapLink h c | h c cs. fmlookup stars h = Some cs \<and> c \<in> set cs}"

lemma table_links_push: "table_links (push_client l stars) = insert l (table_links stars)"
proof (rule set_eqI)
  fix x
  obtain h c g d where xl: "x = NapLink h c" "l = NapLink g d" by (metis nap_link.exhaust)
  show "x \<in> table_links (push_client l stars) \<longleftrightarrow> x \<in> insert l (table_links stars)"
    unfolding xl by (cases "fmlookup stars g") (auto simp: table_links_def push_client_def)
qed

lemma table_links_star_table: "table_links (star_table ls stars) = set ls \<union> table_links stars"
  by (induction ls arbitrary: stars) (auto simp: star_table_def table_links_push)

definition table_ok :: "(node_id, node_id list) fmap \<Rightarrow> bool" where
  "table_ok stars \<longleftrightarrow> (\<forall>h cs. fmlookup stars h = Some cs \<longrightarrow> cs \<noteq> [] \<and> distinct cs)"

lemma table_ok_push:
  assumes "table_ok stars" "l \<notin> table_links stars"
  shows "table_ok (push_client l stars)"
  using assms by (cases l) (auto simp: table_ok_def push_client_def table_links_def split: option.splits if_splits)

lemma table_ok_star_table:
  "table_ok stars \<Longrightarrow> distinct ls \<Longrightarrow> set ls \<inter> table_links stars = {} \<Longrightarrow> table_ok (star_table ls stars)"
proof (induction ls arbitrary: stars)
  case (Cons l ls)
  then show ?case
    using Cons.IH [of "push_client l stars"] table_ok_push [of stars l]
    by (simp add: star_table_def table_links_push)
qed (simp add: star_table_def)

lemma stars_selection_links: "plan_links (ns_stars (stars_selection stars)) = table_links stars"
  by (force simp: stars_selection_def plan_links_def table_links_def set_sorted_list_of_fmap)

lemma star_hubs_stars_selection: "star_hubs (ns_stars (stars_selection stars)) = sorted_list_of_fset (fmdom stars)"
  unfolding map_fst_sorted_list_of_fmap [symmetric]
  by (simp add: stars_selection_def star_hubs_def case_prod_beta comp_def)

lemma stars_selection_clients_distinct:
  assumes "table_ok stars" "inj_on nl_client (table_links stars)"
  shows "distinct (star_clients (ns_stars (stars_selection stars)))"
proof -
  have clients: "star_clients (ns_stars (stars_selection stars)) = concat (map snd (sorted_list_of_fmap stars))"
    by (simp add: stars_selection_def star_clients_def comp_def case_prod_beta)
  have "distinct (concat (map snd xs))"
    if "distinct (map fst xs)" "set xs \<subseteq> {(k, v). fmlookup stars k = Some v}" for xs
    using that
  proof (induction xs)
    case (Cons x xs)
    obtain h cs where x: "x = (h, cs)" by (cases x)
    have "set cs \<inter> set (concat (map snd xs)) = {}"
    proof (rule equals0I)
      fix c assume "c \<in> set cs \<inter> set (concat (map snd xs))"
      then obtain g ds where "(g, ds) \<in> set xs" "c \<in> set ds" "c \<in> set cs" by auto
      then have "NapLink h c \<in> table_links stars" "NapLink g c \<in> table_links stars"
        using Cons.prems(2) x by (auto simp: table_links_def)
      then have "g = h" using assms(2) by (metis inj_onD nap_link.sel)
      then show False using Cons.prems(1) x \<open>(g, ds) \<in> set xs\<close> by (force simp: image_iff)
    qed
    moreover have "distinct cs" using assms(1) Cons.prems(2) x by (auto simp: table_ok_def)
    ultimately show ?case using Cons x by auto
  qed simp
  then show ?thesis unfolding clients by (simp add: set_sorted_list_of_fmap)
qed

lemma stars_selection_ok:
  assumes "table_ok stars" "inj_on nl_client (table_links stars)"
    and "\<And>l. l \<in> table_links stars \<Longrightarrow> nl_hub l \<noteq> nl_client l"
  shows "selection_ok inputs False (stars_selection stars)"
proof -
  have "na_clients s \<noteq> [] \<and> na_hub s \<notin> set (na_clients s)" if "s \<in> set (ns_stars (stars_selection stars))" for s
  proof -
    from that have look: "fmlookup stars (na_hub s) = Some (na_clients s)"
      by (auto simp: stars_selection_def set_sorted_list_of_fmap)
    have "na_hub s \<notin> set (na_clients s)"
    proof
      assume "na_hub s \<in> set (na_clients s)"
      then have "NapLink (na_hub s) (na_hub s) \<in> table_links stars" using look by (auto simp: table_links_def)
      then show False using assms(3) by fastforce
    qed
    then show ?thesis using assms(1) look by (auto simp: table_ok_def)
  qed
  then show ?thesis
    using stars_selection_clients_distinct [OF assms(1,2)]
    by (simp add: selection_ok_def star_admitted_def star_hubs_stars_selection)
qed

definition observed_links_ok :: "nap_link fset \<Rightarrow> bool" where
  "observed_links_ok links \<longleftrightarrow>
     inj_on nl_client (fset links) \<and> (\<forall>l. l |\<in>| links \<longrightarrow> nl_hub l \<noteq> nl_client l)"

lemma observed_star_table:
  assumes "observed_links_ok links"
  shows "link_set (stars_selection (star_table (sorted_list_of_fset links) fmempty)) inputs False = Inr links"
proof -
  let ?t = "star_table (sorted_list_of_fset links) fmempty"
  have empty: "table_links fmempty = {}" "table_ok fmempty" by (simp_all add: table_links_def table_ok_def)
  then have links: "table_links ?t = fset links" by (simp add: table_links_star_table)
  have "table_ok ?t" by (rule table_ok_star_table) (simp_all add: empty)
  then have "selection_ok inputs False (stars_selection ?t)"
    using assms links by (intro stars_selection_ok) (auto simp: observed_links_ok_def)
  then show ?thesis by (simp add: link_set_Inr stars_selection_links links)
qed

section \<open>Selecting among the nodes that are left\<close>

lemma available_lookup:
  "fmlookup (ti_candidates (available_inputs inputs links lost)) i =
     (if i |\<in>| lost then None
      else map_option (available_candidate links lost i) (fmlookup (ti_candidates inputs) i))"
  by (auto simp: available_inputs_def split: option.split)

lemma available_dom:
  "fmdom (ti_candidates (available_inputs inputs links lost)) = fmdom (ti_candidates inputs) |-| lost"
  by (rule fset_eqI) (auto simp: fmlookup_dom_iff available_lookup)

lemma available_candidate_simps [simp]:
  "tc_id (available_candidate links lost i c) = tc_id c"
  "tc_capabilities (available_candidate links lost i c) = tc_capabilities c"
  "hub_capacity (available_candidate links lost i c) = hub_capacity c"
  "can_be_hub (available_candidate links lost i c) = can_be_hub c"
  "can_be_client (available_candidate links lost i c) = can_be_client c"
  by (simp_all add: available_candidate_def hub_capacity_def can_be_hub_def can_be_client_def)

lemma available_neighbors:
  "fmlookup (tc_neighbors (available_candidate links lost i c)) p =
     (if p |\<in>| lost then None else fmlookup (tc_neighbors c) p)"
  by (auto simp: available_candidate_def split: option.split)

lemma available_neighbors_dom:
  "p |\<in>| fmdom (tc_neighbors (available_candidate links lost i c)) \<Longrightarrow> p |\<in>| fmdom (tc_neighbors c)"
  by (auto simp: fmlookup_dom_iff available_neighbors split: if_splits)

lemma available_valid:
  assumes "validate_inputs inputs = Inr ()"
  shows "validate_inputs (available_inputs inputs links lost) = Inr ()"
proof -
  let ?a = "available_inputs inputs links lost"
  have "validate_candidate ?a (i, c) () = Inr ()" if look: "fmlookup (ti_candidates ?a) i = Some c" for i c
  proof -
    from look obtain d where i: "i |\<notin>| lost" and d: "fmlookup (ti_candidates inputs) i = Some d"
      and c: "c = available_candidate links lost i d"
      by (auto simp: available_lookup split: if_splits)
    have ok: "validate_candidate inputs (i, d) () = Inr ()"
      using assms d by (auto simp: validate_inputs_def foldR_check set_sorted_list_of_fmap)
    then have "\<forall>x\<in>set (sorted_list_of_fmap (tc_neighbors d)). validate_neighbor inputs i x () = Inr ()"
      by (auto simp: validate_candidate_def foldR_check split: if_splits)
    then have "validate_neighbor ?a i (n, l) () = Inr ()" if "fmlookup (tc_neighbors c) n = Some l" for n l
      using that by (auto simp: set_sorted_list_of_fmap validate_neighbor_Inr available_dom c available_neighbors
          split: if_splits)
    then have "foldR (validate_neighbor ?a i) (sorted_list_of_fmap (tc_neighbors c)) () = Inr ()"
      by (auto simp: foldR_check set_sorted_list_of_fmap)
    then show ?thesis using ok by (auto simp: validate_candidate_def c split: if_splits)
  qed
  then show ?thesis by (auto simp: validate_inputs_def foldR_check set_sorted_list_of_fmap)
qed

lemma available_link_ok: "link_ok (available_inputs inputs links lost) h p \<Longrightarrow> link_ok inputs h p"
  by (auto simp: link_ok_def available_lookup split: option.splits if_splits dest: available_neighbors_dom)

lemma available_star_ok: "star_ok (available_inputs inputs links lost) s \<Longrightarrow> star_ok inputs s"
  by (auto simp: star_ok_def available_lookup split: option.splits if_splits intro: available_link_ok)

lemma available_selection_ok:
  assumes sel: "assignment_ok (available_inputs inputs links lost) sel"
    and lost: "lost |\<subseteq>| fmdom (ti_candidates inputs)"
  shows "selection_ok inputs True (sel\<lparr>ns_unserved := ns_unserved sel |\<union>| lost\<rparr>)"
    and "(set (star_hubs (ns_stars sel)) \<union> set (star_clients (ns_stars sel))) \<inter> fset lost = {}"
proof -
  note ok = sel [unfolded assignment_ok_def available_dom]
  show disj: "(set (star_hubs (ns_stars sel)) \<union> set (star_clients (ns_stars sel))) \<inter> fset lost = {}"
    using ok by auto
  have "star_admitted inputs True s" if "s \<in> set (ns_stars sel)" for s
  proof -
    have "star_ok inputs s" using ok that by (auto intro: available_star_ok)
    then show ?thesis
      by (auto simp: star_admitted_def star_ok_def link_ok_def split: option.splits)
  qed
  moreover have "fset lost \<subseteq> fset (fmdom (ti_candidates inputs))" using lost by (simp add: less_eq_fset.rep_eq)
  ultimately show "selection_ok inputs True (sel\<lparr>ns_unserved := ns_unserved sel |\<union>| lost\<rparr>)"
    using ok disj unfolding selection_ok_def by auto
qed

section \<open>The recovery plan\<close>

definition observation_current :: "topology_policy_inputs \<Rightarrow> nap_link fset \<Rightarrow> node_id fset \<Rightarrow> bool" where
  "observation_current inputs links lost \<longleftrightarrow>
     observed_links_ok links \<and>
     (\<forall>l. l |\<in>| links \<longrightarrow> nl_hub l |\<in>| fmdom (ti_candidates inputs) |-| lost \<and>
                     nl_client l |\<in>| fmdom (ti_candidates inputs) |-| lost)"

lemma recovery_links_Inr:
  "foldR (recovery_link inputs lost) ls (stars, att) = Inr (stars', att') \<longleftrightarrow>
     (\<forall>l\<in>set ls. nl_hub l \<noteq> nl_client l \<and> nl_hub l |\<in>| fmdom (ti_candidates inputs) |-| lost \<and>
        nl_client l |\<in>| fmdom (ti_candidates inputs) |-| lost) \<and>
     distinct (map nl_client ls) \<and> set (map nl_client ls) \<inter> fset att = {} \<and>
     stars' = star_table ls stars \<and> att' = fset_of_list (map nl_client ls) |\<union>| att"
proof (induction ls arbitrary: stars att)
  case (Cons l ls)
  have "recovery_link inputs lost l (stars, att) = Inr st \<longleftrightarrow>
      nl_hub l \<noteq> nl_client l \<and> nl_hub l |\<in>| fmdom (ti_candidates inputs) |-| lost \<and>
      nl_client l |\<in>| fmdom (ti_candidates inputs) |-| lost \<and> nl_client l |\<notin>| att \<and>
      st = (push_client l stars, finsert (nl_client l) att)" for st
    by (auto simp: recovery_link_def)
  then show ?case unfolding foldR.simps bindR_eq_Inr
    by (auto simp: Cons.IH star_table_def)
qed (auto simp: star_table_def)

lemma recovery_scan:
  "(\<exists>st. foldR (recovery_link inputs lost) (sorted_list_of_fset links) (fmempty, {||}) = Inr st) \<longleftrightarrow>
   observation_current inputs links lost"
  by (auto simp: recovery_links_Inr observation_current_def observed_links_ok_def distinct_map)

lemma plan_hub_loss_recovery_Inr:
  assumes valid: "validate_inputs inputs = Inr ()" and lost: "lost \<noteq> {||}" "lost |\<subseteq>| fmdom (ti_candidates inputs)"
    and current: "observation_current inputs links lost"
  shows "\<exists>plan sel. plan_hub_loss_recovery inputs links lost = Inr plan \<and>
     select_nap_hubs (available_inputs inputs links lost) = Inr sel \<and>
     assignment_ok (available_inputs inputs links lost) sel \<and>
     rp_desired plan = sel\<lparr>ns_unserved := ns_unserved sel |\<union>| lost\<rparr> \<and>
     rp_unavailable plan = ns_unserved (rp_desired plan) \<and>
     selection_ok inputs True (rp_desired plan) \<and>
     (set (star_hubs (ns_stars sel)) \<union> set (star_clients (ns_stars sel))) \<inter> fset lost = {} \<and>
     diff_nap_topology inputs (stars_selection (star_table (sorted_list_of_fset links) fmempty))
       (rp_desired plan) = Inr (rp_transition plan) \<and>
     run_plan inputs (pd_steps (rp_transition plan)) (fset links) =
       Some (plan_links (ns_stars (rp_desired plan)))"
proof -
  let ?a = "available_inputs inputs links lost"
  obtain sel where sel: "select_nap_hubs ?a = Inr sel"
    using available_valid [OF valid] by (simp add: select_nap_hubs_def)
  note ok = select_nap_hubs_Inr(2) [OF sel]
  let ?desired = "sel\<lparr>ns_unserved := ns_unserved sel |\<union>| lost\<rparr>"
  let ?active = "stars_selection (star_table (sorted_list_of_fset links) fmempty)"
  note av = available_selection_ok [OF ok lost(2)]
  have T: "link_set ?desired inputs True = Inr (Abs_fset (plan_links (ns_stars sel)))"
  proof -
    have "finite (plan_links (ns_stars sel))" by (auto simp: plan_links_def)
    then show ?thesis using av(1) by (simp add: link_set_Inr Abs_fset_inverse)
  qed
  have C: "link_set ?active inputs False = Inr links"
    using current by (intro observed_star_table) (simp add: observation_current_def)
  obtain d where d: "diff_nap_topology inputs ?active ?desired = Inr d"
    and run: "run_plan inputs (pd_steps d) (fset links) = Some (plan_links (ns_stars sel))"
    using diff_nap_topology_plan [OF valid C T] T by (auto simp: link_set_Inr)
  obtain att where "foldR (recovery_link inputs lost) (sorted_list_of_fset links) (fmempty, {||}) =
      Inr (star_table (sorted_list_of_fset links) fmempty, att)"
    using current recovery_scan [of inputs lost links] recovery_links_Inr by fastforce
  then have "plan_hub_loss_recovery inputs links lost =
      Inr \<lparr>rp_desired = ?desired, rp_transition = d, rp_unavailable = ns_unserved ?desired\<rparr>"
    using lost by (simp add: plan_hub_loss_recovery_def valid sel d Let_def)
  then show ?thesis using sel ok d run av by simp
qed

lemma recovery_plan_facts:
  assumes "plan_hub_loss_recovery inputs links lost = Inr plan"
  shows "validate_inputs inputs = Inr ()" "lost \<noteq> {||}" "lost |\<subseteq>| fmdom (ti_candidates inputs)"
    "observation_current inputs links lost" "selection_ok inputs True (rp_desired plan)"
    "(set (star_hubs (ns_stars (rp_desired plan))) \<union> set (star_clients (ns_stars (rp_desired plan)))) \<inter>
        fset lost = {}"
    "lost |\<subseteq>| rp_unavailable plan"
    "run_plan inputs (pd_steps (rp_transition plan)) (fset links) =
        Some (plan_links (ns_stars (rp_desired plan)))"
proof -
  show cond: "validate_inputs inputs = Inr ()" "lost \<noteq> {||}" "lost |\<subseteq>| fmdom (ti_candidates inputs)"
    "observation_current inputs links lost"
    using assms recovery_scan [of inputs lost links]
    by (auto simp: plan_hub_loss_recovery_def bindR_eq_Inr split: if_splits)
  show "selection_ok inputs True (rp_desired plan)"
    "(set (star_hubs (ns_stars (rp_desired plan))) \<union> set (star_clients (ns_stars (rp_desired plan)))) \<inter>
        fset lost = {}"
    "lost |\<subseteq>| rp_unavailable plan"
    "run_plan inputs (pd_steps (rp_transition plan)) (fset links) =
        Some (plan_links (ns_stars (rp_desired plan)))"
    using plan_hub_loss_recovery_Inr [OF cond] assms by auto
qed

text \<open>C26: recovery planning succeeds exactly on valid inputs, at least one lost hub, all of them known, and
  observed links that are consistent and do not mention a lost node; anything else fails closed. The proposal
  never uses a lost node as hub or client, reports every lost node unavailable, is a valid selection over
  the full inputs, and comes with a safe transition from the observed links to exactly its links.\<close>

theorem hub_loss_recovery_correct:
  "((\<exists>plan. plan_hub_loss_recovery inputs links lost = Inr plan) \<longleftrightarrow>
      validate_inputs inputs = Inr () \<and> lost \<noteq> {||} \<and> lost |\<subseteq>| fmdom (ti_candidates inputs) \<and>
      observation_current inputs links lost) \<and>
   (\<forall>plan. plan_hub_loss_recovery inputs links lost = Inr plan \<longrightarrow>
      selection_ok inputs True (rp_desired plan) \<and>
      (set (star_hubs (ns_stars (rp_desired plan))) \<union> set (star_clients (ns_stars (rp_desired plan)))) \<inter>
        fset lost = {} \<and>
      lost |\<subseteq>| rp_unavailable plan \<and>
      run_plan inputs (pd_steps (rp_transition plan)) (fset links) =
        Some (plan_links (ns_stars (rp_desired plan))))"
  using plan_hub_loss_recovery_Inr [of inputs lost links] recovery_plan_facts [of inputs links lost] by blast

lemma ex_observation: "observation_current ex_inputs {|NapLink (byte_ident 1) (byte_ident 3)|} {|byte_ident 2|}"
  by (simp add: observation_current_def observed_links_ok_def ex_inputs_def)

theorem hub_loss_recovery_correct_witness:
  "\<exists>plan. plan_hub_loss_recovery ex_inputs {|NapLink (byte_ident 1) (byte_ident 3)|} {|byte_ident 2|} = Inr plan \<and>
     {|byte_ident 2|} |\<subseteq>| rp_unavailable plan"
proof -
  have "{|byte_ident 2|} \<noteq> {||} \<and> {|byte_ident 2|} |\<subseteq>| fmdom (ti_candidates ex_inputs)"
    by (simp add: ex_inputs_def)
  then show ?thesis
    using hub_loss_recovery_correct [of ex_inputs "{|NapLink (byte_ident 1) (byte_ident 3)|}" "{|byte_ident 2|}"]
      ex_inputs_valid ex_observation by blast
qed

end
