(* ===== verification/Topology_Executor.thy ===== *)
theory Topology_Executor
  imports Topology_Plan
begin

text \<open>
  \<open>crates/blueroute-core/src/topology_executor.rs\<close>: the execution of a NAP plan through a backend, observed
  after every step. The trait \<open>NapTopologyOperator\<close> is a record of four effects on an arbitrary state.
\<close>

section \<open>Operations\<close>

record 'w nap_topology_operator =
  op_observe_links :: "('w, nap_link fset) eff"
  op_connect_link :: "nap_link \<Rightarrow> ('w, unit) eff"
  op_disconnect_link :: "nap_link \<Rightarrow> ('w, unit) eff"
  op_reconcile_routes :: "nap_link fset \<Rightarrow> ('w, unit) eff"

record nap_execution_report =
  ne_applied :: "nap_plan_step list"
  ne_observed :: "nap_link fset"

definition selection_links :: "nap_selection \<Rightarrow> nap_link fset" where
  "selection_links plan =
     fset_of_list (concat (map (\<lambda>star. map (NapLink (na_hub star)) (na_clients star)) (ns_stars plan)))"

text \<open>The backend call of one step and the link set it should lead to.\<close>

definition step_operation ::
  "'w nap_topology_operator \<Rightarrow> nap_link fset \<Rightarrow> nap_plan_step \<Rightarrow>
   (('w, unit) eff \<times> nap_link fset) core_result" where
  "step_operation ops observed step =
     (case step of
        Connect link \<Rightarrow>
          if link |\<in>| observed then Inl (core_error_new InvalidState ''duplicate PAN connect'')
          else Inr (op_connect_link ops link, finsert link observed)
      | Disconnect link \<Rightarrow>
          if link |\<notin>| observed then Inl (core_error_new InvalidState ''missing PAN disconnect'')
          else Inr (op_disconnect_link ops link, observed |-| {|link|}))"

definition repair_routes :: "'w nap_topology_operator \<Rightarrow> 'w \<Rightarrow> 'w" where
  "repair_routes ops w =
     (case op_observe_links ops w of
        (Inr actual, w1) \<Rightarrow> snd (op_reconcile_routes ops actual w1)
      | (Inl _, w1) \<Rightarrow> w1)"

definition execute_nap_step ::
  "'w nap_topology_operator \<Rightarrow> nap_link fset \<Rightarrow> nap_plan_step \<Rightarrow> ('w, nap_link fset) eff" where
  "execute_nap_step ops observed step =
     bindE (liftE (step_operation ops observed step)) (\<lambda>(operation, expected) w.
       case operation w of
         (Inl error, w1) \<Rightarrow> (Inl error, repair_routes ops w1)
       | (Inr _, w1) \<Rightarrow>
           bindE (op_observe_links ops) (\<lambda>actual.
             if actual \<noteq> expected
             then bindE (op_reconcile_routes ops actual) (\<lambda>_.
                    raiseE (core_error_new TopologyFailure
                      ''PAN operation did not produce the expected observed topology''))
             else bindE (op_reconcile_routes ops actual) (\<lambda>_. retE actual)) w1)"

fun execute_nap_steps ::
  "'w nap_topology_operator \<Rightarrow> nap_plan_step list \<Rightarrow> nap_link fset \<times> nap_plan_step list \<Rightarrow>
   ('w, nap_link fset \<times> nap_plan_step list) eff" where
  "execute_nap_steps ops [] st = retE st"
| "execute_nap_steps ops (step # steps) (observed, applied) =
     bindE (execute_nap_step ops observed step) (\<lambda>actual.
       execute_nap_steps ops steps (actual, applied @ [step]))"

definition execute_nap_plan ::
  "topology_policy_inputs \<Rightarrow> nap_selection \<Rightarrow> nap_selection \<Rightarrow> 'w nap_topology_operator \<Rightarrow>
   ('w, nap_execution_report) eff" where
  "execute_nap_plan inputs active desired ops =
     bindE (liftE (diff_nap_topology inputs active desired)) (\<lambda>diff.
     bindE (op_observe_links ops) (\<lambda>observed.
       if observed \<noteq> selection_links active
       then raiseE (core_error_new InvalidState ''PAN observations changed; replan before execution'')
       else bindE (if pd_steps diff = [] then op_reconcile_routes ops observed else retE ()) (\<lambda>_.
            bindE (execute_nap_steps ops (pd_steps diff) (observed, [])) (\<lambda>(observed, applied).
              retE \<lparr>ne_applied = applied, ne_observed = observed\<rparr>))))"

section \<open>A report is what was observed\<close>

lemma fset_selection_links: "fset (selection_links plan) = plan_links (ns_stars plan)"
  by (auto simp: selection_links_def plan_links_def fset_of_list.rep_eq)

fun step_target :: "nap_plan_step \<Rightarrow> nap_link set \<Rightarrow> nap_link set" where
  "step_target (Connect l) S = insert l S"
| "step_target (Disconnect l) S = S - {l}"

lemma run_plan_targets: "run_plan inputs steps S = Some S' \<Longrightarrow> S' = fold step_target steps S"
proof (induction steps arbitrary: S)
  case (Cons x xs)
  then obtain S1 where S1: "run_step inputs x S = Some S1" "run_plan inputs xs S1 = Some S'"
    by (cases "run_step inputs x S") auto
  from S1(1) have "S1 = step_target x S" by (cases x) (auto split: if_splits)
  with Cons.IH [OF S1(2)] show ?case by simp
qed simp

lemma step_operation_Inr:
  "step_operation ops observed step = Inr (opn, expected) \<Longrightarrow>
   fset expected = step_target step (fset observed) \<and>
   opn = (case step of Connect l \<Rightarrow> op_connect_link ops l | Disconnect l \<Rightarrow> op_disconnect_link ops l)"
  by (auto simp: step_operation_def split: nap_plan_step.splits if_splits)

lemma execute_nap_step_Inr:
  assumes "execute_nap_step ops observed step w = (Inr actual, w')"
  shows "fset actual = step_target step (fset observed)"
proof -
  from assms obtain opn expected where op: "step_operation ops observed step = Inr (opn, expected)"
    by (auto simp: execute_nap_step_def bindE_eq_Inr)
  then have "actual = expected" using assms
    by (cases "opn w"; cases "fst (opn w)")
      (auto simp: execute_nap_step_def bindE_def split: prod.splits sum.splits if_splits)
  with op show ?thesis using step_operation_Inr by blast
qed

lemma execute_nap_steps_Inr:
  "execute_nap_steps ops steps (observed, applied) w = (Inr (observed', applied'), w') \<Longrightarrow>
   fset observed' = fold step_target steps (fset observed) \<and> applied' = applied @ steps"
proof (induction steps arbitrary: observed applied w)
  case (Cons step steps)
  then obtain actual w1 where "execute_nap_step ops observed step w = (Inr actual, w1)"
    and "execute_nap_steps ops steps (actual, applied @ [step]) w1 = (Inr (observed', applied'), w')"
    by (auto simp: bindE_eq_Inr)
  with Cons.IH execute_nap_step_Inr show ?case by fastforce
qed simp

lemma execute_nap_plan_Inr:
  assumes "execute_nap_plan inputs active desired ops w = (Inr report, w')"
  shows "\<exists>d. diff_nap_topology inputs active desired = Inr d \<and> ne_applied report = pd_steps d \<and>
     fset (ne_observed report) = plan_links (ns_stars desired)"
proof -
  from assms obtain d observed w1 w2 observed' where d: "diff_nap_topology inputs active desired = Inr d"
    and active: "observed = selection_links active"
    and steps: "execute_nap_steps ops (pd_steps d) (observed, []) w1 =
      (Inr (ne_observed report, ne_applied report), w2)"
    unfolding execute_nap_plan_def bindE_eq_Inr
    by (auto split: prod.splits if_splits simp: bindE_eq_Inr)
  from d obtain C T where valid: "validate_inputs inputs = Inr ()"
    and C: "link_set active inputs False = Inr C" and T: "link_set desired inputs True = Inr T"
    by (auto simp: diff_nap_topology_def bindR_eq_Inr)
  from diff_nap_topology_plan [OF valid C T] d have "run_plan inputs (pd_steps d) (fset C) = Some (fset T)"
    by auto
  then have "fold step_target (pd_steps d) (fset C) = fset T" using run_plan_targets by metis
  moreover have "fset C = fset observed" "fset T = plan_links (ns_stars desired)"
    using C T active by (auto simp: link_set_Inr fset_selection_links)
  ultimately show ?thesis using d execute_nap_steps_Inr [OF steps] by auto
qed

text \<open>Whatever the backend does, a successful execution report is exact: the steps applied are those of the
  minimal plan, and the links of the report, read back from the backend after its last change, are
  exactly the links of the desired topology.\<close>

theorem nap_execution_exact:
  assumes "execute_nap_plan inputs active desired ops w = (Inr report, w')"
  shows "\<exists>d. diff_nap_topology inputs active desired = Inr d \<and> ne_applied report = pd_steps d \<and>
     ne_observed report = selection_links desired"
  using execute_nap_plan_Inr [OF assms] by (auto simp: fset_inject [symmetric] fset_selection_links)

section \<open>Routes follow the links\<close>

text \<open>A backend whose observations are authoritative: observing returns the links there are and changes
  nothing, and reconciling routes makes the routes those of the links it is given. Connecting and
  disconnecting may do anything, fail after a change included.\<close>

definition observing_operator ::
  "'w nap_topology_operator \<Rightarrow> ('w \<Rightarrow> nap_link fset) \<Rightarrow> ('w \<Rightarrow> nap_link fset) \<Rightarrow> bool" where
  "observing_operator ops lk routed \<longleftrightarrow>
     (\<forall>w. op_observe_links ops w = (Inr (lk w), w)) \<and>
     (\<forall>obs w. \<exists>w'. op_reconcile_routes ops obs w = (Inr (), w') \<and> lk w' = lk w \<and> routed w' = obs)"

lemma execute_nap_step_routed:
  assumes ops: "observing_operator ops lk routed" and st: "execute_nap_step ops observed step w = (r, w')"
  shows "(is_err r \<and> w' = w) \<or> routed w' = lk w'"
proof (cases "step_operation ops observed step")
  case (Inl e)
  then show ?thesis using st by (auto simp: execute_nap_step_def bindE_def)
next
  case (Inr p)
  obtain opn expected where p: "p = (opn, expected)" by (cases p)
  obtain r1 w1 where r1: "opn w = (r1, w1)" by (cases "opn w")
  have obs: "op_observe_links ops v = (Inr (lk v), v)" for v
    using ops by (simp add: observing_operator_def)
  obtain w2 where rec: "op_reconcile_routes ops (lk w1) w1 = (Inr (), w2)" "lk w2 = lk w1" "routed w2 = lk w1"
    using ops unfolding observing_operator_def by blast
  have "w' = w2"
    using st rec(1) by (cases r1)
      (auto simp: execute_nap_step_def bindE_def Inr p r1 obs repair_routes_def split: if_splits)
  then show ?thesis using rec(2,3) by simp
qed

lemma execute_nap_steps_routed:
  assumes ops: "observing_operator ops lk routed"
  shows "execute_nap_steps ops steps (observed, applied) w = (r, w') \<Longrightarrow>
    w' = w \<and> (is_err r \<or> steps = []) \<or> routed w' = lk w'"
proof (induction steps arbitrary: observed applied w)
  case (Cons step steps)
  obtain r1 w1 where r1: "execute_nap_step ops observed step w = (r1, w1)"
    by (cases "execute_nap_step ops observed step w")
  show ?case
  proof (cases r1)
    case (Inl e)
    then show ?thesis using Cons.prems execute_nap_step_routed [OF ops r1] r1 by (auto simp: bindE_def)
  next
    case (Inr actual)
    then have "execute_nap_steps ops steps (actual, applied @ [step]) w1 = (r, w')"
      using Cons.prems r1 by (simp add: bindE_def)
    from Cons.IH [OF this] show ?thesis using execute_nap_step_routed [OF ops r1] Inr by auto
  qed
qed simp

text \<open>C24: with authoritative observations, an execution never leaves routes behind that do not belong to the links
  there are. Whether it succeeds or fails at any step, and however connects and disconnects misbehave,
  the routes are reconciled to the links that are there at the end, unless the backend is exactly as it was
  before the call.\<close>

theorem nap_execution_routes_follow_links:
  assumes ops: "observing_operator ops lk routed"
    and ex: "execute_nap_plan inputs active desired ops w = (r, w')"
  shows "(is_err r \<and> w' = w) \<or> routed w' = lk w'"
proof -
  have obs: "op_observe_links ops v = (Inr (lk v), v)" for v
    using ops by (simp add: observing_operator_def)
  obtain w2 where rec: "op_reconcile_routes ops (lk w) w = (Inr (), w2)" "lk w2 = lk w" "routed w2 = lk w"
    using ops unfolding observing_operator_def by blast
  show ?thesis
  proof (cases "diff_nap_topology inputs active desired")
    case (Inl e)
    then show ?thesis using ex by (auto simp: execute_nap_plan_def bindE_def)
  next
    case (Inr d)
    show ?thesis
    proof (cases "lk w = selection_links active")
      case False
      then show ?thesis using ex by (auto simp: execute_nap_plan_def bindE_def Inr obs)
    next
      case same: True
      show ?thesis
      proof (cases "pd_steps d")
        case Nil
        then show ?thesis using ex rec by (auto simp: execute_nap_plan_def bindE_def Inr obs same)
      next
        case (Cons step steps)
        obtain r1 w1 where r1: "execute_nap_steps ops (pd_steps d) (lk w, []) w = (r1, w1)"
          by (cases "execute_nap_steps ops (pd_steps d) (lk w, []) w")
        have "w' = w1" and err: "is_err r \<longleftrightarrow> is_err r1"
          using ex r1 Cons by (auto simp: execute_nap_plan_def bindE_def Inr obs same [symmetric]
              split: sum.splits prod.splits)
        then show ?thesis using execute_nap_steps_routed [OF ops r1] Cons err by auto
      qed
    qed
  qed
qed

section \<open>A working backend\<close>

text \<open>A backend that also connects and disconnects what it is asked to.\<close>

definition working_operator ::
  "'w nap_topology_operator \<Rightarrow> ('w \<Rightarrow> nap_link fset) \<Rightarrow> ('w \<Rightarrow> nap_link fset) \<Rightarrow> bool" where
  "working_operator ops lk routed \<longleftrightarrow> observing_operator ops lk routed \<and>
     (\<forall>l w. \<exists>w'. op_connect_link ops l w = (Inr (), w') \<and> lk w' = finsert l (lk w)) \<and>
     (\<forall>l w. \<exists>w'. op_disconnect_link ops l w = (Inr (), w') \<and> lk w' = lk w |-| {|l|})"

lemma execute_nap_step_works:
  assumes ops: "working_operator ops lk routed" and run: "run_step inputs step (fset (lk w)) = Some S"
    and new: "\<And>l. step = Connect l \<Longrightarrow> l |\<notin>| lk w"
  shows "\<exists>w'. execute_nap_step ops (lk w) step w = (Inr (lk w'), w') \<and> fset (lk w') = S \<and> routed w' = lk w'"
proof -
  have obs: "op_observe_links ops v = (Inr (lk v), v)" for v
    using ops by (simp add: working_operator_def observing_operator_def)
  have rec: "\<exists>v'. op_reconcile_routes ops (lk v) v = (Inr (), v') \<and> lk v' = lk v \<and> routed v' = lk v" for v
    using ops unfolding working_operator_def observing_operator_def by blast
  have "\<exists>opn w1. step_operation ops (lk w) step = Inr (opn, lk w1) \<and> opn w = (Inr (), w1) \<and> fset (lk w1) = S"
  proof (cases step)
    case (Connect l)
    obtain w1 where "op_connect_link ops l w = (Inr (), w1)" "lk w1 = finsert l (lk w)"
      using ops unfolding working_operator_def by blast
    then show ?thesis using run new [OF Connect] Connect
      by (auto simp: step_operation_def split: if_splits)
  next
    case (Disconnect l)
    obtain w1 where "op_disconnect_link ops l w = (Inr (), w1)" "lk w1 = lk w |-| {|l|}"
      using ops unfolding working_operator_def by blast
    then show ?thesis using run Disconnect
      by (auto simp: step_operation_def split: if_splits)
  qed
  then obtain opn w1 where op: "step_operation ops (lk w) step = Inr (opn, lk w1)" "opn w = (Inr (), w1)"
    and S: "fset (lk w1) = S" by blast
  obtain w2 where w2: "op_reconcile_routes ops (lk w1) w1 = (Inr (), w2)" "lk w2 = lk w1" "routed w2 = lk w1"
    using rec by blast
  have "execute_nap_step ops (lk w) step w = (Inr (lk w2), w2)"
    using op w2 by (simp add: execute_nap_step_def bindE_def obs)
  then show ?thesis using S w2 by auto
qed

lemma run_step_Connect_new: "run_step inputs (Connect l) S = Some S' \<Longrightarrow> l \<notin> S"
  by (auto split: if_splits)

lemma execute_nap_steps_work:
  assumes ops: "working_operator ops lk routed"
  shows "run_plan inputs steps (fset (lk w)) = Some S \<Longrightarrow> steps = [] \<longrightarrow> routed w = lk w \<Longrightarrow>
    \<exists>w'. execute_nap_steps ops steps (lk w, applied) w = (Inr (lk w', applied @ steps), w') \<and>
      fset (lk w') = S \<and> routed w' = lk w'"
proof (induction steps arbitrary: w applied)
  case (Cons step steps)
  then obtain S1 where S1: "run_step inputs step (fset (lk w)) = Some S1" "run_plan inputs steps S1 = Some S"
    by (cases "run_step inputs step (fset (lk w))") auto
  obtain w1 where w1: "execute_nap_step ops (lk w) step w = (Inr (lk w1), w1)" "fset (lk w1) = S1"
    "routed w1 = lk w1"
    using execute_nap_step_works [OF ops S1(1)] S1(1) run_step_Connect_new by blast
  from Cons.IH [of w1 "applied @ [step]"] S1(2) w1 show ?case
    by (simp add: bindE_Inr [of "execute_nap_step ops (lk w) step", OF w1(1)])
qed simp

lemma execute_nap_plan_works:
  assumes ops: "working_operator ops lk routed" and valid: "validate_inputs inputs = Inr ()"
    and C: "link_set active inputs False = Inr C" and T: "link_set desired inputs True = Inr T"
    and w: "lk w = selection_links active"
  shows "\<exists>report w'. execute_nap_plan inputs active desired ops w = (Inr report, w') \<and>
     lk w' = T \<and> routed w' = T"
proof -
  obtain d where d: "diff_nap_topology inputs active desired = Inr d"
    and run: "run_plan inputs (pd_steps d) (fset C) = Some (fset T)"
    using diff_nap_topology_plan [OF valid C T] by blast
  have obs: "op_observe_links ops v = (Inr (lk v), v)" for v
    using ops by (simp add: working_operator_def observing_operator_def)
  have "fset C = fset (lk w)" using C by (simp add: w link_set_Inr fset_selection_links)
  then have C: "lk w = C" by (simp add: fset_inject)
  define w1 where "w1 = (if pd_steps d = [] then snd (op_reconcile_routes ops (lk w) w) else w)"
  obtain v where v: "op_reconcile_routes ops (lk w) w = (Inr (), v)" "lk v = lk w" "routed v = lk w"
    using ops unfolding working_operator_def observing_operator_def by blast
  then have w1: "lk w1 = C" "pd_steps d = [] \<longrightarrow> routed w1 = lk w1" by (auto simp: w1_def C)
  obtain w2 where w2: "execute_nap_steps ops (pd_steps d) (lk w1, []) w1 = (Inr (lk w2, pd_steps d), w2)"
    "fset (lk w2) = fset T" "routed w2 = lk w2"
    using execute_nap_steps_work [OF ops _ w1(2), of inputs "fset T" "[]"] run w1(1) by auto
  have "execute_nap_plan inputs active desired ops w =
      (Inr \<lparr>ne_applied = pd_steps d, ne_observed = lk w2\<rparr>, w2)"
    using w2(1) v(1,2) by (auto simp: execute_nap_plan_def bindE_def d obs w [symmetric] w1_def C)
  then show ?thesis using w2(2,3) by (auto simp: fset_inject)
qed

text \<open>C23: on a working backend whose links are the active ones, execution succeeds: it ends with exactly the
  links of the desired topology and with the routes of these links.\<close>

theorem nap_execution_converges:
  assumes "working_operator ops lk routed" "validate_inputs inputs = Inr ()"
    and "link_set active inputs False = Inr C" "link_set desired inputs True = Inr T"
    and "lk w = selection_links active"
  shows "\<exists>report w'. execute_nap_plan inputs active desired ops w = (Inr report, w') \<and>
     lk w' = T \<and> routed w' = T"
  by (rule execute_nap_plan_works [OF assms])

text \<open>A backend that keeps links and routes in memory.\<close>

definition memory_nap_operator :: "(nap_link fset \<times> nap_link fset) nap_topology_operator" where
  "memory_nap_operator =
     \<lparr>op_observe_links = (\<lambda>w. (Inr (fst w), w)),
      op_connect_link = (\<lambda>l w. (Inr (), (finsert l (fst w), snd w))),
      op_disconnect_link = (\<lambda>l w. (Inr (), (fst w |-| {|l|}, snd w))),
      op_reconcile_routes = (\<lambda>obs w. (Inr (), (fst w, obs)))\<rparr>"

lemma memory_nap_operator_works: "working_operator memory_nap_operator fst snd"
  by (simp add: working_operator_def observing_operator_def memory_nap_operator_def)

lemma ex_active_links: "selection_links ex_active = {|NapLink (byte_ident 3) (byte_ident 2)|}"
  by (simp add: selection_links_def ex_active_def)

theorem nap_execution_converges_witness:
  "\<exists>report w'. execute_nap_plan ex_inputs ex_active ex_desired memory_nap_operator
     ({|NapLink (byte_ident 3) (byte_ident 2)|}, {||}) = (Inr report, w') \<and>
     fst w' = {|NapLink (byte_ident 1) (byte_ident 2), NapLink (byte_ident 1) (byte_ident 3)|}"
  using nap_execution_converges [OF memory_nap_operator_works ex_inputs_valid ex_link_sets,
      of "({|NapLink (byte_ident 3) (byte_ident 2)|}, {||})"]
  by (auto simp: ex_active_links)

text \<open>A backend that loses the first connect: the step fails after the obsolete link is gone.\<close>

definition failing_nap_operator :: "(nap_link fset \<times> nap_link fset) nap_topology_operator" where
  "failing_nap_operator = memory_nap_operator
     \<lparr>op_connect_link := (\<lambda>l w. (Inl (core_error_new PanFailure ''connect failed''), ({||}, snd w)))\<rparr>"

lemma failing_nap_operator_observes: "observing_operator failing_nap_operator fst snd"
  by (simp add: observing_operator_def failing_nap_operator_def memory_nap_operator_def)

theorem nap_execution_routes_follow_links_witness:
  "\<exists>r w'. execute_nap_plan ex_inputs ex_active ex_desired failing_nap_operator
     ({|NapLink (byte_ident 3) (byte_ident 2)|}, {||}) = (r, w') \<and>
     ((is_err r \<and> w' = ({|NapLink (byte_ident 3) (byte_ident 2)|}, {||})) \<or> snd w' = fst w')"
  using nap_execution_routes_follow_links [OF failing_nap_operator_observes, of ex_inputs ex_active ex_desired
      "({|NapLink (byte_ident 3) (byte_ident 2)|}, {||})"]
  by (meson surj_pair)

theorem nap_execution_exact_witness:
  "\<exists>report w'. execute_nap_plan ex_inputs ex_active ex_desired memory_nap_operator
     ({|NapLink (byte_ident 3) (byte_ident 2)|}, {||}) = (Inr report, w') \<and>
     ne_observed report = selection_links ex_desired"
proof -
  obtain report w' where "execute_nap_plan ex_inputs ex_active ex_desired memory_nap_operator
     ({|NapLink (byte_ident 3) (byte_ident 2)|}, {||}) = (Inr report, w')"
    using execute_nap_plan_works [OF memory_nap_operator_works ex_inputs_valid ex_link_sets,
      of "({|NapLink (byte_ident 3) (byte_ident 2)|}, {||})"] by (auto simp: ex_active_links)
  with nap_execution_exact [OF this] show ?thesis by blast
qed

end
