(* ===== verification/Topology_Loss.thy ===== *)
theory Topology_Loss
  imports Topology_Plan
begin

text \<open>
  \<open>crates/blueroute-core/src/topology_loss.rs\<close>: the debounced detection of lost NAP hubs. The tracker is
  related to a reference definition that classifies a hub from the history of samples alone.
\<close>

section \<open>The tracker\<close>

record hub_loss_tracker =
  ht_min_absence_ms :: u64
  ht_last_sample_ms :: "u64 option"
  ht_seen_hubs :: "node_id fset"
  ht_missing_since :: "(node_id, u64) fmap"
  ht_lost_hubs :: "node_id fset"

definition hub_loss_tracker_new :: "u64 \<Rightarrow> hub_loss_tracker core_result" where
  "hub_loss_tracker_new min_absence_ms =
     (if min_absence_ms = 0
      then Inl (core_error_new InvalidInput ''hub-loss confirmation interval must be positive'')
      else Inr \<lparr>ht_min_absence_ms = min_absence_ms, ht_last_sample_ms = None, ht_seen_hubs = {||},
                ht_missing_since = fmempty, ht_lost_hubs = {||}\<rparr>)"

definition forget_hub :: "node_id \<Rightarrow> hub_loss_tracker \<Rightarrow> hub_loss_tracker" where
  "forget_hub hub t =
     t\<lparr>ht_seen_hubs := ht_seen_hubs t |-| {|hub|},
       ht_missing_since := fmdrop hub (ht_missing_since t),
       ht_lost_hubs := ht_lost_hubs t |-| {|hub|}\<rparr>"

definition scan_link ::
  "nap_link \<Rightarrow> node_id fset \<times> node_id fset \<Rightarrow> (node_id fset \<times> node_id fset) core_result" where
  "scan_link link st =
     (case st of (active, clients) \<Rightarrow>
        if nl_hub link = zero_ident \<or> nl_client link = zero_ident \<or> nl_hub link = nl_client link \<or>
           nl_client link |\<in>| clients
        then Inl (core_error_new InvalidInput ''invalid or conflicting observed PAN links'')
        else Inr (finsert (nl_hub link) active, finsert (nl_client link) clients))"

definition mark_active :: "node_id \<Rightarrow> hub_loss_tracker \<Rightarrow> hub_loss_tracker" where
  "mark_active hub t =
     t\<lparr>ht_seen_hubs := finsert hub (ht_seen_hubs t),
       ht_missing_since := fmdrop hub (ht_missing_since t),
       ht_lost_hubs := ht_lost_hubs t |-| {|hub|}\<rparr>"

definition note_absence :: "u64 \<Rightarrow> node_id \<Rightarrow> hub_loss_tracker \<Rightarrow> hub_loss_tracker" where
  "note_absence now_ms hub t =
     (if hub |\<in>| ht_lost_hubs t then t
      else case fmlookup (ht_missing_since t) hub of
        Some since \<Rightarrow>
          if now_ms - since \<ge> ht_min_absence_ms t
          then t\<lparr>ht_lost_hubs := finsert hub (ht_lost_hubs t),
                 ht_missing_since := fmdrop hub (ht_missing_since t)\<rparr>
          else t
      | None \<Rightarrow> t\<lparr>ht_missing_since := fmupd hub now_ms (ht_missing_since t)\<rparr>)"

definition observe_hubs ::
  "hub_loss_tracker \<Rightarrow> u64 \<Rightarrow> nap_link fset \<Rightarrow> node_id fset core_result \<times> hub_loss_tracker" where
  "observe_hubs t now_ms observed_links =
     (if (case ht_last_sample_ms t of None \<Rightarrow> False | Some previous \<Rightarrow> now_ms \<le> previous)
      then (Inl (core_error_new InvalidState ''stale or regressed hub-loss observation timestamp''), t)
      else case foldR scan_link (sorted_list_of_fset observed_links) ({||}, {||}) of
        Inl e \<Rightarrow> (Inl e, t)
      | Inr (active, clients) \<Rightarrow>
          let t1 = fold mark_active (sorted_list_of_fset active) (t\<lparr>ht_last_sample_ms := Some now_ms\<rparr>);
              demoted = filter (\<lambda>hub. hub |\<in>| clients) (sorted_list_of_fset (ht_seen_hubs t1 |-| active));
              t2 = fold forget_hub demoted t1;
              t3 = fold (note_absence now_ms) (sorted_list_of_fset (ht_seen_hubs t2 |-| active)) t2
          in (Inr (ht_lost_hubs t3), t3))"

section \<open>The state of one hub\<close>

datatype hub_status = Unseen | Present | Missing u64 | Lost

definition hub_status :: "hub_loss_tracker \<Rightarrow> node_id \<Rightarrow> hub_status" where
  "hub_status t h =
     (if h |\<notin>| ht_seen_hubs t then Unseen
      else if h |\<in>| ht_lost_hubs t then Lost
      else case fmlookup (ht_missing_since t) h of None \<Rightarrow> Present | Some s \<Rightarrow> Missing s)"

definition absence_step :: "u64 \<Rightarrow> u64 \<Rightarrow> hub_status \<Rightarrow> hub_status" where
  "absence_step min_absence now st =
     (case st of Unseen \<Rightarrow> Unseen | Lost \<Rightarrow> Lost | Present \<Rightarrow> Missing now
      | Missing s \<Rightarrow> if now - s \<ge> min_absence then Lost else Missing s)"

definition is_hub_in :: "nap_link fset \<Rightarrow> node_id \<Rightarrow> bool" where
  "is_hub_in links h \<longleftrightarrow> h \<in> nl_hub ` fset links"

definition is_client_in :: "nap_link fset \<Rightarrow> node_id \<Rightarrow> bool" where
  "is_client_in links h \<longleftrightarrow> h \<in> nl_client ` fset links"

definition status_step :: "u64 \<Rightarrow> u64 \<Rightarrow> nap_link fset \<Rightarrow> node_id \<Rightarrow> hub_status \<Rightarrow> hub_status" where
  "status_step min_absence now links h st =
     (if is_hub_in links h then Present
      else if is_client_in links h then Unseen
      else absence_step min_absence now st)"

text \<open>The tables of a tracker only speak about hubs that were seen.\<close>

definition tracker_inv :: "hub_loss_tracker \<Rightarrow> bool" where
  "tracker_inv t \<longleftrightarrow> fset (ht_lost_hubs t) \<subseteq> fset (ht_seen_hubs t) \<and>
     fset (fmdom (ht_missing_since t)) \<subseteq> fset (ht_seen_hubs t)"

lemma scan_links_Inr:
  assumes "foldR scan_link ls (a, c) = Inr (a', c')"
  shows "fset a' = nl_hub ` set ls \<union> fset a" "fset c' = nl_client ` set ls \<union> fset c"
proof -
  have "fset a' = nl_hub ` set ls \<union> fset a \<and> fset c' = nl_client ` set ls \<union> fset c"
    using assms
  proof (induction ls arbitrary: a c)
    case (Cons l ls)
    then obtain st where st: "scan_link l (a, c) = Inr st" "foldR scan_link ls st = Inr (a', c')"
      by (auto simp: bindR_eq_Inr)
    then have "st = (finsert (nl_hub l) a, finsert (nl_client l) c)"
      by (auto simp: scan_link_def split: if_splits)
    with Cons.IH st(2) show ?case by fastforce
  qed simp
  then show "fset a' = nl_hub ` set ls \<union> fset a" "fset c' = nl_client ` set ls \<union> fset c" by blast+
qed

text \<open>Each of the three loops acts on the hubs it visits, one by one.\<close>

lemma mark_active_step:
  "tracker_inv t \<Longrightarrow> tracker_inv (mark_active h t)"
  "hub_status (mark_active h t) g = (if g = h then Present else hub_status t g)"
  "ht_min_absence_ms (mark_active h t) = ht_min_absence_ms t"
  "ht_last_sample_ms (mark_active h t) = ht_last_sample_ms t"
  "fset (ht_seen_hubs (mark_active h t)) = insert h (fset (ht_seen_hubs t))"
  by (auto simp: mark_active_def tracker_inv_def hub_status_def)

lemma forget_hub_step:
  "tracker_inv t \<Longrightarrow> tracker_inv (forget_hub h t)"
  "hub_status (forget_hub h t) g = (if g = h then Unseen else hub_status t g)"
  "ht_min_absence_ms (forget_hub h t) = ht_min_absence_ms t"
  "ht_last_sample_ms (forget_hub h t) = ht_last_sample_ms t"
  "fset (ht_seen_hubs (forget_hub h t)) = fset (ht_seen_hubs t) - {h}"
  by (auto simp: forget_hub_def tracker_inv_def hub_status_def)

lemma note_absence_step:
  "tracker_inv t \<Longrightarrow> h |\<in>| ht_seen_hubs t \<Longrightarrow> tracker_inv (note_absence now h t)"
  "hub_status (note_absence now h t) g =
     (if g = h \<and> h |\<in>| ht_seen_hubs t then absence_step (ht_min_absence_ms t) now (hub_status t g)
      else hub_status t g)"
  "ht_min_absence_ms (note_absence now h t) = ht_min_absence_ms t"
  "ht_last_sample_ms (note_absence now h t) = ht_last_sample_ms t"
  "ht_seen_hubs (note_absence now h t) = ht_seen_hubs t"
  by (auto simp: note_absence_def tracker_inv_def hub_status_def absence_step_def split: option.splits)

lemma fold_mark_active:
  "tracker_inv t \<Longrightarrow> tracker_inv (fold mark_active hs t)"
  "hub_status (fold mark_active hs t) g = (if g \<in> set hs then Present else hub_status t g)"
  "ht_min_absence_ms (fold mark_active hs t) = ht_min_absence_ms t"
  "ht_last_sample_ms (fold mark_active hs t) = ht_last_sample_ms t"
  "fset (ht_seen_hubs (fold mark_active hs t)) = set hs \<union> fset (ht_seen_hubs t)"
  by (induction hs arbitrary: t) (auto simp: mark_active_step)

lemma fold_forget_hub:
  "tracker_inv t \<Longrightarrow> tracker_inv (fold forget_hub hs t)"
  "hub_status (fold forget_hub hs t) g = (if g \<in> set hs then Unseen else hub_status t g)"
  "ht_min_absence_ms (fold forget_hub hs t) = ht_min_absence_ms t"
  "ht_last_sample_ms (fold forget_hub hs t) = ht_last_sample_ms t"
  "fset (ht_seen_hubs (fold forget_hub hs t)) = fset (ht_seen_hubs t) - set hs"
  by (induction hs arbitrary: t) (auto simp: forget_hub_step)

lemma fold_note_absence:
  "tracker_inv t \<Longrightarrow> set hs \<subseteq> fset (ht_seen_hubs t) \<Longrightarrow> tracker_inv (fold (note_absence now) hs t)"
  "distinct hs \<Longrightarrow> set hs \<subseteq> fset (ht_seen_hubs t) \<Longrightarrow>
   hub_status (fold (note_absence now) hs t) g =
     (if g \<in> set hs then absence_step (ht_min_absence_ms t) now (hub_status t g) else hub_status t g)"
  "ht_min_absence_ms (fold (note_absence now) hs t) = ht_min_absence_ms t"
  "ht_last_sample_ms (fold (note_absence now) hs t) = ht_last_sample_ms t"
  by (induction hs arbitrary: t) (auto simp: note_absence_step)

lemma status_Unseen_iff: "hub_status t g = Unseen \<longleftrightarrow> g |\<notin>| ht_seen_hubs t"
  by (auto simp: hub_status_def split: option.splits)

lemma lost_iff_status: "tracker_inv t \<Longrightarrow> g |\<in>| ht_lost_hubs t \<longleftrightarrow> hub_status t g = Lost"
  by (auto simp: tracker_inv_def hub_status_def split: option.splits)

lemma observe_hubs_Inr:
  assumes obs: "observe_hubs t now links = (Inr lost, t')" and inv: "tracker_inv t"
  shows "tracker_inv t'" "lost = ht_lost_hubs t'" "ht_last_sample_ms t' = Some now"
    "ht_min_absence_ms t' = ht_min_absence_ms t"
    "hub_status t' g = status_step (ht_min_absence_ms t) now links g (hub_status t g)"
    "\<And>p. ht_last_sample_ms t = Some p \<Longrightarrow> p < now"
proof -
  from obs obtain active clients where
    scan: "foldR scan_link (sorted_list_of_fset links) ({||}, {||}) = Inr (active, clients)"
    and fresh: "\<not> (case ht_last_sample_ms t of None \<Rightarrow> False | Some previous \<Rightarrow> now \<le> previous)"
    by (auto simp: observe_hubs_def split: if_splits sum.splits)
  let ?t1 = "fold mark_active (sorted_list_of_fset active) (t\<lparr>ht_last_sample_ms := Some now\<rparr>)"
  let ?demoted = "filter (\<lambda>hub. hub |\<in>| clients) (sorted_list_of_fset (ht_seen_hubs ?t1 |-| active))"
  let ?t2 = "fold forget_hub ?demoted ?t1"
  let ?absent = "sorted_list_of_fset (ht_seen_hubs ?t2 |-| active)"
  have t': "t' = fold (note_absence now) ?absent ?t2" and lost: "lost = ht_lost_hubs t'"
    using obs scan fresh by (auto simp: observe_hubs_def Let_def)
  have active: "h |\<in>| active \<longleftrightarrow> is_hub_in links h" and clients: "h |\<in>| clients \<longleftrightarrow> is_client_in links h" for h
    using scan_links_Inr [OF scan] by (auto simp: is_hub_in_def is_client_in_def)
  have inv0: "tracker_inv (t\<lparr>ht_last_sample_ms := Some now\<rparr>)"
    and st0: "hub_status (t\<lparr>ht_last_sample_ms := Some now\<rparr>) h = hub_status t h" for h
    using inv by (simp_all add: tracker_inv_def hub_status_def)
  have st1: "hub_status ?t1 h = (if h |\<in>| active then Present else hub_status t h)" for h
    by (simp add: fold_mark_active st0)
  have st2: "hub_status ?t2 h =
      (if h |\<in>| active then Present else if h |\<in>| clients then Unseen else hub_status t h)" for h
  proof -
    have "h \<in> set ?demoted \<longleftrightarrow> hub_status ?t1 h \<noteq> Unseen \<and> h |\<notin>| active \<and> h |\<in>| clients"
      by (auto simp: status_Unseen_iff)
    then show ?thesis unfolding fold_forget_hub(2) st1 by auto
  qed
  have sub: "set ?absent \<subseteq> fset (ht_seen_hubs ?t2)" by auto
  show "tracker_inv t'" unfolding t'
    using inv0 sub by (simp add: fold_note_absence fold_forget_hub fold_mark_active)
  show "lost = ht_lost_hubs t'" by (rule lost)
  show "ht_last_sample_ms t' = Some now" "ht_min_absence_ms t' = ht_min_absence_ms t"
    unfolding t' by (simp_all add: fold_note_absence fold_forget_hub fold_mark_active)
  show "p < now" if "ht_last_sample_ms t = Some p" for p using fresh that by simp
  have "g \<in> set ?absent \<longleftrightarrow> hub_status ?t2 g \<noteq> Unseen \<and> g |\<notin>| active"
    by (auto simp: status_Unseen_iff)
  moreover have "hub_status t' g = (if g \<in> set ?absent
      then absence_step (ht_min_absence_ms t) now (hub_status ?t2 g) else hub_status ?t2 g)"
    unfolding t' by (subst fold_note_absence(2)) (use sub in \<open>simp_all add: fold_forget_hub fold_mark_active\<close>)
  ultimately show "hub_status t' g = status_step (ht_min_absence_ms t) now links g (hub_status t g)"
    unfolding st2 status_step_def active [symmetric] clients [symmetric]
    by (cases "g |\<in>| active"; cases "g |\<in>| clients"; cases "hub_status t g")
      (simp_all add: absence_step_def)
qed

section \<open>The history of a tracker\<close>

text \<open>The accepted calls on a tracker, the newest first.\<close>

datatype tracker_event = Sample (sample_time: u64) (sample_links: "nap_link fset") | Forgot node_id

inductive tracked :: "u64 \<Rightarrow> tracker_event list \<Rightarrow> hub_loss_tracker \<Rightarrow> bool" for m where
  new: "hub_loss_tracker_new m = Inr t \<Longrightarrow> tracked m [] t"
| sample: "tracked m hist t \<Longrightarrow> observe_hubs t now links = (Inr lost, t') \<Longrightarrow>
    tracked m (Sample now links # hist) t'"
| rejected: "tracked m hist t \<Longrightarrow> observe_hubs t now links = (Inl e, t') \<Longrightarrow> tracked m hist t'"
| forget: "tracked m hist t \<Longrightarrow> tracked m (Forgot h # hist) (forget_hub h t)"

fun hosts :: "node_id \<Rightarrow> tracker_event \<Rightarrow> bool" where
  "hosts h (Sample _ links) = is_hub_in links h"
| "hosts h (Forgot _) = False"

fun absent :: "node_id \<Rightarrow> tracker_event \<Rightarrow> bool" where
  "absent h (Sample _ links) = (\<not> is_hub_in links h \<and> \<not> is_client_in links h)"
| "absent h (Forgot _) = False"

fun concerns :: "node_id \<Rightarrow> tracker_event \<Rightarrow> bool" where
  "concerns h (Sample _ _) = True"
| "concerns h (Forgot g) = (g = h)"

text \<open>The reference: a hub is missing since the oldest sample of its latest uninterrupted absence, provided the
  event before that absence showed it hosting, and lost when the absence has been sampled over
  at least the confirmation interval.\<close>

definition reference_status :: "u64 \<Rightarrow> node_id \<Rightarrow> tracker_event list \<Rightarrow> hub_status" where
  "reference_status m h hist =
     (let evs = filter (concerns h) hist; run = takeWhile (absent h) evs; before = dropWhile (absent h) evs in
      if before = [] \<or> \<not> hosts h (hd before) then Unseen
      else if run = [] then Present
      else if unat (sample_time (hd run)) - unat (sample_time (last run)) \<ge> unat m then Lost
      else Missing (sample_time (last run)))"

definition sample_times :: "tracker_event list \<Rightarrow> u64 list" where
  "sample_times hist = map sample_time (filter (\<lambda>e. case e of Sample _ _ \<Rightarrow> True | Forgot _ \<Rightarrow> False) hist)"

definition history_inv :: "u64 \<Rightarrow> tracker_event list \<Rightarrow> hub_loss_tracker \<Rightarrow> bool" where
  "history_inv m hist t \<longleftrightarrow>
     tracker_inv t \<and> m \<noteq> 0 \<and> ht_min_absence_ms t = m \<and> sorted_wrt (>) (sample_times hist) \<and>
     ht_last_sample_ms t = (case sample_times hist of [] \<Rightarrow> None | s # _ \<Rightarrow> Some s) \<and>
     (\<forall>h. hub_status t h = reference_status m h hist)"

lemma run_times:
  assumes "e \<in> set (takeWhile (absent h) (filter (concerns h) hist))"
  shows "sample_time e \<in> set (sample_times hist)"
proof -
  from assms have "e \<in> set hist" "absent h e" by (auto dest: set_takeWhileD)
  moreover from this(2) obtain a b where "e = Sample a b" by (auto elim: absent.elims)
  ultimately show ?thesis by (force simp: sample_times_def)
qed

lemma reference_sample:
  assumes later: "\<forall>s\<in>set (sample_times hist). s < now" and "m \<noteq> 0"
    and sorted: "sorted_wrt (>) (sample_times hist)"
  shows "reference_status m h (Sample now links # hist) = status_step m now links h (reference_status m h hist)"
proof -
  let ?run = "takeWhile (absent h) (filter (concerns h) hist)"
  let ?before = "dropWhile (absent h) (filter (concerns h) hist)"
  have times: "sample_time e < now" if "e \<in> set ?run" for e using later run_times [OF that] by blast
  have diff: "m \<le> now - s \<longleftrightarrow> unat m \<le> unat now - unat s" if "s < now" for s
    by (simp add: word_le_nat_alt unat_sub_le [OF less_imp_le [OF that]])
  show ?thesis
  proof (cases "is_hub_in links h \<or> is_client_in links h")
    case True
    then show ?thesis by (auto simp: reference_status_def status_step_def Let_def)
  next
    case False
    show ?thesis
    proof (cases "?before = [] \<or> \<not> hosts h (hd ?before) \<or> ?run = []")
      case True
      then show ?thesis using False \<open>m \<noteq> 0\<close>
        by (auto simp: reference_status_def status_step_def absence_step_def Let_def unsigned_eq_0_iff)
    next
      case run: False
      then have "hd ?run \<in> set ?run" "last ?run \<in> set ?run" by auto
      then have "sample_time (hd ?run) < now" "sample_time (last ?run) < now" using times by blast+
      then show ?thesis using False run diff
        by (auto simp: reference_status_def status_step_def absence_step_def Let_def word_less_nat_alt)
    qed
  qed
qed

lemma tracked_history_inv: "tracked m hist t \<Longrightarrow> history_inv m hist t"
proof (induction rule: tracked.induct)
  case (new t)
  then show ?case
    by (auto simp: hub_loss_tracker_new_def history_inv_def tracker_inv_def sample_times_def
        hub_status_def reference_status_def split: if_splits)
next
  case (sample hist t now links lost t')
  note inv = sample.IH [unfolded history_inv_def]
  note obs = observe_hubs_Inr [OF sample.hyps(2)]
  have later: "\<forall>s\<in>set (sample_times hist). s < now"
    using inv obs(6) by (cases "sample_times hist") (auto intro: less_trans)
  have times: "sample_times (Sample now links # hist) = now # sample_times hist"
    by (simp add: sample_times_def)
  show ?case
    using inv obs(1,3-5) later unfolding history_inv_def times
    by (simp add: reference_sample [OF later])
next
  case (rejected hist t now links e t')
  then have "t' = t" by (auto simp: observe_hubs_def Let_def split: if_splits sum.splits prod.splits)
  with rejected show ?case by simp
next
  case (forget hist t h)
  have "reference_status m g (Forgot h # hist) = (if g = h then Unseen else reference_status m g hist)" for g
    by (auto simp: reference_status_def Let_def)
  moreover have "sample_times (Forgot h # hist) = sample_times hist" by (simp add: sample_times_def)
  ultimately show ?case using forget.IH by (auto simp: history_inv_def forget_hub_step)
qed

text \<open>C25: hub loss is debounced exactly as specified. After any sequence of calls, accepted or rejected, the
  set a successful sample returns is the set of hubs that were hosting when their latest absence began and
  that have been absent, neither hosting nor attached to another hub, in all samples since, over a
  sampled period of at least the confirmation interval. A hub that is hosting, that became a client, that
  was forgotten or that was never seen is not reported, and a rejected sample changes nothing.\<close>

theorem hub_loss_debounced:
  assumes "tracked m hist t" and "observe_hubs t now links = (r, t')"
  shows "(\<forall>lost. r = Inr lost \<longrightarrow>
      (\<forall>h. h |\<in>| lost \<longleftrightarrow> reference_status m h (Sample now links # hist) = Lost)) \<and>
    (\<forall>e. r = Inl e \<longrightarrow> t' = t)"
proof (cases r)
  case (Inl e)
  with assms(2) have "t' = t" by (auto simp: observe_hubs_def Let_def split: if_splits sum.splits prod.splits)
  with Inl show ?thesis by simp
next
  case (Inr lost)
  with assms have "tracked m (Sample now links # hist) t'" "lost = ht_lost_hubs t'"
    using observe_hubs_Inr(2) tracked_history_inv by (auto intro: tracked.sample simp: history_inv_def)
  with Inr show ?thesis
    using tracked_history_inv lost_iff_status by (fastforce simp: history_inv_def)
qed

definition ex_tracker :: "nat \<Rightarrow> hub_loss_tracker" where
  "ex_tracker n =
     \<lparr>ht_min_absence_ms = 10, ht_last_sample_ms = (if n = 0 then None else if n = 1 then Some 2 else Some 5),
      ht_seen_hubs = (if n = 0 then {||} else {|byte_ident 1|}),
      ht_missing_since = (if n = 2 then fmupd (byte_ident 1) 5 fmempty else fmempty), ht_lost_hubs = {||}\<rparr>"

lemmas observe_hubs_eval = observe_hubs_def Let_def scan_link_def mark_active_def forget_hub_def note_absence_def
  sorted_list_of_fset_eval

lemma ex_tracker_history:
  "tracked 10 [Sample 5 {||}, Sample 2 {|NapLink (byte_ident 1) (byte_ident 2)|}] (ex_tracker 2)"
proof -
  have 0: "hub_loss_tracker_new 10 = Inr (ex_tracker 0)"
    by (simp add: hub_loss_tracker_new_def ex_tracker_def)
  have 1: "observe_hubs (ex_tracker 0) 2 {|NapLink (byte_ident 1) (byte_ident 2)|} = (Inr {||}, ex_tracker 1)"
    by (simp add: observe_hubs_eval ex_tracker_def)
  have 2: "observe_hubs (ex_tracker 1) 5 {||} = (Inr {||}, ex_tracker 2)"
    by (simp add: observe_hubs_eval ex_tracker_def)
  show ?thesis
    by (rule tracked.sample [OF tracked.sample [OF tracked.new [OF 0] 1] 2])
qed

lemma ex_tracker_loss: "\<exists>t'. observe_hubs (ex_tracker 2) 16 {||} = (Inr {|byte_ident 1|}, t')"
  by (simp add: observe_hubs_eval ex_tracker_def)

theorem hub_loss_debounced_witness:
  "(\<exists>t'. observe_hubs (ex_tracker 2) 16 {||} = (Inr {|byte_ident 1|}, t')) \<and>
   reference_status 10 (byte_ident 1)
     [Sample 16 {||}, Sample 5 {||}, Sample 2 {|NapLink (byte_ident 1) (byte_ident 2)|}] = Lost"
proof -
  obtain t' where "observe_hubs (ex_tracker 2) 16 {||} = (Inr {|byte_ident 1|}, t')"
    using ex_tracker_loss by blast
  from this hub_loss_debounced [OF ex_tracker_history this] show ?thesis by auto
qed

end
