(* ===== verification/Topology_Stability.thy ===== *)
theory Topology_Stability
  imports Errors
begin

text \<open>
  \<open>crates/blueroute-core/src/topology_stability.rs\<close>: the anti-flap gate, with its saturating 64-bit deadlines.
\<close>

section \<open>The gate\<close>

record topology_stability_policy =
  sp_min_dwell_ms :: u64
  sp_min_cost_improvement :: u64
  sp_retry_base_ms :: u64
  sp_retry_max_ms :: u64

record topology_change_observation =
  co_now_ms :: u64
  co_last_change_ms :: u64
  co_current_viable :: bool
  co_proposed_viable :: bool
  co_current_cost :: u64
  co_proposed_cost :: u64
  co_consecutive_failures :: u32
  co_last_failure_ms :: "u64 option"

datatype topology_change_decision = KeepCurrent | DeferUntil u64 | Apply | NoViableProposal

definition stability_rejected :: "topology_stability_policy \<Rightarrow> topology_change_observation \<Rightarrow> bool" where
  "stability_rejected pol obs \<longleftrightarrow>
     sp_min_dwell_ms pol = 0 \<or> sp_min_cost_improvement pol = 0 \<or> sp_retry_base_ms pol = 0 \<or>
     sp_retry_max_ms pol < sp_retry_base_ms pol \<or> co_now_ms obs < co_last_change_ms obs \<or>
     (case co_last_failure_ms obs of None \<Rightarrow> False | Some t \<Rightarrow> co_now_ms obs < t) \<or>
     (co_consecutive_failures obs > 0 \<and> co_last_failure_ms obs = None)"

definition retry_delay :: "topology_stability_policy \<Rightarrow> u32 \<Rightarrow> u64" where
  "retry_delay pol failures =
     (let exponent = min (saturating_sub failures 1) 63;
          factor = (case checked_shl (1 :: u64) (unat exponent) of None \<Rightarrow> - 1 | Some f \<Rightarrow> f)
      in min (saturating_mul (sp_retry_base_ms pol) factor) (sp_retry_max_ms pol))"

definition dwell_decision ::
  "topology_stability_policy \<Rightarrow> topology_change_observation \<Rightarrow> topology_change_decision" where
  "dwell_decision pol obs =
     (if co_current_viable obs then
        let deadline = saturating_add (co_last_change_ms obs) (sp_min_dwell_ms pol) in
        if co_now_ms obs < deadline then DeferUntil deadline else Apply
      else Apply)"

definition decide_topology_change ::
  "topology_stability_policy \<Rightarrow> topology_change_observation \<Rightarrow> topology_change_decision core_result" where
  "decide_topology_change pol obs =
     (if stability_rejected pol obs
      then Inl (core_error_new InvalidInput ''invalid topology stability policy or observation'')
      else if \<not> co_proposed_viable obs then Inr NoViableProposal
      else if co_current_viable obs \<and>
              saturating_sub (co_current_cost obs) (co_proposed_cost obs) < sp_min_cost_improvement pol
      then Inr KeepCurrent
      else case co_last_failure_ms obs of
        None \<Rightarrow> Inr (dwell_decision pol obs)
      | Some last_failure \<Rightarrow>
          if co_consecutive_failures obs > 0 then
            let deadline = saturating_add last_failure (retry_delay pol (co_consecutive_failures obs)) in
            if co_now_ms obs < deadline then Inr (DeferUntil deadline)
            else Inr (dwell_decision pol obs)
          else Inr (dwell_decision pol obs))"

section \<open>Bounds of the backoff\<close>

text \<open>The delay after \<open>n\<close> failures: the base doubled with every further failure, 63 doublings at most, up to the
  maximum.\<close>

definition backoff_ms :: "topology_stability_policy \<Rightarrow> nat \<Rightarrow> nat" where
  "backoff_ms pol n = min (unat (sp_retry_base_ms pol) * 2 ^ min (n - 1) 63) (unat (sp_retry_max_ms pol))"

definition clock_max :: nat where
  "clock_max = 2 ^ 64 - 1"

lemma unat_min: "unat (min a b) = min (unat a) (unat (b :: 'a::len word))"
  by (simp add: min_def word_le_nat_alt)

lemma unat_power_two:
  assumes "n < 64"
  shows "unat ((2 :: u64) ^ n) = 2 ^ n"
proof -
  have "(2 :: nat) ^ n < 2 ^ 64" using assms by (intro power_strict_increasing) simp_all
  then have "take_bit 64 ((2 :: nat) ^ n) = 2 ^ n" by (rule take_bit_nat_eq_self)
  moreover have "(2 :: u64) ^ n = of_nat (2 ^ n)" by simp
  ultimately show ?thesis by (simp only: unsigned_of_nat len_num1 len_bit0) simp
qed

lemma unat_u64_le: "unat (w :: u64) \<le> clock_max"
  using unat_less_pow [of w] by (simp add: clock_max_def)

lemma unat_retry_delay: "unat (retry_delay pol f) = backoff_ms pol (unat f)"
proof -
  let ?e = "min (unat f - 1) 63" and ?b = "unat (sp_retry_base_ms pol)" and ?m = "unat (sp_retry_max_ms pol)"
  have e: "unat (min (saturating_sub f 1) 63) = ?e"
    by (simp add: unat_min unat_saturating_sub)
  have "retry_delay pol f = min (saturating_mul (sp_retry_base_ms pol) (push_bit ?e 1)) (sp_retry_max_ms pol)"
    unfolding retry_delay_def Let_def e by (simp add: checked_shl_def min_less_iff_disj)
  then have "unat (retry_delay pol f) = min (min (?b * 2 ^ ?e) clock_max) ?m"
    by (simp add: unat_min unat_saturating_mul unat_power_two clock_max_def min_less_iff_disj)
  then show ?thesis using unat_u64_le [of "sp_retry_max_ms pol"] by (simp add: backoff_ms_def min_def)
qed

lemma unat_saturating_add_64: "unat (saturating_add (a :: u64) b) = min (unat a + unat b) clock_max"
  by (simp add: unat_saturating_add clock_max_def)

lemma gain_iff:
  "saturating_sub a b < (m :: u64) \<longleftrightarrow> unat a < unat b + unat m \<and> m \<noteq> 0"
  by (auto simp: word_less_nat_alt unat_saturating_sub unat_gt_0 [symmetric] simp del: unat_gt_0)

text \<open>The end of the retry backoff and of the dwell time, as unbounded sums.\<close>

definition retry_end :: "topology_stability_policy \<Rightarrow> topology_change_observation \<Rightarrow> nat" where
  "retry_end pol obs =
     (case co_last_failure_ms obs of
        None \<Rightarrow> 0
      | Some t \<Rightarrow> if co_consecutive_failures obs > 0
                  then unat t + backoff_ms pol (unat (co_consecutive_failures obs)) else 0)"

definition dwell_end :: "topology_stability_policy \<Rightarrow> topology_change_observation \<Rightarrow> nat" where
  "dwell_end pol obs = (if co_current_viable obs then unat (co_last_change_ms obs) + unat (sp_min_dwell_ms pol) else 0)"

text \<open>The earliest times they allow a change: the 64-bit clock cannot show a later end than its last value, so the
  ends are clamped there.\<close>

definition retry_open :: "topology_stability_policy \<Rightarrow> topology_change_observation \<Rightarrow> nat" where
  "retry_open pol obs = min (retry_end pol obs) clock_max"

definition dwell_open :: "topology_stability_policy \<Rightarrow> topology_change_observation \<Rightarrow> nat" where
  "dwell_open pol obs = min (dwell_end pol obs) clock_max"

lemmas gate_times = retry_open_def retry_end_def dwell_open_def dwell_end_def

lemma dwell_open_deadline:
  "dwell_open pol obs =
     (if co_current_viable obs then unat (saturating_add (co_last_change_ms obs) (sp_min_dwell_ms pol)) else 0)"
  by (simp add: gate_times unat_saturating_add_64)

lemma dwell_decision_cases:
  "dwell_decision pol obs = Apply \<longleftrightarrow> dwell_open pol obs \<le> unat (co_now_ms obs)"
  "dwell_decision pol obs = DeferUntil d \<longleftrightarrow> unat (co_now_ms obs) < dwell_open pol obs \<and> unat d = dwell_open pol obs"
  "dwell_decision pol obs \<noteq> KeepCurrent" "dwell_decision pol obs \<noteq> NoViableProposal"
  by (auto simp: dwell_decision_def dwell_open_deadline Let_def word_less_nat_alt simp flip: word_unat_eq_iff)

lemma retry_end_bound:
  "co_last_failure_ms obs = Some t \<Longrightarrow> retry_end pol obs \<le> unat t + unat (sp_retry_max_ms pol)"
  by (auto simp: retry_end_def backoff_ms_def)

text \<open>What both tests of the gate come after.\<close>

definition change_wanted :: "topology_stability_policy \<Rightarrow> topology_change_observation \<Rightarrow> bool" where
  "change_wanted pol obs \<longleftrightarrow>
     \<not> stability_rejected pol obs \<and> co_proposed_viable obs \<and>
     (co_current_viable obs \<longrightarrow>
        unat (co_proposed_cost obs) + unat (sp_min_cost_improvement pol) \<le> unat (co_current_cost obs))"

lemma decide_wanted:
  assumes "change_wanted pol obs"
  shows "decide_topology_change pol obs =
     (if unat (co_now_ms obs) < retry_open pol obs
      then Inr (DeferUntil (of_nat (retry_open pol obs))) else Inr (dwell_decision pol obs))"
proof -
  have gain: "\<not> (co_current_viable obs \<and>
      saturating_sub (co_current_cost obs) (co_proposed_cost obs) < sp_min_cost_improvement pol)"
    using assms unfolding gain_iff change_wanted_def by linarith
  have deadline: "unat (saturating_add t (retry_delay pol n)) =
      min (unat t + backoff_ms pol (unat n)) clock_max" for t :: u64 and n
    unfolding unat_saturating_add_64 unat_retry_delay by (rule refl)
  have "decide_topology_change pol obs =
     (case co_last_failure_ms obs of
        None \<Rightarrow> Inr (dwell_decision pol obs)
      | Some t \<Rightarrow>
          if co_consecutive_failures obs > 0 then
            if co_now_ms obs < saturating_add t (retry_delay pol (co_consecutive_failures obs))
            then Inr (DeferUntil (saturating_add t (retry_delay pol (co_consecutive_failures obs))))
            else Inr (dwell_decision pol obs)
          else Inr (dwell_decision pol obs))"
    using assms gain unfolding decide_topology_change_def change_wanted_def Let_def
    by (simp only: if_False not_True_eq_False)
  then show ?thesis
    unfolding gate_times
    by (cases "co_last_failure_ms obs"; cases "co_consecutive_failures obs > 0")
      (simp_all add: word_less_nat_alt deadline [symmetric])
qed

lemma decide_unwanted:
  "\<not> change_wanted pol obs \<Longrightarrow>
   decide_topology_change pol obs \<noteq> Inr Apply \<and> decide_topology_change pol obs \<noteq> Inr (DeferUntil d)"
  by (auto simp: change_wanted_def decide_topology_change_def gain_iff stability_rejected_def)

lemma decide_Apply:
  assumes "decide_topology_change pol obs = Inr Apply"
  shows "change_wanted pol obs" "retry_open pol obs \<le> unat (co_now_ms obs)"
proof -
  show wanted: "change_wanted pol obs" using assms decide_unwanted by blast
  show "retry_open pol obs \<le> unat (co_now_ms obs)"
    using assms unfolding decide_wanted [OF wanted] by (auto split: if_splits)
qed

text \<open>C29: the anti-flap gate lets a change through exactly when the policy and the observation are
  consistent, the proposal is viable, a viable current topology is beaten by at least the required cost
  improvement and has been kept for the dwell time, and the backoff after the last failure is over; a
  failed current path skips the first two. A deferral names a later time: the end of the backoff or, once
  that is over, the end of the dwell time. Both ends are the true sums, which do not wrap around but are clamped to the
  last value of the 64-bit clock: an end beyond it counts as reached at that last value. The backoff is the base delay
  doubled at most 63 times and never ends later than the configured maximum delay after the last failure.\<close>

theorem stability_gate_exact:
  "(decide_topology_change pol obs = Inr Apply \<longleftrightarrow>
      change_wanted pol obs \<and> min (retry_end pol obs) (2 ^ 64 - 1) \<le> unat (co_now_ms obs) \<and>
      min (dwell_end pol obs) (2 ^ 64 - 1) \<le> unat (co_now_ms obs)) \<and>
   (decide_topology_change pol obs = Inr (DeferUntil d) \<longleftrightarrow>
      change_wanted pol obs \<and> unat (co_now_ms obs) < unat d \<and>
      unat d = min (if unat (co_now_ms obs) < min (retry_end pol obs) (2 ^ 64 - 1) then retry_end pol obs
                    else dwell_end pol obs) (2 ^ 64 - 1)) \<and>
   (case co_last_failure_ms obs of None \<Rightarrow> retry_end pol obs = 0
    | Some t \<Rightarrow> retry_end pol obs \<le> unat t + unat (sp_retry_max_ms pol))"
proof -
  have "unat (of_nat (retry_open pol obs) :: u64) = retry_open pol obs"
  proof -
    have "retry_open pol obs < 2 ^ 64" by (simp add: retry_open_def clock_max_def)
    then have "take_bit 64 (retry_open pol obs) = retry_open pol obs" by (rule take_bit_nat_eq_self)
    then show ?thesis by (simp only: unsigned_of_nat len_num1 len_bit0) simp
  qed
  then have named: "(of_nat (retry_open pol obs) = d) = (unat d = retry_open pol obs)"
    by (metis word_unat_eq_iff)
  have "decide_topology_change pol obs = Inr Apply \<longleftrightarrow>
      change_wanted pol obs \<and> retry_open pol obs \<le> unat (co_now_ms obs) \<and> dwell_open pol obs \<le> unat (co_now_ms obs)"
    using decide_unwanted [of pol obs d]
    by (cases "change_wanted pol obs"; cases "unat (co_now_ms obs) < retry_open pol obs")
      (auto simp: decide_wanted dwell_decision_cases)
  moreover have "decide_topology_change pol obs = Inr (DeferUntil d) \<longleftrightarrow>
      change_wanted pol obs \<and> unat (co_now_ms obs) < unat d \<and>
      unat d = (if unat (co_now_ms obs) < retry_open pol obs then retry_open pol obs else dwell_open pol obs)"
    using decide_unwanted [of pol obs d] named
    by (cases "change_wanted pol obs"; cases "unat (co_now_ms obs) < retry_open pol obs")
      (auto simp: decide_wanted dwell_decision_cases)
  moreover have "case co_last_failure_ms obs of None \<Rightarrow> retry_end pol obs = 0
    | Some t \<Rightarrow> retry_end pol obs \<le> unat t + unat (sp_retry_max_ms pol)"
    using retry_end_bound [of obs _ pol] by (auto simp: retry_end_def split: option.split)
  ultimately show ?thesis
    unfolding retry_open_def dwell_open_def clock_max_def by (simp only: if_distrib [of "\<lambda>t. min t _"])
qed

end
