(* ===== verification/Topology_Recovery_Flow.thy ===== *)
theory Topology_Recovery_Flow
  imports Topology_Recovery Topology_Executor Topology_Loss Topology_Stability
begin

text \<open>
  \<open>crates/blueroute-core/src/topology_recovery_flow.rs\<close>: one sampling call, from the observed links through the
  loss tracker, the retry gate and the recovery plan to its execution. A call returns its result, the tracker,
  the retry state and the backend state after it.
\<close>

section \<open>Operations\<close>

record hub_loss_recovery_execution =
  re_confirmed_lost :: "node_id fset"
  re_plan :: hub_loss_recovery_plan
  re_execution :: nap_execution_report

definition observed_selection :: "nap_link fset \<Rightarrow> nap_selection" where
  "observed_selection observed = stars_selection (fold push_client (sorted_list_of_fset observed) fmempty)"

record hub_recovery_retry_state =
  rs_policy :: topology_stability_policy
  rs_consecutive_failures :: u32
  rs_last_failure_ms :: "u64 option"

definition retry_observation :: "hub_recovery_retry_state \<Rightarrow> u64 \<Rightarrow> topology_change_observation" where
  "retry_observation retry now_ms =
     \<lparr>co_now_ms = now_ms, co_last_change_ms = 0, co_current_viable = False, co_proposed_viable = True,
      co_current_cost = 0, co_proposed_cost = 0, co_consecutive_failures = rs_consecutive_failures retry,
      co_last_failure_ms = rs_last_failure_ms retry\<rparr>"

definition retry_is_due :: "hub_recovery_retry_state \<Rightarrow> u64 \<Rightarrow> bool core_result" where
  "retry_is_due retry now_ms =
     bindR (decide_topology_change (rs_policy retry) (retry_observation retry now_ms)) (\<lambda>decision.
       Inr (decision = Apply))"

definition retry_state_new :: "topology_stability_policy \<Rightarrow> hub_recovery_retry_state core_result" where
  "retry_state_new pol =
     (let state = \<lparr>rs_policy = pol, rs_consecutive_failures = 0, rs_last_failure_ms = None\<rparr> in
      bindR (retry_is_due state 0) (\<lambda>_. Inr state))"

definition retry_failed :: "u64 \<Rightarrow> hub_recovery_retry_state \<Rightarrow> hub_recovery_retry_state" where
  "retry_failed now_ms retry =
     retry\<lparr>rs_consecutive_failures := saturating_add (rs_consecutive_failures retry) 1,
           rs_last_failure_ms := Some now_ms\<rparr>"

definition retry_reset :: "hub_recovery_retry_state \<Rightarrow> hub_recovery_retry_state" where
  "retry_reset retry = retry\<lparr>rs_consecutive_failures := 0, rs_last_failure_ms := None\<rparr>"

definition recover_from_observation ::
  "topology_policy_inputs \<Rightarrow> nap_link fset \<Rightarrow> node_id fset \<Rightarrow> 'w nap_topology_operator \<Rightarrow>
   ('w, hub_loss_recovery_execution) eff" where
  "recover_from_observation inputs observed confirmed_lost ops =
     bindE (liftE (plan_hub_loss_recovery inputs observed confirmed_lost)) (\<lambda>plan.
     bindE (op_observe_links ops) (\<lambda>current.
       if current \<noteq> observed
       then raiseE (core_error_new InvalidState
              ''PAN observations changed before route reconciliation; replan'')
       else bindE (op_reconcile_routes ops current) (\<lambda>_.
            bindE (execute_nap_plan inputs (observed_selection current) (rp_desired plan) ops) (\<lambda>execution.
              retE \<lparr>re_confirmed_lost = confirmed_lost, re_plan = plan, re_execution = execution\<rparr>))))"

definition execute_confirmed_hub_loss_recovery_with_backoff ::
  "topology_policy_inputs \<Rightarrow> hub_loss_tracker \<Rightarrow> hub_recovery_retry_state \<Rightarrow> u64 \<Rightarrow>
   'w nap_topology_operator \<Rightarrow> 'w \<Rightarrow>
   hub_loss_recovery_execution option core_result \<times> hub_loss_tracker \<times> hub_recovery_retry_state \<times> 'w" where
  "execute_confirmed_hub_loss_recovery_with_backoff inputs tracker retry now_ms ops w =
     (case op_observe_links ops w of
        (Inl e, w1) \<Rightarrow> (Inl e, tracker, retry, w1)
      | (Inr observed, w1) \<Rightarrow>
          (case observe_hubs tracker now_ms observed of
             (Inl e, tracker1) \<Rightarrow> (Inl e, tracker1, retry, w1)
           | (Inr lost, tracker1) \<Rightarrow>
               if lost = {||} then (Inr None, tracker1, retry_reset retry, w1)
               else (case retry_is_due retry now_ms of
                 Inl e \<Rightarrow> (Inl e, tracker1, retry, w1)
               | Inr False \<Rightarrow> (Inr None, tracker1, retry, w1)
               | Inr True \<Rightarrow>
                   (case recover_from_observation inputs observed lost ops w1 of
                      (Inr result, w2) \<Rightarrow> (Inr (Some result), tracker1, retry_reset retry, w2)
                    | (Inl error, w2) \<Rightarrow> (Inl error, tracker1, retry_failed now_ms retry, w2)))))"

definition execute_confirmed_hub_loss_recovery ::
  "topology_policy_inputs \<Rightarrow> hub_loss_tracker \<Rightarrow> u64 \<Rightarrow> 'w nap_topology_operator \<Rightarrow> 'w \<Rightarrow>
   hub_loss_recovery_execution option core_result \<times> hub_loss_tracker \<times> 'w" where
  "execute_confirmed_hub_loss_recovery inputs tracker now_ms ops w =
     (case op_observe_links ops w of
        (Inl e, w1) \<Rightarrow> (Inl e, tracker, w1)
      | (Inr observed, w1) \<Rightarrow>
          (case observe_hubs tracker now_ms observed of
             (Inl e, tracker1) \<Rightarrow> (Inl e, tracker1, w1)
           | (Inr confirmed_lost, tracker1) \<Rightarrow>
               if confirmed_lost = {||} then (Inr None, tracker1, w1)
               else (case recover_from_observation inputs observed confirmed_lost ops w1 of
                 (Inr result, w2) \<Rightarrow> (Inr (Some result), tracker1, w2)
               | (Inl error, w2) \<Rightarrow> (Inl error, tracker1, w2))))"

section \<open>One recovery attempt\<close>

lemma observed_selection_links:
  "selection_links (observed_selection links) = links"
proof -
  have "plan_links (ns_stars (observed_selection links)) = fset links"
    unfolding observed_selection_def star_table_def [symmetric] stars_selection_links table_links_star_table
    by (simp add: table_links_def)
  then show ?thesis by (simp add: fset_inject [symmetric] fset_selection_links)
qed

lemma recover_Inr:
  assumes "recover_from_observation inputs observed lost ops w = (Inr ex, w')"
  shows "re_confirmed_lost ex = lost" "plan_hub_loss_recovery inputs observed lost = Inr (re_plan ex)"
    "fset (ne_observed (re_execution ex)) = plan_links (ns_stars (rp_desired (re_plan ex)))"
proof -
  from assms obtain plan execution w1 w2 where "plan_hub_loss_recovery inputs observed lost = Inr plan"
    "ex = \<lparr>re_confirmed_lost = lost, re_plan = plan, re_execution = execution\<rparr>"
    "execute_nap_plan inputs (observed_selection observed) (rp_desired plan) ops w1 = (Inr execution, w2)"
    by (auto simp: recover_from_observation_def bindE_eq_Inr split: if_splits)
  then show "re_confirmed_lost ex = lost" "plan_hub_loss_recovery inputs observed lost = Inr (re_plan ex)"
    "fset (ne_observed (re_execution ex)) = plan_links (ns_stars (rp_desired (re_plan ex)))"
    using execute_nap_plan_Inr by fastforce+
qed

lemma recover_works:
  assumes ops: "working_operator ops lk routed" and valid: "validate_inputs inputs = Inr ()"
    and lost: "lost \<noteq> {||}" "lost |\<subseteq>| fmdom (ti_candidates inputs)"
    and current: "observation_current inputs (lk w) lost"
  shows "\<exists>ex w'. recover_from_observation inputs (lk w) lost ops w = (Inr ex, w') \<and>
     plan_hub_loss_recovery inputs (lk w) lost = Inr (re_plan ex) \<and>
     lk w' = selection_links (rp_desired (re_plan ex)) \<and> routed w' = lk w'"
proof -
  obtain plan where plan: "plan_hub_loss_recovery inputs (lk w) lost = Inr plan"
    and ok: "selection_ok inputs True (rp_desired plan)"
    using plan_hub_loss_recovery_Inr [OF valid lost current] by blast
  have T: "link_set (rp_desired plan) inputs True = Inr (selection_links (rp_desired plan))"
    using ok by (simp add: link_set_Inr fset_selection_links)
  have C: "link_set (observed_selection v) inputs False = Inr v" if "v = lk w" for v
    using observed_star_table [of v inputs] current that
    by (simp add: observation_current_def observed_selection_def star_table_def)
  have obs: "op_observe_links ops v = (Inr (lk v), v)" for v
    using ops by (simp add: working_operator_def observing_operator_def)
  obtain w1 where w1: "op_reconcile_routes ops (lk w) w = (Inr (), w1)" "lk w1 = lk w"
    using ops unfolding working_operator_def observing_operator_def by blast
  obtain report w2 where "execute_nap_plan inputs (observed_selection (lk w)) (rp_desired plan) ops w1 =
      (Inr report, w2)" "lk w2 = selection_links (rp_desired plan)" "routed w2 = selection_links (rp_desired plan)"
    using execute_nap_plan_works [OF ops valid C [OF refl] T, of w1] w1(2)
    by (auto simp: observed_selection_links)
  then show ?thesis using w1 plan
    by (auto simp: recover_from_observation_def bindE_def obs)
qed

section \<open>What a call does\<close>

lemma retry_is_due_True:
  "retry_is_due retry now = Inr True \<longleftrightarrow> decide_topology_change (rs_policy retry) (retry_observation retry now) = Inr Apply"
  by (auto simp: retry_is_due_def bindR_eq_Inr)

lemma recovery_call_cases:
  assumes obs: "\<And>v. op_observe_links ops v = (Inr (lk v), v)"
    and call: "execute_confirmed_hub_loss_recovery_with_backoff inputs t retry now ops w = (r, t', retry', w')"
  obtains (quiet) "w' = w" "\<And>ex. r \<noteq> Inr (Some ex)" "retry' = retry \<or> retry' = retry_reset retry"
  | (attempt) lost r1 where "observe_hubs t now (lk w) = (Inr lost, t')" "lost \<noteq> {||}"
      "retry_is_due retry now = Inr True"
      "recover_from_observation inputs (lk w) lost ops w = (r1, w')"
      "r = (case r1 of Inl e \<Rightarrow> Inl e | Inr ex \<Rightarrow> Inr (Some ex))"
      "retry' = (if is_err r1 then retry_failed now retry else retry_reset retry)"
proof (cases "observe_hubs t now (lk w)")
  case (Pair r0 t1)
  show thesis
  proof (cases r0)
    case (Inl e)
    then show thesis using call Pair
      by (intro quiet) (auto simp: execute_confirmed_hub_loss_recovery_with_backoff_def obs)
  next
    case (Inr lost)
    show thesis
    proof (cases "lost = {||} \<or> retry_is_due retry now \<noteq> Inr True")
      case True
      then show thesis using call Pair Inr
        by (intro quiet) (auto simp: execute_confirmed_hub_loss_recovery_with_backoff_def obs
            split: sum.splits bool.splits if_splits)
    next
      case False
      obtain r1 w2 where "recover_from_observation inputs (lk w) lost ops w = (r1, w2)"
        by (cases "recover_from_observation inputs (lk w) lost ops w")
      with False show thesis using call Pair Inr
        by (intro attempt [of lost r1]) (auto simp: execute_confirmed_hub_loss_recovery_with_backoff_def obs
            split: sum.splits)
    qed
  qed
qed

text \<open>With an open retry gate the two entry points do the same.\<close>

lemma recovery_ungated:
  assumes "retry_is_due retry now = Inr True"
  shows "execute_confirmed_hub_loss_recovery inputs t now ops w =
    (case execute_confirmed_hub_loss_recovery_with_backoff inputs t retry now ops w of (r, t', _, w') \<Rightarrow> (r, t', w'))"
  by (simp add: execute_confirmed_hub_loss_recovery_def execute_confirmed_hub_loss_recovery_with_backoff_def
      assms split: prod.split sum.split)

lemma scan_links_ok:
  "foldR scan_link ls (a, c) = Inr st \<Longrightarrow>
   distinct (map nl_client ls) \<and> (\<forall>l\<in>set ls. nl_hub l \<noteq> nl_client l \<and> nl_client l |\<notin>| c)"
proof (induction ls arbitrary: a c)
  case (Cons l ls)
  from Cons.prems obtain st1 where st1: "scan_link l (a, c) = Inr st1" "foldR scan_link ls st1 = Inr st"
    by (auto simp: bindR_eq_Inr)
  then have ok: "nl_hub l \<noteq> nl_client l" "nl_client l |\<notin>| c"
    and "st1 = (finsert (nl_hub l) a, finsert (nl_client l) c)"
    by (auto simp: scan_link_def split: if_splits)
  with st1(2) have rest: "foldR scan_link ls (finsert (nl_hub l) a, finsert (nl_client l) c) = Inr st" by simp
  from Cons.IH [OF rest] ok show ?case by auto
qed simp

lemma confirmed_observation:
  assumes obs: "observe_hubs t now links = (Inr lost, t')" and inv: "tracker_inv t"
  shows "observed_links_ok links" "h |\<in>| lost \<Longrightarrow> l |\<in>| links \<Longrightarrow> nl_hub l \<noteq> h \<and> nl_client l \<noteq> h"
proof -
  from obs obtain st where "foldR scan_link (sorted_list_of_fset links) ({||}, {||}) = Inr st"
    by (auto simp: observe_hubs_def split: if_splits sum.splits)
  from scan_links_ok [OF this] show "observed_links_ok links"
    by (auto simp: observed_links_ok_def distinct_map)
  assume "h |\<in>| lost" "l |\<in>| links"
  note facts = observe_hubs_Inr [OF obs inv]
  have "hub_status t' h = Lost" using \<open>h |\<in>| lost\<close> facts(1,2) by (simp add: lost_iff_status)
  then have "\<not> is_hub_in links h" "\<not> is_client_in links h"
    unfolding facts(5) status_step_def by (auto split: if_splits)
  then show "nl_hub l \<noteq> h \<and> nl_client l \<noteq> h"
    using \<open>l |\<in>| links\<close> by (auto simp: is_hub_in_def is_client_in_def)
qed

lemma confirmed_lost_reference:
  assumes "tracked m hist t" "observe_hubs t now links = (Inr lost, t')"
  shows "h |\<in>| lost \<longleftrightarrow> reference_status m h (Sample now links # hist) = Lost"
  using tracked_history_inv [OF tracked.sample [OF assms]] observe_hubs_Inr(2) [OF assms(2)]
    tracked_history_inv [OF assms(1)] lost_iff_status
  by (fastforce simp: history_inv_def)

text \<open>C27: recovery acts only on confirmed loss and outside the backoff. If a sampling call changes the backend
  in any way, then some hub is lost by the reference definition over the full sample history, and the
  exponential backoff after the last failed attempt is over. A call that reports a recovery names exactly
  the hubs lost by that definition, and the links it reports, as observed, are those of a plan that uses
  none of them; a failed attempt starts a new backoff at the time of the call.\<close>

theorem recovery_gated:
  assumes "tracked m hist t" "observing_operator ops lk routed"
    and "execute_confirmed_hub_loss_recovery_with_backoff inputs t retry now ops w = (r, t', retry', w')"
  shows "(w' \<noteq> w \<longrightarrow> (\<exists>h. reference_status m h (Sample now (lk w) # hist) = Lost) \<and>
      retry_open (rs_policy retry) (retry_observation retry now) \<le> unat now \<and>
      (is_err r \<longrightarrow> rs_last_failure_ms retry' = Some now)) \<and>
    (\<forall>ex. r = Inr (Some ex) \<longrightarrow>
      (\<forall>h. h |\<in>| re_confirmed_lost ex \<longleftrightarrow> reference_status m h (Sample now (lk w) # hist) = Lost) \<and>
      ne_observed (re_execution ex) = selection_links (rp_desired (re_plan ex)) \<and>
      (\<forall>l. l |\<in>| ne_observed (re_execution ex) \<longrightarrow>
         nl_hub l |\<notin>| re_confirmed_lost ex \<and> nl_client l |\<notin>| re_confirmed_lost ex))"
proof -
  have obs: "op_observe_links ops v = (Inr (lk v), v)" for v
    using assms(2) by (simp add: observing_operator_def)
  from obs assms(3) show ?thesis
  proof (cases rule: recovery_call_cases [consumes 2, case_names quiet attempt])
    case quiet
    then show ?thesis by blast
  next
    case (attempt lost r1)
    note lost = confirmed_lost_reference [OF assms(1) attempt(1)]
    have "\<exists>h. h |\<in>| lost" using attempt(2) by auto
    moreover have "retry_open (rs_policy retry) (retry_observation retry now) \<le> unat now"
      using decide_Apply(2) [OF attempt(3) [unfolded retry_is_due_True]] by (simp add: retry_observation_def)
    moreover have "is_err r \<longrightarrow> rs_last_failure_ms retry' = Some now"
      using attempt(5,6) by (cases r1) (simp_all add: retry_failed_def)
    moreover have "re_confirmed_lost ex = lost \<and> ne_observed (re_execution ex) = selection_links (rp_desired (re_plan ex)) \<and>
        (\<forall>l. l |\<in>| ne_observed (re_execution ex) \<longrightarrow> nl_hub l |\<notin>| lost \<and> nl_client l |\<notin>| lost)"
      if ex: "r = Inr (Some ex)" for ex
    proof -
      from ex attempt(5) have "r1 = Inr ex" by (cases r1) auto
      note rec = recover_Inr [OF attempt(4) [unfolded this]]
      have "fset (ne_observed (re_execution ex)) = fset (selection_links (rp_desired (re_plan ex)))"
        by (simp add: rec(3) fset_selection_links)
      moreover have "nl_hub l |\<notin>| lost \<and> nl_client l |\<notin>| lost"
        if "l \<in> plan_links (ns_stars (rp_desired (re_plan ex)))" for l
        using that recovery_plan_facts(6) [OF rec(2)] by (auto simp: plan_links_def star_hubs_def star_clients_def)
      ultimately show ?thesis using rec(1,3) by (simp add: fset_inject)
    qed
    ultimately show ?thesis unfolding lost [symmetric] by simp
  qed
qed

text \<open>C28: on a working backend confirmed loss is repaired. When a sample confirms lost hubs, all of them and all
  observed nodes are known candidates, and the retry gate is open, the call succeeds: the backend ends
  with exactly the links of the recovery plan and with the routes of these links, the plan was made from the
  observed links, and the retry state is cleared.\<close>

theorem recovery_converges:
  assumes "tracked m hist t" "working_operator ops lk routed" "validate_inputs inputs = Inr ()"
    and "observe_hubs t now (lk w) = (Inr lost, t')" "lost \<noteq> {||}" "lost |\<subseteq>| fmdom (ti_candidates inputs)"
    and "\<And>l. l |\<in>| lk w \<Longrightarrow>
      nl_hub l |\<in>| fmdom (ti_candidates inputs) \<and> nl_client l |\<in>| fmdom (ti_candidates inputs)"
    and "retry_is_due retry now = Inr True"
  shows "\<exists>ex w'. execute_confirmed_hub_loss_recovery_with_backoff inputs t retry now ops w =
      (Inr (Some ex), t', retry_reset retry, w') \<and>
    plan_hub_loss_recovery inputs (lk w) lost = Inr (re_plan ex) \<and>
    lk w' = selection_links (rp_desired (re_plan ex)) \<and> routed w' = lk w'"
proof -
  have obs: "op_observe_links ops v = (Inr (lk v), v)" for v
    using assms(2) by (simp add: working_operator_def observing_operator_def)
  have inv: "tracker_inv t" using tracked_history_inv [OF assms(1)] by (simp add: history_inv_def)
  have "nl_hub l |\<notin>| lost \<and> nl_client l |\<notin>| lost" if "l |\<in>| lk w" for l
    using confirmed_observation(2) [OF assms(4) inv _ that] by blast
  then have "observation_current inputs (lk w) lost"
    using confirmed_observation(1) [OF assms(4) inv] assms(7) by (simp add: observation_current_def)
  from recover_works [OF assms(2,3,5,6) this] obtain ex w' where
    rec: "recover_from_observation inputs (lk w) lost ops w = (Inr ex, w')"
    and rest: "plan_hub_loss_recovery inputs (lk w) lost = Inr (re_plan ex)"
      "lk w' = selection_links (rp_desired (re_plan ex))" "routed w' = lk w'" by blast
  have "execute_confirmed_hub_loss_recovery_with_backoff inputs t retry now ops w =
      (Inr (Some ex), t', retry_reset retry, w')"
    by (simp add: execute_confirmed_hub_loss_recovery_with_backoff_def obs assms(4,5,8) rec)
  with rest show ?thesis by blast
qed

definition ex_policy :: topology_stability_policy where
  "ex_policy = \<lparr>sp_min_dwell_ms = 5, sp_min_cost_improvement = 2, sp_retry_base_ms = 4, sp_retry_max_ms = 64\<rparr>"

definition ex_retry :: hub_recovery_retry_state where
  "ex_retry = \<lparr>rs_policy = ex_policy, rs_consecutive_failures = 2, rs_last_failure_ms = Some 3\<rparr>"

lemma ex_retry_due: "retry_is_due ex_retry 16 = Inr True"
  by (simp add: retry_is_due_def ex_retry_def ex_policy_def retry_observation_def decide_topology_change_def
      stability_rejected_def retry_delay_def saturating_sub_def saturating_mul_def saturating_add_def
      checked_shl_def dwell_decision_def Let_def)

lemma ex_confirmed:
  obtains t' where "observe_hubs (ex_tracker 2) 16 (fst ({||} :: nap_link fset, {||} :: nap_link fset)) =
    (Inr {|byte_ident 1|}, t')"
  using ex_tracker_loss by auto

theorem recovery_converges_witness:
  "\<exists>ex t' w'. execute_confirmed_hub_loss_recovery_with_backoff ex_inputs (ex_tracker 2) ex_retry 16
      memory_nap_operator ({||}, {||}) = (Inr (Some ex), t', retry_reset ex_retry, w') \<and> snd w' = fst w'"
proof -
  obtain t' where "observe_hubs (ex_tracker 2) 16 (fst ({||} :: nap_link fset, {||} :: nap_link fset)) =
      (Inr {|byte_ident 1|}, t')" by (rule ex_confirmed)
  from recovery_converges [OF ex_tracker_history memory_nap_operator_works ex_inputs_valid this _ _ _ ex_retry_due]
  show ?thesis by (auto simp: ex_inputs_def)
qed

theorem recovery_gated_witness:
  "\<exists>r t' retry' w'. execute_confirmed_hub_loss_recovery_with_backoff ex_inputs (ex_tracker 2) ex_retry 16
      failing_nap_operator ({||}, {||}) = (r, t', retry', w') \<and>
     (w' \<noteq> ({||}, {||}) \<longrightarrow> (\<exists>h. reference_status 10 h [Sample 16 {||}, Sample 5 {||},
        Sample 2 {|NapLink (byte_ident 1) (byte_ident 2)|}] = Lost))"
proof -
  obtain r t' retry' w' where "execute_confirmed_hub_loss_recovery_with_backoff ex_inputs (ex_tracker 2) ex_retry 16
      failing_nap_operator ({||}, {||}) = (r, t', retry', w')" by (metis surj_pair)
  with recovery_gated [OF ex_tracker_history failing_nap_operator_observes this] show ?thesis by auto
qed

end
