(* ===== verification/Nap_Admission.thy ===== *)
theory Nap_Admission
  imports Capability
begin

text \<open>
  \<open>crates/blueroute-core/src/nap_admission.rs\<close>, \<open>nap_admission_ledger.rs\<close> and \<open>nap_admission_scope.rs\<close>: the
  admission policy, the ledger of generation-scoped reservations and its network-scoped owner. Every ledger
  operation runs under one mutex, so it is one atomic step here and concurrent callers are sequences of
  steps; \<open>lg_poisoned\<close> is the poisoned flag of that mutex.
\<close>

section \<open>Admission policy\<close>

record nap_admission_decision =
  nd_candidate :: node_id
  nd_already_attached :: bool
  nd_connected_before :: u16
  nd_remaining_after :: u16
  nd_policy_ceiling :: "u16 sourced"

definition unavailable :: "string \<Rightarrow> core_error" where
  "unavailable m = core_error_new CapabilityUnavailable m"

definition valid_id :: "'k ident \<Rightarrow> bool" where
  "valid_id node \<longleftrightarrow> list_ex (\<lambda>byte. byte \<noteq> 0) (as_bytes node)"

definition see_client :: "node_id \<Rightarrow> node_id fset \<Rightarrow> node_id fset core_result" where
  "see_client node seen =
     (if \<not> valid_id node \<or> node |\<in>| seen
      then Inl (invalid ''invalid or duplicate active PANU identity'')
      else Inr (finsert node seen))"

definition plan_nap_client_admission ::
  "node_capabilities \<Rightarrow> node_id list \<Rightarrow> node_id \<Rightarrow> nap_admission_decision core_result" where
  "plan_nap_client_admission host active_clients candidate =
     (if \<not> valid_id candidate
      then Inl (invalid ''NAP admission requires a nonzero candidate identity'')
      else if adapter_usable host \<noteq> Some True \<or> can_host_pan host \<noteq> Some True
      then Inl (unavailable ''local adapter or NAP capability is unavailable'')
      else bindR (ok_or (unavailable ''NAP client ceiling is unknown'') (cap_connection_policy_ceiling host))
        (\<lambda>policy_ceiling.
          if src_value policy_ceiling = 0
          then Inl (invalid ''NAP client ceiling must be positive'')
          else bindR (foldR see_client active_clients {||}) (\<lambda>seen.
            if fcard seen \<ge> 2 ^ 16
            then Inl (invalid ''observed PANU count exceeds supported range'')
            else let connected_before = of_nat (fcard seen) :: u16 in
              if connected_before > src_value policy_ceiling
              then Inl (core_error_new InvalidState ''observed PANU count exceeds local policy ceiling'')
              else let already_attached = candidate |\<in>| seen in
                if \<not> already_attached \<and> connected_before = src_value policy_ceiling
                then Inl (unavailable ''local NAP client ceiling reached'')
                else let connected_after = connected_before + (if already_attached then 0 else 1) in
                  Inr \<lparr>nd_candidate = candidate, nd_already_attached = already_attached,
                       nd_connected_before = connected_before,
                       nd_remaining_after = src_value policy_ceiling - connected_after,
                       nd_policy_ceiling = policy_ceiling\<rparr>)))"

section \<open>The ledger\<close>

record nap_admission_ticket =
  tk_candidate :: node_id
  tk_generation :: u64

record nap_admission_ledger =
  lg_host :: node_capabilities
  lg_active :: "(node_id, u64) fmap"
  lg_pending :: "(node_id, u64) fmap"
  lg_next_generation :: u64
  lg_closed :: bool
  lg_poisoned :: bool

definition ledger_new :: "node_capabilities \<Rightarrow> nap_admission_ledger" where
  "ledger_new host =
     \<lparr>lg_host = host, lg_active = fmempty, lg_pending = fmempty, lg_next_generation = 0, lg_closed = False,
      lg_poisoned = False\<rparr>"

definition locked ::
  "nap_admission_ledger \<Rightarrow> (nap_admission_ledger \<Rightarrow> 'a core_result \<times> nap_admission_ledger) \<Rightarrow>
   'a core_result \<times> nap_admission_ledger" where
  "locked l f =
     (if lg_poisoned l then (Inl (core_error_new InvalidState ''NAP admission ledger lock poisoned''), l)
      else f l)"

definition owner_closed :: core_error where
  "owner_closed = core_error_new InvalidState ''NAP admission owner is closed''"

definition ledger_close :: "nap_admission_ledger \<Rightarrow> unit core_result \<times> nap_admission_ledger" where
  "ledger_close l0 = locked l0 (\<lambda>l.
     (Inr (), l\<lparr>lg_closed := True, lg_active := fmempty, lg_pending := fmempty\<rparr>))"

definition ledger_update_capabilities ::
  "node_capabilities \<Rightarrow> nap_admission_ledger \<Rightarrow> unit core_result \<times> nap_admission_ledger" where
  "ledger_update_capabilities host l0 = locked l0 (\<lambda>l.
     if lg_closed l then (Inl owner_closed, l) else (Inr (), l\<lparr>lg_host := host\<rparr>))"

definition reserved_peers :: "nap_admission_ledger \<Rightarrow> node_id list" where
  "reserved_peers l = sorted_list_of_fset (fmdom (lg_active l)) @ sorted_list_of_fset (fmdom (lg_pending l))"

definition ledger_reserve ::
  "node_id \<Rightarrow> nap_admission_ledger \<Rightarrow>
   (nap_admission_ticket \<times> nap_admission_decision) core_result \<times> nap_admission_ledger" where
  "ledger_reserve candidate l0 = locked l0 (\<lambda>l.
     if lg_closed l then (Inl owner_closed, l)
     else if candidate |\<in>| fmdom (lg_pending l)
     then (Inl (core_error_new InvalidState ''NAP peer admission already pending''), l)
     else if candidate |\<in>| fmdom (lg_active l)
     then (Inl (core_error_new InvalidState
                ''NAP peer already attached; cannot transfer reservation ownership''), l)
     else case plan_nap_client_admission (lg_host l) (reserved_peers l) candidate of
       Inl e \<Rightarrow> (Inl e, l)
     | Inr decision \<Rightarrow>
         (case checked_add (lg_next_generation l) 1 of
            None \<Rightarrow> (Inl (core_error_new InvalidState ''NAP admission generation exhausted''), l)
          | Some generation \<Rightarrow>
              (Inr (\<lparr>tk_candidate = candidate, tk_generation = generation\<rparr>, decision),
               l\<lparr>lg_next_generation := generation,
                 lg_pending := fmupd candidate generation (lg_pending l)\<rparr>)))"

definition ledger_activate ::
  "nap_admission_ticket \<Rightarrow> nap_admission_ledger \<Rightarrow> bool core_result \<times> nap_admission_ledger" where
  "ledger_activate ticket l0 = locked l0 (\<lambda>l.
     if lg_closed l then (Inl owner_closed, l)
     else if fmlookup (lg_active l) (tk_candidate ticket) = Some (tk_generation ticket) then (Inr False, l)
     else if fmlookup (lg_pending l) (tk_candidate ticket) \<noteq> Some (tk_generation ticket)
     then (Inl (core_error_new InvalidState ''NAP admission ticket is stale or unknown''), l)
     else case plan_nap_client_admission (lg_host l) (reserved_peers l) (tk_candidate ticket) of
       Inl e \<Rightarrow> (Inl e, l)
     | Inr _ \<Rightarrow>
         (Inr True,
          l\<lparr>lg_pending := fmdrop (tk_candidate ticket) (lg_pending l),
            lg_active := fmupd (tk_candidate ticket) (tk_generation ticket) (lg_active l)\<rparr>))"

definition ledger_retire ::
  "nap_admission_ticket \<Rightarrow> nap_admission_ledger \<Rightarrow> bool core_result \<times> nap_admission_ledger" where
  "ledger_retire ticket l0 = locked l0 (\<lambda>l.
     if fmlookup (lg_pending l) (tk_candidate ticket) = Some (tk_generation ticket)
     then (Inr True, l\<lparr>lg_pending := fmdrop (tk_candidate ticket) (lg_pending l)\<rparr>)
     else if fmlookup (lg_active l) (tk_candidate ticket) = Some (tk_generation ticket)
     then (Inr True, l\<lparr>lg_active := fmdrop (tk_candidate ticket) (lg_active l)\<rparr>)
     else (Inr False, l))"

definition ledger_counts :: "nap_admission_ledger \<Rightarrow> (nat \<times> nat) core_result \<times> nap_admission_ledger" where
  "ledger_counts l0 = locked l0 (\<lambda>l. (Inr (fm_len (lg_active l), fm_len (lg_pending l)), l))"

section \<open>The network-scoped owner\<close>

text \<open>The private \<open>Arc<()>\<close> token of an owner is a number that stands for its allocation; \<open>Arc::ptr_eq\<close>
  compares allocations.\<close>

record network_nap_ticket =
  nt_network :: network_id
  nt_owner :: nat
  nt_inner :: nap_admission_ticket

record network_nap_admission =
  nn_network :: network_id
  nn_owner :: nat
  nn_ledger :: nap_admission_ledger

definition network_nap_admission_new ::
  "nat \<Rightarrow> network_id \<Rightarrow> node_capabilities \<Rightarrow> network_nap_admission core_result" where
  "network_nap_admission_new token network host =
     (if list_all (\<lambda>byte. byte = 0) (as_bytes network)
      then Inl (core_error_new InvalidInput ''NAP admission requires a nonzero network identity'')
      else Inr \<lparr>nn_network = network, nn_owner = token, nn_ledger = ledger_new host\<rparr>)"

definition owns :: "network_nap_admission \<Rightarrow> network_nap_ticket \<Rightarrow> bool" where
  "owns a ticket \<longleftrightarrow> nt_network ticket = nn_network a \<and> nt_owner ticket = nn_owner a"

definition scoped_reserve ::
  "node_id \<Rightarrow> network_nap_admission \<Rightarrow>
   (network_nap_ticket \<times> nap_admission_decision) core_result \<times> network_nap_admission" where
  "scoped_reserve candidate a =
     (case ledger_reserve candidate (nn_ledger a) of
        (Inl e, l) \<Rightarrow> (Inl e, a\<lparr>nn_ledger := l\<rparr>)
      | (Inr (inner, decision), l) \<Rightarrow>
          (Inr (\<lparr>nt_network = nn_network a, nt_owner = nn_owner a, nt_inner = inner\<rparr>, decision),
           a\<lparr>nn_ledger := l\<rparr>))"

definition scoped_activate ::
  "network_nap_ticket \<Rightarrow> network_nap_admission \<Rightarrow> bool core_result \<times> network_nap_admission" where
  "scoped_activate ticket a =
     (if \<not> owns a ticket
      then (Inl (core_error_new InvalidState ''NAP ticket belongs to a different network owner''), a)
      else case ledger_activate (nt_inner ticket) (nn_ledger a) of (r, l) \<Rightarrow> (r, a\<lparr>nn_ledger := l\<rparr>))"

definition scoped_retire ::
  "network_nap_ticket \<Rightarrow> network_nap_admission \<Rightarrow> bool core_result \<times> network_nap_admission" where
  "scoped_retire ticket a =
     (if \<not> owns a ticket then (Inr False, a)
      else case ledger_retire (nt_inner ticket) (nn_ledger a) of (r, l) \<Rightarrow> (r, a\<lparr>nn_ledger := l\<rparr>))"

definition scoped_close :: "network_nap_admission \<Rightarrow> unit core_result \<times> network_nap_admission" where
  "scoped_close a = (case ledger_close (nn_ledger a) of (r, l) \<Rightarrow> (r, a\<lparr>nn_ledger := l\<rparr>))"

definition scoped_update_capabilities ::
  "node_capabilities \<Rightarrow> network_nap_admission \<Rightarrow> unit core_result \<times> network_nap_admission" where
  "scoped_update_capabilities host a =
     (case ledger_update_capabilities host (nn_ledger a) of (r, l) \<Rightarrow> (r, a\<lparr>nn_ledger := l\<rparr>))"

definition scoped_counts :: "network_nap_admission \<Rightarrow> (nat \<times> nat) core_result \<times> network_nap_admission" where
  "scoped_counts a = (case ledger_counts (nn_ledger a) of (r, l) \<Rightarrow> (r, a\<lparr>nn_ledger := l\<rparr>))"

section \<open>What the policy admits\<close>

lemma valid_id_iff [simp]: "valid_id node \<longleftrightarrow> node \<noteq> zero_ident"
proof -
  have "valid_id node \<longleftrightarrow> \<not> all_zero node"
    by (auto simp: valid_id_def all_zero_def list_ex_iff list_all_iff simp del: all_zero_iff)
  then show ?thesis by simp
qed

lemma see_clients_Inr:
  "foldR see_client ns seen = Inr seen' \<longleftrightarrow>
     distinct ns \<and> set ns \<inter> fset seen = {} \<and> (\<forall>n\<in>set ns. valid_id n) \<and> seen' = fset_of_list ns |\<union>| seen"
proof (induction ns arbitrary: seen)
  case (Cons n ns)
  have "see_client n seen = Inr s \<longleftrightarrow> valid_id n \<and> n |\<notin>| seen \<and> s = finsert n seen" for s
    by (auto simp: see_client_def)
  then show ?case unfolding foldR.simps bindR_eq_Inr by (auto simp: Cons.IH)
qed auto

text \<open>The client ceiling a host offers, when it may host at all.\<close>

definition admission_ceiling :: "node_capabilities \<Rightarrow> nat" where
  "admission_ceiling host =
     (if adapter_usable host = Some True \<and> can_host_pan host = Some True
      then (case cap_connection_policy_ceiling host of None \<Rightarrow> 0 | Some c \<Rightarrow> unat (src_value c)) else 0)"

lemma unat_of_nat_u16: "n < 2 ^ 16 \<Longrightarrow> unat (of_nat n :: u16) = n"
  by (simp add: unsigned_of_nat take_bit_nat_eq_self)

lemma plan_admission_steps:
  assumes "candidate \<noteq> zero_ident" "adapter_usable host = Some True" "can_host_pan host = Some True"
    and c: "cap_connection_policy_ceiling host = Some c" "src_value c \<noteq> 0"
    and clients: "foldR see_client clients {||} = Inr seen"
  shows "card (insert candidate (fset seen)) \<le> unat (src_value c) \<Longrightarrow>
      plan_nap_client_admission host clients candidate =
        Inr \<lparr>nd_candidate = candidate, nd_already_attached = (candidate |\<in>| seen),
             nd_connected_before = of_nat (fcard seen),
             nd_remaining_after = src_value c - (of_nat (fcard seen) + (if candidate |\<in>| seen then 0 else 1)),
             nd_policy_ceiling = c\<rparr>"
    and "\<not> card (insert candidate (fset seen)) \<le> unat (src_value c) \<Longrightarrow>
      is_err (plan_nap_client_admission host clients candidate)"
proof -
  have ceil: "unat (src_value c) < 2 ^ 16" using unat_less_pow [of "src_value c"] by simp
  have card: "card (insert candidate (fset seen)) = (if candidate |\<in>| seen then fcard seen else Suc (fcard seen))"
    by (simp add: fcard.rep_eq insert_absorb)
  have "(card (insert candidate (fset seen)) \<le> unat (src_value c) \<longrightarrow>
      plan_nap_client_admission host clients candidate =
        Inr \<lparr>nd_candidate = candidate, nd_already_attached = (candidate |\<in>| seen),
             nd_connected_before = of_nat (fcard seen),
             nd_remaining_after = src_value c - (of_nat (fcard seen) + (if candidate |\<in>| seen then 0 else 1)),
             nd_policy_ceiling = c\<rparr>) \<and>
      (\<not> card (insert candidate (fset seen)) \<le> unat (src_value c) \<longrightarrow>
         is_err (plan_nap_client_admission host clients candidate))"
  proof (cases "fcard seen < 2 ^ 16")
    case True
    have lt: "of_nat (fcard seen) > src_value c \<longleftrightarrow> fcard seen > unat (src_value c)"
      and eq: "of_nat (fcard seen) = src_value c \<longleftrightarrow> fcard seen = unat (src_value c)"
      using unat_of_nat_u16 [OF True] by (metis word_less_nat_alt, metis word_unat_eq_iff)
    show ?thesis using assms True
      by (auto simp: plan_nap_client_admission_def Let_def lt eq card)
  next
    case False
    then show ?thesis using assms ceil
      by (auto simp: plan_nap_client_admission_def Let_def card)
  qed
  then show "card (insert candidate (fset seen)) \<le> unat (src_value c) \<Longrightarrow>
      plan_nap_client_admission host clients candidate =
        Inr \<lparr>nd_candidate = candidate, nd_already_attached = (candidate |\<in>| seen),
             nd_connected_before = of_nat (fcard seen),
             nd_remaining_after = src_value c - (of_nat (fcard seen) + (if candidate |\<in>| seen then 0 else 1)),
             nd_policy_ceiling = c\<rparr>"
    and "\<not> card (insert candidate (fset seen)) \<le> unat (src_value c) \<Longrightarrow>
      is_err (plan_nap_client_admission host clients candidate)" by blast+
qed

lemma plan_admission_gate:
  assumes "plan_nap_client_admission host clients candidate = Inr d"
  obtains c where "candidate \<noteq> zero_ident" "adapter_usable host = Some True" "can_host_pan host = Some True"
    "cap_connection_policy_ceiling host = Some c" "src_value c \<noteq> 0"
    "foldR see_client clients {||} = Inr (fset_of_list clients)" "distinct clients" "zero_ident \<notin> set clients"
    "admission_ceiling host = unat (src_value c)"
  using assms
  by (auto simp: plan_nap_client_admission_def bindR_eq_Inr ok_or_eq_Inr see_clients_Inr admission_ceiling_def
      split: if_splits)

lemma plan_admission_facts:
  assumes "plan_nap_client_admission host clients candidate = Inr d"
  shows "card (insert candidate (set clients)) \<le> admission_ceiling host"
    "nd_candidate d = candidate" "nd_already_attached d \<longleftrightarrow> candidate \<in> set clients"
    "unat (nd_connected_before d) = card (set clients)"
    "unat (nd_remaining_after d) = admission_ceiling host - card (insert candidate (set clients))"
proof -
  from assms obtain c where c: "candidate \<noteq> zero_ident" "adapter_usable host = Some True"
    "can_host_pan host = Some True" "cap_connection_policy_ceiling host = Some c" "src_value c \<noteq> 0"
    "foldR see_client clients {||} = Inr (fset_of_list clients)"
    and ceil: "admission_ceiling host = unat (src_value c)"
    by (rule plan_admission_gate)
  let ?n = "card (insert candidate (set clients))"
  have fit: "?n \<le> unat (src_value c)"
    using plan_admission_steps(2) [OF c] assms by (auto simp: fset_of_list.rep_eq)
  have d: "d = \<lparr>nd_candidate = candidate, nd_already_attached = (candidate |\<in>| fset_of_list clients),
             nd_connected_before = of_nat (fcard (fset_of_list clients)),
             nd_remaining_after = src_value c - (of_nat (fcard (fset_of_list clients)) +
               (if candidate |\<in>| fset_of_list clients then 0 else 1)),
             nd_policy_ceiling = c\<rparr>"
    using plan_admission_steps(1) [OF c] fit assms by (simp add: fset_of_list.rep_eq)
  have small: "?n < 2 ^ 16" using fit unat_less_pow [of "src_value c"] by simp
  have len: "fcard (fset_of_list clients) = card (set clients)" by (simp add: fcard.rep_eq fset_of_list.rep_eq)
  have "card (set clients) \<le> ?n" by (simp add: card_insert_le)
  then show "unat (nd_connected_before d) = card (set clients)"
    using small by (simp add: d len unat_of_nat_u16)
  have "of_nat (fcard (fset_of_list clients)) + (if candidate |\<in>| fset_of_list clients then 0 else 1) =
      (of_nat ?n :: u16)"
    by (simp add: len fset_of_list_elem insert_absorb)
  moreover have "unat (src_value c - of_nat ?n) = unat (src_value c) - ?n"
    using fit small by (subst unat_sub_le) (simp_all add: word_le_nat_alt unat_of_nat_u16)
  ultimately show "unat (nd_remaining_after d) = admission_ceiling host - ?n"
    by (simp add: d ceil)
  show "?n \<le> admission_ceiling host" "nd_candidate d = candidate"
    "nd_already_attached d \<longleftrightarrow> candidate \<in> set clients"
    using fit by (simp_all add: d ceil fset_of_list_elem)
qed

text \<open>The admission policy never overbooks a NAP. A decision is made exactly for a nonzero candidate, on a
  host that is usable, may host and has a positive known ceiling, from observed clients that are nonzero and
  not repeated, when the clients together with the candidate fit under the ceiling. The decision then
  states the clients there were and the slots that are left, in 16-bit arithmetic without wrap-around.\<close>

theorem nap_admission_exact:
  "((\<exists>d. plan_nap_client_admission host clients candidate = Inr d) \<longleftrightarrow>
      candidate \<noteq> zero_ident \<and> distinct clients \<and> zero_ident \<notin> set clients \<and>
      card (insert candidate (set clients)) \<le> admission_ceiling host) \<and>
   (\<forall>d. plan_nap_client_admission host clients candidate = Inr d \<longrightarrow>
      nd_candidate d = candidate \<and> (nd_already_attached d \<longleftrightarrow> candidate \<in> set clients) \<and>
      unat (nd_connected_before d) = card (set clients) \<and>
      unat (nd_remaining_after d) = admission_ceiling host - card (insert candidate (set clients)))"
proof -
  have "\<exists>d. plan_nap_client_admission host clients candidate = Inr d"
    if *: "candidate \<noteq> zero_ident" "distinct clients" "zero_ident \<notin> set clients"
      "card (insert candidate (set clients)) \<le> admission_ceiling host"
  proof -
    have "0 < card (insert candidate (set clients))" by (simp add: card_gt_0_iff)
    with *(4) have "0 < admission_ceiling host" by linarith
    then obtain c where c: "adapter_usable host = Some True" "can_host_pan host = Some True"
      "cap_connection_policy_ceiling host = Some c" "src_value c \<noteq> 0" "admission_ceiling host = unat (src_value c)"
      by (auto simp: admission_ceiling_def unat_gt_0 split: if_splits option.splits)
    have "foldR see_client clients {||} = Inr (fset_of_list clients)"
      using *(2,3) by (auto simp: see_clients_Inr)
    from plan_admission_steps(1) [OF *(1) c(1-4) this] show ?thesis
      using *(4) c(5) by (simp add: fset_of_list.rep_eq)
  qed
  moreover have "candidate \<noteq> zero_ident \<and> distinct clients \<and> zero_ident \<notin> set clients"
    if "plan_nap_client_admission host clients candidate = Inr d" for d
    using that by (rule plan_admission_gate) blast
  ultimately show ?thesis using plan_admission_facts [of host clients candidate] by blast
qed

section \<open>The ledger as a set of live tickets\<close>

definition live :: "nap_admission_ledger \<Rightarrow> nap_admission_ticket set" where
  "live l = {t. fmlookup (lg_active l) (tk_candidate t) = Some (tk_generation t) \<or>
                fmlookup (lg_pending l) (tk_candidate t) = Some (tk_generation t)}"

definition ledger_inv :: "nap_admission_ticket set \<Rightarrow> nap_admission_ledger \<Rightarrow> bool" where
  "ledger_inv issued l \<longleftrightarrow>
     fmdom (lg_active l) |\<inter>| fmdom (lg_pending l) = {||} \<and>
     live l \<subseteq> issued \<and> inj_on tk_generation issued \<and>
     (\<forall>t\<in>issued. tk_generation t \<le> lg_next_generation l)"

lemma ledger_new_inv: "ledger_inv {} (ledger_new host)"
  by (simp add: ledger_inv_def ledger_new_def live_def)

lemma locked_cases:
  "locked l f = (r, l') \<Longrightarrow> (lg_poisoned l \<and> is_err r \<and> l' = l) \<or> (\<not> lg_poisoned l \<and> f l = (r, l'))"
  by (auto simp: locked_def split: if_splits)

text \<open>Each operation as a change of the set of live tickets.\<close>

lemma reserve_ledger:
  assumes inv: "ledger_inv issued l" and res: "ledger_reserve candidate l = (Inr (t, d), l')"
  shows "t \<notin> issued" "\<forall>s\<in>issued. tk_generation s < tk_generation t" "tk_candidate t = candidate"
    "live l' = insert t (live l)" "ledger_inv (insert t issued) l'"
    "\<exists>d. plan_nap_client_admission (lg_host l) (reserved_peers l) candidate = Inr d" "lg_host l' = lg_host l"
    "candidate |\<notin>| fmdom (lg_active l)" "candidate |\<notin>| fmdom (lg_pending l)"
proof -
  from res obtain g where g: "checked_add (lg_next_generation l) 1 = Some g"
    and free: "candidate |\<notin>| fmdom (lg_active l)" "candidate |\<notin>| fmdom (lg_pending l)"
    and plan: "\<exists>d. plan_nap_client_admission (lg_host l) (reserved_peers l) candidate = Inr d"
    and t: "t = \<lparr>tk_candidate = candidate, tk_generation = g\<rparr>"
    and l': "l' = l\<lparr>lg_next_generation := g, lg_pending := fmupd candidate g (lg_pending l)\<rparr>"
    by (auto simp: ledger_reserve_def locked_def split: if_splits sum.splits option.splits)
  have "lg_next_generation l < g"
    using checked_add_SomeD [OF g, THEN conjunct1] by (simp add: word_less_nat_alt)
  then show new: "\<forall>s\<in>issued. tk_generation s < tk_generation t"
    using inv by (auto simp: ledger_inv_def t)
  then show fresh: "t \<notin> issued" by blast
  show "tk_candidate t = candidate" "lg_host l' = lg_host l" by (simp_all add: t l')
  show "candidate |\<notin>| fmdom (lg_active l)" "candidate |\<notin>| fmdom (lg_pending l)" by (rule free)+
  show live: "live l' = insert t (live l)"
    using free by (auto simp: live_def t l' fmdom_notD)
  show "\<exists>d. plan_nap_client_admission (lg_host l) (reserved_peers l) candidate = Inr d" by (rule plan)
  have "inj_on tk_generation (insert t issued)"
    using inv new by (auto simp: ledger_inv_def)
  moreover have "\<forall>s\<in>insert t issued. tk_generation s \<le> lg_next_generation l'"
    using new by (auto simp: t l' less_imp_le)
  moreover have "fmdom (lg_active l') |\<inter>| fmdom (lg_pending l') = {||}"
    using inv free by (simp add: ledger_inv_def l')
  ultimately show "ledger_inv (insert t issued) l'"
    using inv live unfolding ledger_inv_def by blast
qed

lemma activate_ledger:
  assumes inv: "ledger_inv issued l" and act: "ledger_activate t l = (Inr b, l')"
  shows "t \<in> live l" "live l' = live l" "ledger_inv issued l'"
proof -
  show "t \<in> live l"
    using act by (auto simp: ledger_activate_def locked_def live_def split: if_splits sum.splits)
  have step: "l' = l \<or> (fmlookup (lg_pending l) (tk_candidate t) = Some (tk_generation t) \<and>
      l' = l\<lparr>lg_pending := fmdrop (tk_candidate t) (lg_pending l),
             lg_active := fmupd (tk_candidate t) (tk_generation t) (lg_active l)\<rparr>)"
    using act by (auto simp: ledger_activate_def locked_def split: if_splits sum.splits)
  show live: "live l' = live l"
  proof (cases "l' = l")
    case False
    with step have p: "fmlookup (lg_pending l) (tk_candidate t) = Some (tk_generation t)"
      and l': "l' = l\<lparr>lg_pending := fmdrop (tk_candidate t) (lg_pending l),
             lg_active := fmupd (tk_candidate t) (tk_generation t) (lg_active l)\<rparr>" by auto
    have "tk_candidate t |\<notin>| fmdom (lg_active l)"
      using inv fmdomI [OF p] unfolding ledger_inv_def by blast
    then have "fmlookup (lg_active l) (tk_candidate t) = None" by (rule fmdom_notD)
    then show ?thesis using p by (auto simp: live_def l')
  qed simp
  have "fmdom (lg_active l') |\<inter>| fmdom (lg_pending l') = {||}"
    using step inv by (auto simp: ledger_inv_def)
  then show "ledger_inv issued l'" using inv live step unfolding ledger_inv_def by auto
qed

lemma retire_ledger:
  assumes inv: "ledger_inv issued l" and ret: "ledger_retire t l = (Inr b, l')"
  shows "b \<longleftrightarrow> t \<in> live l" "live l' = live l - {t}" "ledger_inv issued l'"
proof -
  consider (pending) "fmlookup (lg_pending l) (tk_candidate t) = Some (tk_generation t)" "b"
      "l' = l\<lparr>lg_pending := fmdrop (tk_candidate t) (lg_pending l)\<rparr>"
    | (active) "fmlookup (lg_pending l) (tk_candidate t) \<noteq> Some (tk_generation t)"
      "fmlookup (lg_active l) (tk_candidate t) = Some (tk_generation t)" "b"
      "l' = l\<lparr>lg_active := fmdrop (tk_candidate t) (lg_active l)\<rparr>"
    | (none) "t \<notin> live l" "\<not> b" "l' = l"
    using ret by (auto simp: ledger_retire_def locked_def live_def split: if_splits)
  then have "(b \<longleftrightarrow> t \<in> live l) \<and> live l' = live l - {t}"
  proof cases
    case pending
    then have "fmlookup (lg_active l) (tk_candidate t) = None"
      using inv fmdomI [OF pending(1)] unfolding ledger_inv_def by (blast intro: fmdom_notD)
    then show ?thesis using pending by (auto simp: live_def)
  next
    case active
    then have "fmlookup (lg_pending l) (tk_candidate t) = None"
      using inv fmdomI [OF active(2)] unfolding ledger_inv_def by (blast intro: fmdom_notD)
    then show ?thesis using active by (auto simp: live_def)
  qed auto
  then show "b \<longleftrightarrow> t \<in> live l" and live: "live l' = live l - {t}" by blast+
  have "fmdom (lg_active l') |\<inter>| fmdom (lg_pending l') = {||} \<and> lg_next_generation l' = lg_next_generation l"
    using ret inv by (auto simp: ledger_retire_def locked_def ledger_inv_def split: if_splits)
  then show "ledger_inv issued l'" using inv live unfolding ledger_inv_def by auto
qed

lemma close_ledger:
  assumes "ledger_inv issued l" "ledger_close l = (Inr u, l')"
  shows "live l' = {}" "ledger_inv issued l'" "lg_closed l'"
  using assms by (auto simp: ledger_close_def locked_def live_def ledger_inv_def split: if_splits)

lemma update_ledger:
  assumes "ledger_inv issued l" "ledger_update_capabilities host l = (r, l')"
  shows "live l' = live l" "ledger_inv issued l'"
  using assms
  by (auto simp: ledger_update_capabilities_def locked_def live_def ledger_inv_def split: if_splits)

lemma failed_operation_keeps_ledger:
  "ledger_reserve c l = (Inl e, l') \<Longrightarrow> l' = l" "ledger_activate t l = (Inl e, l') \<Longrightarrow> l' = l"
  "ledger_retire t l = (Inl e, l') \<Longrightarrow> l' = l" "ledger_close l = (Inl e, l') \<Longrightarrow> l' = l"
  by (auto simp: ledger_reserve_def ledger_activate_def ledger_retire_def ledger_close_def locked_def
      split: if_splits sum.splits option.splits)

lemma ticket_eta [simp]: "\<lparr>tk_candidate = tk_candidate t, tk_generation = tk_generation t\<rparr> = t"
  for t :: nap_admission_ticket
  by (cases t) simp

lemma finite_live: "finite (live l)"
proof -
  let ?f = "\<lambda>(c, g). \<lparr>tk_candidate = c, tk_generation = g\<rparr>"
  have "live l \<subseteq> ?f ` (set (sorted_list_of_fmap (lg_active l)) \<union> set (sorted_list_of_fmap (lg_pending l)))"
  proof
    fix t assume "t \<in> live l"
    then have "(tk_candidate t, tk_generation t) \<in>
        set (sorted_list_of_fmap (lg_active l)) \<union> set (sorted_list_of_fmap (lg_pending l))"
      by (auto simp: live_def set_sorted_list_of_fmap)
    then have "?f (tk_candidate t, tk_generation t) \<in>
        ?f ` (set (sorted_list_of_fmap (lg_active l)) \<union> set (sorted_list_of_fmap (lg_pending l)))" by (rule imageI)
    then show "t \<in> ?f ` (set (sorted_list_of_fmap (lg_active l)) \<union> set (sorted_list_of_fmap (lg_pending l)))"
      unfolding prod.case ticket_eta .
  qed
  then show ?thesis by (rule finite_subset) simp
qed

lemma live_candidates:
  assumes "ledger_inv issued l"
  shows "tk_candidate ` live l = set (reserved_peers l)" "inj_on tk_candidate (live l)"
proof -
  show "tk_candidate ` live l = set (reserved_peers l)"
  proof (rule set_eqI)
    fix c
    have "c \<in> tk_candidate ` live l \<longleftrightarrow> (\<exists>g. \<lparr>tk_candidate = c, tk_generation = g\<rparr> \<in> live l)"
      by (metis image_iff nap_admission_ticket.select_convs(1) ticket_eta)
    then show "c \<in> tk_candidate ` live l \<longleftrightarrow> c \<in> set (reserved_peers l)"
      by (auto simp: live_def reserved_peers_def fmlookup_dom_iff)
  qed
  have disj: "fmlookup (lg_active l) c = None \<or> fmlookup (lg_pending l) c = None" for c
    using assms unfolding ledger_inv_def by (metis fempty_iff finter_iff fmdomI not_Some_eq)
  show "inj_on tk_candidate (live l)"
  proof (rule inj_onI)
    fix s t assume "s \<in> live l" "t \<in> live l" "tk_candidate s = tk_candidate t"
    then have "tk_generation s = tk_generation t" using disj [of "tk_candidate t"] by (auto simp: live_def)
    then show "s = t" using \<open>tk_candidate s = tk_candidate t\<close> by (metis ticket_eta)
  qed
qed

section \<open>Ticketed reservations\<close>

text \<open>What a client relies on when it holds tickets: every step of the provider issues at most one ticket, which
  is new, and makes no other ticket live. A ticket that is no longer live therefore never is again, so a
  delayed callback that still holds it can do no harm.\<close>

locale ticketed =
  fixes live_of :: "'s \<Rightarrow> 't set" and inv :: "'t set \<Rightarrow> 's \<Rightarrow> bool" and step :: "'e \<Rightarrow> 's \<Rightarrow> 't option \<times> 's"
  assumes live_issued: "inv issued s \<Longrightarrow> live_of s \<subseteq> issued"
    and step_inv: "inv issued s \<Longrightarrow> step e s = (r, s') \<Longrightarrow> inv (set_option r \<union> issued) s'"
    and step_live: "inv issued s \<Longrightarrow> step e s = (r, s') \<Longrightarrow> live_of s' \<subseteq> set_option r \<union> live_of s"
    and step_fresh: "inv issued s \<Longrightarrow> step e s = (Some t, s') \<Longrightarrow> t \<notin> issued"
begin

fun run_events :: "'e list \<Rightarrow> 's \<Rightarrow> 's" where
  "run_events [] s = s"
| "run_events (e # es) s = run_events es (snd (step e s))"

lemma retired_stays_retired:
  assumes "inv issued s" "t \<in> issued" "t \<notin> live_of s"
  shows "t \<notin> live_of (run_events es s)"
  using assms
proof (induction es arbitrary: issued s)
  case (Cons e es)
  obtain r s' where st: "step e s = (r, s')" by (cases "step e s")
  have "t \<notin> set_option r" using step_fresh [OF Cons.prems(1), of e t s'] Cons.prems(2) st by (cases r) auto
  then have "t \<notin> live_of s'" using step_live [OF Cons.prems(1) st] Cons.prems(3) by blast
  moreover have "inv (set_option r \<union> issued) s'" by (rule step_inv [OF Cons.prems(1) st])
  ultimately show ?case using Cons.IH [of "set_option r \<union> issued" s'] Cons.prems(2) st by simp
qed simp

lemma issued_tickets_live_or_dead:
  assumes "inv issued s" "t \<in> live_of (run_events es s)" "t \<in> issued"
  shows "t \<in> live_of s"
  using retired_stays_retired [OF assms(1,3)] assms(2) by blast

end

datatype ledger_event =
    Reserve node_id | Activate nap_admission_ticket | Retire nap_admission_ticket | Close
  | UpdateCapabilities node_capabilities

fun ledger_step :: "ledger_event \<Rightarrow> nap_admission_ledger \<Rightarrow> nap_admission_ticket option \<times> nap_admission_ledger" where
  "ledger_step (Reserve c) l =
     (case ledger_reserve c l of (Inr (t, _), l') \<Rightarrow> (Some t, l') | (Inl _, l') \<Rightarrow> (None, l'))"
| "ledger_step (Activate t) l = (None, snd (ledger_activate t l))"
| "ledger_step (Retire t) l = (None, snd (ledger_retire t l))"
| "ledger_step Close l = (None, snd (ledger_close l))"
| "ledger_step (UpdateCapabilities host) l = (None, snd (ledger_update_capabilities host l))"

lemma ledger_step_facts:
  assumes inv: "ledger_inv issued l" and st: "ledger_step e l = (r, l')"
  shows "ledger_inv (set_option r \<union> issued) l' \<and> live l' \<subseteq> set_option r \<union> live l \<and> set_option r \<inter> issued = {}"
proof (cases e)
  case (Reserve c)
  show ?thesis
  proof (cases "ledger_reserve c l")
    case (Pair x l1)
    show ?thesis
    proof (cases x)
      case (Inl e)
      then show ?thesis using inv st Reserve Pair failed_operation_keeps_ledger(1) by auto
    next
      case (Inr p)
      obtain t d where p: "p = (t, d)" by (cases p)
      then have res: "ledger_reserve c l = (Inr (t, d), l')" and r: "r = Some t"
        using st Reserve Pair Inr by auto
      show ?thesis using reserve_ledger [OF inv res] r by auto
    qed
  qed
next
  case (Activate t)
  obtain x where x: "ledger_activate t l = (x, l')" using st Activate by (cases "ledger_activate t l") auto
  then show ?thesis using inv st Activate activate_ledger [OF inv]
    by (cases x) (auto dest: failed_operation_keeps_ledger(2))
next
  case (Retire t)
  obtain x where x: "ledger_retire t l = (x, l')" using st Retire by (cases "ledger_retire t l") auto
  then show ?thesis using inv st Retire retire_ledger [OF inv]
    by (cases x) (auto dest: failed_operation_keeps_ledger(3))
next
  case Close
  obtain x where x: "ledger_close l = (x, l')" using st Close by (cases "ledger_close l") auto
  then show ?thesis using inv st Close close_ledger [OF inv]
    by (cases x) (auto dest: failed_operation_keeps_ledger(4))
next
  case (UpdateCapabilities host)
  obtain x where x: "ledger_update_capabilities host l = (x, l')"
    using st UpdateCapabilities by (cases "ledger_update_capabilities host l") auto
  then show ?thesis using inv st UpdateCapabilities update_ledger [OF inv x] by auto
qed

interpretation nap_ledger: ticketed live ledger_inv ledger_step
proof
  show "live l \<subseteq> issued" if "ledger_inv issued l" for issued l
    using that by (simp add: ledger_inv_def)
  show "ledger_inv (set_option r \<union> issued) l'" if "ledger_inv issued l" "ledger_step e l = (r, l')" for issued l e r l'
    using ledger_step_facts [OF that] by blast
  show "live l' \<subseteq> set_option r \<union> live l" if "ledger_inv issued l" "ledger_step e l = (r, l')" for issued l e r l'
    using ledger_step_facts [OF that] by blast
  show "t \<notin> issued" if "ledger_inv issued l" "ledger_step e l = (Some t, l')" for issued l e t l'
    using ledger_step_facts [OF that] by auto
qed

datatype scoped_event =
    ScopedReserve node_id | ScopedActivate network_nap_ticket | ScopedRetire network_nap_ticket | ScopedClose
  | ScopedUpdate node_capabilities

fun scoped_step ::
  "scoped_event \<Rightarrow> network_nap_admission \<Rightarrow> network_nap_ticket option \<times> network_nap_admission" where
  "scoped_step (ScopedReserve c) a =
     (case scoped_reserve c a of (Inr (t, _), a') \<Rightarrow> (Some t, a') | (Inl _, a') \<Rightarrow> (None, a'))"
| "scoped_step (ScopedActivate t) a = (None, snd (scoped_activate t a))"
| "scoped_step (ScopedRetire t) a = (None, snd (scoped_retire t a))"
| "scoped_step ScopedClose a = (None, snd (scoped_close a))"
| "scoped_step (ScopedUpdate host) a = (None, snd (scoped_update_capabilities host a))"

definition scope_ticket :: "network_nap_admission \<Rightarrow> nap_admission_ticket \<Rightarrow> network_nap_ticket" where
  "scope_ticket a i = \<lparr>nt_network = nn_network a, nt_owner = nn_owner a, nt_inner = i\<rparr>"

definition scoped_live :: "network_nap_admission \<Rightarrow> network_nap_ticket set" where
  "scoped_live a = scope_ticket a ` live (nn_ledger a)"

definition scoped_inv :: "network_nap_ticket set \<Rightarrow> network_nap_admission \<Rightarrow> bool" where
  "scoped_inv issued a \<longleftrightarrow> (\<exists>inner. issued = scope_ticket a ` inner \<and> ledger_inv inner (nn_ledger a))"

lemma scope_ticket_inject [simp]: "scope_ticket a i = scope_ticket a j \<longleftrightarrow> i = j"
  by (simp add: scope_ticket_def)

lemma scope_ticket_same: "nn_network b = nn_network a \<Longrightarrow> nn_owner b = nn_owner a \<Longrightarrow> scope_ticket b = scope_ticket a"
  by (simp add: scope_ticket_def fun_eq_iff)

text \<open>A step of the owner is a step of its ledger, or none for a ticket of another owner.\<close>

lemma scoped_step_ledger:
  assumes "scoped_step e a = (r, a')"
  shows "nn_network a' = nn_network a \<and> nn_owner a' = nn_owner a \<and>
    ((r = None \<and> a' = a) \<or>
     (\<exists>le lr. ledger_step le (nn_ledger a) = (lr, nn_ledger a') \<and> r = map_option (scope_ticket a) lr))"
proof (cases e)
  case (ScopedReserve c)
  obtain x l where x: "ledger_reserve c (nn_ledger a) = (x, l)" by (cases "ledger_reserve c (nn_ledger a)")
  show ?thesis
  proof (cases x)
    case (Inl er)
    then have "ledger_step (Reserve c) (nn_ledger a) = (None, nn_ledger a')" "r = map_option (scope_ticket a) None"
      "nn_network a' = nn_network a" "nn_owner a' = nn_owner a"
      using assms ScopedReserve x by (auto simp: scoped_reserve_def)
    then show ?thesis by blast
  next
    case (Inr p)
    then have "ledger_step (Reserve c) (nn_ledger a) = (Some (fst p), nn_ledger a')"
      "r = map_option (scope_ticket a) (Some (fst p))" "nn_network a' = nn_network a" "nn_owner a' = nn_owner a"
      using assms ScopedReserve x by (auto simp: scoped_reserve_def scope_ticket_def split: prod.splits)
    then show ?thesis by blast
  qed
next
  case (ScopedActivate t)
  then have "nn_network a' = nn_network a \<and> nn_owner a' = nn_owner a \<and> r = None \<and>
      (a' = a \<or> ledger_step (Activate (nt_inner t)) (nn_ledger a) = (None, nn_ledger a'))"
    using assms by (auto simp: scoped_activate_def split: prod.splits if_splits)
  then show ?thesis by (metis option.map(1))
next
  case (ScopedRetire t)
  then have "nn_network a' = nn_network a \<and> nn_owner a' = nn_owner a \<and> r = None \<and>
      (a' = a \<or> ledger_step (Retire (nt_inner t)) (nn_ledger a) = (None, nn_ledger a'))"
    using assms by (auto simp: scoped_retire_def split: prod.splits if_splits)
  then show ?thesis by (metis option.map(1))
next
  case ScopedClose
  then have "nn_network a' = nn_network a \<and> nn_owner a' = nn_owner a \<and> r = None \<and>
      ledger_step Close (nn_ledger a) = (None, nn_ledger a')"
    using assms by (auto simp: scoped_close_def split: prod.splits)
  then show ?thesis by (metis option.map(1))
next
  case (ScopedUpdate host)
  then have "nn_network a' = nn_network a \<and> nn_owner a' = nn_owner a \<and> r = None \<and>
      ledger_step (UpdateCapabilities host) (nn_ledger a) = (None, nn_ledger a')"
    using assms by (auto simp: scoped_update_capabilities_def split: prod.splits)
  then show ?thesis by (metis option.map(1))
qed

lemma scoped_step_facts:
  assumes inv: "scoped_inv issued a" and st: "scoped_step e a = (r, a')"
  shows "scoped_inv (set_option r \<union> issued) a' \<and> scoped_live a' \<subseteq> set_option r \<union> scoped_live a \<and>
    set_option r \<inter> issued = {}"
proof -
  from inv obtain inner where inner: "issued = scope_ticket a ` inner" "ledger_inv inner (nn_ledger a)"
    by (auto simp: scoped_inv_def)
  from scoped_step_ledger [OF st] consider "r = None" "a' = a"
    | le lr where "ledger_step le (nn_ledger a) = (lr, nn_ledger a')" "r = map_option (scope_ticket a) lr"
      "nn_network a' = nn_network a" "nn_owner a' = nn_owner a" by blast
  then show ?thesis
  proof cases
    case 1
    then show ?thesis using inv by simp
  next
    case 2
    note same = scope_ticket_same [OF 2(3,4)]
    note facts = ledger_step_facts [OF inner(2) 2(1)]
    have r: "set_option r = scope_ticket a ` set_option lr" by (simp add: 2(2) option.set_map)
    have "set_option r \<union> issued = scope_ticket a' ` (set_option lr \<union> inner)"
      by (simp add: r inner(1) same image_Un)
    then have "scoped_inv (set_option r \<union> issued) a'" using facts by (auto simp: scoped_inv_def)
    moreover have "scoped_live a' \<subseteq> set_option r \<union> scoped_live a"
      using facts unfolding scoped_live_def r same by blast
    moreover have "set_option r \<inter> issued = {}" using facts unfolding r inner(1) by auto
    ultimately show ?thesis by blast
  qed
qed

interpretation nap_scope: ticketed scoped_live scoped_inv scoped_step
proof
  show "scoped_live a \<subseteq> issued" if "scoped_inv issued a" for issued a
    using that by (auto simp: scoped_inv_def scoped_live_def ledger_inv_def)
  show "scoped_inv (set_option r \<union> issued) a'" if "scoped_inv issued a" "scoped_step e a = (r, a')" for issued a e r a'
    using scoped_step_facts [OF that] by blast
  show "scoped_live a' \<subseteq> set_option r \<union> scoped_live a" if "scoped_inv issued a" "scoped_step e a = (r, a')"
    for issued a e r a'
    using scoped_step_facts [OF that] by blast
  show "t \<notin> issued" if "scoped_inv issued a" "scoped_step e a = (Some t, a')" for issued a e t a'
    using scoped_step_facts [OF that] by auto
qed

section \<open>Properties of reachable ledgers\<close>

inductive ledger_reachable :: "nap_admission_ticket set \<Rightarrow> nap_admission_ledger \<Rightarrow> bool" where
  new: "ledger_reachable {} (ledger_new host)"
| step: "ledger_reachable issued l \<Longrightarrow> ledger_step e l = (r, l') \<Longrightarrow> ledger_reachable (set_option r \<union> issued) l'"

lemma ledger_reachable_inv: "ledger_reachable issued l \<Longrightarrow> ledger_inv issued l"
proof (induction rule: ledger_reachable.induct)
  case (step issued l e r l')
  then show ?case by (blast dest: ledger_step_facts)
qed (rule ledger_new_inv)

inductive scope_reachable :: "network_nap_ticket set \<Rightarrow> network_nap_admission \<Rightarrow> bool" where
  new: "network_nap_admission_new token network host = Inr a \<Longrightarrow> scope_reachable {} a"
| step: "scope_reachable issued a \<Longrightarrow> scoped_step e a = (r, a') \<Longrightarrow> scope_reachable (set_option r \<union> issued) a'"

lemma scope_reachable_inv: "scope_reachable issued a \<Longrightarrow> scoped_inv issued a"
proof (induction rule: scope_reachable.induct)
  case (new token network host a)
  then have "nn_ledger a = ledger_new host"
    by (auto simp: network_nap_admission_new_def split: if_splits)
  then show ?case using ledger_new_inv [of host] by (auto simp: scoped_inv_def)
next
  case (step issued a e r a')
  then show ?case by (blast dest: scoped_step_facts)
qed

lemma reserve_within_ceiling:
  assumes inv: "ledger_inv issued l" and res: "ledger_reserve c l = (Inr (t, d), l')"
  shows "card (live l') \<le> admission_ceiling (lg_host l)"
proof -
  note facts = reserve_ledger [OF inv res]
  obtain d' where d': "plan_nap_client_admission (lg_host l) (reserved_peers l) c = Inr d'" using facts(6) by blast
  have "tk_candidate ` live l' = insert c (set (reserved_peers l))"
    using facts(3,4) live_candidates(1) [OF inv] by simp
  then have "card (live l') = card (insert c (set (reserved_peers l)))"
    using card_image [OF live_candidates(2) [OF facts(5)]] by simp
  then show ?thesis using plan_admission_facts(1) [OF d'] by simp
qed

text \<open>C30: the admission ledger implements a set of live tickets. In every reachable state, under every
  interleaving of calls: a reservation issues a ticket whose generation is greater than those of all tickets
  issued before, adds exactly that ticket, and keeps the number of active and pending peers within the ceiling
  the host offers at that moment; activation accepts only live tickets and keeps the set; retiring reports
  whether the ticket was live and removes exactly that ticket; closing empties the set.\<close>

theorem nap_ledger_refines_tickets:
  assumes "ledger_reachable issued l"
  shows "(\<forall>c t d l'. ledger_reserve c l = (Inr (t, d), l') \<longrightarrow>
      (\<forall>s\<in>issued. tk_generation s < tk_generation t) \<and> live l' = insert t (live l) \<and>
      card (live l') \<le> admission_ceiling (lg_host l)) \<and>
    (\<forall>t b l'. ledger_activate t l = (Inr b, l') \<longrightarrow> t \<in> live l \<and> live l' = live l) \<and>
    (\<forall>t b l'. ledger_retire t l = (Inr b, l') \<longrightarrow> (b \<longleftrightarrow> t \<in> live l) \<and> live l' = live l - {t}) \<and>
    (\<forall>l'. ledger_close l = (Inr (), l') \<longrightarrow> live l' = {})"
proof -
  note inv = ledger_reachable_inv [OF assms]
  show ?thesis
    by (intro conjI allI impI;
        (elim reserve_ledger(2,4) [OF inv] reserve_within_ceiling [OF inv] activate_ledger(1,2) [OF inv]
          retire_ledger(1,2) [OF inv] close_ledger(1) [OF inv])?)
qed

definition ex_nap_host :: node_capabilities where
  "ex_nap_host = default_capabilities
     \<lparr>cap_adapter_usable := Some (sourced_new True Measured), cap_nap := Some (sourced_new True Measured),
      cap_connection_policy_ceiling := Some (sourced_new 1 Configured)\<rparr>"

lemma ex_nap_host_ceiling: "admission_ceiling ex_nap_host = 1"
  by (simp add: admission_ceiling_def ex_nap_host_def default_capabilities_def adapter_usable_def can_host_pan_def)

theorem nap_admission_exact_witness:
  "\<exists>d. plan_nap_client_admission ex_nap_host [] (byte_ident 1) = Inr d \<and> unat (nd_remaining_after d) = 0"
  using nap_admission_exact [of ex_nap_host "[]" "byte_ident 1"] by (auto simp: ex_nap_host_ceiling)

definition ex_ticket :: nap_admission_ticket where
  "ex_ticket = \<lparr>tk_candidate = byte_ident 1, tk_generation = 1\<rparr>"

lemma ex_reserve:
  "\<exists>d. ledger_reserve (byte_ident 1) (ledger_new ex_nap_host) =
     (Inr (ex_ticket, d), (ledger_new ex_nap_host)\<lparr>lg_next_generation := 1,
        lg_pending := fmupd (byte_ident 1) 1 fmempty\<rparr>)"
  by (simp add: ledger_reserve_def locked_def ledger_new_def reserved_peers_def sorted_list_of_fset_eval
      plan_nap_client_admission_def ex_nap_host_def default_capabilities_def adapter_usable_def can_host_pan_def
      checked_add_def ex_ticket_def Let_def fcard_fempty)

theorem nap_ledger_refines_tickets_witness:
  "\<exists>d l'. ledger_reserve (byte_ident 1) (ledger_new ex_nap_host) = (Inr (ex_ticket, d), l') \<and>
     live l' = insert ex_ticket (live (ledger_new ex_nap_host)) \<and> card (live l') \<le> 1"
proof -
  obtain d l' where res: "ledger_reserve (byte_ident 1) (ledger_new ex_nap_host) = (Inr (ex_ticket, d), l')"
    using ex_reserve by blast
  have "lg_host (ledger_new ex_nap_host) = ex_nap_host" by (simp add: ledger_new_def)
  then show ?thesis
    using nap_ledger_refines_tickets [OF ledger_reachable.new [of ex_nap_host]] res ex_nap_host_ceiling by metis
qed

lemma scoped_retire_dead:
  assumes "t \<notin> scoped_live a"
  shows "snd (scoped_retire t a) = a"
proof (cases "owns a t")
  case True
  then have "t = scope_ticket a (nt_inner t)" by (simp add: owns_def scope_ticket_def)
  with assms have "nt_inner t \<notin> live (nn_ledger a)" unfolding scoped_live_def by blast
  then have "snd (ledger_retire (nt_inner t) (nn_ledger a)) = nn_ledger a"
    by (auto simp: ledger_retire_def locked_def live_def)
  then show ?thesis using True by (auto simp: scoped_retire_def split: prod.split)
qed (simp add: scoped_retire_def)

text \<open>C31: a reservation that was retired or closed never comes back. Once a ticket of a network-scoped owner is no
  longer live, no sequence of later calls makes it live, whatever other tickets are reserved, activated or
  retired; from then on retiring it changes nothing, so the delayed callback of an old connection cannot
  end the connection that replaced it.\<close>

theorem stale_ticket_harmless:
  assumes "scope_reachable issued a" "t \<in> issued" "t \<notin> scoped_live a"
  shows "t \<notin> scoped_live (nap_scope.run_events es a) \<and>
    snd (scoped_retire t (nap_scope.run_events es a)) = nap_scope.run_events es a"
  using nap_scope.retired_stays_retired [OF scope_reachable_inv [OF assms(1)] assms(2,3), of es]
    scoped_retire_dead by blast

definition ex_scope :: "nat \<Rightarrow> network_nap_admission" where
  "ex_scope n =
     \<lparr>nn_network = byte_ident 9, nn_owner = 7,
      nn_ledger = (ledger_new ex_nap_host)
        \<lparr>lg_next_generation := (if n = 0 then 0 else 1),
         lg_pending := (if n = 1 then fmupd (byte_ident 1) 1 fmempty else fmempty)\<rparr>\<rparr>"

lemma ex_scope_run:
  "scope_reachable {scope_ticket (ex_scope 2) ex_ticket} (ex_scope 2)"
  "scope_ticket (ex_scope 2) ex_ticket \<notin> scoped_live (ex_scope 2)"
proof -
  let ?t = "scope_ticket (ex_scope 2) ex_ticket"
  have zero: "network_nap_admission_new 7 (byte_ident 9) ex_nap_host = Inr (ex_scope 0)"
    by (simp add: network_nap_admission_new_def as_bytes_byte_ident ID_BYTES_def ex_scope_def ledger_new_def
        list_all_iff)
  have one: "scoped_step (ScopedReserve (byte_ident 1)) (ex_scope 0) = (Some ?t, ex_scope 1)"
    using ex_reserve by (auto simp: scoped_reserve_def scope_ticket_def ex_scope_def ledger_new_def)
  have drop: "fmdrop (byte_ident 1) (fmupd (byte_ident 1) 1 fmempty) = (fmempty :: (node_id, u64) fmap)"
    by (rule fmap_ext) simp
  have two: "scoped_step (ScopedRetire ?t) (ex_scope 1) = (None, ex_scope 2)"
    by (simp add: scoped_retire_def owns_def scope_ticket_def ex_scope_def ex_ticket_def ledger_retire_def
        locked_def ledger_new_def drop)
  from scope_reachable.step [OF scope_reachable.step [OF scope_reachable.new [OF zero] one] two]
  show "scope_reachable {?t} (ex_scope 2)" by simp
  show "?t \<notin> scoped_live (ex_scope 2)"
    by (auto simp: scoped_live_def live_def ex_scope_def ledger_new_def ex_ticket_def)
qed

theorem stale_ticket_harmless_witness:
  "scope_ticket (ex_scope 2) ex_ticket \<notin>
     scoped_live (nap_scope.run_events [ScopedReserve (byte_ident 1)] (ex_scope 2))"
  using stale_ticket_harmless [OF ex_scope_run(1) _ ex_scope_run(2)] by blast

end
