(* ===== verification/Control.thy ===== *)
theory Control
  imports Capability Addressing
begin

text \<open>
  \<open>crates/blueroute-protocol/src/control.rs\<close>: the control envelope, its validation, the length-prefixed
  framing and the replay check. The JSON codec is the third-party crate \<open>serde_json\<close>; it is a parameter,
  the record \<open>json_codec\<close>. A 16-byte array is an identifier with a tag of its own.
\<close>

section \<open>Envelopes\<close>

definition CONTROL_VERSION :: u16 where
  "CONTROL_VERSION = 1"

definition MAX_CONTROL_FRAME_BYTES :: nat where
  "MAX_CONTROL_FRAME_BYTES = 16 * 1024"

definition HEADER_LEN :: nat where
  "HEADER_LEN = 4"

datatype session_tag = SessionTag
datatype challenge_tag = ChallengeTag

type_synonym session_id = "session_tag ident"
type_synonym challenge = "challenge_tag ident"

record hello_facts =
  hf_software_version :: "u8 list"
  hf_capabilities :: node_capabilities
  hf_segment :: "ip_prefix option"
  hf_direct_neighbors :: "node_id list"

datatype control_message =
    Hello challenge hello_facts
  | HelloAck challenge hello_facts
  | Heartbeat
  | Goodbye

record control_envelope =
  ce_version :: u16
  ce_network :: network_id
  ce_sender :: node_id
  ce_session_id :: session_id
  ce_sequence :: u64
  ce_message :: control_message

datatype control_frame_error = ControlFrameError (cfe_message: string)

section \<open>Validation\<close>

definition version_byte :: "u8 \<Rightarrow> bool" where
  "version_byte b \<longleftrightarrow>
     (0x30 \<le> b \<and> b \<le> 0x39) \<or> (0x41 \<le> b \<and> b \<le> 0x5a) \<or> (0x61 \<le> b \<and> b \<le> 0x7a) \<or>
     b = 0x2e \<or> b = 0x2d \<or> b = 0x2b \<or> b = 0x5f"

definition validate_claimed_neighbor ::
  "node_id \<Rightarrow> node_id \<Rightarrow> node_id fset \<Rightarrow> control_frame_error + node_id fset" where
  "validate_claimed_neighbor sender node ids =
     (if node = zero_ident then Inl (ControlFrameError ''zero direct neighbor identity'')
      else if node = sender \<or> node |\<in>| ids
      then Inl (ControlFrameError ''duplicated or self-referential neighbor'')
      else Inr (finsert node ids))"

definition validate_facts :: "hello_facts \<Rightarrow> node_id \<Rightarrow> control_frame_error + unit" where
  "validate_facts facts sender =
     (if hf_software_version facts = [] \<or> length (hf_software_version facts) > 64 \<or>
         \<not> list_all version_byte (hf_software_version facts)
      then Inl (ControlFrameError ''invalid software version'')
      else if length (hf_direct_neighbors facts) > 32
      then Inl (ControlFrameError ''too many direct neighbor claims'')
      else bindR (foldR (validate_claimed_neighbor sender) (hf_direct_neighbors facts) {||}) (\<lambda>_.
        if (case hf_segment facts of None \<Rightarrow> False
            | Some segment \<Rightarrow> normalized_ipv4_prefix segment \<noteq> Inr segment)
        then Inl (ControlFrameError ''hello requires canonical IPv4 segment'')
        else if (case cap_link_quality (hf_capabilities facts) of None \<Rightarrow> False
                 | Some quality \<Rightarrow> lq_score (src_value quality) > 100)
        then Inl (ControlFrameError ''link quality exceeds valid range'')
        else if (case cap_connection_policy_ceiling (hf_capabilities facts) of None \<Rightarrow> False
                 | Some limit \<Rightarrow> src_value limit = 0)
        then Inl (ControlFrameError ''zero peer connection policy ceiling'')
        else if (case cap_power_state (hf_capabilities facts) of None \<Rightarrow> False
                 | Some state \<Rightarrow> (case src_value state of AcPowered \<Rightarrow> False | Battery percent \<Rightarrow> percent > 100))
        then Inl (ControlFrameError ''battery percentage exceeds valid range'')
        else Inr ()))"

definition validate_hello ::
  "challenge \<Rightarrow> hello_facts \<Rightarrow> node_id \<Rightarrow> control_frame_error + unit" where
  "validate_hello challenge facts sender =
     (if all_zero challenge then Inl (ControlFrameError ''zero hello challenge'')
      else validate_facts facts sender)"

definition validate_envelope :: "control_envelope \<Rightarrow> control_frame_error + unit" where
  "validate_envelope envelope =
     (if ce_version envelope \<noteq> CONTROL_VERSION
      then Inl (ControlFrameError ''unsupported control protocol version'')
      else if ce_network envelope = zero_ident then Inl (ControlFrameError ''zero network identity'')
      else if ce_sender envelope = zero_ident then Inl (ControlFrameError ''zero sender identity'')
      else if all_zero (ce_session_id envelope) then Inl (ControlFrameError ''zero session identifier'')
      else if ce_sequence envelope = 0 then Inl (ControlFrameError ''zero control sequence'')
      else case ce_message envelope of
        Hello challenge facts \<Rightarrow> validate_hello challenge facts (ce_sender envelope)
      | HelloAck challenge facts \<Rightarrow> validate_hello challenge facts (ce_sender envelope)
      | _ \<Rightarrow> Inr ())"

section \<open>Framing\<close>

record json_codec =
  jc_to_vec :: "control_envelope \<Rightarrow> string + u8 list"
  jc_from_slice :: "u8 list \<Rightarrow> string + control_envelope"

definition to_be_bytes :: "u32 \<Rightarrow> u8 list" where
  "to_be_bytes n = map (\<lambda>k. ucast (drop_bit k n)) [24, 16, 8, 0]"

definition from_be_bytes :: "u8 list \<Rightarrow> u32" where
  "from_be_bytes bs = foldl (\<lambda>acc b. push_bit 8 acc OR ucast b) 0 bs"

definition encode_control_frame ::
  "json_codec \<Rightarrow> control_envelope \<Rightarrow> control_frame_error + u8 list" where
  "encode_control_frame codec envelope =
     bindR (validate_envelope envelope) (\<lambda>_.
     bindR (map_err ControlFrameError (jc_to_vec codec envelope)) (\<lambda>payload.
       if payload = [] \<or> length payload > MAX_CONTROL_FRAME_BYTES
       then Inl (ControlFrameError ''control frame exceeds maximum length'')
       else if length payload \<ge> 2 ^ 32 then Inl (ControlFrameError ''length overflow'')
       else Inr (to_be_bytes (of_nat (length payload)) @ payload)))"

definition read_control_length :: "u8 list \<Rightarrow> control_frame_error + nat" where
  "read_control_length bytes =
     (if length bytes < HEADER_LEN then Inl (ControlFrameError ''truncated control length header'')
      else let declared = unat (from_be_bytes (take HEADER_LEN bytes)) in
        if declared = 0 \<or> declared > MAX_CONTROL_FRAME_BYTES
        then Inl (ControlFrameError ''invalid or oversized control frame length'')
        else Inr declared)"

definition decode_control_frame ::
  "json_codec \<Rightarrow> u8 list \<Rightarrow> control_frame_error + control_envelope" where
  "decode_control_frame codec framed =
     bindR (read_control_length framed) (\<lambda>expected_len.
       if length framed \<noteq> HEADER_LEN + expected_len
       then Inl (ControlFrameError ''truncated control frame or trailing bytes'')
       else bindR (map_err (\<lambda>e. ControlFrameError (''invalid control payload: '' @ e))
                     (jc_from_slice codec (drop HEADER_LEN framed))) (\<lambda>message.
         bindR (validate_envelope message) (\<lambda>_. Inr message)))"

section \<open>Replay protection\<close>

record verified_session_sequence =
  vs_network :: network_id
  vs_sender :: node_id
  vs_session_id :: session_id
  vs_last_sequence :: u64

definition verified_session_sequence_new ::
  "network_id \<Rightarrow> node_id \<Rightarrow> session_id \<Rightarrow> control_frame_error + verified_session_sequence" where
  "verified_session_sequence_new network sender sid =
     (if network = zero_ident \<or> sender = zero_ident
      then Inl (ControlFrameError ''zero verified session identity'')
      else if all_zero sid then Inl (ControlFrameError ''zero session identifier'')
      else Inr \<lparr>vs_network = network, vs_sender = sender, vs_session_id = sid, vs_last_sequence = 0\<rparr>)"

definition accept_envelope ::
  "control_envelope \<Rightarrow> verified_session_sequence \<Rightarrow>
   (control_frame_error + unit) \<times> verified_session_sequence" where
  "accept_envelope envelope s =
     (case validate_envelope envelope of
        Inl e \<Rightarrow> (Inl e, s)
      | Inr _ \<Rightarrow>
          if ce_network envelope \<noteq> vs_network s \<or> ce_sender envelope \<noteq> vs_sender s \<or>
             ce_session_id envelope \<noteq> vs_session_id s
          then (Inl (ControlFrameError ''message differs from verified session context''), s)
          else if ce_sequence envelope \<le> vs_last_sequence s
          then (Inl (ControlFrameError ''replayed or stale control sequence''), s)
          else (Inr (), s\<lparr>vs_last_sequence := ce_sequence envelope\<rparr>))"

section \<open>The header\<close>

lemma length_to_be_bytes [simp]: "length (to_be_bytes n) = 4"
  by (simp add: to_be_bytes_def)

lemma from_to_be_bytes: "from_be_bytes (to_be_bytes n) = n"
proof (rule bit_word_eqI)
  fix k :: nat assume "k < LENGTH(32)"
  then consider "k < 8" | "8 \<le> k" "k < 16" | "16 \<le> k" "k < 24" | "24 \<le> k" "k < 32" by fastforce
  then show "bit (from_be_bytes (to_be_bytes n)) k \<longleftrightarrow> bit n k"
    by cases (auto simp: from_be_bytes_def to_be_bytes_def bit_simps less_diff_conv le_add_diff_inverse)
qed

lemma read_control_length_Inr:
  "read_control_length bs = Inr n \<Longrightarrow>
   HEADER_LEN \<le> length bs \<and> 0 < n \<and> n \<le> MAX_CONTROL_FRAME_BYTES \<and> n = unat (from_be_bytes (take HEADER_LEN bs))"
  by (auto simp: read_control_length_def Let_def split: if_splits)

lemma read_control_length_prefix:
  "HEADER_LEN \<le> length bs \<Longrightarrow> read_control_length (bs @ cs) = read_control_length bs"
  by (simp add: read_control_length_def)

lemma read_encoded_length:
  assumes "0 < n" "n \<le> MAX_CONTROL_FRAME_BYTES"
  shows "read_control_length (to_be_bytes (of_nat n) @ bs) = Inr n"
proof -
  have "n < 2 ^ 32" using assms(2) by (simp add: MAX_CONTROL_FRAME_BYTES_def)
  then have "take_bit 32 n = n" by (rule take_bit_nat_eq_self)
  then have "unat (of_nat n :: u32) = n" by (simp add: unsigned_of_nat)
  then show ?thesis using assms by (simp add: read_control_length_def HEADER_LEN_def from_to_be_bytes)
qed

lemma encode_control_frame_Inr:
  assumes "encode_control_frame codec e = Inr f"
  obtains payload where "validate_envelope e = Inr ()" "jc_to_vec codec e = Inr payload" "payload \<noteq> []"
    "length payload \<le> MAX_CONTROL_FRAME_BYTES" "f = to_be_bytes (of_nat (length payload)) @ payload"
  using assms by (auto simp: encode_control_frame_def bindR_eq_Inr split: if_splits)

lemma decode_control_frame_Inr:
  assumes "decode_control_frame codec f = Inr e"
  shows "validate_envelope e = Inr ()"
    "\<exists>n. read_control_length f = Inr n \<and> length f = HEADER_LEN + n"
    "jc_from_slice codec (drop HEADER_LEN f) = Inr e"
  using assms by (auto simp: decode_control_frame_def bindR_eq_Inr split: if_splits)

text \<open>A frame carries its envelope through. Whenever encoding succeeds and the JSON codec reads back what it
  wrote for this envelope, the frame has a four-byte header that declares exactly the payload, is at most
  four bytes longer than the frame limit, and decodes to the same envelope; and whatever a frame decodes to
  has passed validation and fills the frame exactly, with no byte missing and none left over.\<close>

theorem control_frame_roundtrip:
  assumes "\<And>payload. jc_to_vec codec e = Inr payload \<Longrightarrow> jc_from_slice codec payload = Inr e"
  shows "(encode_control_frame codec e = Inr f \<longrightarrow>
      decode_control_frame codec f = Inr e \<and> read_control_length f = Inr (length f - 4) \<and>
      4 < length f \<and> length f \<le> 4 + MAX_CONTROL_FRAME_BYTES) \<and>
    (decode_control_frame codec g = Inr e' \<longrightarrow>
      validate_envelope e' = Inr () \<and> read_control_length g = Inr (length g - 4) \<and>
      length g \<le> 4 + MAX_CONTROL_FRAME_BYTES)"
proof (intro conjI impI)
  assume "encode_control_frame codec e = Inr f"
  then obtain payload where p: "validate_envelope e = Inr ()" "jc_to_vec codec e = Inr payload" "payload \<noteq> []"
    "length payload \<le> MAX_CONTROL_FRAME_BYTES" "f = to_be_bytes (of_nat (length payload)) @ payload"
    by (rule encode_control_frame_Inr)
  have len: "read_control_length f = Inr (length payload)"
    unfolding p(5) by (rule read_encoded_length) (use p(3,4) in auto)
  have "drop HEADER_LEN f = payload" "length f = HEADER_LEN + length payload"
    by (simp_all add: p(5) HEADER_LEN_def)
  then show "decode_control_frame codec f = Inr e"
    using assms [OF p(2)] p(1) by (simp add: decode_control_frame_def len)
  show "read_control_length f = Inr (length f - 4)" using len p(5) by simp
  show "4 < length f" "length f \<le> 4 + MAX_CONTROL_FRAME_BYTES" using p(3-5) by auto
next
  assume d: "decode_control_frame codec g = Inr e'"
  then obtain n where n: "read_control_length g = Inr n" "length g = HEADER_LEN + n"
    using decode_control_frame_Inr(2) by blast
  show "validate_envelope e' = Inr ()" by (rule decode_control_frame_Inr(1) [OF d])
  show "read_control_length g = Inr (length g - 4)" using n by (simp add: HEADER_LEN_def)
  show "length g \<le> 4 + MAX_CONTROL_FRAME_BYTES"
    using n read_control_length_Inr [OF n(1)] by (simp add: HEADER_LEN_def)
qed

definition ex_envelope :: control_envelope where
  "ex_envelope =
     \<lparr>ce_version = 1, ce_network = byte_ident 1, ce_sender = byte_ident 2, ce_session_id = byte_ident 3,
      ce_sequence = 1, ce_message = Heartbeat\<rparr>"

definition ex_codec :: json_codec where
  "ex_codec = \<lparr>jc_to_vec = (\<lambda>_. Inr [123, 125]), jc_from_slice = (\<lambda>_. Inr ex_envelope)\<rparr>"

lemma ex_encode: "encode_control_frame ex_codec ex_envelope = Inr [0, 0, 0, 2, 123, 125]"
  by (simp add: encode_control_frame_def validate_envelope_def ex_envelope_def ex_codec_def CONTROL_VERSION_def
      MAX_CONTROL_FRAME_BYTES_def to_be_bytes_def)

theorem control_frame_roundtrip_witness:
  "encode_control_frame ex_codec ex_envelope = Inr [0, 0, 0, 2, 123, 125] \<and>
   decode_control_frame ex_codec [0, 0, 0, 2, 123, 125] = Inr ex_envelope"
  using control_frame_roundtrip [of ex_codec ex_envelope "[0, 0, 0, 2, 123, 125]"] ex_encode
  by (simp add: ex_codec_def)

section \<open>Replay\<close>

inductive sequence_run :: "control_envelope list \<Rightarrow> verified_session_sequence \<Rightarrow> bool" where
  new: "verified_session_sequence_new network sender sid = Inr s \<Longrightarrow> sequence_run [] s"
| accepted: "sequence_run es s \<Longrightarrow> accept_envelope e s = (Inr (), s') \<Longrightarrow> sequence_run (e # es) s'"
| refused: "sequence_run es s \<Longrightarrow> accept_envelope e s = (Inl err, s') \<Longrightarrow> sequence_run es s'"

lemma accept_envelope_Inr:
  "accept_envelope e s = (Inr (), s') \<longleftrightarrow>
     validate_envelope e = Inr () \<and> ce_network e = vs_network s \<and> ce_sender e = vs_sender s \<and>
     ce_session_id e = vs_session_id s \<and> vs_last_sequence s < ce_sequence e \<and>
     s' = s\<lparr>vs_last_sequence := ce_sequence e\<rparr>"
  by (auto simp: accept_envelope_def not_le split: sum.splits if_splits)

lemma accept_envelope_Inl: "accept_envelope e s = (Inl err, s') \<Longrightarrow> s' = s"
  by (auto simp: accept_envelope_def split: sum.splits if_splits)

lemma sequence_run_inv:
  "sequence_run es s \<Longrightarrow>
   sorted_wrt (>) (map ce_sequence es) \<and> (\<forall>e\<in>set es. ce_sequence e \<le> vs_last_sequence s) \<and>
   (\<forall>e\<in>set es. ce_network e = vs_network s \<and> ce_sender e = vs_sender s \<and> ce_session_id e = vs_session_id s \<and>
      validate_envelope e = Inr ())"
proof (induction rule: sequence_run.induct)
  case (accepted es s e s')
  then show ?case by (auto simp: accept_envelope_Inr)
next
  case (refused es s e err s')
  then show ?case by (auto dest: accept_envelope_Inl)
qed simp

text \<open>C37: a verified session accepts no message twice and none out of order. Over any sequence of accepted and
  refused messages, the accepted ones are valid, belong to the network, peer and session the tracker was made
  for, and have strictly increasing sequence numbers; so a message that was accepted once is refused ever
  after, and a refused one changes nothing.\<close>

theorem session_sequence_no_replay:
  assumes "sequence_run es s"
  shows "sorted_wrt (>) (map ce_sequence es) \<and>
    (\<forall>e\<in>set es. validate_envelope e = Inr () \<and> ce_network e = vs_network s \<and> ce_sender e = vs_sender s \<and>
       ce_session_id e = vs_session_id s) \<and>
    (\<forall>e\<in>set es. is_err (fst (accept_envelope e s)) \<and> snd (accept_envelope e s) = s)"
proof -
  note inv = sequence_run_inv [OF assms]
  have "is_err (fst (accept_envelope e s)) \<and> snd (accept_envelope e s) = s" if "e \<in> set es" for e
    using inv that by (auto simp: accept_envelope_def split: sum.splits)
  then show ?thesis using inv by blast
qed

theorem session_sequence_no_replay_witness:
  "\<exists>s. sequence_run [ex_envelope] s \<and> is_err (fst (accept_envelope ex_envelope s))"
proof -
  let ?s0 = "\<lparr>vs_network = byte_ident 1, vs_sender = byte_ident 2, vs_session_id = byte_ident 3, vs_last_sequence = 0\<rparr>"
  have "verified_session_sequence_new (byte_ident 1) (byte_ident 2) (byte_ident 3) = Inr ?s0"
    by (simp add: verified_session_sequence_new_def)
  moreover have "accept_envelope ex_envelope ?s0 = (Inr (), ?s0\<lparr>vs_last_sequence := 1\<rparr>)"
    by (simp add: accept_envelope_def validate_envelope_def ex_envelope_def CONTROL_VERSION_def)
  ultimately have "sequence_run [ex_envelope] (?s0\<lparr>vs_last_sequence := 1\<rparr>)"
    by (blast intro: sequence_run.intros)
  from this session_sequence_no_replay [OF this] show ?thesis by auto
qed

end
