(* ===== verification/Control_Stream.thy ===== *)
theory Control_Stream
  imports Control
begin

text \<open>
  \<open>crates/blueroute-protocol/src/control_stream.rs\<close>: the incremental frame decoder. Its loop is a partial
  function, so that a turn without progress would be \<open>None\<close>; it is shown to return and to agree, however the
  bytes are cut into chunks, with a reference parser of the whole byte stream.
\<close>

section \<open>The decoder\<close>

definition MAX_STREAM_FEED_BYTES :: nat where
  "MAX_STREAM_FEED_BYTES = 64 * 1024"

definition MAX_FRAMES_PER_FEED :: nat where
  "MAX_FRAMES_PER_FEED = 64"

datatype stream_decode_error = ChunkTooLarge | FrameLimit | MalformedFrame | Finished | Poisoned

record control_stream_decoder =
  sd_partial :: "u8 list"
  sd_expected :: "nat option"
  sd_poisoned :: bool
  sd_finished :: bool

definition stream_decoder_new :: control_stream_decoder where
  "stream_decoder_new = \<lparr>sd_partial = [], sd_expected = None, sd_poisoned = False, sd_finished = False\<rparr>"

definition reject ::
  "stream_decode_error \<Rightarrow> control_stream_decoder \<Rightarrow> (stream_decode_error + 'a) \<times> control_stream_decoder" where
  "reject e d = (Inl e, d\<lparr>sd_partial := [], sd_expected := None, sd_poisoned := True\<rparr>)"

text \<open>The loop of \<open>feed\<close>. \<open>target - self.partial.len()\<close> does not underflow, since a partial frame is shorter
  than its target.\<close>

partial_function (option) feed_loop ::
  "json_codec \<Rightarrow> u8 list \<Rightarrow> control_envelope list \<Rightarrow> control_stream_decoder \<Rightarrow>
   ((stream_decode_error + control_envelope list) \<times> control_stream_decoder) option" where
  "feed_loop codec input completed d =
     (if input = [] then Some (Inr completed, d)
      else
        let target = (case sd_expected d of None \<Rightarrow> HEADER_LEN | Some n \<Rightarrow> n);
            needed = target - length (sd_partial d);
            count = min needed (length input);
            part = sd_partial d @ take count input;
            rest = drop count input;
            d1 = d\<lparr>sd_partial := part\<rparr>
        in if length part \<noteq> target then feed_loop codec rest completed d1
           else if sd_expected d = None
           then (case read_control_length part of
                   Inl _ \<Rightarrow> Some (reject MalformedFrame d1)
                 | Inr declared \<Rightarrow>
                     feed_loop codec rest completed (d1\<lparr>sd_expected := Some (HEADER_LEN + declared)\<rparr>))
           else (case decode_control_frame codec part of
                   Inl _ \<Rightarrow> Some (reject MalformedFrame d1)
                 | Inr envelope \<Rightarrow>
                     if length completed \<ge> MAX_FRAMES_PER_FEED then Some (reject FrameLimit d1)
                     else feed_loop codec rest (completed @ [envelope])
                            (d1\<lparr>sd_partial := [], sd_expected := None\<rparr>)))"

definition feed ::
  "json_codec \<Rightarrow> u8 list \<Rightarrow> control_stream_decoder \<Rightarrow>
   ((stream_decode_error + control_envelope list) \<times> control_stream_decoder) option" where
  "feed codec chunk d =
     (if sd_poisoned d then Some (Inl Poisoned, d)
      else if sd_finished d then Some (Inl Finished, d)
      else if length chunk > MAX_STREAM_FEED_BYTES then Some (reject ChunkTooLarge d)
      else feed_loop codec chunk [] d)"

definition finish ::
  "control_stream_decoder \<Rightarrow> (stream_decode_error + unit) \<times> control_stream_decoder" where
  "finish d =
     (if sd_poisoned d then (Inl Poisoned, d)
      else if sd_finished d then (Inl Finished, d)
      else if sd_partial d \<noteq> [] \<or> sd_expected d \<noteq> None then reject MalformedFrame d
      else (Inr (), d\<lparr>sd_finished := True\<rparr>))"

section \<open>The reference parser\<close>

text \<open>The frames at the front of a byte stream and what is left behind them: an incomplete frame, or nothing when
  the stream is malformed there.\<close>

function parse_stream :: "json_codec \<Rightarrow> u8 list \<Rightarrow> control_envelope list \<times> u8 list option" where
  "parse_stream codec bs =
     (if length bs < HEADER_LEN then ([], Some bs)
      else case read_control_length bs of
        Inl _ \<Rightarrow> ([], None)
      | Inr n \<Rightarrow>
          if length bs < HEADER_LEN + n then ([], Some bs)
          else case decode_control_frame codec (take (HEADER_LEN + n) bs) of
            Inl _ \<Rightarrow> ([], None)
          | Inr e \<Rightarrow>
              (case parse_stream codec (drop (HEADER_LEN + n) bs) of (es, rest) \<Rightarrow> (e # es, rest)))"
  by pat_completeness auto

termination parse_stream
  by (relation "measure (\<lambda>(_, bs). length bs)") (auto simp: HEADER_LEN_def)

declare parse_stream.simps [simp del]

text \<open>A decoder between two feeds holds an incomplete frame.\<close>

definition decoder_inv :: "control_stream_decoder \<Rightarrow> bool" where
  "decoder_inv d \<longleftrightarrow>
     (case sd_expected d of
        None \<Rightarrow> length (sd_partial d) < HEADER_LEN
      | Some t \<Rightarrow> HEADER_LEN \<le> length (sd_partial d) \<and> length (sd_partial d) < t \<and>
          (\<exists>n. read_control_length (sd_partial d) = Inr n \<and> t = HEADER_LEN + n))"

lemma decoder_inv_bound: "decoder_inv d \<Longrightarrow> length (sd_partial d) < HEADER_LEN + MAX_CONTROL_FRAME_BYTES"
  by (auto simp: decoder_inv_def MAX_CONTROL_FRAME_BYTES_def dest: read_control_length_Inr split: option.splits)

lemma parse_incomplete: "decoder_inv d \<Longrightarrow> parse_stream codec (sd_partial d) = ([], Some (sd_partial d))"
  by (subst parse_stream.simps) (auto simp: decoder_inv_def split: option.splits)

text \<open>What the loop returns, in terms of the reference parser.\<close>

definition feed_agrees ::
  "json_codec \<Rightarrow> u8 list \<Rightarrow> control_envelope list \<Rightarrow> control_stream_decoder \<Rightarrow>
   ((stream_decode_error + control_envelope list) \<times> control_stream_decoder) option \<Rightarrow> bool" where
  "feed_agrees codec input completed d r \<longleftrightarrow>
     (case parse_stream codec (sd_partial d @ input) of
        (es, Some rest) \<Rightarrow>
          if length completed + length es \<le> MAX_FRAMES_PER_FEED
          then (\<exists>d'. r = Some (Inr (completed @ es), d') \<and> sd_partial d' = rest \<and> decoder_inv d' \<and>
                 sd_poisoned d' = sd_poisoned d \<and> sd_finished d' = sd_finished d)
          else (\<exists>d'. r = Some (Inl FrameLimit, d') \<and> sd_poisoned d' \<and> sd_partial d' = [])
      | (es, None) \<Rightarrow>
          (\<exists>e d'. r = Some (Inl e, d') \<and> sd_poisoned d' \<and> sd_partial d' = []))"

lemma feed_agrees_shift:
  "sd_partial d1 @ rest = sd_partial d @ input \<Longrightarrow> sd_poisoned d1 = sd_poisoned d \<Longrightarrow>
   sd_finished d1 = sd_finished d \<Longrightarrow>
   feed_agrees codec rest completed d1 r = feed_agrees codec input completed d r"
  by (simp only: feed_agrees_def)

lemma feed_agrees_malformed:
  "parse_stream codec (sd_partial d @ input) = (es, None) \<Longrightarrow> feed_agrees codec input completed d (Some (reject e d1))"
  by (simp add: feed_agrees_def reject_def)

lemma feed_agrees_frame:
  assumes "parse_stream codec (sd_partial d @ input) =
      (case parse_stream codec rest of (es, left) \<Rightarrow> (e # es, left))"
    and "feed_agrees codec rest (completed @ [e]) d2 r" "sd_partial d2 = []"
    "sd_poisoned d2 = sd_poisoned d" "sd_finished d2 = sd_finished d"
  shows "feed_agrees codec input completed d r"
  using assms by (auto simp: feed_agrees_def split: prod.splits option.splits if_splits)

lemma feed_agrees_limit:
  assumes "parse_stream codec (sd_partial d @ input) =
      (case parse_stream codec rest of (es, left) \<Rightarrow> (e # es, left))"
    and "MAX_FRAMES_PER_FEED \<le> length completed"
  shows "feed_agrees codec input completed d (Some (reject FrameLimit d1))"
  using assms by (auto simp: feed_agrees_def reject_def split: prod.splits option.splits)

text \<open>The reference parser on a stream whose first frame is known.\<close>

lemma parse_bad_header:
  "length part = HEADER_LEN \<Longrightarrow> read_control_length part = Inl e \<Longrightarrow> parse_stream codec (part @ rest) = ([], None)"
  by (subst parse_stream.simps) (simp add: read_control_length_prefix)

lemma parse_frame:
  assumes "read_control_length part = Inr n" "length part = HEADER_LEN + n"
  shows "parse_stream codec (part @ rest) =
    (case decode_control_frame codec part of
       Inl _ \<Rightarrow> ([], None)
     | Inr e \<Rightarrow> (case parse_stream codec rest of (es, left) \<Rightarrow> (e # es, left)))"
proof -
  have "drop (HEADER_LEN + n) (part @ rest) = rest" "take (HEADER_LEN + n) (part @ rest) = part"
    unfolding assms(2) [symmetric] by simp_all
  then show ?thesis using assms
    by (subst parse_stream.simps)
      (cases "decode_control_frame codec part"; simp add: read_control_length_prefix)
qed

lemma feed_loop_agrees:
  assumes "decoder_inv d" "length completed \<le> MAX_FRAMES_PER_FEED"
  shows "feed_agrees codec input completed d (feed_loop codec input completed d)"
  using assms
proof (induction "length input" arbitrary: input completed d rule: less_induct)
  case less
  show ?case
  proof (cases "input = []")
    case True
    then show ?thesis using less.prems
      by (simp add: feed_loop.simps feed_agrees_def parse_incomplete)
  next
    case False
    define target where "target = (case sd_expected d of None \<Rightarrow> HEADER_LEN | Some n \<Rightarrow> n)"
    define count where "count = min (target - length (sd_partial d)) (length input)"
    define part where "part = sd_partial d @ take count input"
    define rest where "rest = drop count input"
    have "length (sd_partial d) < target"
      using less.prems(1) by (auto simp: decoder_inv_def target_def split: option.splits)
    then have count: "0 < count" "count \<le> length input" using False by (auto simp: count_def)
    then have shorter: "length rest < length input" by (simp add: rest_def)
    have stream: "sd_partial d @ input = part @ rest" by (simp add: part_def rest_def)
    note loop = feed_loop.simps [of codec input completed d, unfolded Let_def, folded target_def, folded count_def,
        folded part_def rest_def]
    consider (short) "length part \<noteq> target" | (header) "length part = target" "sd_expected d = None"
      | (frame) t where "length part = target" "sd_expected d = Some t" by fastforce
    then show ?thesis
    proof cases
      case short
      let ?d1 = "d\<lparr>sd_partial := part\<rparr>"
      have "length part < target"
        using short count(2) \<open>length (sd_partial d) < target\<close> by (auto simp: part_def count_def)
      then have "decoder_inv ?d1"
        using less.prems(1) read_control_length_prefix [of "sd_partial d" "take count input"]
        by (auto simp: decoder_inv_def target_def part_def split: option.splits)
      from less.hyps [OF shorter this less.prems(2)] show ?thesis
        using feed_agrees_shift [of ?d1 rest d input] stream loop short False by simp
    next
      case header
      then have four: "length part = HEADER_LEN" by (simp add: target_def)
      show ?thesis
      proof (cases "read_control_length part")
        case (Inl e)
        then show ?thesis
          using loop header False feed_agrees_malformed [of codec d input "[]"]
            parse_bad_header [OF four Inl, of codec rest] stream by simp
      next
        case (Inr n)
        let ?d1 = "d\<lparr>sd_partial := part, sd_expected := Some (HEADER_LEN + n)\<rparr>"
        have "decoder_inv ?d1"
          using four Inr read_control_length_Inr [OF Inr] by (simp add: decoder_inv_def)
        from less.hyps [OF shorter this less.prems(2)] show ?thesis
          using feed_agrees_shift [of ?d1 rest d input] stream loop header Inr False by simp
      qed
    next
      case frame
      then obtain n where n: "read_control_length (sd_partial d) = Inr n" "t = HEADER_LEN + n"
        "HEADER_LEN \<le> length (sd_partial d)"
        using less.prems(1) by (auto simp: decoder_inv_def)
      have "read_control_length part = Inr n" "length part = HEADER_LEN + n"
        using n frame read_control_length_prefix [of "sd_partial d" "take count input"]
        by (simp_all add: part_def target_def)
      note parse = parse_frame [OF this, of codec rest, folded stream]
      show ?thesis
      proof (cases "decode_control_frame codec part")
        case (Inl e)
        then show ?thesis
          using loop frame False feed_agrees_malformed [of codec d input "[]"] parse by simp
      next
        case (Inr e)
        show ?thesis
        proof (cases "length completed \<ge> MAX_FRAMES_PER_FEED")
          case True
          then show ?thesis using loop frame False Inr feed_agrees_limit [of codec d input e rest completed] parse
            by simp
        next
          case more: False
          let ?d2 = "d\<lparr>sd_partial := [], sd_expected := None\<rparr>"
          have "decoder_inv ?d2" by (simp add: decoder_inv_def HEADER_LEN_def)
          from less.hyps [OF shorter this, of "completed @ [e]"] more
          have "feed_agrees codec rest (completed @ [e]) ?d2 (feed_loop codec rest (completed @ [e]) ?d2)" by simp
          then show ?thesis using loop frame False Inr more parse
            by (intro feed_agrees_frame [of codec d input e rest completed ?d2]) simp_all
        qed
      qed
    qed
  qed
qed

section \<open>A stream in chunks\<close>

lemma parse_stream_append:
  "parse_stream codec a = (es, Some rest) \<Longrightarrow>
   parse_stream codec (a @ b) = (case parse_stream codec (rest @ b) of (fs, left) \<Rightarrow> (es @ fs, left))"
proof (induction codec a arbitrary: es rule: parse_stream.induct)
  case (1 codec a)
  show ?case
  proof (cases "es = []")
    case True
    then have "rest = a" using "1.prems"
      by (subst (asm) parse_stream.simps) (auto split: if_splits sum.splits prod.splits)
    then show ?thesis using True by simp
  next
    case False
    then obtain n e fs where n: "\<not> length a < HEADER_LEN" "read_control_length a = Inr n"
      "\<not> length a < HEADER_LEN + n" and e: "decode_control_frame codec (take (HEADER_LEN + n) a) = Inr e"
      and fs: "parse_stream codec (drop (HEADER_LEN + n) a) = (fs, Some rest)" "es = e # fs"
      using "1.prems"
      by (subst (asm) parse_stream.simps) (auto split: if_splits sum.splits prod.splits)
    let ?f = "take (HEADER_LEN + n) a" and ?a = "drop (HEADER_LEN + n) a"
    have f: "read_control_length ?f = Inr n" "length ?f = HEADER_LEN + n"
      using n read_control_length_prefix [of ?f ?a] by simp_all
    have "parse_stream codec (a @ b) = parse_stream codec (?f @ (?a @ b))"
      by (simp only: append_assoc [symmetric] append_take_drop_id)
    also have "\<dots> = (case parse_stream codec (?a @ b) of (gs, left) \<Rightarrow> (e # gs, left))"
      by (simp only: parse_frame [OF f] e sum.case)
    finally have "parse_stream codec (a @ b) =
        (case parse_stream codec (?a @ b) of (gs, left) \<Rightarrow> (e # gs, left))" .
    then show ?thesis
      using "1.IH" [OF n(1,2,3) e fs(1)] fs(2) by (simp split: prod.splits)
  qed
qed

lemma parse_stream_malformed:
  "parse_stream codec a = (es, None) \<Longrightarrow> parse_stream codec (a @ b) = (es, None)"
proof (induction codec a arbitrary: es rule: parse_stream.induct)
  case (1 codec a)
  have long: "\<not> length a < HEADER_LEN"
    using "1.prems" by (subst (asm) parse_stream.simps) (auto split: if_splits)
  show ?case
  proof (cases "read_control_length a")
    case (Inl e)
    then show ?thesis using "1.prems" long
      by (simp add: parse_stream.simps [of codec a] parse_stream.simps [of codec "a @ b"]
          read_control_length_prefix)
  next
    case (Inr n)
    have complete: "\<not> length a < HEADER_LEN + n"
      using "1.prems" long Inr by (subst (asm) parse_stream.simps) (auto split: if_splits)
    let ?f = "take (HEADER_LEN + n) a" and ?a = "drop (HEADER_LEN + n) a"
    have f: "read_control_length ?f = Inr n" "length ?f = HEADER_LEN + n"
      using complete Inr read_control_length_prefix [of ?f ?a] by simp_all
    have split: "parse_stream codec (a @ b) = parse_stream codec (?f @ (?a @ b))"
      "parse_stream codec a = parse_stream codec (?f @ ?a)"
      by (simp_all only: append_assoc [symmetric] append_take_drop_id)
    show ?thesis
    proof (cases "decode_control_frame codec ?f")
      case (Inl e)
      then show ?thesis using "1.prems" unfolding split parse_frame [OF f] by simp
    next
      case e: (Inr e)
      then obtain fs where fs: "parse_stream codec ?a = (fs, None)" "es = e # fs"
        using "1.prems" unfolding split(2) parse_frame [OF f] by (auto split: prod.splits)
      show ?thesis
        using "1.IH" [OF long Inr complete e fs(1)] fs(2) e unfolding split(1) parse_frame [OF f] by simp
    qed
  qed
qed

fun feed_all ::
  "json_codec \<Rightarrow> u8 list list \<Rightarrow> control_stream_decoder \<Rightarrow>
   ((stream_decode_error + control_envelope list) \<times> control_stream_decoder) option" where
  "feed_all codec [] d = Some (Inr [], d)"
| "feed_all codec (c # cs) d =
     (case feed codec c d of
        None \<Rightarrow> None
      | Some (Inl e, d') \<Rightarrow> Some (Inl e, d')
      | Some (Inr es, d') \<Rightarrow>
          (case feed_all codec cs d' of
             None \<Rightarrow> None
           | Some (Inl e, d'') \<Rightarrow> Some (Inl e, d'')
           | Some (Inr fs, d'') \<Rightarrow> Some (Inr (es @ fs), d'')))"

definition decoder_open :: "control_stream_decoder \<Rightarrow> bool" where
  "decoder_open d \<longleftrightarrow> decoder_inv d \<and> \<not> sd_poisoned d \<and> \<not> sd_finished d"

text \<open>One feed of an open decoder: it returns the frames that are complete now and stays open, or it is poisoned
  and empty.\<close>

lemma feed_open:
  assumes "decoder_open d"
  obtains (frames) es d' where "feed codec c d = Some (Inr es, d')" "decoder_open d'"
      "parse_stream codec (sd_partial d @ c) = (es, Some (sd_partial d'))"
    | (failed) e d' where "feed codec c d = Some (Inl e, d')" "sd_poisoned d'" "sd_partial d' = []"
      "\<And>es rest. parse_stream codec (sd_partial d @ c) = (es, Some rest) \<Longrightarrow>
         length es > MAX_FRAMES_PER_FEED \<or> length c > MAX_STREAM_FEED_BYTES"
proof (cases "length c > MAX_STREAM_FEED_BYTES")
  case True
  then show thesis using assms
    by (intro failed [of ChunkTooLarge]) (auto simp: feed_def decoder_open_def reject_def)
next
  case False
  have loop: "feed codec c d = feed_loop codec c [] d"
    using assms False by (simp add: feed_def decoder_open_def)
  obtain es left where parse: "parse_stream codec (sd_partial d @ c) = (es, left)"
    by (cases "parse_stream codec (sd_partial d @ c)")
  have agrees: "feed_agrees codec c [] d (feed codec c d)"
    unfolding loop using assms by (intro feed_loop_agrees) (simp_all add: decoder_open_def)
  show thesis
  proof (cases "\<exists>rest. left = Some rest \<and> length es \<le> MAX_FRAMES_PER_FEED")
    case True
    then obtain rest d' where "left = Some rest" "feed codec c d = Some (Inr es, d')" "sd_partial d' = rest"
      "decoder_inv d'" "sd_poisoned d' = sd_poisoned d" "sd_finished d' = sd_finished d"
      using agrees parse by (auto simp: feed_agrees_def)
    then show thesis using parse assms by (intro frames [of es d']) (auto simp: decoder_open_def)
  next
    case False
    then obtain e d' where "feed codec c d = Some (Inl e, d')" "sd_poisoned d'" "sd_partial d' = []"
      using agrees parse by (auto simp: feed_agrees_def split: option.splits)
    then show thesis using parse False by (intro failed [of e d']) auto
  qed
qed

lemma feed_all_open:
  assumes "decoder_open d"
  shows "\<exists>r d'. feed_all codec cs d = Some (r, d') \<and>
    (case r of
       Inr es \<Rightarrow> decoder_open d' \<and> parse_stream codec (sd_partial d @ concat cs) = (es, Some (sd_partial d'))
     | Inl e \<Rightarrow> sd_poisoned d' \<and> sd_partial d' = [] \<and>
         (\<forall>es rest. parse_stream codec (sd_partial d @ concat cs) = (es, Some rest) \<longrightarrow>
            length es > MAX_FRAMES_PER_FEED \<or> (\<exists>c\<in>set cs. length c > MAX_STREAM_FEED_BYTES)))"
  using assms
proof (induction cs arbitrary: d)
  case Nil
  then show ?case by (simp add: decoder_open_def parse_incomplete)
next
  case (Cons c cs)
  from Cons.prems show ?case
  proof (cases rule: feed_open [of d codec c, consumes 1, case_names frames failed])
    case (frames es d1)
    note app = parse_stream_append [OF frames(3), of "concat cs"]
    obtain r d2 where rest: "feed_all codec cs d1 = Some (r, d2)"
      and r: "case r of
         Inr fs \<Rightarrow> decoder_open d2 \<and> parse_stream codec (sd_partial d1 @ concat cs) = (fs, Some (sd_partial d2))
       | Inl e \<Rightarrow> sd_poisoned d2 \<and> sd_partial d2 = [] \<and>
         (\<forall>es rest. parse_stream codec (sd_partial d1 @ concat cs) = (es, Some rest) \<longrightarrow>
            length es > MAX_FRAMES_PER_FEED \<or> (\<exists>c\<in>set cs. length c > MAX_STREAM_FEED_BYTES))"
      using Cons.IH [OF frames(2)] by blast
    show ?thesis
    proof (cases r)
      case (Inr fs)
      then show ?thesis using frames(1) rest r app by simp
    next
      case (Inl e)
      have "length gs > MAX_FRAMES_PER_FEED \<or> (\<exists>c\<in>set (c # cs). length c > MAX_STREAM_FEED_BYTES)"
        if "parse_stream codec (sd_partial d @ concat (c # cs)) = (gs, Some left)" for gs left
      proof -
        from that app obtain fs where "parse_stream codec (sd_partial d1 @ concat cs) = (fs, Some left)" "gs = es @ fs"
          by (auto split: prod.splits)
        then show ?thesis using r Inl by auto
      qed
      then show ?thesis using frames(1) rest r Inl by auto
    qed
  next
    case (failed e d1)
    have "length gs > MAX_FRAMES_PER_FEED \<or> length c > MAX_STREAM_FEED_BYTES"
      if all: "parse_stream codec (sd_partial d @ concat (c # cs)) = (gs, Some left)" for gs left
    proof (cases "parse_stream codec (sd_partial d @ c)")
      case (Pair es first)
      show ?thesis
      proof (cases first)
        case None
        then show ?thesis
          using all Pair parse_stream_malformed [of codec "sd_partial d @ c" es "concat cs"] by simp
      next
        case (Some rest)
        then have p: "parse_stream codec (sd_partial d @ c) = (es, Some rest)" using Pair by simp
        have "length es \<le> length gs"
          using all parse_stream_append [OF p, of "concat cs"] by (auto split: prod.splits)
        then show ?thesis using failed(4) [OF p] by auto
      qed
    qed
    then show ?thesis using failed(1-3) by auto
  qed
qed

lemma decoder_new_open: "decoder_open stream_decoder_new"
  by (simp add: decoder_open_def stream_decoder_new_def decoder_inv_def HEADER_LEN_def)

lemma poisoned_stays: "sd_poisoned d \<Longrightarrow> feed codec c d = Some (Inl Poisoned, d) \<and> finish d = (Inl Poisoned, d)"
  by (simp add: feed_def finish_def)

lemma finish_open: "decoder_open d \<Longrightarrow> fst (finish d) = Inr () \<longleftrightarrow> sd_partial d = []"
  by (auto simp: decoder_open_def finish_def reject_def decoder_inv_def HEADER_LEN_def split: option.splits)

text \<open>C6: the incremental decoder agrees with a parser of the whole stream, however the stream is cut. Feeding
  any chunks to a fresh decoder returns; it never buffers more than one frame. If no feed fails, the
  messages are exactly the frames of the concatenated bytes, the buffer is the incomplete frame behind
  them, and the end of the stream is accepted exactly when that is empty. If a feed fails, the decoder
  holds no bytes and refuses everything from then on; and a well-formed stream of at most 64 frames in
  chunks within the size limit never fails.\<close>

theorem stream_decoder_chunking:
  "\<exists>r d. feed_all codec chunks stream_decoder_new = Some (r, d) \<and>
     length (sd_partial d) < HEADER_LEN + MAX_CONTROL_FRAME_BYTES \<and>
     (\<forall>es. r = Inr es \<longrightarrow> parse_stream codec (concat chunks) = (es, Some (sd_partial d)) \<and>
        (fst (finish d) = Inr () \<longleftrightarrow> sd_partial d = [])) \<and>
     (\<forall>e. r = Inl e \<longrightarrow> sd_partial d = [] \<and> (\<forall>c. feed codec c d = Some (Inl Poisoned, d))) \<and>
     (\<forall>es rest. parse_stream codec (concat chunks) = (es, Some rest) \<and> length es \<le> MAX_FRAMES_PER_FEED \<and>
        (\<forall>c\<in>set chunks. length c \<le> MAX_STREAM_FEED_BYTES) \<longrightarrow> r = Inr es)"
proof -
  have start: "sd_partial stream_decoder_new @ concat chunks = concat chunks"
    by (simp add: stream_decoder_new_def)
  obtain r d where fed: "feed_all codec chunks stream_decoder_new = Some (r, d)"
    and r: "case r of
       Inr es \<Rightarrow> decoder_open d \<and> parse_stream codec (concat chunks) = (es, Some (sd_partial d))
     | Inl e \<Rightarrow> sd_poisoned d \<and> sd_partial d = [] \<and>
         (\<forall>es rest. parse_stream codec (concat chunks) = (es, Some rest) \<longrightarrow>
            length es > MAX_FRAMES_PER_FEED \<or> (\<exists>c\<in>set chunks. length c > MAX_STREAM_FEED_BYTES))"
    using feed_all_open [OF decoder_new_open, of codec chunks] unfolding start by blast
  show ?thesis
  proof (cases r)
    case (Inl e)
    then show ?thesis using fed r poisoned_stays by (fastforce simp: HEADER_LEN_def not_less [symmetric])
  next
    case (Inr es)
    then show ?thesis using fed r finish_open decoder_inv_bound by (auto simp: decoder_open_def)
  qed
qed

lemma ex_stream: "parse_stream ex_codec [0, 0, 0, 2, 123, 125, 0] = ([ex_envelope], Some [0])"
proof -
  have len: "read_control_length [0, 0, 0, 2, 123, 125] = Inr 2"
    by (simp add: read_control_length_def from_be_bytes_def HEADER_LEN_def MAX_CONTROL_FRAME_BYTES_def)
  have "decode_control_frame ex_codec [0, 0, 0, 2, 123, 125] = Inr ex_envelope"
    unfolding decode_control_frame_def len
    by (simp add: HEADER_LEN_def ex_codec_def validate_envelope_def ex_envelope_def CONTROL_VERSION_def)
  moreover have "parse_stream ex_codec [0] = ([], Some [0])"
    by (subst parse_stream.simps) (simp add: HEADER_LEN_def)
  ultimately show ?thesis
    using parse_frame [of "[0, 0, 0, 2, 123, 125]" 2 ex_codec "[0]"] len by (simp add: HEADER_LEN_def)
qed

theorem stream_decoder_chunking_witness:
  "\<exists>d. feed_all ex_codec [[0, 0], [0, 2, 123], [125, 0]] stream_decoder_new = Some (Inr [ex_envelope], d) \<and>
     length (sd_partial d) < HEADER_LEN + MAX_CONTROL_FRAME_BYTES"
proof -
  have "concat [[0, 0], [0, 2, 123], [125, 0]] = [0, 0, 0, 2, 123, 125, 0 :: u8]" by simp
  with stream_decoder_chunking [of ex_codec "[[0, 0], [0, 2, 123], [125, 0]]"] ex_stream
  show ?thesis by (auto simp: MAX_FRAMES_PER_FEED_def MAX_STREAM_FEED_BYTES_def)
qed

end
