(* ===== verification/Control_Io.thy ===== *)
theory Control_Io
  imports Control_Stream
begin

text \<open>
  \<open>crates/blueroute-protocol/src/control_io.rs\<close>: reading and writing one frame on a byte stream within an
  absolute deadline. The stream and the clock are a record of operations on an arbitrary state, as the code is
  generic in \<open>DeadlineControlRead\<close> and \<open>DeadlineControlWrite\<close>; an \<open>Instant\<close> is a number of nanoseconds. The
  loops are partial functions, since a transport that is interrupted for ever would keep them turning.
\<close>

section \<open>Transports\<close>

datatype io_error_kind = UnexpectedEof | TimedOut | WouldBlock | Interrupted | WriteZero | OtherIo nat

datatype io_error = IoError (io_kind: io_error_kind) (io_detail: "string option")

record 'w deadline_stream =
  ds_now :: "'w \<Rightarrow> nat \<times> 'w"
  ds_set_read_timeout :: "nat \<Rightarrow> 'w \<Rightarrow> (io_error + unit) \<times> 'w"
  ds_read :: "nat \<Rightarrow> 'w \<Rightarrow> (io_error + u8 list) \<times> 'w"
  ds_set_write_timeout :: "nat \<Rightarrow> 'w \<Rightarrow> (io_error + unit) \<times> 'w"
  ds_write :: "u8 list \<Rightarrow> 'w \<Rightarrow> (io_error + nat) \<times> 'w"

datatype control_io_error = IoFailure io_error | FrameFailure control_frame_error

text \<open>The \<open>?\<close> of code that runs such a loop, and its \<open>map_err\<close>.\<close>

definition bindO ::
  "(('e + 'a) \<times> 'w) option \<Rightarrow> ('a \<Rightarrow> 'w \<Rightarrow> (('e + 'b) \<times> 'w) option) \<Rightarrow> (('e + 'b) \<times> 'w) option" where
  "bindO m f =
     (case m of None \<Rightarrow> None | Some (Inl e, w) \<Rightarrow> Some (Inl e, w) | Some (Inr x, w) \<Rightarrow> f x w)"

definition mapO_err :: "('e \<Rightarrow> 'f) \<Rightarrow> (('e + 'a) \<times> 'w) option \<Rightarrow> (('f + 'a) \<times> 'w) option" where
  "mapO_err f m = map_option (\<lambda>(r, w). (map_err f r, w)) m"

lemma bindO_eq_Inr: "bindO m f = Some (Inr y, w') \<longleftrightarrow> (\<exists>x w1. m = Some (Inr x, w1) \<and> f x w1 = Some (Inr y, w'))"
  by (auto simp: bindO_def split: option.splits sum.splits)

lemma mapO_err_eq_Inr [simp]: "mapO_err f m = Some (Inr x, w) \<longleftrightarrow> m = Some (Inr x, w)"
  by (auto simp: mapO_err_def)

lemma mapO_err_returns: "\<exists>r w. m = Some (r, w) \<and> P w \<Longrightarrow> \<exists>r w. mapO_err f m = Some (r, w) \<and> P w"
  by (auto simp: mapO_err_def)

lemma bindO_returns:
  assumes "\<exists>r w1. m = Some (r, w1) \<and> P w1" "\<And>x w1. P w1 \<Longrightarrow> \<exists>r w2. f x w1 = Some (r, w2) \<and> P w2"
  shows "\<exists>r w2. bindO m f = Some (r, w2) \<and> P w2"
proof -
  from assms(1) obtain r w1 where "m = Some (r, w1)" "P w1" by blast
  then show ?thesis using assms(2) [of w1] by (cases r) (auto simp: bindO_def)
qed

section \<open>Reading and writing\<close>

definition remaining_budget :: "'w deadline_stream \<Rightarrow> nat \<Rightarrow> 'w \<Rightarrow> (io_error + nat) \<times> 'w" where
  "remaining_budget ds deadline w =
     (case ds_now ds w of (now, w') \<Rightarrow>
        let remaining = deadline - now in
        if remaining = 0 then (Inl (IoError TimedOut (Some ''control frame deadline expired'')), w')
        else (Inr remaining, w'))"

definition io_timed_out :: "io_error \<Rightarrow> bool" where
  "io_timed_out e \<longleftrightarrow> io_kind e = TimedOut \<or> io_kind e = WouldBlock"

text \<open>The bytes received so far are the part of the target buffer that is filled.\<close>

partial_function (option) read_exact_until ::
  "'w deadline_stream \<Rightarrow> nat \<Rightarrow> nat \<Rightarrow> u8 list \<Rightarrow> 'w \<Rightarrow> ((io_error + u8 list) \<times> 'w) option" where
  "read_exact_until ds deadline len received w =
     (if length received < len
      then (case remaining_budget ds deadline w of
          (Inl e, w1) \<Rightarrow> Some (Inl e, w1)
        | (Inr budget, w1) \<Rightarrow>
            (case ds_set_read_timeout ds budget w1 of
               (Inl e, w2) \<Rightarrow> Some (Inl e, w2)
             | (Inr _, w2) \<Rightarrow>
                 (case ds_read ds (len - length received) w2 of
                    (Inr bs, w3) \<Rightarrow>
                      if bs = [] then Some (Inl (IoError UnexpectedEof None), w3)
                      else read_exact_until ds deadline len (received @ bs) w3
                  | (Inl e, w3) \<Rightarrow>
                      if io_kind e = Interrupted then read_exact_until ds deadline len received w3
                      else if io_timed_out e then Some (Inl (IoError TimedOut None), w3)
                      else Some (Inl e, w3))))
      else (case remaining_budget ds deadline w of
          (Inl e, w1) \<Rightarrow> Some (Inl e, w1)
        | (Inr _, w1) \<Rightarrow> Some (Inr received, w1)))"

definition read_one_control_frame_with_deadline ::
  "json_codec \<Rightarrow> 'w deadline_stream \<Rightarrow> nat \<Rightarrow> 'w \<Rightarrow> ((control_io_error + control_envelope) \<times> 'w) option" where
  "read_one_control_frame_with_deadline codec ds deadline w =
     (case read_exact_until ds deadline 4 [] w of
        None \<Rightarrow> None
      | Some (Inl e, w1) \<Rightarrow> Some (Inl (IoFailure e), w1)
      | Some (Inr prefix, w1) \<Rightarrow>
          (case read_control_length prefix of
             Inl e \<Rightarrow> Some (Inl (FrameFailure e), w1)
           | Inr n \<Rightarrow>
               (case read_exact_until ds deadline n [] w1 of
                  None \<Rightarrow> None
                | Some (Inl e, w2) \<Rightarrow> Some (Inl (IoFailure e), w2)
                | Some (Inr body, w2) \<Rightarrow> Some (map_err FrameFailure (decode_control_frame codec (prefix @ body)), w2))))"

partial_function (option) write_all_until ::
  "'w deadline_stream \<Rightarrow> nat \<Rightarrow> u8 list \<Rightarrow> nat \<Rightarrow> 'w \<Rightarrow> ((io_error + unit) \<times> 'w) option" where
  "write_all_until ds deadline bytes sent w =
     (if sent < length bytes
      then (case remaining_budget ds deadline w of
          (Inl e, w1) \<Rightarrow> Some (Inl e, w1)
        | (Inr budget, w1) \<Rightarrow>
            (case ds_set_write_timeout ds budget w1 of
               (Inl e, w2) \<Rightarrow> Some (Inl e, w2)
             | (Inr _, w2) \<Rightarrow>
                 (case ds_write ds (drop sent bytes) w2 of
                    (Inr count, w3) \<Rightarrow>
                      if count = 0 then Some (Inl (IoError WriteZero None), w3)
                      else write_all_until ds deadline bytes (sent + count) w3
                  | (Inl e, w3) \<Rightarrow>
                      if io_kind e = Interrupted then write_all_until ds deadline bytes sent w3
                      else if io_timed_out e then Some (Inl (IoError TimedOut None), w3)
                      else Some (Inl e, w3))))
      else (case remaining_budget ds deadline w of
          (Inl e, w1) \<Rightarrow> Some (Inl e, w1)
        | (Inr _, w1) \<Rightarrow> Some (Inr (), w1)))"

definition write_one_control_frame_with_deadline ::
  "json_codec \<Rightarrow> 'w deadline_stream \<Rightarrow> control_envelope \<Rightarrow> nat \<Rightarrow> 'w \<Rightarrow> ((control_io_error + unit) \<times> 'w) option" where
  "write_one_control_frame_with_deadline codec ds frame deadline w =
     (case encode_control_frame codec frame of
        Inl e \<Rightarrow> Some (Inl (FrameFailure e), w)
      | Inr bytes \<Rightarrow> map_option (\<lambda>(r, w'). (map_err IoFailure r, w')) (write_all_until ds deadline bytes 0 w))"

section \<open>What a transport promises\<close>

text \<open>
  A transport seen through its ghost state: the bytes still to come, the bytes sent, the time, and the two timeouts,
  of which \<open>set_control_read_timeout\<close> sets only the one for reads and \<open>set_control_write_timeout\<close> only the one for
  writes. Time passes only while the transport blocks, at least one nanosecond at a time; a read blocks no longer than
  the positive read timeout, a write no longer than the positive write timeout. A read hands out the next bytes, at
  most as many as the buffer holds; a write sends a prefix of what it is given.
\<close>

record transport_view =
  tv_inbound :: "u8 list"
  tv_outbound :: "u8 list"
  tv_clock :: nat
  tv_read_timeout :: nat
  tv_write_timeout :: nat

definition blocks :: "nat \<Rightarrow> transport_view \<Rightarrow> transport_view \<Rightarrow> bool" where
  "blocks timeout v v' \<longleftrightarrow> tv_clock v < tv_clock v' \<and> tv_clock v' \<le> tv_clock v + timeout"

definition transport_contract :: "'w deadline_stream \<Rightarrow> ('w \<Rightarrow> transport_view) \<Rightarrow> bool" where
  "transport_contract ds view \<longleftrightarrow>
     (\<forall>w t w'. ds_now ds w = (t, w') \<longrightarrow> t = tv_clock (view w) \<and> view w' = view w) \<and>
     (\<forall>t w r w'. ds_set_read_timeout ds t w = (r, w') \<longrightarrow>
        view w' = (case r of Inl _ \<Rightarrow> view w | Inr _ \<Rightarrow> (view w)\<lparr>tv_read_timeout := t\<rparr>)) \<and>
     (\<forall>t w r w'. ds_set_write_timeout ds t w = (r, w') \<longrightarrow>
        view w' = (case r of Inl _ \<Rightarrow> view w | Inr _ \<Rightarrow> (view w)\<lparr>tv_write_timeout := t\<rparr>)) \<and>
     (\<forall>n w r w'. 0 < tv_read_timeout (view w) \<and> ds_read ds n w = (r, w') \<longrightarrow>
        blocks (tv_read_timeout (view w)) (view w) (view w') \<and> tv_outbound (view w') = tv_outbound (view w) \<and>
        (case r of
           Inr bs \<Rightarrow> length bs \<le> n \<and> tv_inbound (view w) = bs @ tv_inbound (view w')
         | Inl _ \<Rightarrow> tv_inbound (view w') = tv_inbound (view w))) \<and>
     (\<forall>bs w r w'. 0 < tv_write_timeout (view w) \<and> ds_write ds bs w = (r, w') \<longrightarrow>
        blocks (tv_write_timeout (view w)) (view w) (view w') \<and> tv_inbound (view w') = tv_inbound (view w) \<and>
        (case r of
           Inr n \<Rightarrow> n \<le> length bs \<and> tv_outbound (view w') = tv_outbound (view w) @ take n bs
         | Inl _ \<Rightarrow> tv_outbound (view w') = tv_outbound (view w)))"

text \<open>The steps of one turn, on the view of the transport.\<close>

lemma budget_view:
  assumes contract: "transport_contract ds view" and budget: "remaining_budget ds deadline w = (r, w')"
  shows "view w' = view w"
    "case r of Inl _ \<Rightarrow> deadline \<le> tv_clock (view w) | Inr b \<Rightarrow> 0 < b \<and> tv_clock (view w) + b = deadline"
proof -
  obtain now w1 where now: "ds_now ds w = (now, w1)" by force
  then have "now = tv_clock (view w)" "view w1 = view w"
    using contract unfolding transport_contract_def by blast+
  then show "view w' = view w"
    "case r of Inl _ \<Rightarrow> deadline \<le> tv_clock (view w) | Inr b \<Rightarrow> 0 < b \<and> tv_clock (view w) + b = deadline"
    using budget by (auto simp: remaining_budget_def now Let_def split: if_splits)
qed

lemma set_read_timeout_view:
  assumes "transport_contract ds view" "ds_set_read_timeout ds t w = (r, w')"
  shows "view w' = (case r of Inl _ \<Rightarrow> view w | Inr _ \<Rightarrow> (view w)\<lparr>tv_read_timeout := t\<rparr>)"
  using assms unfolding transport_contract_def by blast

lemma set_write_timeout_view:
  assumes "transport_contract ds view" "ds_set_write_timeout ds t w = (r, w')"
  shows "view w' = (case r of Inl _ \<Rightarrow> view w | Inr _ \<Rightarrow> (view w)\<lparr>tv_write_timeout := t\<rparr>)"
  using assms unfolding transport_contract_def by blast

lemma read_view:
  assumes "transport_contract ds view" "0 < tv_read_timeout (view w)" "ds_read ds n w = (r, w')"
  shows "blocks (tv_read_timeout (view w)) (view w) (view w')" "tv_outbound (view w') = tv_outbound (view w)"
    "case r of Inr bs \<Rightarrow> length bs \<le> n \<and> tv_inbound (view w) = bs @ tv_inbound (view w')
       | Inl _ \<Rightarrow> tv_inbound (view w') = tv_inbound (view w)"
  using assms unfolding transport_contract_def by blast+

lemma write_view:
  assumes "transport_contract ds view" "0 < tv_write_timeout (view w)" "ds_write ds bs w = (r, w')"
  shows "blocks (tv_write_timeout (view w)) (view w) (view w')" "tv_inbound (view w') = tv_inbound (view w)"
    "case r of Inr n \<Rightarrow> n \<le> length bs \<and> tv_outbound (view w') = tv_outbound (view w) @ take n bs
       | Inl _ \<Rightarrow> tv_outbound (view w') = tv_outbound (view w)"
  using assms unfolding transport_contract_def by blast+

text \<open>What the loops do, from any point of their run.\<close>

definition read_outcome ::
  "transport_view \<Rightarrow> nat \<Rightarrow> nat \<Rightarrow> u8 list \<Rightarrow> io_error + u8 list \<Rightarrow> transport_view \<Rightarrow> bool" where
  "read_outcome v deadline len received r v' \<longleftrightarrow>
     tv_outbound v' = tv_outbound v \<and> tv_clock v' \<le> max (tv_clock v) deadline \<and>
     (\<exists>got. tv_inbound v = got @ tv_inbound v' \<and> length received + length got \<le> len \<and>
        (case r of Inr bs \<Rightarrow> bs = received @ got \<and> length bs = len \<and> tv_clock v' < deadline | Inl _ \<Rightarrow> True))"

lemma read_outcome_step:
  assumes "read_outcome v1 deadline len (received @ bs) r v'" "tv_inbound v = bs @ tv_inbound v1"
    "tv_outbound v1 = tv_outbound v" "tv_clock v1 \<le> deadline"
  shows "read_outcome v deadline len received r v'"
  using assms unfolding read_outcome_def by (cases r) (force simp: max_def)+

text \<open>One turn of a loop ends it with an error, or passes time and goes on.\<close>

lemma read_turn:
  assumes contract: "transport_contract ds view" and more: "length received < len"
  obtains (stop) e w' where "read_exact_until ds deadline len received w = Some (Inl e, w')"
      "tv_inbound (view w') = tv_inbound (view w)" "tv_outbound (view w') = tv_outbound (view w)"
      "tv_clock (view w') \<le> max (tv_clock (view w)) deadline"
    | (again) bs w' where "read_exact_until ds deadline len received w = read_exact_until ds deadline len (received @ bs) w'"
      "length (received @ bs) \<le> len" "tv_inbound (view w) = bs @ tv_inbound (view w')"
      "tv_outbound (view w') = tv_outbound (view w)" "tv_clock (view w') \<le> deadline"
      "deadline - tv_clock (view w') < deadline - tv_clock (view w)"
proof -
  note unfold = read_exact_until.simps [of ds deadline len received w]
  obtain b w1 where b: "remaining_budget ds deadline w = (b, w1)" by force
  note budget = budget_view [OF contract b]
  show thesis
  proof (cases b)
    case (Inl e)
    then show thesis using unfold more budget by (intro stop [of e w1]) (simp_all add: b)
  next
    case t: (Inr t)
    obtain s w2 where s: "ds_set_read_timeout ds t w1 = (s, w2)" by force
    note set = set_read_timeout_view [OF contract s, unfolded budget(1)]
    show thesis
    proof (cases s)
      case (Inl e)
      then show thesis using unfold more set by (intro stop [of e w2]) (simp_all add: b t s)
    next
      case (Inr u)
      then have v2: "tv_inbound (view w2) = tv_inbound (view w)" "tv_outbound (view w2) = tv_outbound (view w)"
        "tv_clock (view w2) = tv_clock (view w)" "tv_read_timeout (view w2) = t"
        using set by simp_all
      have armed: "0 < tv_read_timeout (view w2)" using budget(2) t v2(4) by simp
      obtain q w3 where q: "ds_read ds (len - length received) w2 = (q, w3)" by force
      have clock: "tv_clock (view w) < tv_clock (view w3)" "tv_clock (view w3) \<le> deadline"
        using read_view(1) [OF contract armed q] budget(2) t by (auto simp: blocks_def v2)
      note rd = read_view(2,3) [OF contract armed q, unfolded v2]
      show thesis
      proof (cases q)
        case (Inl e)
        then show thesis using unfold more rd clock t s q Inr again [of "[]" w3]
            stop [of "if io_timed_out e then IoError TimedOut None else e" w3]
          by (cases "io_kind e = Interrupted") (auto simp: b)
      next
        case bs: (Inr bs)
        then show thesis using unfold more rd clock t s q Inr again [of bs w3] stop [of "IoError UnexpectedEof None" w3]
          by (cases "bs = []") (auto simp: b)
      qed
    qed
  qed
qed

lemma read_exact_until_outcome:
  assumes contract: "transport_contract ds view" and fits: "length received \<le> len"
  shows "\<exists>r w'. read_exact_until ds deadline len received w = Some (r, w') \<and>
    read_outcome (view w) deadline len received r (view w')"
  using fits
proof (induction "deadline - tv_clock (view w)" arbitrary: received w rule: less_induct)
  case less
  show ?case
  proof (cases "length received < len")
    case True
    then show ?thesis
    proof (cases rule: read_turn [OF contract, of received len deadline w, consumes 1, case_names stop again])
      case (stop e w')
      then show ?thesis using less.prems by (auto simp: read_outcome_def)
    next
      case (again bs w')
      from less.hyps [OF again(6,2)] obtain r w'' where
        r: "read_exact_until ds deadline len (received @ bs) w' = Some (r, w'')"
          "read_outcome (view w') deadline len (received @ bs) r (view w'')" by blast
      from read_outcome_step [OF r(2) again(3-5)] show ?thesis using again(1) r(1) by auto
    qed
  next
    case False
    obtain b w1 where b: "remaining_budget ds deadline w = (b, w1)" by force
    note budget = budget_view [OF contract b]
    have "read_exact_until ds deadline len received w = Some (map_sum id (\<lambda>_. received) b, w1)"
      using False b by (subst read_exact_until.simps) (simp split: sum.split)
    then show ?thesis using False less.prems budget by (cases b) (auto simp: read_outcome_def)
  qed
qed

text \<open>The same for writing.\<close>

definition write_outcome ::
  "transport_view \<Rightarrow> nat \<Rightarrow> u8 list \<Rightarrow> nat \<Rightarrow> io_error + unit \<Rightarrow> transport_view \<Rightarrow> bool" where
  "write_outcome v deadline bytes sent r v' \<longleftrightarrow>
     tv_inbound v' = tv_inbound v \<and> tv_clock v' \<le> max (tv_clock v) deadline \<and>
     (\<exists>n. sent + n \<le> length bytes \<and> tv_outbound v' = tv_outbound v @ take n (drop sent bytes) \<and>
        (r = Inr () \<longrightarrow> sent + n = length bytes \<and> tv_clock v' < deadline))"

lemma write_outcome_step:
  assumes "write_outcome v1 deadline bytes (sent + k) r v'" "k \<le> length bytes - sent"
    "tv_outbound v1 = tv_outbound v @ take k (drop sent bytes)" "tv_inbound v1 = tv_inbound v" "tv_clock v1 \<le> deadline"
  shows "write_outcome v deadline bytes sent r v'"
proof -
  from assms(1) obtain n where n: "sent + k + n \<le> length bytes"
    "tv_outbound v' = tv_outbound v1 @ take n (drop (sent + k) bytes)"
    "r = Inr () \<longrightarrow> sent + k + n = length bytes \<and> tv_clock v' < deadline"
    "tv_inbound v' = tv_inbound v1" "tv_clock v' \<le> max (tv_clock v1) deadline"
    unfolding write_outcome_def by blast
  have "take (k + n) (drop sent bytes) = take k (drop sent bytes) @ take n (drop (sent + k) bytes)"
    by (simp add: take_add add.commute)
  then show ?thesis unfolding write_outcome_def using n assms(3-5) by (intro conjI exI [of _ "k + n"]) auto
qed

lemma write_turn:
  assumes contract: "transport_contract ds view" and more: "sent < length bytes"
  obtains (stop) e w' where "write_all_until ds deadline bytes sent w = Some (Inl e, w')"
      "tv_inbound (view w') = tv_inbound (view w)" "tv_outbound (view w') = tv_outbound (view w)"
      "tv_clock (view w') \<le> max (tv_clock (view w)) deadline"
    | (again) k w' where "write_all_until ds deadline bytes sent w = write_all_until ds deadline bytes (sent + k) w'"
      "k \<le> length bytes - sent" "tv_outbound (view w') = tv_outbound (view w) @ take k (drop sent bytes)"
      "tv_inbound (view w') = tv_inbound (view w)" "tv_clock (view w') \<le> deadline"
      "deadline - tv_clock (view w') < deadline - tv_clock (view w)"
proof -
  note unfold = write_all_until.simps [of ds deadline bytes sent w]
  obtain b w1 where b: "remaining_budget ds deadline w = (b, w1)" by force
  note budget = budget_view [OF contract b]
  show thesis
  proof (cases b)
    case (Inl e)
    then show thesis using unfold more budget by (intro stop [of e w1]) (simp_all add: b)
  next
    case t: (Inr t)
    obtain s w2 where s: "ds_set_write_timeout ds t w1 = (s, w2)" by force
    note set = set_write_timeout_view [OF contract s, unfolded budget(1)]
    show thesis
    proof (cases s)
      case (Inl e)
      then show thesis using unfold more set by (intro stop [of e w2]) (simp_all add: b t s)
    next
      case (Inr u)
      then have v2: "tv_inbound (view w2) = tv_inbound (view w)" "tv_outbound (view w2) = tv_outbound (view w)"
        "tv_clock (view w2) = tv_clock (view w)" "tv_write_timeout (view w2) = t"
        using set by simp_all
      have armed: "0 < tv_write_timeout (view w2)" using budget(2) t v2(4) by simp
      obtain q w3 where q: "ds_write ds (drop sent bytes) w2 = (q, w3)" by force
      have clock: "tv_clock (view w) < tv_clock (view w3)" "tv_clock (view w3) \<le> deadline"
        using write_view(1) [OF contract armed q] budget(2) t by (auto simp: blocks_def v2)
      note wr = write_view(2,3) [OF contract armed q, unfolded v2]
      show thesis
      proof (cases q)
        case (Inl e)
        then show thesis using unfold more wr clock t s q Inr again [of 0 w3]
            stop [of "if io_timed_out e then IoError TimedOut None else e" w3]
          by (cases "io_kind e = Interrupted") (auto simp: b)
      next
        case k: (Inr k)
        then show thesis using unfold more wr clock t s q Inr again [of k w3] stop [of "IoError WriteZero None" w3]
          by (cases "k = 0") (auto simp: b)
      qed
    qed
  qed
qed

lemma write_all_until_outcome:
  assumes contract: "transport_contract ds view" and fits: "sent \<le> length bytes"
  shows "\<exists>r w'. write_all_until ds deadline bytes sent w = Some (r, w') \<and>
    write_outcome (view w) deadline bytes sent r (view w')"
  using fits
proof (induction "deadline - tv_clock (view w)" arbitrary: sent w rule: less_induct)
  case less
  show ?case
  proof (cases "sent < length bytes")
    case True
    then show ?thesis
    proof (cases rule: write_turn [OF contract, of sent bytes deadline w, consumes 1, case_names stop again])
      case (stop e w')
      then show ?thesis using less.prems by (auto simp: write_outcome_def intro: exI [of _ 0])
    next
      case (again k w')
      have "sent + k \<le> length bytes" using again(2) True by simp
      from less.hyps [OF again(6) this] obtain r w'' where
        r: "write_all_until ds deadline bytes (sent + k) w' = Some (r, w'')"
          "write_outcome (view w') deadline bytes (sent + k) r (view w'')" by blast
      from write_outcome_step [OF r(2) again(2-5)] show ?thesis using again(1) r(1) by auto
    qed
  next
    case False
    obtain b w1 where b: "remaining_budget ds deadline w = (b, w1)" by force
    note budget = budget_view [OF contract b]
    have "write_all_until ds deadline bytes sent w = Some (map_sum id (\<lambda>_. ()) b, w1)"
      using False b by (subst write_all_until.simps) (simp split: sum.split)
    then show ?thesis using False less.prems budget by (cases b) (auto simp: write_outcome_def)
  qed
qed

section \<open>Whole frames\<close>

lemma read_exact_fresh:
  assumes contract: "transport_contract ds view"
  obtains r w' got where "read_exact_until ds deadline len [] w = Some (r, w')"
    "tv_inbound (view w) = got @ tv_inbound (view w')" "length got \<le> len"
    "tv_outbound (view w') = tv_outbound (view w)" "tv_clock (view w') \<le> max (tv_clock (view w)) deadline"
    "\<forall>bs. r = Inr bs \<longrightarrow> bs = got \<and> length bs = len \<and> tv_clock (view w') < deadline"
proof -
  obtain r w' where r: "read_exact_until ds deadline len [] w = Some (r, w')"
    and out: "read_outcome (view w) deadline len [] r (view w')"
    using read_exact_until_outcome [OF contract, of "[]" len deadline w] by auto
  from out obtain got where "tv_inbound (view w) = got @ tv_inbound (view w')" "length got \<le> len"
    "case r of Inr bs \<Rightarrow> bs = [] @ got \<and> length bs = len \<and> tv_clock (view w') < deadline | Inl _ \<Rightarrow> True"
    by (auto simp: read_outcome_def)
  with r out show thesis by (intro that [of r w' got]) (auto simp: read_outcome_def)
qed

lemma read_frame_outcome:
  assumes contract: "transport_contract ds view"
  shows "\<exists>r w' got. read_one_control_frame_with_deadline codec ds deadline w = Some (r, w') \<and>
    tv_inbound (view w) = got @ tv_inbound (view w') \<and> length got \<le> HEADER_LEN + MAX_CONTROL_FRAME_BYTES \<and>
    tv_outbound (view w') = tv_outbound (view w) \<and> tv_clock (view w') \<le> max (tv_clock (view w)) deadline \<and>
    (case r of Inr e \<Rightarrow> decode_control_frame codec got = Inr e \<and> tv_clock (view w') < deadline
       | Inl (FrameFailure f) \<Rightarrow> decode_control_frame codec got = Inl f | Inl (IoFailure _) \<Rightarrow> True)"
proof -
  note read = read_one_control_frame_with_deadline_def [of codec ds deadline w]
  obtain p w1 got1 where p: "read_exact_until ds deadline 4 [] w = Some (p, w1)"
    and got1: "tv_inbound (view w) = got1 @ tv_inbound (view w1)" "length got1 \<le> 4"
    "tv_outbound (view w1) = tv_outbound (view w)" "tv_clock (view w1) \<le> max (tv_clock (view w)) deadline"
    and hd: "\<forall>bs. p = Inr bs \<longrightarrow> bs = got1 \<and> length bs = 4 \<and> tv_clock (view w1) < deadline"
    by (rule read_exact_fresh [OF contract, where deadline = deadline and len = 4 and w = w])
  show ?thesis
  proof (cases p)
    case (Inl e)
    then show ?thesis using p got1 by (auto simp: read HEADER_LEN_def intro!: exI [of _ got1])
  next
    case (Inr bs)
    note hdr = hd [rule_format, OF Inr]
    show ?thesis
    proof (cases "read_control_length bs")
      case (Inl e)
      then show ?thesis using p got1 Inr hdr
        by (auto simp: read HEADER_LEN_def decode_control_frame_def bindR_def intro!: exI [of _ got1])
    next
      case n: (Inr n)
      have len: "n \<le> MAX_CONTROL_FRAME_BYTES" using read_control_length_Inr [OF n] by simp
      obtain q w2 got2 where q: "read_exact_until ds deadline n [] w1 = Some (q, w2)"
        and got2: "tv_inbound (view w1) = got2 @ tv_inbound (view w2)" "length got2 \<le> n"
        "tv_outbound (view w2) = tv_outbound (view w1)" "tv_clock (view w2) \<le> max (tv_clock (view w1)) deadline"
        and body: "\<forall>cs. q = Inr cs \<longrightarrow> cs = got2 \<and> length cs = n \<and> tv_clock (view w2) < deadline"
        by (rule read_exact_fresh [OF contract, where deadline = deadline and len = n and w = w1])
      have result: "read_one_control_frame_with_deadline codec ds deadline w =
          Some (case q of Inl e \<Rightarrow> Inl (IoFailure e)
            | Inr cs \<Rightarrow> map_err FrameFailure (decode_control_frame codec (bs @ cs)), w2)"
        by (simp add: read p Inr n q split: sum.split)
      have "tv_inbound (view w) = (got1 @ got2) @ tv_inbound (view w2)"
        "length (got1 @ got2) \<le> HEADER_LEN + MAX_CONTROL_FRAME_BYTES"
        using got1(1,2) got2(1,2) len by (auto simp: HEADER_LEN_def)
      moreover have "tv_outbound (view w2) = tv_outbound (view w)"
        "tv_clock (view w2) \<le> max (tv_clock (view w)) deadline"
        using got1(3,4) got2(3,4) by auto
      moreover have "case (case q of Inl e \<Rightarrow> Inl (IoFailure e)
            | Inr cs \<Rightarrow> map_err FrameFailure (decode_control_frame codec (bs @ cs))) of
          Inr e \<Rightarrow> decode_control_frame codec (got1 @ got2) = Inr e \<and> tv_clock (view w2) < deadline
        | Inl (FrameFailure f) \<Rightarrow> decode_control_frame codec (got1 @ got2) = Inl f | Inl (IoFailure _) \<Rightarrow> True"
      proof (cases q)
        case (Inr cs)
        then show ?thesis using body hdr
          by (cases "decode_control_frame codec (got1 @ got2)") (simp_all add: map_err_def)
      qed simp
      ultimately show ?thesis using result by blast
    qed
  qed
qed

lemma write_frame_outcome:
  assumes contract: "transport_contract ds view"
  shows "\<exists>r w'. write_one_control_frame_with_deadline codec ds e deadline w = Some (r, w') \<and>
    tv_inbound (view w') = tv_inbound (view w) \<and> tv_clock (view w') \<le> max (tv_clock (view w)) deadline \<and>
    (case encode_control_frame codec e of
       Inl f \<Rightarrow> r = Inl (FrameFailure f) \<and> w' = w
     | Inr bytes \<Rightarrow> (\<exists>n \<le> length bytes. tv_outbound (view w') = tv_outbound (view w) @ take n bytes \<and>
         (r = Inr () \<longrightarrow> n = length bytes \<and> tv_clock (view w') < deadline)))"
proof (cases "encode_control_frame codec e")
  case (Inl f)
  then show ?thesis by (simp add: write_one_control_frame_with_deadline_def)
next
  case (Inr bytes)
  obtain r w' where "write_all_until ds deadline bytes 0 w = Some (r, w')"
    "write_outcome (view w) deadline bytes 0 r (view w')"
    using write_all_until_outcome [OF contract, of 0 bytes deadline w] by auto
  then show ?thesis using Inr
    by (auto simp: write_one_control_frame_with_deadline_def write_outcome_def map_err_def split: sum.splits)
qed

lemma read_frame_Inr:
  assumes contract: "transport_contract ds view"
    and read: "read_one_control_frame_with_deadline codec ds deadline w = Some (Inr e, w')"
  obtains got where "tv_inbound (view w) = got @ tv_inbound (view w')" "decode_control_frame codec got = Inr e"
    "tv_outbound (view w') = tv_outbound (view w)" "tv_clock (view w') < deadline"
  using read_frame_outcome [OF contract, of codec deadline w] read by auto

lemma write_frame_Inr:
  assumes contract: "transport_contract ds view"
    and written: "write_one_control_frame_with_deadline codec ds e deadline w = Some (Inr u, w')"
  obtains bytes where "encode_control_frame codec e = Inr bytes"
    "tv_outbound (view w') = tv_outbound (view w) @ bytes" "tv_inbound (view w') = tv_inbound (view w)"
  using write_frame_outcome [OF contract, of codec e deadline w] written by (auto split: sum.splits)

lemma frame_io_returns:
  assumes contract: "transport_contract ds view" and early: "tv_clock (view w) \<le> max t deadline"
  shows "\<exists>r w'. read_one_control_frame_with_deadline codec ds deadline w = Some (r, w') \<and>
      tv_clock (view w') \<le> max t deadline"
    "\<exists>r w'. write_one_control_frame_with_deadline codec ds e deadline w = Some (r, w') \<and>
      tv_clock (view w') \<le> max t deadline"
proof -
  obtain r w' where "read_one_control_frame_with_deadline codec ds deadline w = Some (r, w')"
    "tv_clock (view w') \<le> max (tv_clock (view w)) deadline"
    using read_frame_outcome [OF contract, of codec deadline w] by blast
  then show "\<exists>r w'. read_one_control_frame_with_deadline codec ds deadline w = Some (r, w') \<and>
      tv_clock (view w') \<le> max t deadline" using early by auto
  obtain r w' where "write_one_control_frame_with_deadline codec ds e deadline w = Some (r, w')"
    "tv_clock (view w') \<le> max (tv_clock (view w)) deadline"
    using write_frame_outcome [OF contract, of codec e deadline w] by blast
  then show "\<exists>r w'. write_one_control_frame_with_deadline codec ds e deadline w = Some (r, w') \<and>
      tv_clock (view w') \<le> max t deadline" using early by auto
qed

text \<open>C15: frame I/O is bounded by its deadline. On any transport that keeps the contract of the traits, reading or
  writing one frame returns, not later than the deadline when it starts before it, however slowly the peer
  feeds or drains it. A frame that is read is exactly the next bytes of the stream: nothing behind it is
  consumed, at most one maximal frame is, and it is rejected when it is malformed and accepted only before the
  deadline. A successful write has sent exactly the encoded frame, a failed one a prefix of it, and a frame that
  does not validate sends nothing.\<close>

theorem control_frame_io_bounded:
  assumes "transport_contract ds view"
  shows "(\<exists>r w' got. read_one_control_frame_with_deadline codec ds deadline w = Some (r, w') \<and>
      tv_inbound (view w) = got @ tv_inbound (view w') \<and> length got \<le> HEADER_LEN + MAX_CONTROL_FRAME_BYTES \<and>
      tv_clock (view w') \<le> max (tv_clock (view w)) deadline \<and>
      (case r of Inr e \<Rightarrow> decode_control_frame codec got = Inr e \<and> tv_clock (view w') < deadline
         | Inl (FrameFailure f) \<Rightarrow> decode_control_frame codec got = Inl f | Inl (IoFailure _) \<Rightarrow> True)) \<and>
    (\<exists>r w'. write_one_control_frame_with_deadline codec ds e deadline w = Some (r, w') \<and>
      tv_clock (view w') \<le> max (tv_clock (view w)) deadline \<and>
      (case encode_control_frame codec e of
         Inl f \<Rightarrow> r = Inl (FrameFailure f) \<and> w' = w
       | Inr bytes \<Rightarrow> (\<exists>n \<le> length bytes. tv_outbound (view w') = tv_outbound (view w) @ take n bytes \<and>
           (r = Inr () \<longrightarrow> n = length bytes \<and> tv_clock (view w') < deadline))))"
  using read_frame_outcome [OF assms, of codec deadline w] write_frame_outcome [OF assms, of codec e deadline w]
  by blast

text \<open>The deterministic in-memory transport of the tests, one byte and one nanosecond at a time.\<close>

definition memory_stream :: "transport_view deadline_stream" where
  "memory_stream =
     \<lparr>ds_now = (\<lambda>v. (tv_clock v, v)),
      ds_set_read_timeout = (\<lambda>t v. (Inr (), v\<lparr>tv_read_timeout := t\<rparr>)),
      ds_read = (\<lambda>n v. (Inr (take (min n 1) (tv_inbound v)),
                        v\<lparr>tv_inbound := drop (min n 1) (tv_inbound v), tv_clock := tv_clock v + 1\<rparr>)),
      ds_set_write_timeout = (\<lambda>t v. (Inr (), v\<lparr>tv_write_timeout := t\<rparr>)),
      ds_write = (\<lambda>bs v. (Inr (length (take 1 bs)),
                          v\<lparr>tv_outbound := tv_outbound v @ take 1 bs, tv_clock := tv_clock v + 1\<rparr>))\<rparr>"

lemma memory_stream_contract: "transport_contract memory_stream id"
  by (auto simp: transport_contract_def memory_stream_def blocks_def min_def)

definition memory_view :: "u8 list \<Rightarrow> transport_view" where
  "memory_view bs = \<lparr>tv_inbound = bs, tv_outbound = [], tv_clock = 0, tv_read_timeout = 0, tv_write_timeout = 0\<rparr>"

theorem control_frame_io_bounded_witness:
  "\<exists>r v. read_one_control_frame_with_deadline ex_codec memory_stream 3 (memory_view [0, 0, 0, 2, 123, 125]) = Some (r, v) \<and>
     tv_clock v \<le> 3"
  using control_frame_io_bounded [OF memory_stream_contract,
      of ex_codec 3 "memory_view [0, 0, 0, 2, 123, 125]" ex_envelope]
  by (auto simp: memory_view_def)

end
