(* ===== verification/Session.thy ===== *)
theory Session
  imports Control
begin

text \<open>
  \<open>crates/blueroute-protocol/src/session.rs\<close>: connection deadlines, the reconnect backoff, the registry of
  control sessions and the reconnect scheduler. A \<open>Duration\<close> is its number of milliseconds.
\<close>

definition MAX_CONTROL_SESSIONS :: nat where
  "MAX_CONTROL_SESSIONS = 128"

definition MAX_RECENT_SESSION_IDS :: nat where
  "MAX_RECENT_SESSION_IDS = 4096"

definition MAX_RECONNECT_ATTEMPTS :: u8 where
  "MAX_RECONNECT_ATTEMPTS = 8"

section \<open>Deadlines\<close>

datatype connection_stage = Connecting | TlsHandshake | HelloStage | ActiveStage | Closing

definition timeout_ms :: "connection_stage \<Rightarrow> u64" where
  "timeout_ms stage =
     (case stage of Connecting \<Rightarrow> 5000 | HelloStage \<Rightarrow> 5000 | Closing \<Rightarrow> 5000
      | TlsHandshake \<Rightarrow> 10000 | ActiveStage \<Rightarrow> 30000)"

definition MAX_CONNECT_AUTH_ATTEMPT_MS :: u64 where
  "MAX_CONNECT_AUTH_ATTEMPT_MS = timeout_ms Connecting + timeout_ms TlsHandshake + timeout_ms HelloStage"

datatype deadline_error = Expired | ClockRegression | InvalidTransition

record connection_deadline =
  cd_stage :: connection_stage
  cd_last_ms :: u64
  cd_expires_ms :: u64

definition deadline_new :: "u64 \<Rightarrow> connection_deadline" where
  "deadline_new now_ms =
     \<lparr>cd_stage = Connecting, cd_last_ms = now_ms,
      cd_expires_ms = saturating_add now_ms (timeout_ms Connecting)\<rparr>"

definition deadline_check :: "connection_deadline \<Rightarrow> u64 \<Rightarrow> deadline_error + unit" where
  "deadline_check d now_ms =
     (if now_ms < cd_last_ms d then Inl ClockRegression
      else if now_ms \<ge> cd_expires_ms d then Inl Expired
      else Inr ())"

fun stage_allowed :: "connection_stage \<Rightarrow> connection_stage \<Rightarrow> bool" where
  "stage_allowed Connecting TlsHandshake = True"
| "stage_allowed TlsHandshake HelloStage = True"
| "stage_allowed HelloStage ActiveStage = True"
| "stage_allowed ActiveStage Closing = True"
| "stage_allowed _ _ = False"

definition deadline_advance ::
  "connection_stage \<Rightarrow> u64 \<Rightarrow> connection_deadline \<Rightarrow> (deadline_error + unit) \<times> connection_deadline" where
  "deadline_advance next now_ms d =
     (case deadline_check d now_ms of
        Inl e \<Rightarrow> (Inl e, d)
      | Inr _ \<Rightarrow>
          if \<not> stage_allowed (cd_stage d) next then (Inl InvalidTransition, d)
          else (Inr (), d\<lparr>cd_stage := next, cd_last_ms := now_ms,
                         cd_expires_ms := saturating_add now_ms (timeout_ms next)\<rparr>))"

definition deadline_abort ::
  "u64 \<Rightarrow> connection_deadline \<Rightarrow> (deadline_error + unit) \<times> connection_deadline" where
  "deadline_abort now_ms d =
     (if now_ms < cd_last_ms d then (Inl ClockRegression, d)
      else if cd_stage d = Closing then (Inr (), d)
      else (Inr (), d\<lparr>cd_stage := Closing, cd_last_ms := now_ms,
                     cd_expires_ms := saturating_add now_ms (timeout_ms Closing)\<rparr>))"

definition authenticated_activity ::
  "u64 \<Rightarrow> connection_deadline \<Rightarrow> (deadline_error + unit) \<times> connection_deadline" where
  "authenticated_activity now_ms d =
     (case deadline_check d now_ms of
        Inl e \<Rightarrow> (Inl e, d)
      | Inr _ \<Rightarrow>
          if cd_stage d \<noteq> ActiveStage then (Inl InvalidTransition, d)
          else (Inr (), d\<lparr>cd_last_ms := now_ms,
                         cd_expires_ms := saturating_add now_ms (timeout_ms ActiveStage)\<rparr>))"

section \<open>Backoff\<close>

record reconnect_backoff =
  rb_failed_attempts :: u8

definition backoff_new :: reconnect_backoff where
  "backoff_new = \<lparr>rb_failed_attempts = 0\<rparr>"

definition after_failure :: "reconnect_backoff \<Rightarrow> u64 option \<times> reconnect_backoff" where
  "after_failure b =
     (if rb_failed_attempts b \<ge> MAX_RECONNECT_ATTEMPTS then (None, b)
      else let multiplier = push_bit (unat (rb_failed_attempts b)) 1 :: u64;
               milliseconds = min (250 * multiplier) 30000
           in (Some milliseconds, b\<lparr>rb_failed_attempts := rb_failed_attempts b + 1\<rparr>))"

definition backoff_reset :: "reconnect_backoff \<Rightarrow> reconnect_backoff" where
  "backoff_reset b = b\<lparr>rb_failed_attempts := 0\<rparr>"

section \<open>The session registry\<close>

datatype peer_session_key = PeerSessionKey (psk_network: network_id) (psk_peer: node_id)

definition key_is_valid :: "peer_session_key \<Rightarrow> bool" where
  "key_is_valid key \<longleftrightarrow> psk_network key \<noteq> zero_ident \<and> psk_peer key \<noteq> zero_ident"

datatype session_phase = SessionActive | SessionLost | SessionReconnecting

record session_entry =
  se_session_id :: session_id
  se_phase :: session_phase

datatype session_registration = RegisteredNew | AlreadyActive | Recovered

datatype session_registry_error =
    InvalidPeerIdentity | ZeroSessionId | DuplicateActiveSession | SessionLimitReached | ReusedSessionId

record control_session_registry =
  sr_sessions :: "(peer_session_key, session_entry) fmap"
  sr_recent_session_ids :: "session_id list"
  sr_seen_session_ids :: "session_id fset"

definition registry_new :: control_session_registry where
  "registry_new = \<lparr>sr_sessions = fmempty, sr_recent_session_ids = [], sr_seen_session_ids = {||}\<rparr>"

definition remember_session_id :: "session_id \<Rightarrow> control_session_registry \<Rightarrow> control_session_registry" where
  "remember_session_id sid r =
     (let r1 = (if length (sr_recent_session_ids r) = MAX_RECENT_SESSION_IDS
                then (case sr_recent_session_ids r of
                        [] \<Rightarrow> r
                      | oldest # rest \<Rightarrow>
                          r\<lparr>sr_recent_session_ids := rest,
                            sr_seen_session_ids := sr_seen_session_ids r |-| {|oldest|}\<rparr>)
                else r)
      in r1\<lparr>sr_recent_session_ids := sr_recent_session_ids r1 @ [sid],
            sr_seen_session_ids := finsert sid (sr_seen_session_ids r1)\<rparr>)"

definition activate_after_authentication ::
  "peer_session_key \<Rightarrow> session_id \<Rightarrow> control_session_registry \<Rightarrow>
   (session_registry_error + session_registration) \<times> control_session_registry" where
  "activate_after_authentication key sid r =
     (if \<not> key_is_valid key then (Inl InvalidPeerIdentity, r)
      else if all_zero sid then (Inl ZeroSessionId, r)
      else
        let continue =
          (if fBex (fmdom (sr_sessions r)) (\<lambda>other. other \<noteq> key \<and>
                (case fmlookup (sr_sessions r) other of None \<Rightarrow> False | Some e \<Rightarrow> se_session_id e = sid))
           then (Inl DuplicateActiveSession, r)
           else if sid |\<in>| sr_seen_session_ids r then (Inl ReusedSessionId, r)
           else let entry = \<lparr>se_session_id = sid, se_phase = SessionActive\<rparr> in
             if fmlookup (sr_sessions r) key \<noteq> None
             then (Inr Recovered, remember_session_id sid (r\<lparr>sr_sessions := fmupd key entry (sr_sessions r)\<rparr>))
             else if fm_len (sr_sessions r) \<ge> MAX_CONTROL_SESSIONS then (Inl SessionLimitReached, r)
             else (Inr RegisteredNew,
                   remember_session_id sid (r\<lparr>sr_sessions := fmupd key entry (sr_sessions r)\<rparr>)))
        in case fmlookup (sr_sessions r) key of
          None \<Rightarrow> continue
        | Some existing \<Rightarrow>
            if se_phase existing = SessionActive
            then (if se_session_id existing = sid then (Inr AlreadyActive, r)
                  else (Inl DuplicateActiveSession, r))
            else if se_session_id existing = sid then (Inl DuplicateActiveSession, r)
            else continue)"

definition set_phase ::
  "peer_session_key \<Rightarrow> session_phase \<Rightarrow> session_entry \<Rightarrow> control_session_registry \<Rightarrow> control_session_registry" where
  "set_phase key phase existing r =
     r\<lparr>sr_sessions := fmupd key (existing\<lparr>se_phase := phase\<rparr>) (sr_sessions r)\<rparr>"

definition mark_lost ::
  "peer_session_key \<Rightarrow> session_id \<Rightarrow> control_session_registry \<Rightarrow> bool \<times> control_session_registry" where
  "mark_lost key sid r =
     (case fmlookup (sr_sessions r) key of
        None \<Rightarrow> (False, r)
      | Some existing \<Rightarrow>
          if se_session_id existing \<noteq> sid \<or> se_phase existing = SessionLost then (False, r)
          else (True, set_phase key SessionLost existing r))"

definition mark_reconnecting ::
  "peer_session_key \<Rightarrow> session_id \<Rightarrow> control_session_registry \<Rightarrow> bool \<times> control_session_registry" where
  "mark_reconnecting key sid r =
     (case fmlookup (sr_sessions r) key of
        None \<Rightarrow> (False, r)
      | Some existing \<Rightarrow>
          if se_session_id existing \<noteq> sid \<or> se_phase existing \<noteq> SessionLost then (False, r)
          else (True, set_phase key SessionReconnecting existing r))"

definition remove_if_current ::
  "peer_session_key \<Rightarrow> session_id \<Rightarrow> control_session_registry \<Rightarrow> bool \<times> control_session_registry" where
  "remove_if_current key sid r =
     (if (case fmlookup (sr_sessions r) key of None \<Rightarrow> False | Some e \<Rightarrow> se_session_id e = sid)
      then (True, r\<lparr>sr_sessions := fmdrop key (sr_sessions r)\<rparr>)
      else (False, r))"

section \<open>The reconnect scheduler\<close>

datatype reconnect_schedule_error = CapacityReached | ScheduleClockRegression

record retry_slot =
  sl_session_id :: session_id
  sl_backoff :: reconnect_backoff
  sl_next_attempt_ms :: "u64 option"
  sl_in_flight :: bool
  sl_in_flight_started_ms :: "u64 option"
  sl_cancel_requested :: bool
  sl_last_ms :: u64

record reconnect_scheduler =
  rc_slots :: "(peer_session_key, retry_slot) fmap"

definition scheduler_new :: reconnect_scheduler where
  "scheduler_new = \<lparr>rc_slots = fmempty\<rparr>"

definition put_slot :: "peer_session_key \<Rightarrow> retry_slot \<Rightarrow> reconnect_scheduler \<Rightarrow> reconnect_scheduler" where
  "put_slot key slot s = s\<lparr>rc_slots := fmupd key slot (rc_slots s)\<rparr>"

text \<open>The \<open>expect\<close> of the first delay cannot fail: a fresh backoff has attempts left.\<close>

definition schedule_loss ::
  "peer_session_key \<Rightarrow> session_id \<Rightarrow> u64 \<Rightarrow> reconnect_scheduler \<Rightarrow>
   (reconnect_schedule_error + bool) \<times> reconnect_scheduler" where
  "schedule_loss key sid now_ms s =
     (if \<not> key_is_valid key \<or> all_zero sid then (Inr False, s)
      else case fmlookup (rc_slots s) key of
        Some existing \<Rightarrow>
          if sl_session_id existing \<noteq> sid then (Inr False, s)
          else if now_ms < sl_last_ms existing then (Inl ScheduleClockRegression, s)
          else (Inr False, s)
      | None \<Rightarrow>
          if fm_len (rc_slots s) \<ge> MAX_CONTROL_SESSIONS then (Inl CapacityReached, s)
          else (case after_failure backoff_new of
              (None, _) \<Rightarrow> (Inr False, s)
            | (Some delay, backoff) \<Rightarrow>
                (Inr True, put_slot key
                   \<lparr>sl_session_id = sid, sl_backoff = backoff,
                    sl_next_attempt_ms = Some (saturating_add now_ms delay), sl_in_flight = False,
                    sl_in_flight_started_ms = None, sl_cancel_requested = False, sl_last_ms = now_ms\<rparr> s)))"

definition take_due ::
  "peer_session_key \<Rightarrow> session_id \<Rightarrow> u64 \<Rightarrow> reconnect_scheduler \<Rightarrow>
   (reconnect_schedule_error + bool) \<times> reconnect_scheduler" where
  "take_due key sid now_ms s =
     (case fmlookup (rc_slots s) key of
        None \<Rightarrow> (Inr False, s)
      | Some slot \<Rightarrow>
          if sl_session_id slot \<noteq> sid then (Inr False, s)
          else if now_ms < sl_last_ms slot then (Inl ScheduleClockRegression, s)
          else
            let slot1 = slot\<lparr>sl_last_ms := now_ms\<rparr> in
            if sl_in_flight slot1 \<or>
               (case sl_next_attempt_ms slot1 of None \<Rightarrow> True | Some due \<Rightarrow> now_ms < due)
            then (Inr False, put_slot key slot1 s)
            else (Inr True, put_slot key
                    (slot1\<lparr>sl_in_flight := True, sl_in_flight_started_ms := Some now_ms,
                           sl_cancel_requested := False, sl_next_attempt_ms := None\<rparr>) s))"

definition take_expired_attempt ::
  "peer_session_key \<Rightarrow> session_id \<Rightarrow> u64 \<Rightarrow> reconnect_scheduler \<Rightarrow>
   (reconnect_schedule_error + bool) \<times> reconnect_scheduler" where
  "take_expired_attempt key sid now_ms s =
     (case fmlookup (rc_slots s) key of
        None \<Rightarrow> (Inr False, s)
      | Some slot \<Rightarrow>
          if sl_session_id slot \<noteq> sid then (Inr False, s)
          else if now_ms < sl_last_ms slot then (Inl ScheduleClockRegression, s)
          else
            let slot1 = slot\<lparr>sl_last_ms := now_ms\<rparr>;
                overdue = (case sl_in_flight_started_ms slot1 of
                             None \<Rightarrow> False
                           | Some started \<Rightarrow> now_ms \<ge> saturating_add started MAX_CONNECT_AUTH_ATTEMPT_MS)
            in if \<not> sl_in_flight slot1 \<or> \<not> overdue \<or> sl_cancel_requested slot1
               then (Inr False, put_slot key slot1 s)
               else (Inr True, put_slot key (slot1\<lparr>sl_cancel_requested := True\<rparr>) s))"

definition attempt_failed ::
  "peer_session_key \<Rightarrow> session_id \<Rightarrow> u64 \<Rightarrow> reconnect_scheduler \<Rightarrow>
   (reconnect_schedule_error + u64 option) \<times> reconnect_scheduler" where
  "attempt_failed key sid now_ms s =
     (case fmlookup (rc_slots s) key of
        None \<Rightarrow> (Inr None, s)
      | Some slot \<Rightarrow>
          if sl_session_id slot \<noteq> sid then (Inr None, s)
          else if now_ms < sl_last_ms slot then (Inl ScheduleClockRegression, s)
          else if \<not> sl_in_flight slot then (Inr None, s)
          else
            let (delay, backoff) = after_failure (sl_backoff slot);
                next = map_option (\<lambda>d. saturating_add now_ms d) delay
            in (Inr next, put_slot key
                  (slot\<lparr>sl_last_ms := now_ms, sl_in_flight := False, sl_in_flight_started_ms := None,
                        sl_cancel_requested := False, sl_backoff := backoff, sl_next_attempt_ms := next\<rparr>) s))"

definition cancel_if_current ::
  "peer_session_key \<Rightarrow> session_id \<Rightarrow> reconnect_scheduler \<Rightarrow> bool \<times> reconnect_scheduler" where
  "cancel_if_current key sid s =
     (if (case fmlookup (rc_slots s) key of None \<Rightarrow> False | Some slot \<Rightarrow> sl_session_id slot = sid)
      then (True, s\<lparr>rc_slots := fmdrop key (rc_slots s)\<rparr>)
      else (False, s))"

section \<open>Deadlines of unauthenticated connections\<close>

text \<open>The calls on a deadline started at \<open>t0\<close>, with whether the connection has become active and the time of its
  first abort.\<close>

inductive deadline_run :: "u64 \<Rightarrow> bool \<Rightarrow> u64 option \<Rightarrow> connection_deadline \<Rightarrow> bool" for t0 where
  new: "deadline_run t0 False None (deadline_new t0)"
| advance: "deadline_run t0 active aborted d \<Longrightarrow> deadline_advance stage now d = (r, d') \<Longrightarrow>
    deadline_run t0 (active \<or> \<not> is_err r \<and> stage = ActiveStage) aborted d'"
| activity: "deadline_run t0 active aborted d \<Longrightarrow> authenticated_activity now d = (r, d') \<Longrightarrow>
    deadline_run t0 active aborted d'"
| abort: "deadline_run t0 active aborted d \<Longrightarrow> deadline_abort now d = (r, d') \<Longrightarrow>
    deadline_run t0 active (if is_err r \<or> aborted \<noteq> None then aborted else Some now) d'"

definition stage_budget :: "connection_stage \<Rightarrow> nat option" where
  "stage_budget stage =
     (case stage of Connecting \<Rightarrow> Some 5000 | TlsHandshake \<Rightarrow> Some 15000 | HelloStage \<Rightarrow> Some 20000 | _ \<Rightarrow> None)"

definition deadline_inv :: "u64 \<Rightarrow> bool \<Rightarrow> u64 option \<Rightarrow> connection_deadline \<Rightarrow> bool" where
  "deadline_inv t0 active aborted d \<longleftrightarrow>
     (if active then cd_stage d \<in> {ActiveStage, Closing}
      else case aborted of
        None \<Rightarrow> (\<exists>b. stage_budget (cd_stage d) = Some b \<and> unat (cd_expires_ms d) \<le> unat t0 + b)
      | Some t \<Rightarrow> cd_stage d = Closing \<and> unat (cd_expires_ms d) \<le> unat t + 5000) \<and>
     (aborted \<noteq> None \<longrightarrow> cd_stage d = Closing)"

lemma unat_saturating_add_le: "unat (saturating_add a b) \<le> unat a + unat b"
  by (simp only: unat_saturating_add)

lemma deadline_advance_Inr:
  "deadline_advance stage now d = (Inr (), d') \<longleftrightarrow>
     cd_last_ms d \<le> now \<and> now < cd_expires_ms d \<and> stage_allowed (cd_stage d) stage \<and>
     d' = d\<lparr>cd_stage := stage, cd_last_ms := now, cd_expires_ms := saturating_add now (timeout_ms stage)\<rparr>"
  by (auto simp: deadline_advance_def deadline_check_def not_le not_less split: sum.splits if_splits)

lemma deadline_advance_Inl: "deadline_advance next now d = (Inl e, d') \<Longrightarrow> d' = d"
  by (auto simp: deadline_advance_def split: sum.splits if_splits)

lemma advance_keeps_budget:
  assumes inv: "deadline_inv t0 active aborted d" and adv: "deadline_advance stage now d = (Inr (), d')"
  shows "deadline_inv t0 (active \<or> stage = ActiveStage) aborted d'"
proof -
  note a = adv [unfolded deadline_advance_Inr]
  have open_stage: "cd_stage d \<noteq> Closing" using a by auto
  then have none: "aborted = None" using inv by (auto simp: deadline_inv_def)
  show ?thesis
  proof (cases "active \<or> stage = ActiveStage")
    case True
    then have "stage \<in> {ActiveStage, Closing}"
      using inv a by (cases "cd_stage d"; cases stage) (auto simp: deadline_inv_def)
    then show ?thesis using True none a by (simp add: deadline_inv_def)
  next
    case False
    then obtain c where c: "stage_budget (cd_stage d) = Some c" "unat (cd_expires_ms d) \<le> unat t0 + c"
      using inv none by (auto simp: deadline_inv_def)
    have now: "unat now < unat (cd_expires_ms d)" using a by (simp add: word_less_nat_alt)
    have "unat (cd_expires_ms d') \<le> unat now + unat (timeout_ms stage)" using a unat_saturating_add_le by simp
    moreover have "stage_budget stage = Some (c + unat (timeout_ms stage))"
      using a c(1) False by (cases "cd_stage d"; cases stage) (auto simp: stage_budget_def timeout_ms_def)
    ultimately show ?thesis using False none a c now by (simp add: deadline_inv_def)
  qed
qed

lemma deadline_run_inv: "deadline_run t0 active aborted d \<Longrightarrow> deadline_inv t0 active aborted d"
proof (induction rule: deadline_run.induct)
  case new
  show ?case using unat_saturating_add_le [of t0 "timeout_ms Connecting"]
    by (simp add: deadline_inv_def deadline_new_def stage_budget_def timeout_ms_def)
next
  case (advance active aborted d stage now r d')
  then show ?case using advance_keeps_budget [of t0 active aborted d stage now d'] deadline_advance_Inl [of stage now d _ d']
    by (cases r) simp_all
next
  case (activity active aborted d now r d')
  then show ?case
    by (auto simp: authenticated_activity_def deadline_inv_def stage_budget_def split: sum.splits if_splits option.splits)
next
  case (abort active aborted d now r d')
  then show ?case using unat_saturating_add_le [of now "timeout_ms Closing"]
    by (auto simp: deadline_abort_def deadline_inv_def stage_budget_def timeout_ms_def split: if_splits option.splits)
qed

text \<open>When a connection that never became active ends: 20 seconds after its start or, once it was aborted, 5
  seconds after the first abort.\<close>

definition unauthenticated_limit :: "u64 \<Rightarrow> u64 option \<Rightarrow> nat" where
  "unauthenticated_limit t0 aborted =
     (case aborted of
        None \<Rightarrow> unat t0 + unat MAX_CONNECT_AUTH_ATTEMPT_MS
      | Some t \<Rightarrow> unat t + unat (timeout_ms Closing))"

text \<open>C34: a connection cannot stay unauthenticated. Whatever calls are made, a connection that has not become
  active and was not aborted is in the connect, TLS or hello stage and expires within the sum of these three stage
  budgets after its start, which is the watchdog limit the scheduler uses. One that was aborted without having become
  active is closing and expires within the closing budget after its first abort, which may come at any time; no later
  call, another abort included, extends that. From these limits on every deadline check refuses. A connection becomes
  active only from the hello stage, not after an abort, and before the watchdog limit.\<close>

theorem unauthenticated_deadline:
  assumes "deadline_run t0 active aborted d"
  shows "(cd_stage d \<in> {Connecting, TlsHandshake, HelloStage} \<longleftrightarrow> \<not> active \<and> aborted = None) \<and>
    (aborted \<noteq> None \<longrightarrow> cd_stage d = Closing) \<and>
    (\<not> active \<longrightarrow> unat (cd_expires_ms d) \<le> unauthenticated_limit t0 aborted \<and>
      (\<forall>now. unauthenticated_limit t0 aborted \<le> unat now \<longrightarrow> is_err (deadline_check d now))) \<and>
    (\<forall>now d'. deadline_advance ActiveStage now d = (Inr (), d') \<longrightarrow>
      cd_stage d = HelloStage \<and> aborted = None \<and> unat now < unat t0 + unat MAX_CONNECT_AUTH_ATTEMPT_MS)"
proof -
  note inv = deadline_run_inv [OF assms, unfolded deadline_inv_def]
  have limit: "unat MAX_CONNECT_AUTH_ATTEMPT_MS = 20000" "unat (timeout_ms Closing) = 5000"
    by (simp_all add: MAX_CONNECT_AUTH_ATTEMPT_MS_def timeout_ms_def)
  have stages: "cd_stage d \<in> {Connecting, TlsHandshake, HelloStage} \<longleftrightarrow> \<not> active \<and> aborted = None"
    using inv by (cases "cd_stage d") (auto simp: stage_budget_def split: if_splits option.splits)
  have expires: "unat (cd_expires_ms d) \<le> unauthenticated_limit t0 aborted" if "\<not> active"
    using inv that
    by (cases "cd_stage d") (auto simp: unauthenticated_limit_def limit stage_budget_def split: option.splits)
  have "is_err (deadline_check d now)" if "\<not> active" "unauthenticated_limit t0 aborted \<le> unat now" for now
    using expires [OF that(1)] that(2) by (simp add: deadline_check_def word_le_nat_alt)
  moreover have "cd_stage d = HelloStage \<and> aborted = None \<and> unat now < unat t0 + unat MAX_CONNECT_AUTH_ATTEMPT_MS"
    if "deadline_advance ActiveStage now d = (Inr (), d')" for now d'
  proof -
    note a = that [unfolded deadline_advance_Inr]
    have hello: "cd_stage d = HelloStage" using a by (cases "cd_stage d") simp_all
    then have early: "\<not> active" "aborted = None" using stages by auto
    then show ?thesis using a hello expires by (simp add: word_less_nat_alt unauthenticated_limit_def)
  qed
  ultimately show ?thesis using stages expires inv by blast
qed

lemma aborted_run:
  "deadline_run 7 False (Some 90000) \<lparr>cd_stage = Closing, cd_last_ms = 90000, cd_expires_ms = 95000\<rparr>"
proof -
  have "deadline_abort 90000 (deadline_new 7) =
      (Inr (), \<lparr>cd_stage = Closing, cd_last_ms = 90000, cd_expires_ms = 95000\<rparr>)"
    by (simp add: deadline_abort_def deadline_new_def timeout_ms_def saturating_add_def)
  from deadline_run.abort [OF deadline_run.new this] show ?thesis by simp
qed

theorem unauthenticated_deadline_witness:
  "unat (cd_expires_ms (deadline_new 7)) \<le> 20007 \<and> is_err (deadline_check (deadline_new 7) 20007) \<and>
   is_err (deadline_check \<lparr>cd_stage = Closing, cd_last_ms = 90000, cd_expires_ms = 95000\<rparr> 95000)"
proof -
  have limit: "unauthenticated_limit 7 None = 20007" "unauthenticated_limit 7 (Some 90000) = 95000"
    by (simp_all add: unauthenticated_limit_def MAX_CONNECT_AUTH_ATTEMPT_MS_def timeout_ms_def)
  have "unat (20007 :: u64) = 20007" "unat (95000 :: u64) = 95000" by simp_all
  then show ?thesis
    using unauthenticated_deadline [OF deadline_run.new [of 7]] unauthenticated_deadline [OF aborted_run] limit
    by (metis order_refl)
qed

section \<open>Sessions and replays\<close>

text \<open>The calls on a registry, with the session identifiers that were activated, the newest first.\<close>

inductive registry_run :: "session_id list \<Rightarrow> control_session_registry \<Rightarrow> bool" where
  new: "registry_run [] registry_new"
| activate: "registry_run hist r \<Longrightarrow> activate_after_authentication key sid r = (res, r') \<Longrightarrow>
    registry_run (if res = Inr RegisteredNew \<or> res = Inr Recovered then sid # hist else hist) r'"
| lost: "registry_run hist r \<Longrightarrow> mark_lost key sid r = (b, r') \<Longrightarrow> registry_run hist r'"
| reconnecting: "registry_run hist r \<Longrightarrow> mark_reconnecting key sid r = (b, r') \<Longrightarrow> registry_run hist r'"
| remove: "registry_run hist r \<Longrightarrow> remove_if_current key sid r = (b, r') \<Longrightarrow> registry_run hist r'"

definition session_of :: "control_session_registry \<Rightarrow> peer_session_key \<Rightarrow> session_id option" where
  "session_of r key = map_option se_session_id (fmlookup (sr_sessions r) key)"

definition registry_inv :: "session_id list \<Rightarrow> control_session_registry \<Rightarrow> bool" where
  "registry_inv hist r \<longleftrightarrow>
     fm_len (sr_sessions r) \<le> MAX_CONTROL_SESSIONS \<and>
     (\<forall>k l sid. session_of r k = Some sid \<and> session_of r l = Some sid \<longrightarrow> k = l) \<and>
     (\<forall>k sid. session_of r k = Some sid \<longrightarrow> key_is_valid k \<and> sid \<noteq> zero_ident) \<and>
     sr_recent_session_ids r = rev (take MAX_RECENT_SESSION_IDS hist) \<and>
     distinct (sr_recent_session_ids r) \<and> fset (sr_seen_session_ids r) = set (sr_recent_session_ids r)"

lemma remember_window:
  assumes "sr_recent_session_ids r = rev (take MAX_RECENT_SESSION_IDS hist)"
    "distinct (sr_recent_session_ids r)" "fset (sr_seen_session_ids r) = set (sr_recent_session_ids r)"
    "sid |\<notin>| sr_seen_session_ids r"
  shows "sr_recent_session_ids (remember_session_id sid r) = rev (take MAX_RECENT_SESSION_IDS (sid # hist))"
    "distinct (sr_recent_session_ids (remember_session_id sid r))"
    "fset (sr_seen_session_ids (remember_session_id sid r)) = set (sr_recent_session_ids (remember_session_id sid r))"
    "sr_sessions (remember_session_id sid r) = sr_sessions r"
proof -
  obtain m where m: "MAX_RECENT_SESSION_IDS = Suc m" by (simp add: MAX_RECENT_SESSION_IDS_def)
  have recent: "sr_recent_session_ids (remember_session_id sid r) = rev (take MAX_RECENT_SESSION_IDS (sid # hist))"
  proof (cases "length hist < MAX_RECENT_SESSION_IDS")
    case True
    then show ?thesis using assms(1) m by (simp add: remember_session_id_def Let_def)
  next
    case False
    then have len: "length (sr_recent_session_ids r) = MAX_RECENT_SESSION_IDS" using assms(1) by simp
    have "rev (take MAX_RECENT_SESSION_IDS hist) = hist ! m # rev (take m hist)"
      using False by (simp add: m take_Suc_conv_app_nth)
    then show ?thesis using assms(1) len by (simp add: remember_session_id_def Let_def m)
  qed
  show "sr_recent_session_ids (remember_session_id sid r) = rev (take MAX_RECENT_SESSION_IDS (sid # hist))"
    by (rule recent)
  show "sr_sessions (remember_session_id sid r) = sr_sessions r"
    by (simp add: remember_session_id_def Let_def split: list.split)
  have new: "sid \<notin> set (sr_recent_session_ids r)" using assms(3,4) by simp
  have "distinct (sr_recent_session_ids (remember_session_id sid r)) \<and>
      fset (sr_seen_session_ids (remember_session_id sid r)) = set (sr_recent_session_ids (remember_session_id sid r))"
  proof (cases "sr_recent_session_ids r")
    case Nil
    then show ?thesis using assms(3) by (simp add: remember_session_id_def Let_def MAX_RECENT_SESSION_IDS_def)
  next
    case (Cons oldest rest)
    have "set (oldest # rest) - {oldest} = set rest" using assms(2) Cons by auto
    then show ?thesis using assms(2,3) new
      by (cases "length (sr_recent_session_ids r) = MAX_RECENT_SESSION_IDS")
        (simp_all add: remember_session_id_def Let_def Cons insert_commute, blast?)
  qed
  then show "distinct (sr_recent_session_ids (remember_session_id sid r))"
    "fset (sr_seen_session_ids (remember_session_id sid r)) = set (sr_recent_session_ids (remember_session_id sid r))"
    by blast+
qed

lemma activate_cases:
  assumes "activate_after_authentication key sid r = (res, r')"
  obtains (unchanged) "r' = r" "res \<noteq> Inr RegisteredNew" "res \<noteq> Inr Recovered"
  | (activated) "key_is_valid key" "sid \<noteq> zero_ident" "sid |\<notin>| sr_seen_session_ids r"
      "\<And>other. other \<noteq> key \<Longrightarrow> session_of r other \<noteq> Some sid"
      "res = Inr RegisteredNew \<or> res = Inr Recovered"
      "key |\<in>| fmdom (sr_sessions r) \<or> fm_len (sr_sessions r) < MAX_CONTROL_SESSIONS"
      "\<And>e. fmlookup (sr_sessions r) key = Some e \<Longrightarrow> se_phase e \<noteq> SessionActive"
      "r' = remember_session_id sid (r\<lparr>sr_sessions :=
         fmupd key \<lparr>se_session_id = sid, se_phase = SessionActive\<rparr> (sr_sessions r)\<rparr>)"
proof (cases "\<not> key_is_valid key \<or> all_zero sid \<or>
    (\<exists>e. fmlookup (sr_sessions r) key = Some e \<and> (se_phase e = SessionActive \<or> se_session_id e = sid))")
  case True
  then show thesis using assms
    by (intro unchanged) (auto simp: activate_after_authentication_def split: if_splits option.splits)
next
  case False
  let ?dup = "fBex (fmdom (sr_sessions r)) (\<lambda>other. other \<noteq> key \<and>
      (case fmlookup (sr_sessions r) other of None \<Rightarrow> False | Some e \<Rightarrow> se_session_id e = sid))"
  let ?new = "remember_session_id sid (r\<lparr>sr_sessions :=
      fmupd key \<lparr>se_session_id = sid, se_phase = SessionActive\<rparr> (sr_sessions r)\<rparr>)"
  have "activate_after_authentication key sid r =
      (if ?dup then (Inl DuplicateActiveSession, r)
       else if sid |\<in>| sr_seen_session_ids r then (Inl ReusedSessionId, r)
       else if fmlookup (sr_sessions r) key \<noteq> None then (Inr Recovered, ?new)
       else if fm_len (sr_sessions r) \<ge> MAX_CONTROL_SESSIONS then (Inl SessionLimitReached, r)
       else (Inr RegisteredNew, ?new))"
  proof (cases "fmlookup (sr_sessions r) key")
    case None
    have "key_is_valid key" "\<not> all_zero sid" using False by blast+
    then show ?thesis unfolding activate_after_authentication_def Let_def None option.case
      by (simp only: simp_thms if_False)
  next
    case (Some e)
    have "se_phase e \<noteq> SessionActive" "se_session_id e \<noteq> sid" "key_is_valid key" "\<not> all_zero sid"
      using False Some by blast+
    then show ?thesis unfolding activate_after_authentication_def Let_def Some option.case
      by (simp only: simp_thms if_False option.distinct)
  qed
  then have act: "(res, r') =
      (if ?dup then (Inl DuplicateActiveSession, r)
       else if sid |\<in>| sr_seen_session_ids r then (Inl ReusedSessionId, r)
       else if fmlookup (sr_sessions r) key \<noteq> None then (Inr Recovered, ?new)
       else if fm_len (sr_sessions r) \<ge> MAX_CONTROL_SESSIONS then (Inl SessionLimitReached, r)
       else (Inr RegisteredNew, ?new))"
    unfolding assms .
  show thesis
  proof (cases "?dup \<or> sid |\<in>| sr_seen_session_ids r \<or>
      (fmlookup (sr_sessions r) key = None \<and> fm_len (sr_sessions r) \<ge> MAX_CONTROL_SESSIONS)")
    case True
    then show thesis using act by (intro unchanged) (auto split: if_splits)
  next
    case fresh: False
    have "session_of r other \<noteq> Some sid" if "other \<noteq> key" for other
      using fresh that fmdomI by (fastforce simp: session_of_def)
    then show thesis using act fresh False
      by (intro activated) (auto simp: fmdomI split: if_splits)
  qed
qed

lemma registry_inv_weaken:
  assumes "registry_inv hist r" "sr_recent_session_ids r' = sr_recent_session_ids r"
    "sr_seen_session_ids r' = sr_seen_session_ids r" "fm_len (sr_sessions r') \<le> fm_len (sr_sessions r)"
    "\<And>k sid. session_of r' k = Some sid \<Longrightarrow> session_of r k = Some sid"
  shows "registry_inv hist r'"
  unfolding registry_inv_def assms(2,3)
  using assms(1) [unfolded registry_inv_def] assms(4,5) by (metis order_trans)

lemma set_phase_sessions:
  assumes "fmlookup (sr_sessions r) key = Some e"
  shows "session_of (set_phase key phase e r) k = session_of r k"
    "fm_len (sr_sessions (set_phase key phase e r)) = fm_len (sr_sessions r)"
    "sr_recent_session_ids (set_phase key phase e r) = sr_recent_session_ids r"
    "sr_seen_session_ids (set_phase key phase e r) = sr_seen_session_ids r"
  using assms fmdomI [OF assms] by (auto simp: set_phase_def session_of_def fm_len_fmupd)

lemma registry_run_inv: "registry_run hist r \<Longrightarrow> registry_inv hist r"
proof (induction rule: registry_run.induct)
  case new
  show ?case by (simp add: registry_inv_def registry_new_def session_of_def)
next
  case (activate hist r key sid res r')
  from activate(2) show ?case
  proof (cases rule: activate_cases [consumes 1, case_names unchanged activated])
    case unchanged
    then show ?thesis using activate(3) by simp
  next
    case activated
    let ?s = "fmupd key \<lparr>se_session_id = sid, se_phase = SessionActive\<rparr> (sr_sessions r)"
    let ?r = "r\<lparr>sr_sessions := ?s\<rparr>"
    note inv = activate(3) [unfolded registry_inv_def]
    have window: "sr_recent_session_ids ?r = rev (take MAX_RECENT_SESSION_IDS hist)"
      "distinct (sr_recent_session_ids ?r)" "fset (sr_seen_session_ids ?r) = set (sr_recent_session_ids ?r)"
      "sid |\<notin>| sr_seen_session_ids ?r"
    proof -
      have same: "sr_recent_session_ids ?r = sr_recent_session_ids r" "sr_seen_session_ids ?r = sr_seen_session_ids r"
        by simp_all
      show "sr_recent_session_ids ?r = rev (take MAX_RECENT_SESSION_IDS hist)"
        "distinct (sr_recent_session_ids ?r)" "fset (sr_seen_session_ids ?r) = set (sr_recent_session_ids ?r)"
        "sid |\<notin>| sr_seen_session_ids ?r"
        unfolding same using inv activated(3) by blast+
    qed
    note remembered = remember_window [OF window]
    have sessions: "session_of r' k = (if k = key then Some sid else session_of r k)" for k
      by (simp add: session_of_def activated(8) remembered(4))
    have "fm_len (sr_sessions r') \<le> MAX_CONTROL_SESSIONS"
      using inv activated(6) by (auto simp: activated(8) remembered(4) fm_len_fmupd)
    then show ?thesis
      using inv activated(1,2,4,5) remembered(1-3) unfolding registry_inv_def sessions activated(8) [symmetric]
      by auto
  qed
next
  case (lost hist r key sid b r')
  then have "r' = r \<or> (\<exists>e. fmlookup (sr_sessions r) key = Some e \<and> r' = set_phase key SessionLost e r)"
    by (auto simp: mark_lost_def split: option.splits if_splits)
  then show ?case using registry_inv_weaken [OF lost(3), of r'] set_phase_sessions lost(3) by fastforce
next
  case (reconnecting hist r key sid b r')
  then have "r' = r \<or> (\<exists>e. fmlookup (sr_sessions r) key = Some e \<and> r' = set_phase key SessionReconnecting e r)"
    by (auto simp: mark_reconnecting_def split: option.splits if_splits)
  then show ?case using registry_inv_weaken [OF reconnecting(3), of r'] set_phase_sessions reconnecting(3)
    by fastforce
next
  case (remove hist r key sid b r')
  then have "r' = r \<or> r' = r\<lparr>sr_sessions := fmdrop key (sr_sessions r)\<rparr>"
    by (auto simp: remove_if_current_def split: if_splits)
  then show ?case
    using remove(3) by (auto intro!: registry_inv_weaken [OF remove(3)] simp: session_of_def fm_len_fmdrop split: if_splits)
qed

text \<open>C32: the registry of control sessions holds at most \<open>MAX_CONTROL_SESSIONS\<close> sessions with valid keys, no
  two peers share a session identifier, and it remembers exactly the last \<open>MAX_RECENT_SESSION_IDS\<close> activated
  identifiers, all distinct. An authenticated session is therefore activated only with an identifier not among
  those, and only for a peer that has no active session; and a loss, a reconnect or a removal reported for
  another session than the peer's current one changes nothing.\<close>

theorem session_registry_no_reuse:
  assumes "registry_run hist r"
  shows "fm_len (sr_sessions r) \<le> MAX_CONTROL_SESSIONS \<and>
    (\<forall>k l. session_of r k \<noteq> None \<and> session_of r k = session_of r l \<longrightarrow> key_is_valid k \<and> k = l) \<and>
    distinct (take MAX_RECENT_SESSION_IDS hist) \<and>
    (\<forall>key sid res r'. activate_after_authentication key sid r = (res, r') \<and> res \<in> {Inr RegisteredNew, Inr Recovered} \<longrightarrow>
      sid \<notin> set (take MAX_RECENT_SESSION_IDS hist) \<and> session_of r' key = Some sid \<and>
      (\<forall>e. fmlookup (sr_sessions r) key = Some e \<longrightarrow> se_phase e \<noteq> SessionActive)) \<and>
    (\<forall>key sid. session_of r key \<noteq> Some sid \<longrightarrow>
      mark_lost key sid r = (False, r) \<and> mark_reconnecting key sid r = (False, r) \<and>
      remove_if_current key sid r = (False, r))"
proof -
  note inv = registry_run_inv [OF assms, unfolded registry_inv_def]
  have seen: "fset (sr_seen_session_ids r) = set (take MAX_RECENT_SESSION_IDS hist)" using inv by simp
  have fresh: "sid \<notin> set (take MAX_RECENT_SESSION_IDS hist) \<and> session_of r' key = Some sid \<and>
      (\<forall>e. fmlookup (sr_sessions r) key = Some e \<longrightarrow> se_phase e \<noteq> SessionActive)"
    if act: "activate_after_authentication key sid r = (res, r')" and res: "res \<in> {Inr RegisteredNew, Inr Recovered}"
    for key sid res r'
    using act
  proof (cases rule: activate_cases [consumes 1, case_names unchanged activated])
    case unchanged
    then show ?thesis using res by blast
  next
    case activated
    have "sr_sessions r' = fmupd key \<lparr>se_session_id = sid, se_phase = SessionActive\<rparr> (sr_sessions r)"
      by (simp add: activated(8) remember_session_id_def Let_def split: list.split)
    then show ?thesis using activated(3,7) seen by (simp add: session_of_def)
  qed
  have stale: "mark_lost key sid r = (False, r) \<and> mark_reconnecting key sid r = (False, r) \<and>
      remove_if_current key sid r = (False, r)" if "session_of r key \<noteq> Some sid" for key sid
    using that by (cases "fmlookup (sr_sessions r) key")
      (simp_all add: session_of_def mark_lost_def mark_reconnecting_def remove_if_current_def)
  have unique: "key_is_valid k \<and> k = l" if "session_of r k \<noteq> None \<and> session_of r k = session_of r l" for k l
    using inv that by (metis option.exhaust)
  show ?thesis using inv fresh stale unique by (metis distinct_rev)
qed

definition sample_session_key :: peer_session_key where
  "sample_session_key = PeerSessionKey (byte_ident 1) (byte_ident 2)"

theorem session_registry_no_reuse_witness:
  "fst (activate_after_authentication sample_session_key (byte_ident 3) registry_new) = Inr RegisteredNew \<and>
   mark_lost sample_session_key (byte_ident 3) registry_new = (False, registry_new)"
proof -
  have "session_of registry_new sample_session_key \<noteq> Some (byte_ident 3)"
    by (simp add: session_of_def registry_new_def)
  then have "mark_lost sample_session_key (byte_ident 3) registry_new = (False, registry_new)"
    using session_registry_no_reuse [OF registry_run.new] by blast
  moreover have "fst (activate_after_authentication sample_session_key (byte_ident 3) registry_new) = Inr RegisteredNew"
    by (simp add: activate_after_authentication_def registry_new_def sample_session_key_def key_is_valid_def
        MAX_CONTROL_SESSIONS_def)
  ultimately show ?thesis by blast
qed

section \<open>Bounded reconnects\<close>

text \<open>The calls on a scheduler, with the number of attempts claimed for each peer since its loss was scheduled.\<close>

inductive scheduler_run :: "(peer_session_key \<Rightarrow> nat) \<Rightarrow> reconnect_scheduler \<Rightarrow> bool" where
  new: "scheduler_run claims scheduler_new"
| loss: "scheduler_run claims s \<Longrightarrow> schedule_loss key sid now s = (res, s') \<Longrightarrow>
    scheduler_run (if res = Inr True then claims(key := 0) else claims) s'"
| due: "scheduler_run claims s \<Longrightarrow> take_due key sid now s = (res, s') \<Longrightarrow>
    scheduler_run (if res = Inr True then claims(key := Suc (claims key)) else claims) s'"
| expired: "scheduler_run claims s \<Longrightarrow> take_expired_attempt key sid now s = (res, s') \<Longrightarrow> scheduler_run claims s'"
| failed: "scheduler_run claims s \<Longrightarrow> attempt_failed key sid now s = (res', s') \<Longrightarrow> scheduler_run claims s'"
| cancel: "scheduler_run claims s \<Longrightarrow> cancel_if_current key sid s = (b, s') \<Longrightarrow> scheduler_run claims s'"

definition slot_inv :: "nat \<Rightarrow> retry_slot \<Rightarrow> bool" where
  "slot_inv claimed slot \<longleftrightarrow>
     unat (rb_failed_attempts (sl_backoff slot)) \<le> unat MAX_RECONNECT_ATTEMPTS \<and>
     unat (rb_failed_attempts (sl_backoff slot)) = claimed + (if sl_next_attempt_ms slot = None then 0 else 1) \<and>
     (sl_in_flight slot \<longleftrightarrow> sl_in_flight_started_ms slot \<noteq> None) \<and>
     (sl_in_flight slot \<longrightarrow> sl_next_attempt_ms slot = None)"

definition scheduler_inv :: "(peer_session_key \<Rightarrow> nat) \<Rightarrow> reconnect_scheduler \<Rightarrow> bool" where
  "scheduler_inv claims s \<longleftrightarrow>
     fm_len (rc_slots s) \<le> MAX_CONTROL_SESSIONS \<and>
     (\<forall>key slot. fmlookup (rc_slots s) key = Some slot \<longrightarrow> slot_inv (claims key) slot)"

lemma put_slot_inv:
  assumes "scheduler_inv claims s" "slot_inv c slot"
    "key |\<in>| fmdom (rc_slots s) \<or> fm_len (rc_slots s) < MAX_CONTROL_SESSIONS"
  shows "scheduler_inv (claims(key := c)) (put_slot key slot s)"
  using assms by (auto simp: scheduler_inv_def put_slot_def fm_len_fmupd split: if_splits)

lemma put_slot_inv_same:
  assumes "scheduler_inv claims s" "slot_inv (claims key) slot'" "fmlookup (rc_slots s) key = Some slot"
  shows "scheduler_inv claims (put_slot key slot' s)"
  using put_slot_inv [OF assms(1,2), of key] fmdomI [OF assms(3)] by simp

lemma after_failure_spec:
  "after_failure b =
     (if unat (rb_failed_attempts b) \<ge> 8 then (None, b)
      else (Some (word_of_nat (min (250 * 2 ^ unat (rb_failed_attempts b)) 30000)),
            b\<lparr>rb_failed_attempts := rb_failed_attempts b + 1\<rparr>))"
proof (cases "unat (rb_failed_attempts b) \<ge> 8")
  case True
  then show ?thesis by (simp add: after_failure_def MAX_RECONNECT_ATTEMPTS_def word_le_nat_alt)
next
  case False
  define n where "n = unat (rb_failed_attempts b)"
  have "n < 8" using False by (simp add: n_def)
  then have "n = 0 \<or> n = 1 \<or> n = 2 \<or> n = 3 \<or> n = 4 \<or> n = 5 \<or> n = 6 \<or> n = 7" by arith
  then have "min (250 * push_bit n 1) 30000 = (word_of_nat (min (250 * 2 ^ n) 30000) :: u64)"
    by (elim disjE) (simp_all add: push_bit_eq_mult min_def)
  then show ?thesis using False
    by (simp add: after_failure_def MAX_RECONNECT_ATTEMPTS_def word_le_nat_alt Let_def n_def)
qed

lemma schedule_loss_cases:
  assumes "schedule_loss key sid now s = (res, s')"
  obtains (unchanged) "s' = s" "res \<noteq> Inr True"
  | (scheduled) slot where "s' = put_slot key slot s" "res = Inr True" "slot_inv 0 slot"
      "fm_len (rc_slots s) < MAX_CONTROL_SESSIONS"
proof -
  have first: "after_failure backoff_new = (Some 250, \<lparr>rb_failed_attempts = 1\<rparr>)"
    by (simp add: after_failure_spec backoff_new_def)
  show thesis
  proof (cases "fmlookup (rc_slots s) key = None \<and> key_is_valid key \<and> \<not> all_zero sid \<and>
      fm_len (rc_slots s) < MAX_CONTROL_SESSIONS")
    case True
    then show thesis using assms
      by (intro scheduled) (auto simp: schedule_loss_def first slot_inv_def MAX_RECONNECT_ATTEMPTS_def)
  next
    case False
    then show thesis using assms
      by (intro unchanged) (auto simp: schedule_loss_def first split: if_splits option.splits)
  qed
qed

lemma take_due_cases:
  assumes "take_due key sid now s = (res, s')"
  obtains (unchanged) "s' = s" "res \<noteq> Inr True"
  | (touched) slot where "fmlookup (rc_slots s) key = Some slot" "res \<noteq> Inr True"
      "s' = put_slot key (slot\<lparr>sl_last_ms := now\<rparr>) s"
  | (claimed) slot due where "fmlookup (rc_slots s) key = Some slot" "res = Inr True"
      "sl_session_id slot = sid" "\<not> sl_in_flight slot" "sl_next_attempt_ms slot = Some due" "due \<le> now"
      "s' = put_slot key (slot\<lparr>sl_last_ms := now, sl_in_flight := True, sl_in_flight_started_ms := Some now,
              sl_cancel_requested := False, sl_next_attempt_ms := None\<rparr>) s"
proof (cases "fmlookup (rc_slots s) key")
  case None
  then show thesis using assms by (intro unchanged) (auto simp: take_due_def)
next
  case (Some slot)
  show thesis
  proof (cases "sl_session_id slot \<noteq> sid \<or> now < sl_last_ms slot")
    case True
    then show thesis using assms Some by (intro unchanged) (auto simp: take_due_def split: if_splits)
  next
    case False
    show thesis
    proof (cases "sl_in_flight slot \<or> (case sl_next_attempt_ms slot of None \<Rightarrow> True | Some due \<Rightarrow> now < due)")
      case True
      then show thesis using assms Some False
        by (intro touched [OF Some]) (auto simp: take_due_def Let_def)
    next
      case free: False
      then obtain due where "sl_next_attempt_ms slot = Some due" "due \<le> now"
        by (auto split: option.splits)
      then show thesis using assms Some False free
        by (intro claimed [OF Some, of due]) (auto simp: take_due_def Let_def)
    qed
  qed
qed

lemma take_expired_cases:
  assumes "take_expired_attempt key sid now s = (res, s')"
  obtains (unchanged) "s' = s"
  | (touched) slot flag where "fmlookup (rc_slots s) key = Some slot"
      "s' = put_slot key (slot\<lparr>sl_last_ms := now, sl_cancel_requested := flag\<rparr>) s"
proof (cases "fmlookup (rc_slots s) key")
  case None
  then show thesis using assms by (intro unchanged) (auto simp: take_expired_attempt_def)
next
  case (Some slot)
  have same: "slot\<lparr>sl_last_ms := now\<rparr> = slot\<lparr>sl_last_ms := now, sl_cancel_requested := sl_cancel_requested slot\<rparr>"
    by simp
  have "s' = s \<or> s' = put_slot key (slot\<lparr>sl_last_ms := now\<rparr>) s \<or>
      s' = put_slot key (slot\<lparr>sl_last_ms := now, sl_cancel_requested := True\<rparr>) s"
    using assms Some by (simp add: take_expired_attempt_def Let_def split: if_splits)
  then show thesis using unchanged touched [OF Some] same by metis
qed

lemma attempt_failed_cases:
  assumes "attempt_failed key sid now s = (res, s')"
  obtains (unchanged) "s' = s" "\<And>due. res \<noteq> Inr (Some due)"
  | (failed) slot delay backoff where "fmlookup (rc_slots s) key = Some slot" "sl_session_id slot = sid"
      "sl_in_flight slot" "after_failure (sl_backoff slot) = (delay, backoff)"
      "res = Inr (map_option (saturating_add now) delay)"
      "s' = put_slot key (slot\<lparr>sl_last_ms := now, sl_in_flight := False, sl_in_flight_started_ms := None,
              sl_cancel_requested := False, sl_backoff := backoff,
              sl_next_attempt_ms := map_option (saturating_add now) delay\<rparr>) s"
proof (cases "fmlookup (rc_slots s) key")
  case None
  then show thesis using assms by (intro unchanged) (auto simp: attempt_failed_def)
next
  case (Some slot)
  show thesis
  proof (cases "sl_session_id slot \<noteq> sid \<or> now < sl_last_ms slot \<or> \<not> sl_in_flight slot")
    case True
    then show thesis using assms Some by (intro unchanged) (auto simp: attempt_failed_def split: if_splits)
  next
    case False
    obtain delay backoff where ab: "after_failure (sl_backoff slot) = (delay, backoff)" by force
    then show thesis using assms Some False
      by (intro failed [OF Some _ _ ab]) (auto simp: attempt_failed_def Let_def)
  qed
qed

lemma failed_slot_inv:
  assumes inv: "slot_inv c slot" and flight: "sl_in_flight slot"
    and ab: "after_failure (sl_backoff slot) = (delay, backoff)"
  shows "slot_inv c (slot\<lparr>sl_last_ms := now, sl_in_flight := False, sl_in_flight_started_ms := None,
    sl_cancel_requested := False, sl_backoff := backoff, sl_next_attempt_ms := map_option f delay\<rparr>)"
    "delay = (if c \<ge> 8 then None else Some (word_of_nat (min (250 * 2 ^ c) 30000)))"
proof -
  have c: "unat (rb_failed_attempts (sl_backoff slot)) = c" "c \<le> 8"
    using inv flight by (auto simp: slot_inv_def MAX_RECONNECT_ATTEMPTS_def)
  show delay: "delay = (if c \<ge> 8 then None else Some (word_of_nat (min (250 * 2 ^ c) 30000)))"
    using ab c by (auto simp: after_failure_spec split: if_splits)
  have "c < 8 \<Longrightarrow> unat (rb_failed_attempts backoff) = Suc c"
    using ab c by (auto simp: after_failure_spec unat_word_ariths split: if_splits)
  moreover have "c = 8 \<Longrightarrow> backoff = sl_backoff slot" using ab c by (simp add: after_failure_spec)
  ultimately show "slot_inv c (slot\<lparr>sl_last_ms := now, sl_in_flight := False, sl_in_flight_started_ms := None,
      sl_cancel_requested := False, sl_backoff := backoff, sl_next_attempt_ms := map_option f delay\<rparr>)"
    using c delay by (cases "c = 8") (simp_all add: slot_inv_def MAX_RECONNECT_ATTEMPTS_def)
qed

lemma scheduler_run_inv: "scheduler_run claims s \<Longrightarrow> scheduler_inv claims s"
proof (induction rule: scheduler_run.induct)
  case (new claims)
  show ?case by (simp add: scheduler_inv_def scheduler_new_def)
next
  case (loss claims s key sid now res s')
  from loss(2) show ?case
  proof (cases rule: schedule_loss_cases [consumes 1, case_names unchanged scheduled])
    case unchanged
    then show ?thesis using loss(3) by simp
  next
    case (scheduled slot)
    then show ?thesis using put_slot_inv [OF loss(3) scheduled(3), of key] by (simp add: fun_upd_def)
  qed
next
  case (due claims s key sid now res s')
  have slot: "slot_inv (claims key) slot" if "fmlookup (rc_slots s) key = Some slot" for slot
    using due(3) that by (simp add: scheduler_inv_def)
  from due(2) show ?case
  proof (cases rule: take_due_cases [consumes 1, case_names unchanged touched claimed])
    case unchanged
    then show ?thesis using due(3) by simp
  next
    case (touched slot)
    have "slot_inv (claims key) (slot\<lparr>sl_last_ms := now\<rparr>)" using slot [OF touched(1)] by (simp add: slot_inv_def)
    then show ?thesis using put_slot_inv_same [OF due(3) _ touched(1)] touched by simp
  next
    case (claimed slot t)
    have "slot_inv (Suc (claims key)) (slot\<lparr>sl_last_ms := now, sl_in_flight := True,
        sl_in_flight_started_ms := Some now, sl_cancel_requested := False, sl_next_attempt_ms := None\<rparr>)"
      using slot [OF claimed(1)] claimed(5) by (simp add: slot_inv_def)
    from put_slot_inv [OF due(3) this, of key] show ?thesis
      using claimed(2,7) fmdomI [OF claimed(1)] by (simp add: fun_upd_def)
  qed
next
  case (expired claims s key sid now res s')
  from expired(2) show ?case
  proof (cases rule: take_expired_cases [consumes 1, case_names unchanged touched])
    case unchanged
    then show ?thesis using expired(3) by simp
  next
    case (touched slot flag)
    have "slot_inv (claims key) slot" using expired(3) touched(1) by (simp add: scheduler_inv_def)
    then have "slot_inv (claims key) (slot\<lparr>sl_last_ms := now, sl_cancel_requested := flag\<rparr>)"
      by (simp add: slot_inv_def)
    then show ?thesis using put_slot_inv_same [OF expired(3) _ touched(1)] touched(2) by simp
  qed
next
  case (failed claims s key sid now res s')
  from failed(2) show ?case
  proof (cases rule: attempt_failed_cases [consumes 1, case_names unchanged failed])
    case unchanged
    then show ?thesis using failed.IH by simp
  next
    case (failed slot delay backoff)
    have "slot_inv (claims key) slot" using failed.IH failed(1) by (simp add: scheduler_inv_def)
    from put_slot_inv_same [OF failed.IH failed_slot_inv(1) [OF this failed(3,4)] failed(1)]
    show ?thesis unfolding failed(6) .
  qed
next
  case (cancel claims s key sid b s')
  then show ?case by (auto simp: cancel_if_current_def scheduler_inv_def fm_len_fmdrop split: if_splits)
qed

text \<open>C33: reconnecting is bounded. Whatever calls are made on the scheduler, it holds at most
  \<open>MAX_CONTROL_SESSIONS\<close> peers, and at most \<open>MAX_RECONNECT_ATTEMPTS\<close> attempts are claimed for a loss. An attempt
  is claimed only when it is due and no other attempt of the peer is in flight. The failure of the \<open>k\<close>-th
  attempt schedules the next after 250 milliseconds times \<open>2\<^sup>k\<close>, at most 30 seconds, and the last failure
  schedules none, so that no further attempt is ever claimed until the loss is cancelled.\<close>

theorem reconnect_bounded:
  assumes "scheduler_run claims s"
  shows "fm_len (rc_slots s) \<le> MAX_CONTROL_SESSIONS \<and>
    (\<forall>key slot. fmlookup (rc_slots s) key = Some slot \<longrightarrow> claims key \<le> unat MAX_RECONNECT_ATTEMPTS) \<and>
    (\<forall>key sid now s'. take_due key sid now s = (Inr True, s') \<longrightarrow>
      claims key < unat MAX_RECONNECT_ATTEMPTS \<and>
      (\<exists>slot due. fmlookup (rc_slots s) key = Some slot \<and> sl_session_id slot = sid \<and> \<not> sl_in_flight slot \<and>
         sl_next_attempt_ms slot = Some due \<and> due \<le> now \<and>
         (\<forall>later. fst (take_due key sid later s') \<noteq> Inr True))) \<and>
    (\<forall>key sid now due s'. attempt_failed key sid now s = (Inr (Some due), s') \<longrightarrow>
      due = saturating_add now (word_of_nat (min (250 * 2 ^ claims key) 30000)) \<and>
      claims key < unat MAX_RECONNECT_ATTEMPTS) \<and>
    (\<forall>key sid now. claims key = unat MAX_RECONNECT_ATTEMPTS \<longrightarrow> fst (take_due key sid now s) \<noteq> Inr True)"
proof -
  have eight: "unat MAX_RECONNECT_ATTEMPTS = 8" by (simp add: MAX_RECONNECT_ATTEMPTS_def)
  have len: "fm_len (rc_slots s) \<le> MAX_CONTROL_SESSIONS"
    and inv: "\<And>key slot. fmlookup (rc_slots s) key = Some slot \<Longrightarrow> slot_inv (claims key) slot"
    using scheduler_run_inv [OF assms] by (simp_all add: scheduler_inv_def)
  have bound: "claims key \<le> 8" if "fmlookup (rc_slots s) key = Some slot" for key slot
    using inv [OF that] eight by (simp add: slot_inv_def)
  have due: "claims key < 8 \<and>
      (\<exists>slot due. fmlookup (rc_slots s) key = Some slot \<and> sl_session_id slot = sid \<and> \<not> sl_in_flight slot \<and>
         sl_next_attempt_ms slot = Some due \<and> due \<le> now \<and>
         (\<forall>later. fst (take_due key sid later s') \<noteq> Inr True))"
    if "take_due key sid now s = (Inr True, s')" for key sid now s'
    using that
  proof (cases rule: take_due_cases [consumes 1, case_names unchanged touched claimed])
    case (claimed slot t)
    have "claims key < 8" using inv [OF claimed(1)] claimed(5) eight by (simp add: slot_inv_def)
    moreover have "fst (take_due key sid later s') \<noteq> Inr True" for later
      by (simp add: take_due_def claimed(7) put_slot_def Let_def)
    ultimately show ?thesis using claimed by blast
  qed simp_all
  have failed: "due = saturating_add now (word_of_nat (min (250 * 2 ^ claims key) 30000)) \<and> claims key < 8"
    if "attempt_failed key sid now s = (Inr (Some due), s')" for key sid now due s'
    using that
  proof (cases rule: attempt_failed_cases [consumes 1, case_names unchanged failed])
    case (failed slot delay backoff)
    show ?thesis using failed_slot_inv(2) [OF inv [OF failed(1)] failed(3,4)] failed(5) by (auto split: if_splits)
  qed blast
  have "fst (take_due key sid now s) \<noteq> Inr True" if "claims key = 8" for key sid now
    using due that by (metis less_irrefl prod.collapse)
  then show ?thesis unfolding eight using len bound due failed by blast
qed

theorem reconnect_bounded_witness:
  "\<exists>s. schedule_loss sample_session_key (byte_ident 3) 1000 scheduler_new = (Inr True, s) \<and>
     fst (take_due sample_session_key (byte_ident 3) 1249 s) = Inr False \<and>
     fst (take_due sample_session_key (byte_ident 3) 1250 s) = Inr True \<and> fm_len (rc_slots s) \<le> MAX_CONTROL_SESSIONS"
proof -
  obtain s where s: "schedule_loss sample_session_key (byte_ident 3) 1000 scheduler_new = (Inr True, s)"
    "fst (take_due sample_session_key (byte_ident 3) 1249 s) = Inr False"
    "fst (take_due sample_session_key (byte_ident 3) 1250 s) = Inr True"
    by (simp add: schedule_loss_def scheduler_new_def sample_session_key_def key_is_valid_def after_failure_spec
        backoff_new_def MAX_CONTROL_SESSIONS_def take_due_def put_slot_def Let_def saturating_add_def)
  from scheduler_run.loss [OF scheduler_run.new s(1)]
  show ?thesis using reconnect_bounded s by blast
qed

end
