(* ===== verification/Session_Stream.thy ===== *)
theory Session_Stream
  imports Control_Io Session
begin

text \<open>
  \<open>crates/blueroute-protocol/src/session_stream.rs\<close>, \<open>session_activity.rs\<close> and \<open>session_writer.rs\<close>: what follows
  the hello exchange on an authenticated channel. The reader checks the scope and the order of the decoded
  frames, the activity tracker adds the idle deadline, the writer allocates the sequence numbers. A result is
  inside an option where the code runs the decoder loop or an I/O loop.
\<close>

section \<open>The inbound stream\<close>

record session_control_stream =
  ss_decoder :: control_stream_decoder
  ss_network :: network_id
  ss_peer :: node_id
  ss_session_id :: session_id
  ss_last_sequence :: u64
  ss_closed :: bool
  ss_poisoned :: bool

datatype session_stream_error =
    InvalidSession | DecodeFailure stream_decode_error | WrongContext | Replay | UnexpectedHandshake
  | AfterGoodbye | StreamUnexpectedEof | StreamPoisoned

datatype session_read_io_error =
    ReadTransport control_io_error | ReadScope session_stream_error | ReadInternalFrame control_frame_error

definition stream_after_verified_hello ::
  "network_id \<Rightarrow> node_id \<Rightarrow> session_id \<Rightarrow> session_stream_error + session_control_stream" where
  "stream_after_verified_hello network peer sid =
     (if network = zero_ident \<or> peer = zero_ident \<or> sid = zero_ident then Inl InvalidSession
      else Inr \<lparr>ss_decoder = stream_decoder_new, ss_network = network, ss_peer = peer, ss_session_id = sid,
                ss_last_sequence = 2, ss_closed = False, ss_poisoned = False\<rparr>)"

definition reject_stream ::
  "session_stream_error \<Rightarrow> session_control_stream \<Rightarrow> (session_stream_error + 'a) \<times> session_control_stream" where
  "reject_stream e s = (Inl e, s\<lparr>ss_poisoned := True\<rparr>)"

text \<open>The loop over the decoded frames.\<close>

fun check_frames ::
  "control_envelope list \<Rightarrow> session_control_stream \<Rightarrow> (session_stream_error + unit) \<times> session_control_stream" where
  "check_frames [] s = (Inr (), s)"
| "check_frames (frame # frames) s =
     (if ce_network frame \<noteq> ss_network s \<or> ce_sender frame \<noteq> ss_peer s \<or> ce_session_id frame \<noteq> ss_session_id s
      then reject_stream WrongContext s
      else if ce_sequence frame \<le> ss_last_sequence s then reject_stream Replay s
      else if ss_closed s then reject_stream AfterGoodbye s
      else (case ce_message frame of
          Heartbeat \<Rightarrow> check_frames frames (s\<lparr>ss_last_sequence := ce_sequence frame\<rparr>)
        | Goodbye \<Rightarrow> check_frames frames (s\<lparr>ss_closed := True, ss_last_sequence := ce_sequence frame\<rparr>)
        | _ \<Rightarrow> reject_stream UnexpectedHandshake s))"

definition stream_feed ::
  "json_codec \<Rightarrow> u8 list \<Rightarrow> session_control_stream \<Rightarrow>
   ((session_stream_error + control_envelope list) \<times> session_control_stream) option" where
  "stream_feed codec bytes s =
     (if ss_poisoned s then Some (Inl StreamPoisoned, s)
      else if ss_closed s then
        (if bytes \<noteq> [] then Some (reject_stream AfterGoodbye s) else Some (Inr [], s))
      else case feed codec bytes (ss_decoder s) of
        None \<Rightarrow> None
      | Some (Inl e, d) \<Rightarrow> Some (reject_stream (DecodeFailure e) (s\<lparr>ss_decoder := d\<rparr>))
      | Some (Inr frames, d) \<Rightarrow>
          (case check_frames frames (s\<lparr>ss_decoder := d\<rparr>) of
             (Inl e, s') \<Rightarrow> Some (Inl e, s')
           | (Inr _, s') \<Rightarrow>
               if ss_closed s' \<and> length (sd_partial (ss_decoder s')) \<noteq> 0
               then Some (reject_stream AfterGoodbye s')
               else Some (Inr frames, s')))"

definition stream_read_one ::
  "json_codec \<Rightarrow> 'w deadline_stream \<Rightarrow> nat \<Rightarrow> session_control_stream \<Rightarrow> 'w \<Rightarrow>
   ((session_read_io_error + control_envelope) \<times> session_control_stream \<times> 'w) option" where
  "stream_read_one codec ds deadline s w =
     (if ss_poisoned s then Some (Inl (ReadScope StreamPoisoned), s, w)
      else if ss_closed s then Some (Inl (ReadScope AfterGoodbye), s, w)
      else case read_one_control_frame_with_deadline codec ds deadline w of
        None \<Rightarrow> None
      | Some (Inl e, w') \<Rightarrow> Some (Inl (ReadTransport e), s\<lparr>ss_poisoned := True\<rparr>, w')
      | Some (Inr envelope, w') \<Rightarrow>
          (case encode_control_frame codec envelope of
             Inl e \<Rightarrow> Some (Inl (ReadInternalFrame e), s\<lparr>ss_poisoned := True\<rparr>, w')
           | Inr bytes \<Rightarrow>
               (case stream_feed codec bytes s of
                  None \<Rightarrow> None
                | Some (Inl e, s') \<Rightarrow> Some (Inl (ReadScope e), s', w')
                | Some (Inr accepted, s') \<Rightarrow>
                    (case accepted of
                       [only] \<Rightarrow> Some (Inr only, s', w')
                     | _ \<Rightarrow> Some (Inl (ReadScope StreamPoisoned), s'\<lparr>ss_poisoned := True\<rparr>, w')))))"

definition stream_finish :: "session_control_stream \<Rightarrow> (session_stream_error + unit) \<times> session_control_stream" where
  "stream_finish s =
     (if ss_poisoned s then (Inl StreamPoisoned, s)
      else case finish (ss_decoder s) of
        (Inr _, d) \<Rightarrow>
          if ss_closed s then (Inr (), s\<lparr>ss_decoder := d, ss_poisoned := True\<rparr>)
          else reject_stream StreamUnexpectedEof (s\<lparr>ss_decoder := d\<rparr>)
      | (Inl e, d) \<Rightarrow> reject_stream (DecodeFailure e) (s\<lparr>ss_decoder := d\<rparr>))"

section \<open>The outbound writer\<close>

record session_control_writer =
  sw_network :: network_id
  sw_local :: node_id
  sw_session_id :: session_id
  sw_next_sequence :: u64
  sw_closed :: bool
  sw_poisoned :: bool

datatype session_write_error =
    WriteInvalidSession | WriteAfterGoodbye | SequenceExhausted | EncodeFailure control_frame_error | WritePoisoned

datatype session_write_io_error =
    WriteState session_write_error | WriteTransport control_io_error | WriteInternalFrame control_frame_error

definition writer_after_verified_hello ::
  "network_id \<Rightarrow> node_id \<Rightarrow> node_id \<Rightarrow> session_id \<Rightarrow> session_write_error + session_control_writer" where
  "writer_after_verified_hello network local_node peer sid =
     (if network = zero_ident \<or> local_node = zero_ident \<or> peer = zero_ident \<or> local_node = peer \<or> sid = zero_ident
      then Inl WriteInvalidSession
      else Inr \<lparr>sw_network = network, sw_local = local_node, sw_session_id = sid, sw_next_sequence = 3,
                sw_closed = False, sw_poisoned = False\<rparr>)"

definition writer_envelope :: "control_message \<Rightarrow> session_control_writer \<Rightarrow> control_envelope" where
  "writer_envelope message w =
     \<lparr>ce_version = CONTROL_VERSION, ce_network = sw_network w, ce_sender = sw_local w,
      ce_session_id = sw_session_id w, ce_sequence = sw_next_sequence w, ce_message = message\<rparr>"

definition writer_encode ::
  "json_codec \<Rightarrow> control_message \<Rightarrow> session_control_writer \<Rightarrow>
   (session_write_error + u8 list) \<times> session_control_writer" where
  "writer_encode codec message w =
     (if sw_poisoned w then (Inl WritePoisoned, w)
      else if sw_closed w then (Inl WriteAfterGoodbye, w)
      else case checked_add (sw_next_sequence w) 1 of
        None \<Rightarrow> (Inl SequenceExhausted, w\<lparr>sw_poisoned := True\<rparr>)
      | Some following \<Rightarrow>
          (case encode_control_frame codec (writer_envelope message w) of
             Inl e \<Rightarrow> (Inl (EncodeFailure e), w\<lparr>sw_poisoned := True\<rparr>)
           | Inr encoded \<Rightarrow>
               (Inr encoded, w\<lparr>sw_next_sequence := following, sw_closed := (message = Goodbye)\<rparr>)))"

definition writer_heartbeat ::
  "json_codec \<Rightarrow> session_control_writer \<Rightarrow> (session_write_error + u8 list) \<times> session_control_writer" where
  "writer_heartbeat codec w = writer_encode codec Heartbeat w"

definition writer_goodbye ::
  "json_codec \<Rightarrow> session_control_writer \<Rightarrow> (session_write_error + u8 list) \<times> session_control_writer" where
  "writer_goodbye codec w = writer_encode codec Goodbye w"

definition write_message_with_deadline ::
  "json_codec \<Rightarrow> 'w deadline_stream \<Rightarrow> nat \<Rightarrow> control_message \<Rightarrow> session_control_writer \<Rightarrow> 'w \<Rightarrow>
   ((session_write_io_error + unit) \<times> session_control_writer \<times> 'w) option" where
  "write_message_with_deadline codec ds deadline message wr w =
     (case writer_encode codec message wr of
        (Inl e, wr') \<Rightarrow> Some (Inl (WriteState e), wr', w)
      | (Inr frame, wr') \<Rightarrow>
          (case decode_control_frame codec frame of
             Inl e \<Rightarrow> Some (Inl (WriteInternalFrame e), wr'\<lparr>sw_poisoned := True\<rparr>, w)
           | Inr envelope \<Rightarrow>
               (case write_one_control_frame_with_deadline codec ds envelope deadline w of
                  None \<Rightarrow> None
                | Some (Inl e, w') \<Rightarrow> Some (Inl (WriteTransport e), wr'\<lparr>sw_poisoned := True\<rparr>, w')
                | Some (Inr _, w') \<Rightarrow> Some (Inr (), wr', w'))))"

definition write_heartbeat_with_deadline ::
  "json_codec \<Rightarrow> 'w deadline_stream \<Rightarrow> nat \<Rightarrow> session_control_writer \<Rightarrow> 'w \<Rightarrow>
   ((session_write_io_error + unit) \<times> session_control_writer \<times> 'w) option" where
  "write_heartbeat_with_deadline codec ds deadline = write_message_with_deadline codec ds deadline Heartbeat"

definition write_goodbye_with_deadline ::
  "json_codec \<Rightarrow> 'w deadline_stream \<Rightarrow> nat \<Rightarrow> session_control_writer \<Rightarrow> 'w \<Rightarrow>
   ((session_write_io_error + unit) \<times> session_control_writer \<times> 'w) option" where
  "write_goodbye_with_deadline codec ds deadline = write_message_with_deadline codec ds deadline Goodbye"

section \<open>Inbound activity\<close>

datatype inbound_activity_error =
    NotActive | ActivityDeadline deadline_error | ActivityScope session_stream_error | ActivityTerminal

record authenticated_inbound_activity =
  ia_stream :: session_control_stream
  ia_deadline :: connection_deadline
  ia_terminal :: bool
  ia_goodbye_seen :: bool

definition activity_after_verified_hello ::
  "network_id \<Rightarrow> node_id \<Rightarrow> session_id \<Rightarrow> connection_deadline \<Rightarrow>
   inbound_activity_error + authenticated_inbound_activity" where
  "activity_after_verified_hello network peer sid deadline =
     (if cd_stage deadline \<noteq> ActiveStage then Inl NotActive
      else bindR (map_err ActivityScope (stream_after_verified_hello network peer sid)) (\<lambda>stream.
        Inr \<lparr>ia_stream = stream, ia_deadline = deadline, ia_terminal = False, ia_goodbye_seen = False\<rparr>))"

definition check_before_read ::
  "u64 \<Rightarrow> authenticated_inbound_activity \<Rightarrow> (inbound_activity_error + unit) \<times> authenticated_inbound_activity" where
  "check_before_read now_ms a =
     (if ia_terminal a then (Inl ActivityTerminal, a)
      else case deadline_check (ia_deadline a) now_ms of
        Inl e \<Rightarrow> (Inl (ActivityDeadline e), a\<lparr>ia_terminal := True\<rparr>)
      | Inr _ \<Rightarrow> (Inr (), a))"

definition feed_verified_plaintext ::
  "json_codec \<Rightarrow> u8 list \<Rightarrow> u64 \<Rightarrow> authenticated_inbound_activity \<Rightarrow>
   ((inbound_activity_error + control_envelope list) \<times> authenticated_inbound_activity) option" where
  "feed_verified_plaintext codec chunk now_ms a =
     (if ia_terminal a then Some (Inl ActivityTerminal, a)
      else if ia_goodbye_seen a then Some (Inl ActivityTerminal, a\<lparr>ia_terminal := True\<rparr>)
      else case deadline_check (ia_deadline a) now_ms of
        Inl e \<Rightarrow> Some (Inl (ActivityDeadline e), a\<lparr>ia_terminal := True\<rparr>)
      | Inr _ \<Rightarrow>
          (case stream_feed codec chunk (ia_stream a) of
             None \<Rightarrow> None
           | Some (Inl e, s) \<Rightarrow> Some (Inl (ActivityScope e), a\<lparr>ia_stream := s, ia_terminal := True\<rparr>)
           | Some (Inr frames, s) \<Rightarrow>
               let a1 = a\<lparr>ia_stream := s\<rparr> in
               if frames = [] then Some (Inr frames, a1)
               else if list_ex (\<lambda>frame. ce_message frame = Goodbye) frames
               then (case deadline_abort now_ms (ia_deadline a) of
                   (Inl e, d) \<Rightarrow> Some (Inl (ActivityDeadline e), a1\<lparr>ia_deadline := d, ia_terminal := True\<rparr>)
                 | (Inr _, d) \<Rightarrow> Some (Inr frames, a1\<lparr>ia_deadline := d, ia_goodbye_seen := True\<rparr>))
               else (case authenticated_activity now_ms (ia_deadline a) of
                   (Inl e, d) \<Rightarrow> Some (Inl (ActivityDeadline e), a1\<lparr>ia_deadline := d, ia_terminal := True\<rparr>)
                 | (Inr _, d) \<Rightarrow> Some (Inr frames, a1\<lparr>ia_deadline := d\<rparr>))))"

definition finish_at ::
  "u64 \<Rightarrow> authenticated_inbound_activity \<Rightarrow> (inbound_activity_error + unit) \<times> authenticated_inbound_activity" where
  "finish_at now_ms a =
     (if ia_terminal a then (Inl ActivityTerminal, a)
      else case deadline_check (ia_deadline a) now_ms of
        Inl e \<Rightarrow> (Inl (ActivityDeadline e), a\<lparr>ia_terminal := True\<rparr>)
      | Inr _ \<Rightarrow>
          (case stream_finish (ia_stream a) of
             (r, s) \<Rightarrow> (map_err ActivityScope r, a\<lparr>ia_stream := s, ia_terminal := True\<rparr>)))"

section \<open>Scope of a session\<close>

text \<open>What a session may deliver after the sequence number \<open>k\<close>: heartbeats of its peer in increasing order, and
  a goodbye at the end at most.\<close>

fun scoped :: "network_id \<Rightarrow> node_id \<Rightarrow> session_id \<Rightarrow> u64 \<Rightarrow> control_envelope list \<Rightarrow> bool" where
  "scoped network peer sid k [] \<longleftrightarrow> True"
| "scoped network peer sid k (f # fs) \<longleftrightarrow>
     ce_network f = network \<and> ce_sender f = peer \<and> ce_session_id f = sid \<and> k < ce_sequence f \<and>
     (ce_message f = Heartbeat \<and> scoped network peer sid (ce_sequence f) fs \<or> ce_message f = Goodbye \<and> fs = [])"

definition last_seq :: "u64 \<Rightarrow> control_envelope list \<Rightarrow> u64" where
  "last_seq k fs = (if fs = [] then k else ce_sequence (last fs))"

definition ends_goodbye :: "control_envelope list \<Rightarrow> bool" where
  "ends_goodbye fs \<longleftrightarrow> fs \<noteq> [] \<and> ce_message (last fs) = Goodbye"

lemma last_seq_simps [simp]:
  "last_seq k [] = k" "last_seq k (f # fs) = last_seq (ce_sequence f) fs"
  "last_seq k (fs @ gs) = last_seq (last_seq k fs) gs"
  by (auto simp: last_seq_def)

lemma ends_goodbye_simps [simp]:
  "\<not> ends_goodbye []" "ends_goodbye (f # fs) \<longleftrightarrow> (if fs = [] then ce_message f = Goodbye else ends_goodbye fs)"
  "ends_goodbye (fs @ gs) \<longleftrightarrow> (if gs = [] then ends_goodbye fs else ends_goodbye gs)"
  by (auto simp: ends_goodbye_def)

lemma scoped_append:
  "scoped network peer sid k (fs @ gs) \<longleftrightarrow>
     scoped network peer sid k fs \<and> (gs = [] \<or> \<not> ends_goodbye fs \<and> scoped network peer sid (last_seq k fs) gs)"
  by (induction fs arbitrary: k) auto

lemma scoped_facts:
  "scoped network peer sid k fs \<Longrightarrow>
     (\<forall>f\<in>set fs. ce_network f = network \<and> ce_sender f = peer \<and> ce_session_id f = sid \<and> k < ce_sequence f) \<and>
     sorted_wrt (<) (map ce_sequence fs) \<and> (\<forall>f\<in>set (butlast fs). ce_message f = Heartbeat)"
proof (induction fs arbitrary: k)
  case (Cons f fs)
  show ?case
  proof (cases "ce_message f = Heartbeat")
    case True
    then have "k < ce_sequence f" "scoped network peer sid (ce_sequence f) fs" using Cons.prems by auto
    then show ?thesis using Cons.IH [of "ce_sequence f"] Cons.prems True by (auto dest: less_trans)
  next
    case False
    then show ?thesis using Cons.prems by simp
  qed
qed simp

lemma check_frames_Inr:
  assumes "\<not> ss_closed s"
  shows "check_frames fs s = (Inr (), s') \<longleftrightarrow>
    scoped (ss_network s) (ss_peer s) (ss_session_id s) (ss_last_sequence s) fs \<and>
    s' = s\<lparr>ss_last_sequence := last_seq (ss_last_sequence s) fs, ss_closed := ends_goodbye fs\<rparr>"
  using assms
proof (induction fs arbitrary: s)
  case Nil
  then show ?case by auto
next
  case (Cons f fs)
  show ?case
  proof (cases "ce_message f")
    case Heartbeat
    then show ?thesis using Cons.IH [of "s\<lparr>ss_last_sequence := ce_sequence f\<rparr>"] Cons.prems
      by (auto simp: reject_stream_def not_le)
  next
    case Goodbye
    then show ?thesis using Cons.prems by (cases fs) (auto simp: reject_stream_def not_le)
  qed (use Cons.prems in \<open>auto simp: reject_stream_def\<close>)
qed

lemma check_frames_Inl: "check_frames fs s = (Inl e, s') \<Longrightarrow> ss_poisoned s'"
  by (induction fs arbitrary: s) (auto simp: reject_stream_def split: if_splits control_message.splits)

text \<open>The state of a reader that has consumed the bytes \<open>fed\<close> and delivered \<open>got\<close> without a failure.\<close>

definition stream_holds ::
  "json_codec \<Rightarrow> network_id \<Rightarrow> node_id \<Rightarrow> session_id \<Rightarrow> u8 list \<Rightarrow> control_envelope list \<Rightarrow> session_control_stream \<Rightarrow> bool" where
  "stream_holds codec network peer sid fed got s \<longleftrightarrow>
     ss_network s = network \<and> ss_peer s = peer \<and> ss_session_id s = sid \<and> \<not> ss_poisoned s \<and>
     decoder_open (ss_decoder s) \<and> parse_stream codec fed = (got, Some (sd_partial (ss_decoder s))) \<and>
     scoped network peer sid 2 got \<and> ss_last_sequence s = last_seq 2 got \<and>
     (ss_closed s \<longleftrightarrow> ends_goodbye got) \<and> (ss_closed s \<longrightarrow> sd_partial (ss_decoder s) = [])"

text \<open>The streams a session accepts: scoped messages, and nothing behind a goodbye.\<close>

definition acceptable :: "network_id \<Rightarrow> node_id \<Rightarrow> session_id \<Rightarrow> control_envelope list \<Rightarrow> u8 list \<Rightarrow> bool" where
  "acceptable network peer sid es rest \<longleftrightarrow> scoped network peer sid 2 es \<and> (ends_goodbye es \<longrightarrow> rest = [])"

lemma stream_new_holds:
  "stream_after_verified_hello network peer sid = Inr s \<Longrightarrow> stream_holds codec network peer sid [] [] s"
  using decoder_new_open parse_incomplete [of stream_decoder_new codec]
  by (auto simp: stream_after_verified_hello_def stream_holds_def decoder_open_def stream_decoder_new_def split: if_splits)

lemma parse_stream_nil: "parse_stream codec bs = ([], Some rest) \<Longrightarrow> rest = bs"
  by (subst (asm) parse_stream.simps) (auto split: if_splits sum.splits prod.splits)

lemma stream_feed_closed:
  assumes holds: "stream_holds codec network peer sid fed got s" and closed: "ss_closed s" and more: "c \<noteq> []"
  shows "parse_stream codec (fed @ c) = (es, Some rest) \<Longrightarrow> \<not> acceptable network peer sid es rest"
proof
  assume p: "parse_stream codec (fed @ c) = (es, Some rest)" and acc: "acceptable network peer sid es rest"
  have fed: "parse_stream codec fed = (got, Some [])" and bye: "ends_goodbye got"
    using holds closed by (auto simp: stream_holds_def)
  from p parse_stream_append [OF fed, of c] obtain fs where fs: "parse_stream codec c = (fs, Some rest)" "es = got @ fs"
    by (auto split: prod.splits)
  then have "fs = []" using acc bye by (auto simp: acceptable_def scoped_append)
  then have "rest = c" "ends_goodbye es" using fs parse_stream_nil bye by auto
  then show False using acc more by (simp add: acceptable_def)
qed

text \<open>A feed that completes the frames \<open>es\<close> delivers them exactly when the stream is acceptable.\<close>

lemma stream_feed_decoded:
  assumes holds: "stream_holds codec network peer sid fed got s" and not_closed: "\<not> ss_closed s"
    and fed: "feed codec c (ss_decoder s) = Some (Inr es, d')" and dec: "decoder_open d'"
    and all: "parse_stream codec (fed @ c) = (got @ es, Some (sd_partial d'))"
  shows "acceptable network peer sid (got @ es) (sd_partial d') \<Longrightarrow>
      \<exists>s'. stream_feed codec c s = Some (Inr es, s') \<and> stream_holds codec network peer sid (fed @ c) (got @ es) s'"
    "\<not> acceptable network peer sid (got @ es) (sd_partial d') \<Longrightarrow>
      \<exists>e s'. stream_feed codec c s = Some (Inl e, s') \<and> ss_poisoned s'"
proof -
  have clean: "\<not> ss_poisoned s" and sc: "scoped network peer sid 2 got"
    and ls: "ss_last_sequence s = last_seq 2 got" and nb: "\<not> ends_goodbye got"
    and ctx: "ss_network s = network" "ss_peer s = peer" "ss_session_id s = sid"
    using holds not_closed by (auto simp: stream_holds_def)
  have feed: "stream_feed codec c s =
      (case check_frames es (s\<lparr>ss_decoder := d'\<rparr>) of
         (Inl e, s') \<Rightarrow> Some (Inl e, s')
       | (Inr _, s') \<Rightarrow> if ss_closed s' \<and> length (sd_partial (ss_decoder s')) \<noteq> 0
           then Some (reject_stream AfterGoodbye s') else Some (Inr es, s'))"
    using not_closed clean by (simp add: stream_feed_def fed)
  {
    assume acc: "acceptable network peer sid (got @ es) (sd_partial d')"
    then have scn: "scoped network peer sid (last_seq 2 got) es" "ends_goodbye es \<longrightarrow> sd_partial d' = []"
      using nb by (auto simp: acceptable_def scoped_append split: if_splits)
    let ?s = "s\<lparr>ss_decoder := d', ss_last_sequence := last_seq 2 (got @ es), ss_closed := ends_goodbye es\<rparr>"
    have "check_frames es (s\<lparr>ss_decoder := d'\<rparr>) = (Inr (), ?s)"
      using scn not_closed by (subst check_frames_Inr) (simp_all add: ctx ls)
    then have "stream_feed codec c s = Some (Inr es, ?s)" using feed scn(2) by auto
    moreover have "stream_holds codec network peer sid (fed @ c) (got @ es) ?s"
      using dec all acc nb clean ctx scn by (auto simp: stream_holds_def acceptable_def)
    ultimately show "\<exists>s'. stream_feed codec c s = Some (Inr es, s') \<and>
        stream_holds codec network peer sid (fed @ c) (got @ es) s'" by blast
  next
    assume unacc: "\<not> acceptable network peer sid (got @ es) (sd_partial d')"
    obtain r s' where check: "check_frames es (s\<lparr>ss_decoder := d'\<rparr>) = (r, s')" by force
    show "\<exists>e s'. stream_feed codec c s = Some (Inl e, s') \<and> ss_poisoned s'"
    proof (cases r)
      case (Inl e)
      then show ?thesis using feed check check_frames_Inl by auto
    next
      case (Inr u)
      then have "scoped network peer sid (last_seq 2 got) es" "ss_closed s' = ends_goodbye es" "ss_decoder s' = d'"
        using check check_frames_Inr [of "s\<lparr>ss_decoder := d'\<rparr>" es s'] not_closed by (auto simp: ctx ls)
      then have "ss_closed s' \<and> sd_partial (ss_decoder s') \<noteq> []"
        using unacc sc nb by (auto simp: acceptable_def scoped_append split: if_splits)
      then show ?thesis using feed check Inr by (auto simp: reject_stream_def)
    qed
  }
qed

lemma stream_feed_outcome:
  assumes holds: "stream_holds codec network peer sid fed got s"
  obtains (delivered) frames s' where "stream_feed codec c s = Some (Inr frames, s')"
      "stream_holds codec network peer sid (fed @ c) (got @ frames) s'"
    | (failed) e s' where "stream_feed codec c s = Some (Inl e, s')" "ss_poisoned s'"
      "\<And>es rest. parse_stream codec (fed @ c) = (es, Some rest) \<Longrightarrow> acceptable network peer sid es rest \<Longrightarrow>
         length es > length got + MAX_FRAMES_PER_FEED \<or> length c > MAX_STREAM_FEED_BYTES"
proof (cases "ss_closed s")
  case True
  have clean: "\<not> ss_poisoned s" using holds by (simp add: stream_holds_def)
  show thesis
  proof (cases "c = []")
    case empty: True
    then show thesis using True clean holds by (intro delivered [of "[]" s]) (simp_all add: stream_feed_def)
  next
    case False
    then show thesis using True clean stream_feed_closed [OF holds True False]
      by (intro failed [of AfterGoodbye "s\<lparr>ss_poisoned := True\<rparr>"]) (auto simp: stream_feed_def reject_stream_def)
  qed
next
  case not_closed: False
  have clean: "\<not> ss_poisoned s" and dec: "decoder_open (ss_decoder s)"
    and fed: "parse_stream codec fed = (got, Some (sd_partial (ss_decoder s)))"
    using holds by (auto simp: stream_holds_def)
  note app = parse_stream_append [OF fed, of c]
  from dec show thesis
  proof (cases rule: feed_open [of "ss_decoder s" codec c, consumes 1, case_names frames failed])
    case (frames es d')
    have all: "parse_stream codec (fed @ c) = (got @ es, Some (sd_partial d'))" using app frames(3) by simp
    note decoded = stream_feed_decoded [OF holds not_closed frames(1,2) all]
    show thesis
      using decoded delivered failed all by (metis prod.inject option.inject)
  next
    case bad: (failed e d')
    have "stream_feed codec c s = Some (reject_stream (DecodeFailure e) (s\<lparr>ss_decoder := d'\<rparr>))"
      using not_closed clean by (simp add: stream_feed_def bad(1))
    then show thesis using bad(4) app
      by (intro failed) (auto simp: reject_stream_def split: prod.splits)
  qed
qed

text \<open>The calls on a reader, with the bytes it consumed and the messages it delivered.\<close>

inductive stream_run ::
  "json_codec \<Rightarrow> network_id \<Rightarrow> node_id \<Rightarrow> session_id \<Rightarrow> u8 list \<Rightarrow> control_envelope list \<Rightarrow> session_control_stream \<Rightarrow> bool"
  for codec network peer sid where
  new: "stream_after_verified_hello network peer sid = Inr s \<Longrightarrow> stream_run codec network peer sid [] [] s"
| delivered: "stream_run codec network peer sid fed got s \<Longrightarrow> stream_feed codec c s = Some (Inr frames, s') \<Longrightarrow>
    stream_run codec network peer sid (fed @ c) (got @ frames) s'"
| failed: "stream_run codec network peer sid fed got s \<Longrightarrow> stream_feed codec c s = Some (Inl e, s') \<Longrightarrow>
    stream_run codec network peer sid fed got s'"
| finished: "stream_run codec network peer sid fed got s \<Longrightarrow> stream_finish s = (r, s') \<Longrightarrow>
    stream_run codec network peer sid fed got s'"

lemma stream_finish_poisons: "stream_finish s = (r, s') \<Longrightarrow> ss_poisoned s'"
  by (auto simp: stream_finish_def reject_stream_def split: if_splits prod.splits sum.splits)

lemma stream_run_inv:
  "stream_run codec network peer sid fed got s \<Longrightarrow>
   scoped network peer sid 2 got \<and> (ss_poisoned s \<or> stream_holds codec network peer sid fed got s)"
proof (induction rule: stream_run.induct)
  case (new s)
  then show ?case using stream_new_holds by auto
next
  case (delivered fed got s c frames s')
  have "\<not> ss_poisoned s" using delivered.hyps(2) by (auto simp: stream_feed_def)
  then have "stream_holds codec network peer sid fed got s" using delivered.IH by blast
  then show ?case
    by (cases rule: stream_feed_outcome [where c = c, consumes 1, case_names ok bad])
      (use delivered.hyps(2) in \<open>auto simp: stream_holds_def\<close>)
next
  case (failed fed got s c e s')
  have "ss_poisoned s'"
  proof (cases "ss_poisoned s")
    case True
    then show ?thesis using failed.hyps(2) by (simp add: stream_feed_def)
  next
    case False
    then have "stream_holds codec network peer sid fed got s" using failed.IH by blast
    then show ?thesis
      by (cases rule: stream_feed_outcome [where c = c, consumes 1, case_names ok bad])
        (use failed.hyps(2) in auto)
  qed
  then show ?case using failed.IH by blast
next
  case (finished fed got s r s')
  then show ?case using stream_finish_poisons by blast
qed

text \<open>C14: an authenticated session delivers only what its peer may send. Over any calls, the delivered messages
  belong to the network, peer and exported session of the reader, have strictly increasing sequence numbers
  above those of the hello exchange, and are heartbeats with a goodbye at most at the end. As long as no call
  has failed they are exactly the frames of the bytes fed so far, in whatever chunks, and the end of the stream
  counts as graceful exactly after a goodbye. After a failure or the end of the stream every feed is refused.\<close>

theorem session_stream_scoped:
  assumes "stream_run codec network peer sid fed got s"
  shows "(\<forall>f\<in>set got. ce_network f = network \<and> ce_sender f = peer \<and> ce_session_id f = sid \<and> 2 < ce_sequence f) \<and>
    sorted_wrt (<) (map ce_sequence got) \<and> (\<forall>f\<in>set (butlast got). ce_message f = Heartbeat) \<and>
    (\<not> ss_poisoned s \<longrightarrow> parse_stream codec fed = (got, Some (sd_partial (ss_decoder s))) \<and>
       (fst (stream_finish s) = Inr () \<longleftrightarrow> ends_goodbye got)) \<and>
    (ss_poisoned s \<longrightarrow> stream_feed codec c s = Some (Inl StreamPoisoned, s)) \<and> ss_poisoned (snd (stream_finish s))"
proof -
  note inv = stream_run_inv [OF assms]
  have fin: "fst (stream_finish s) = Inr () \<longleftrightarrow> ends_goodbye got" if "stream_holds codec network peer sid fed got s"
  proof -
    obtain r d where f: "finish (ss_decoder s) = (r, d)" by force
    have "r = Inr () \<longleftrightarrow> sd_partial (ss_decoder s) = []"
      using finish_open [of "ss_decoder s"] that f by (auto simp: stream_holds_def)
    then show ?thesis using that f
      by (cases r) (auto simp: stream_holds_def stream_finish_def reject_stream_def)
  qed
  have "ss_poisoned (snd (stream_finish s))" using stream_finish_poisons by (metis prod.collapse)
  then show ?thesis using inv fin scoped_facts [of network peer sid 2 got]
    by (auto simp: stream_holds_def stream_feed_def)
qed

definition sample_stream :: session_control_stream where
  "sample_stream =
     \<lparr>ss_decoder = stream_decoder_new, ss_network = byte_ident 1, ss_peer = byte_ident 2, ss_session_id = byte_ident 3,
      ss_last_sequence = 2, ss_closed = False, ss_poisoned = False\<rparr>"

lemma sample_stream_new:
  "stream_after_verified_hello (byte_ident 1) (byte_ident 2) (byte_ident 3) = Inr sample_stream"
  by (simp add: stream_after_verified_hello_def sample_stream_def)

theorem session_stream_scoped_witness:
  "fst (stream_finish sample_stream) \<noteq> Inr () \<and> ss_poisoned (snd (stream_finish sample_stream))"
  using session_stream_scoped [OF stream_run.new [OF sample_stream_new], of ex_codec "[]"]
  by (simp add: sample_stream_def)

section \<open>Writer and reader\<close>

text \<open>The calls on a writer, with the envelopes and the bytes it has issued.\<close>

inductive writer_run ::
  "json_codec \<Rightarrow> network_id \<Rightarrow> node_id \<Rightarrow> node_id \<Rightarrow> session_id \<Rightarrow> control_envelope list \<Rightarrow> u8 list \<Rightarrow>
   session_control_writer \<Rightarrow> bool"
  for codec network local_node peer sid where
  new: "writer_after_verified_hello network local_node peer sid = Inr w \<Longrightarrow>
    writer_run codec network local_node peer sid [] [] w"
| issued: "writer_run codec network local_node peer sid es bs w \<Longrightarrow> message \<in> {Heartbeat, Goodbye} \<Longrightarrow>
    writer_encode codec message w = (Inr frame, w') \<Longrightarrow>
    writer_run codec network local_node peer sid (es @ [writer_envelope message w]) (bs @ frame) w'"
| failed: "writer_run codec network local_node peer sid es bs w \<Longrightarrow> message \<in> {Heartbeat, Goodbye} \<Longrightarrow>
    writer_encode codec message w = (Inl e, w') \<Longrightarrow> writer_run codec network local_node peer sid es bs w'"

text \<open>A codec that reads back the envelopes it writes.\<close>

definition faithful_codec :: "json_codec \<Rightarrow> bool" where
  "faithful_codec codec \<longleftrightarrow> (\<forall>e payload. jc_to_vec codec e = Inr payload \<longrightarrow> jc_from_slice codec payload = Inr e)"

lemma faithful_frame:
  assumes "faithful_codec codec" "encode_control_frame codec e = Inr f"
  shows "decode_control_frame codec f = Inr e" "\<exists>n. read_control_length f = Inr n \<and> length f = HEADER_LEN + n"
proof -
  from assms(2) obtain payload where p: "validate_envelope e = Inr ()" "jc_to_vec codec e = Inr payload" "payload \<noteq> []"
    "length payload \<le> MAX_CONTROL_FRAME_BYTES" "f = to_be_bytes (of_nat (length payload)) @ payload"
    by (rule encode_control_frame_Inr)
  have len: "read_control_length f = Inr (length payload)"
    unfolding p(5) by (rule read_encoded_length) (use p(3,4) in auto)
  have f: "drop HEADER_LEN f = payload" "length f = HEADER_LEN + length payload"
    by (simp_all add: p(5) HEADER_LEN_def)
  then show "\<exists>n. read_control_length f = Inr n \<and> length f = HEADER_LEN + n" using len by blast
  show "decode_control_frame codec f = Inr e"
    using assms(1) p(1,2) f by (simp add: decode_control_frame_def len faithful_codec_def)
qed

lemma parse_encoded:
  assumes "faithful_codec codec" "encode_control_frame codec e = Inr f"
  shows "parse_stream codec f = ([e], Some [])"
proof -
  from faithful_frame [OF assms] obtain n where "read_control_length f = Inr n" "length f = HEADER_LEN + n"
    "decode_control_frame codec f = Inr e" by blast
  moreover have "parse_stream codec [] = ([], Some [])" by (subst parse_stream.simps) (simp add: HEADER_LEN_def)
  ultimately show ?thesis using parse_frame [of f n codec "[]"] by simp
qed

lemma writer_encode_Inr:
  "writer_encode codec message w = (Inr frame, w') \<longleftrightarrow>
     \<not> sw_poisoned w \<and> \<not> sw_closed w \<and> checked_add (sw_next_sequence w) 1 = Some (sw_next_sequence w + 1) \<and>
     encode_control_frame codec (writer_envelope message w) = Inr frame \<and>
     w' = w\<lparr>sw_next_sequence := sw_next_sequence w + 1, sw_closed := (message = Goodbye)\<rparr>"
  by (auto simp: writer_encode_def checked_add_def split: if_splits option.splits sum.splits)

lemma writer_encode_Inl:
  "writer_encode codec message w = (Inl e, w') \<Longrightarrow> w' = w \<or> w' = w\<lparr>sw_poisoned := True\<rparr>"
  by (auto simp: writer_encode_def split: if_splits option.splits sum.splits)

lemma writer_run_inv:
  assumes codec: "faithful_codec codec"
  shows "writer_run codec network local_node peer sid es bs w \<Longrightarrow>
    parse_stream codec bs = (es, Some []) \<and> scoped network local_node sid 2 es \<and> (sw_closed w \<longleftrightarrow> ends_goodbye es) \<and>
    sw_network w = network \<and> sw_local w = local_node \<and> sw_session_id w = sid \<and>
    last_seq 2 es < sw_next_sequence w \<and> network \<noteq> zero_ident \<and> local_node \<noteq> zero_ident \<and> sid \<noteq> zero_ident"
proof (induction rule: writer_run.induct)
  case (new w)
  then show ?case
    by (subst parse_stream.simps) (auto simp: writer_after_verified_hello_def HEADER_LEN_def split: if_splits)
next
  case (issued es bs w message frame w')
  note enc = issued.hyps(3) [unfolded writer_encode_Inr]
  have "parse_stream codec (bs @ frame) = (es @ [writer_envelope message w], Some [])"
    using parse_stream_append [of codec bs es "[]" frame] issued.IH parse_encoded [OF codec, of "writer_envelope message w" frame] enc by simp
  moreover have "sw_next_sequence w < sw_next_sequence w + 1"
    using enc checked_add_SomeD [of "sw_next_sequence w" 1 "sw_next_sequence w + 1"] by (simp add: word_less_nat_alt)
  ultimately show ?case using issued.IH issued.hyps(2) enc
    by (auto simp: scoped_append writer_envelope_def)
next
  case (failed es bs w message e w')
  then show ?case using writer_encode_Inl by fastforce
qed

fun stream_feed_all ::
  "json_codec \<Rightarrow> u8 list list \<Rightarrow> session_control_stream \<Rightarrow>
   ((session_stream_error + control_envelope list) \<times> session_control_stream) option" where
  "stream_feed_all codec [] s = Some (Inr [], s)"
| "stream_feed_all codec (c # cs) s =
     (case stream_feed codec c s of
        None \<Rightarrow> None
      | Some (Inl e, s') \<Rightarrow> Some (Inl e, s')
      | Some (Inr es, s') \<Rightarrow>
          (case stream_feed_all codec cs s' of
             None \<Rightarrow> None
           | Some (Inl e, s'') \<Rightarrow> Some (Inl e, s'')
           | Some (Inr fs, s'') \<Rightarrow> Some (Inr (es @ fs), s'')))"

lemma acceptable_prefix:
  assumes whole: "parse_stream codec (a @ b) = (es, Some rest)" and acc: "acceptable network peer sid es rest"
  shows "\<exists>es1 r1. parse_stream codec a = (es1, Some r1) \<and> acceptable network peer sid es1 r1"
proof -
  obtain es1 left where a: "parse_stream codec a = (es1, left)" by force
  then obtain r1 where r1: "left = Some r1"
    using whole parse_stream_malformed [of codec a es1 b] by (cases left) auto
  from whole parse_stream_append [of codec a es1 r1 b] a r1 obtain fs
    where fs: "parse_stream codec (r1 @ b) = (fs, Some rest)" "es = es1 @ fs" by (auto split: prod.splits)
  have "r1 = []" if bye: "ends_goodbye es1"
  proof -
    have "fs = []" using acc bye fs(2) by (auto simp: acceptable_def scoped_append)
    then have "rest = r1 @ b" "rest = []" using fs acc bye parse_stream_nil by (auto simp: acceptable_def)
    then show ?thesis by simp
  qed
  then show ?thesis using a r1 acc fs(2) by (auto simp: acceptable_def scoped_append)
qed

text \<open>The limits the decoder puts on every single feed of a stream that goes on after the bytes \<open>before\<close>: the size
  of the chunk, and the number of frames that become complete with it.\<close>

fun within_feed_limits :: "json_codec \<Rightarrow> u8 list \<Rightarrow> u8 list list \<Rightarrow> bool" where
  "within_feed_limits codec before [] \<longleftrightarrow> True"
| "within_feed_limits codec before (c # cs) \<longleftrightarrow>
     length c \<le> MAX_STREAM_FEED_BYTES \<and>
     length (fst (parse_stream codec (before @ c))) \<le> length (fst (parse_stream codec before)) + MAX_FRAMES_PER_FEED \<and>
     within_feed_limits codec (before @ c) cs"

lemma parse_stream_frames_le: "HEADER_LEN * length (fst (parse_stream codec bs)) \<le> length bs"
proof (induction codec bs rule: parse_stream.induct)
  case (1 codec bs)
  show ?case
  proof (cases "fst (parse_stream codec bs) = []")
    case False
    then obtain n e where n: "\<not> length bs < HEADER_LEN" "read_control_length bs = Inr n"
      "\<not> length bs < HEADER_LEN + n" and e: "decode_control_frame codec (take (HEADER_LEN + n) bs) = Inr e"
      by (subst (asm) parse_stream.simps) (auto split: if_splits sum.splits prod.splits)
    have "fst (parse_stream codec bs) = e # fst (parse_stream codec (drop (HEADER_LEN + n) bs))"
      using n e by (subst parse_stream.simps) (simp split: prod.splits)
    then show ?thesis using "1.IH" [OF n e] n(3) by simp
  qed simp
qed

lemma stream_feed_all_accepts:
  assumes "stream_holds codec network peer sid fed got s" "parse_stream codec (fed @ concat cs) = (es, Some rest)"
    "acceptable network peer sid es rest" "within_feed_limits codec fed cs"
  shows "\<exists>fs s'. stream_feed_all codec cs s = Some (Inr fs, s') \<and> es = got @ fs \<and>
    stream_holds codec network peer sid (fed @ concat cs) es s'"
  using assms
proof (induction cs arbitrary: fed got s)
  case Nil
  then show ?case by (simp add: stream_holds_def)
next
  case (Cons c cs)
  have whole: "parse_stream codec ((fed @ c) @ concat cs) = (es, Some rest)" using Cons.prems(2) by simp
  from Cons.prems(1) show ?case
  proof (cases rule: stream_feed_outcome [where c = c, consumes 1, case_names ok bad])
    case (ok frames s1)
    from Cons.IH [OF ok(2) whole Cons.prems(3)] Cons.prems(4) obtain fs s' where
      fs: "stream_feed_all codec cs s1 = Some (Inr fs, s')" "es = (got @ frames) @ fs"
        "stream_holds codec network peer sid ((fed @ c) @ concat cs) es s'" by auto
    then show ?thesis using ok(1) by simp
  next
    case (bad e s1)
    from acceptable_prefix [OF whole Cons.prems(3)] obtain es1 r1 where
      "parse_stream codec (fed @ c) = (es1, Some r1)" "acceptable network peer sid es1 r1" by blast
    moreover have "fst (parse_stream codec fed) = got" using Cons.prems(1) by (simp add: stream_holds_def)
    ultimately show ?thesis using bad(3) [of es1 r1] Cons.prems(4) by simp
  qed
qed

text \<open>C13: the two ends of a session agree. Whatever heartbeats and goodbye a writer issues after the hello
  exchange, a reader of the same network, sender and exported session accepts them, however long the
  session and however its bytes are cut into chunks, as long as every single chunk has at most 64 KiB and completes
  at most 64 frames, and delivers exactly the issued envelopes; it ends closed exactly when the writer has said
  goodbye, and only then is the end of the stream graceful.\<close>

theorem session_writer_reader_agree:
  assumes "faithful_codec codec" and run: "writer_run codec network local_node peer sid es bs w"
    and "concat chunks = bs" "within_feed_limits codec [] chunks"
  shows "\<exists>s s'. stream_after_verified_hello network local_node sid = Inr s \<and>
    stream_feed_all codec chunks s = Some (Inr es, s') \<and> ss_closed s' = sw_closed w \<and>
    (fst (stream_finish s') = Inr () \<longleftrightarrow> sw_closed w)"
proof -
  note inv = writer_run_inv [OF assms(1) run]
  obtain s where s: "stream_after_verified_hello network local_node sid = Inr s"
    using inv by (auto simp: stream_after_verified_hello_def)
  have "parse_stream codec ([] @ concat chunks) = (es, Some [])" "acceptable network local_node sid es []"
    using inv assms(3) by (auto simp: acceptable_def)
  from stream_feed_all_accepts [OF stream_new_holds [OF s] this assms(4)] obtain s' where
    s': "stream_feed_all codec chunks s = Some (Inr es, s')" "stream_holds codec network local_node sid bs es s'"
    using assms(3) by auto
  have closed: "ss_closed s' = sw_closed w" and buffer: "decoder_open (ss_decoder s')" "sd_partial (ss_decoder s') = []"
    "\<not> ss_poisoned s'"
    using s'(2) inv by (auto simp: stream_holds_def)
  have "fst (finish (ss_decoder s')) = Inr ()" using finish_open buffer(1,2) by blast
  then obtain d where "finish (ss_decoder s') = (Inr (), d)" by (cases "finish (ss_decoder s')") auto
  then have "fst (stream_finish s') = Inr () \<longleftrightarrow> ss_closed s'"
    using buffer(3) by (auto simp: stream_finish_def reject_stream_def)
  then show ?thesis using s s'(1) closed by blast
qed

definition sample_message :: "u64 \<Rightarrow> control_message \<Rightarrow> control_envelope" where
  "sample_message n message =
     \<lparr>ce_version = CONTROL_VERSION, ce_network = byte_ident 1, ce_sender = byte_ident 2, ce_session_id = byte_ident 3,
      ce_sequence = n, ce_message = message\<rparr>"

text \<open>A codec for two messages.\<close>

definition sample_codec :: json_codec where
  "sample_codec =
     \<lparr>jc_to_vec = (\<lambda>e. if e = sample_message 3 Heartbeat then Inr [1]
                       else if e = sample_message 4 Goodbye then Inr [2] else Inl ''unsupported''),
      jc_from_slice = (\<lambda>bs. if bs = [1] then Inr (sample_message 3 Heartbeat)
                            else if bs = [2] then Inr (sample_message 4 Goodbye) else Inl ''unsupported'')\<rparr>"

lemma sample_codec_faithful: "faithful_codec sample_codec"
  by (simp add: faithful_codec_def sample_codec_def)

lemma sample_encode:
  "encode_control_frame sample_codec (sample_message 3 Heartbeat) = Inr [0, 0, 0, 1, 1]"
  "encode_control_frame sample_codec (sample_message 4 Goodbye) = Inr [0, 0, 0, 1, 2]"
  by (simp_all add: encode_control_frame_def validate_envelope_def sample_message_def sample_codec_def
      MAX_CONTROL_FRAME_BYTES_def to_be_bytes_def)

definition sample_writer :: "u64 \<Rightarrow> session_control_writer" where
  "sample_writer n = \<lparr>sw_network = byte_ident 1, sw_local = byte_ident 2, sw_session_id = byte_ident 3,
     sw_next_sequence = n, sw_closed = False, sw_poisoned = False\<rparr>"

lemma sample_writer_run:
  "writer_run sample_codec (byte_ident 1) (byte_ident 2) (byte_ident 9) (byte_ident 3)
     [sample_message 3 Heartbeat, sample_message 4 Goodbye] [0, 0, 0, 1, 1, 0, 0, 0, 1, 2]
     (sample_writer 5\<lparr>sw_closed := True\<rparr>)"
proof -
  let ?run = "writer_run sample_codec (byte_ident 1) (byte_ident 2) (byte_ident 9) (byte_ident 3)"
  have env: "writer_envelope message (sample_writer n) = sample_message n message" for n message
    by (simp add: writer_envelope_def sample_writer_def sample_message_def)
  have "writer_encode sample_codec Heartbeat (sample_writer 3) = (Inr [0, 0, 0, 1, 1], sample_writer 4)"
    unfolding writer_encode_Inr env sample_encode by (simp add: sample_writer_def checked_add_def)
  moreover have "?run [] [] (sample_writer 3)"
    by (rule writer_run.new) (simp add: writer_after_verified_hello_def sample_writer_def)
  ultimately have one: "?run [sample_message 3 Heartbeat] [0, 0, 0, 1, 1] (sample_writer 4)"
    using writer_run.issued [of sample_codec _ _ _ _ "[]" "[]" "sample_writer 3" Heartbeat] env by simp
  have "writer_encode sample_codec Goodbye (sample_writer 4) = (Inr [0, 0, 0, 1, 2], sample_writer 5\<lparr>sw_closed := True\<rparr>)"
    unfolding writer_encode_Inr env sample_encode by (simp add: sample_writer_def checked_add_def)
  from writer_run.issued [OF one _ this] show ?thesis by (simp add: env)
qed

lemma sample_within_limits: "within_feed_limits sample_codec [] [[0, 0, 0], [1, 1, 0, 0], [0, 1, 2]]"
  using parse_stream_frames_le [of sample_codec "[0, 0, 0]"]
    parse_stream_frames_le [of sample_codec "[0, 0, 0, 1, 1, 0, 0]"]
    parse_stream_frames_le [of sample_codec "[0, 0, 0, 1, 1, 0, 0, 0, 1, 2]"]
  by (simp add: HEADER_LEN_def MAX_FRAMES_PER_FEED_def MAX_STREAM_FEED_BYTES_def)

theorem session_writer_reader_agree_witness:
  "\<exists>s s'. stream_after_verified_hello (byte_ident 1) (byte_ident 2) (byte_ident 3) = Inr s \<and>
     stream_feed_all sample_codec [[0, 0, 0], [1, 1, 0, 0], [0, 1, 2]] s =
       Some (Inr [sample_message 3 Heartbeat, sample_message 4 Goodbye], s') \<and> ss_closed s'"
  using session_writer_reader_agree [OF sample_codec_faithful sample_writer_run,
      of "[[0, 0, 0], [1, 1, 0, 0], [0, 1, 2]]"] sample_within_limits
  by (auto simp del: within_feed_limits.simps stream_feed_all.simps)

section \<open>Idle sessions\<close>

text \<open>The calls on an activity tracker whose connection became active at some time, with the time of the last
  delivered message (or of the activation).\<close>

inductive activity_run :: "json_codec \<Rightarrow> u64 \<Rightarrow> authenticated_inbound_activity \<Rightarrow> bool" for codec where
  new: "deadline_advance ActiveStage t d0 = (Inr (), d) \<Longrightarrow> activity_after_verified_hello network peer sid d = Inr a \<Longrightarrow>
    activity_run codec t a"
| check: "activity_run codec t a \<Longrightarrow> check_before_read now a = (r, a') \<Longrightarrow> activity_run codec t a'"
| delivered: "activity_run codec t a \<Longrightarrow> feed_verified_plaintext codec chunk now a = Some (Inr frames, a') \<Longrightarrow>
    activity_run codec (if frames = [] then t else now) a'"
| failed: "activity_run codec t a \<Longrightarrow> feed_verified_plaintext codec chunk now a = Some (Inl e, a') \<Longrightarrow>
    activity_run codec t a'"
| finished: "activity_run codec t a \<Longrightarrow> finish_at now a = (r', a') \<Longrightarrow> activity_run codec t a'"

definition idle_limit :: "authenticated_inbound_activity \<Rightarrow> nat" where
  "idle_limit a = (if ia_goodbye_seen a then 5000 else 30000)"

definition activity_inv :: "u64 \<Rightarrow> authenticated_inbound_activity \<Rightarrow> bool" where
  "activity_inv t a \<longleftrightarrow> ia_terminal a \<or>
     (unat (cd_expires_ms (ia_deadline a)) \<le> unat t + idle_limit a \<and> \<not> ss_poisoned (ia_stream a) \<and>
      (ss_closed (ia_stream a) \<longrightarrow> ia_goodbye_seen a) \<and>
      cd_stage (ia_deadline a) = (if ia_goodbye_seen a then Closing else ActiveStage))"

lemma stream_feed_Inr:
  assumes "\<not> ss_closed s" "stream_feed codec c s = Some (Inr frames, s')"
  shows "\<not> ss_poisoned s'" "ss_closed s' \<longleftrightarrow> ends_goodbye frames"
proof -
  obtain d where d: "check_frames frames (s\<lparr>ss_decoder := d\<rparr>) = (Inr (), s')" and clean: "\<not> ss_poisoned s"
    using assms by (auto simp: stream_feed_def reject_stream_def split: if_splits option.splits sum.splits prod.splits)
  then show "\<not> ss_poisoned s'" "ss_closed s' \<longleftrightarrow> ends_goodbye frames"
    using check_frames_Inr [of "s\<lparr>ss_decoder := d\<rparr>" frames s'] assms(1) by auto
qed

lemma expired_after:
  assumes "activity_inv t a" "\<not> ia_terminal a" "unat t + idle_limit a \<le> unat now"
  shows "\<exists>e. deadline_check (ia_deadline a) now = Inl e"
proof -
  have "unat (cd_expires_ms (ia_deadline a)) \<le> unat now" using assms by (simp add: activity_inv_def)
  then show ?thesis by (simp add: deadline_check_def word_le_nat_alt)
qed

lemma feed_plaintext_inv:
  assumes inv: "activity_inv t a" and fed: "feed_verified_plaintext codec chunk now a = Some (Inr frames, a')"
  shows "activity_inv (if frames = [] then t else now) a'"
proof -
  have live: "\<not> ia_terminal a" "\<not> ia_goodbye_seen a" "deadline_check (ia_deadline a) now = Inr ()"
    using fed by (auto simp: feed_verified_plaintext_def split: if_splits sum.splits)
  obtain s where s: "stream_feed codec chunk (ia_stream a) = Some (Inr frames, s)"
    using fed live
    by (auto simp: feed_verified_plaintext_def Let_def split: if_splits sum.splits option.splits prod.splits)
  have stage: "cd_stage (ia_deadline a) = ActiveStage" "\<not> ss_closed (ia_stream a)"
    using inv live by (auto simp: activity_inv_def)
  note str = stream_feed_Inr [OF stage(2) s]
  have now: "\<not> now < cd_last_ms (ia_deadline a)" using live(3) by (auto simp: deadline_check_def split: if_splits)
  note late = unat_saturating_add_le [of now "timeout_ms Closing"] unat_saturating_add_le [of now "timeout_ms ActiveStage"]
  consider "frames = []" | "frames \<noteq> []" "list_ex (\<lambda>f. ce_message f = Goodbye) frames"
    | "frames \<noteq> []" "\<not> list_ex (\<lambda>f. ce_message f = Goodbye) frames" by blast
  then show ?thesis
  proof cases
    case 1
    then show ?thesis using fed live s inv str stage
      by (auto simp: feed_verified_plaintext_def activity_inv_def idle_limit_def)
  next
    case 2
    then show ?thesis using fed live s str stage now late
      by (auto simp: feed_verified_plaintext_def deadline_abort_def activity_inv_def idle_limit_def timeout_ms_def)
  next
    case 3
    then have "\<not> ends_goodbye frames" by (auto simp: ends_goodbye_def list_ex_iff)
    then show ?thesis using 3 fed live s str stage late
      by (auto simp: feed_verified_plaintext_def authenticated_activity_def activity_inv_def idle_limit_def timeout_ms_def)
  qed
qed

lemma feed_plaintext_Inl:
  "feed_verified_plaintext codec chunk now a = Some (Inl e, a') \<Longrightarrow> ia_terminal a'"
  by (auto simp: feed_verified_plaintext_def Let_def split: if_splits sum.splits option.splits prod.splits)

lemma activity_run_inv: "activity_run codec t a \<Longrightarrow> activity_inv t a"
proof (induction rule: activity_run.induct)
  case (new t d0 d network peer sid a)
  then show ?case using unat_saturating_add_le [of t "timeout_ms ActiveStage"]
    by (auto simp: activity_after_verified_hello_def stream_after_verified_hello_def deadline_advance_Inr
        activity_inv_def idle_limit_def bindR_eq_Inr timeout_ms_def split: if_splits)
next
  case (check t a now r a')
  then show ?case by (auto simp: check_before_read_def activity_inv_def split: if_splits sum.splits)
next
  case (delivered t a chunk now frames a')
  then show ?case by (intro feed_plaintext_inv)
next
  case (failed t a chunk now e a')
  then show ?case using feed_plaintext_Inl by (auto simp: activity_inv_def)
next
  case (finished t a now r' a')
  then show ?case by (auto simp: finish_at_def activity_inv_def split: if_splits sum.splits prod.splits)
qed

text \<open>C35: an idle session ends. A session that has delivered no message for 30 seconds, or has not reached the end
  of its stream 5 seconds after its goodbye, is refused by the next call whatever it is, and stays refused for
  ever; partial frames and empty polls do not keep it alive. Only a session with a goodbye ends gracefully, and
  none delivers anything after it.\<close>

theorem idle_session_expires:
  assumes "activity_run codec t a"
  shows "(unat t + idle_limit a \<le> unat now \<longrightarrow>
      is_err (fst (check_before_read now a)) \<and> ia_terminal (snd (check_before_read now a)) \<and>
      (\<exists>e a'. feed_verified_plaintext codec chunk now a = Some (Inl e, a') \<and> ia_terminal a') \<and>
      is_err (fst (finish_at now a)) \<and> ia_terminal (snd (finish_at now a))) \<and>
    (ia_terminal a \<longrightarrow> check_before_read now a = (Inl ActivityTerminal, a) \<and>
      feed_verified_plaintext codec chunk now a = Some (Inl ActivityTerminal, a) \<and>
      finish_at now a = (Inl ActivityTerminal, a)) \<and>
    (ia_goodbye_seen a \<longrightarrow> (\<exists>a'. feed_verified_plaintext codec chunk now a = Some (Inl ActivityTerminal, a'))) \<and>
    (fst (finish_at now a) = Inr () \<longrightarrow> ia_goodbye_seen a)"
proof -
  note inv = activity_run_inv [OF assms]
  have terminal: "check_before_read now a = (Inl ActivityTerminal, a) \<and>
      feed_verified_plaintext codec chunk now a = Some (Inl ActivityTerminal, a) \<and>
      finish_at now a = (Inl ActivityTerminal, a)" if "ia_terminal a"
    using that by (simp add: check_before_read_def feed_verified_plaintext_def finish_at_def)
  have expired: "is_err (fst (check_before_read now a)) \<and> ia_terminal (snd (check_before_read now a)) \<and>
      (\<exists>e a'. feed_verified_plaintext codec chunk now a = Some (Inl e, a') \<and> ia_terminal a') \<and>
      is_err (fst (finish_at now a)) \<and> ia_terminal (snd (finish_at now a))"
    if "unat t + idle_limit a \<le> unat now"
  proof (cases "ia_terminal a")
    case True
    then show ?thesis using terminal by simp
  next
    case False
    with expired_after [OF inv _ that] obtain e where "deadline_check (ia_deadline a) now = Inl e" by blast
    then show ?thesis using False
      by (simp add: check_before_read_def feed_verified_plaintext_def finish_at_def)
  qed
  have "ia_goodbye_seen a" if fin: "fst (finish_at now a) = Inr ()"
  proof -
    have "\<not> ia_terminal a" "fst (stream_finish (ia_stream a)) = Inr ()"
      using fin by (auto simp: finish_at_def map_err_def split: if_splits sum.splits prod.splits)
    then have "ss_closed (ia_stream a)"
      by (auto simp: stream_finish_def reject_stream_def split: if_splits sum.splits prod.splits)
    then show ?thesis using inv \<open>\<not> ia_terminal a\<close> by (simp add: activity_inv_def)
  qed
  then show ?thesis using terminal expired by (auto simp: feed_verified_plaintext_def)
qed

definition sample_activity :: authenticated_inbound_activity where
  "sample_activity =
     \<lparr>ia_stream = sample_stream,
      ia_deadline = \<lparr>cd_stage = ActiveStage, cd_last_ms = 3, cd_expires_ms = 30003\<rparr>,
      ia_terminal = False, ia_goodbye_seen = False\<rparr>"

theorem idle_session_expires_witness:
  "is_err (fst (check_before_read 30003 sample_activity)) \<and> fst (check_before_read 30002 sample_activity) = Inr ()"
proof -
  have "deadline_advance ActiveStage 3 \<lparr>cd_stage = HelloStage, cd_last_ms = 2, cd_expires_ms = 5002\<rparr> =
      (Inr (), ia_deadline sample_activity)"
    by (simp add: deadline_advance_Inr sample_activity_def timeout_ms_def saturating_add_def)
  moreover have "activity_after_verified_hello (byte_ident 1) (byte_ident 2) (byte_ident 3) (ia_deadline sample_activity) =
      Inr sample_activity"
    by (simp add: activity_after_verified_hello_def sample_stream_new sample_activity_def)
  ultimately have "activity_run ex_codec 3 sample_activity" by (rule activity_run.new)
  from idle_session_expires [OF this, of 30003 "[]"] show ?thesis
    by (simp add: sample_activity_def idle_limit_def check_before_read_def deadline_check_def)
qed

end
