(* ===== verification/Handshake.thy ===== *)
theory Handshake
  imports Session_Stream
begin

text \<open>
  \<open>crates/blueroute-protocol/src/handshake.rs\<close>: the exporter context, the validation of a hello transcript and
  the exchange of hello and acknowledgement on a stream. The exported session identifier is an argument, as in
  the code: TLS itself is outside.
\<close>

section \<open>Exporter context\<close>

definition tls_control_exporter_context :: "network_id \<Rightarrow> node_id \<Rightarrow> node_id \<Rightarrow> string + u8 list" where
  "tls_control_exporter_context network first second =
     (if network = zero_ident \<or> first = zero_ident \<or> second = zero_ident
      then Inl ''control exporter requires nonzero network and node identities''
      else if first = second then Inl ''control exporter requires two distinct nodes''
      else let (low, high) = (if first < second then (first, second) else (second, first))
           in Inr (as_bytes network @ as_bytes low @ as_bytes high))"

section \<open>Transcripts\<close>

fun check_transcript_frames :: "json_codec \<Rightarrow> network_id \<Rightarrow> control_envelope list \<Rightarrow> string + unit" where
  "check_transcript_frames codec network [] = Inr ()"
| "check_transcript_frames codec network (frame # frames) =
     bindR (map_err (\<lambda>_. ''malformed control frame'') (encode_control_frame codec frame)) (\<lambda>_.
       if ce_network frame \<noteq> network then Inl ''wrong network''
       else check_transcript_frames codec network frames)"

text \<open>The part behind the four destructured messages: echoes, claims and replay.\<close>

definition check_hello_claims ::
  "network_id \<Rightarrow> node_id \<Rightarrow> session_id \<Rightarrow> challenge \<times> hello_facts \<Rightarrow> challenge \<times> hello_facts \<Rightarrow>
   challenge \<times> hello_facts \<Rightarrow> challenge \<times> hello_facts \<Rightarrow> control_envelope \<Rightarrow> control_envelope \<Rightarrow>
   string + hello_facts" where
  "check_hello_claims network remote session lh rh la ra remote_hello remote_ack =
     (if all_zero (fst lh) \<or> all_zero (fst rh) \<or> fst lh = fst rh \<or> fst la \<noteq> fst rh \<or> fst ra \<noteq> fst lh
      then Inl ''challenge reflection or mismatch''
      else if snd lh \<noteq> snd la \<or> snd rh \<noteq> snd ra
      then Inl ''peer changed capability claims during handshake''
      else bindR (map_err (\<lambda>_. ''invalid session'') (verified_session_sequence_new network remote session)) (\<lambda>inbound.
        case accept_envelope remote_hello inbound of
          (Inl _, _) \<Rightarrow> Inl ''invalid hello replay''
        | (Inr _, inbound1) \<Rightarrow>
            (case accept_envelope remote_ack inbound1 of
               (Inl _, _) \<Rightarrow> Inl ''invalid acknowledgement replay''
             | (Inr _, _) \<Rightarrow> Inr (snd rh))))"

definition validate_hello_transcript ::
  "json_codec \<Rightarrow> network_id \<Rightarrow> node_id \<Rightarrow> node_id \<Rightarrow> control_envelope \<Rightarrow> control_envelope \<Rightarrow> control_envelope \<Rightarrow>
   control_envelope \<Rightarrow> string + hello_facts" where
  "validate_hello_transcript codec network local_node remote local_hello remote_hello local_ack remote_ack =
     (if local_node = remote then Inl ''local and remote node must differ''
      else bindR (check_transcript_frames codec network [local_hello, remote_hello, local_ack, remote_ack]) (\<lambda>_.
        if ce_sender local_hello \<noteq> local_node \<or> ce_sender local_ack \<noteq> local_node \<or>
           ce_sender remote_hello \<noteq> remote \<or> ce_sender remote_ack \<noteq> remote
        then Inl ''wrong sender''
        else
          let session = ce_session_id local_hello in
          if list_ex (\<lambda>frame. ce_session_id frame \<noteq> session) [local_hello, remote_hello, local_ack, remote_ack]
          then Inl ''wrong session''
          else if ce_sequence local_hello \<noteq> 1 \<or> ce_sequence remote_hello \<noteq> 1 \<or>
                  ce_sequence local_ack \<noteq> 2 \<or> ce_sequence remote_ack \<noteq> 2
          then Inl ''unexpected handshake sequence''
          else case ce_message local_hello of
            Hello lc lf \<Rightarrow>
              (case ce_message remote_hello of
                 Hello rc rf \<Rightarrow>
                   (case ce_message local_ack of
                      HelloAck le laf \<Rightarrow>
                        (case ce_message remote_ack of
                           HelloAck re raf \<Rightarrow>
                             check_hello_claims network remote session (lc, lf) (rc, rf) (le, laf) (re, raf)
                               remote_hello remote_ack
                         | _ \<Rightarrow> Inl ''missing remote acknowledgement'')
                    | _ \<Rightarrow> Inl ''missing local acknowledgement'')
               | _ \<Rightarrow> Inl ''missing remote hello'')
          | _ \<Rightarrow> Inl ''missing local hello''))"

definition validate_exporter_bound_hello_transcript ::
  "json_codec \<Rightarrow> network_id \<Rightarrow> node_id \<Rightarrow> node_id \<Rightarrow> session_id \<Rightarrow> control_envelope \<Rightarrow> control_envelope \<Rightarrow>
   control_envelope \<Rightarrow> control_envelope \<Rightarrow> string + hello_facts" where
  "validate_exporter_bound_hello_transcript codec network local_node remote exported
       local_hello remote_hello local_ack remote_ack =
     (if all_zero exported then Inl ''invalid zero TLS exporter session ID''
      else if ce_session_id local_hello \<noteq> exported then Inl ''control session is not bound to TLS exporter''
      else validate_hello_transcript codec network local_node remote local_hello remote_hello local_ack remote_ack)"

section \<open>The exchange\<close>

datatype hello_exchange_error = HelloTransport control_io_error | InvalidTranscript string

record hello_exchange_request =
  hx_network :: network_id
  hx_local :: node_id
  hx_remote :: node_id
  hx_exported_session_id :: session_id
  hx_local_challenge :: challenge
  hx_local_facts :: hello_facts
  hx_deadline :: nat

definition check_exchange_request :: "hello_exchange_request \<Rightarrow> string + unit" where
  "check_exchange_request rq =
     (if hx_network rq = zero_ident \<or> hx_local rq = zero_ident \<or> hx_remote rq = zero_ident
      then Inl ''control exchange requires nonzero network and node identities''
      else if hx_local rq = hx_remote rq then Inl ''local and remote node must differ''
      else if all_zero (hx_exported_session_id rq) then Inl ''invalid zero TLS exporter session ID''
      else if all_zero (hx_local_challenge rq) then Inl ''invalid zero local hello challenge''
      else Inr ())"

definition local_frame :: "hello_exchange_request \<Rightarrow> u64 \<Rightarrow> control_message \<Rightarrow> control_envelope" where
  "local_frame rq n message =
     \<lparr>ce_version = CONTROL_VERSION, ce_network = hx_network rq, ce_sender = hx_local rq,
      ce_session_id = hx_exported_session_id rq, ce_sequence = n, ce_message = message\<rparr>"

definition remote_hello_challenge :: "hello_exchange_request \<Rightarrow> control_envelope \<Rightarrow> challenge option" where
  "remote_hello_challenge rq remote_hello =
     (case ce_message remote_hello of
        Hello ch _ \<Rightarrow>
          if ce_network remote_hello = hx_network rq \<and> ce_sender remote_hello = hx_remote rq \<and>
             ce_session_id remote_hello = hx_exported_session_id rq \<and> ce_sequence remote_hello = 1 \<and>
             ch \<noteq> zero_ident \<and> ch \<noteq> hx_local_challenge rq
          then Some ch else None
      | _ \<Rightarrow> None)"

definition exchange_hello_claims_with_deadline ::
  "json_codec \<Rightarrow> 'w deadline_stream \<Rightarrow> hello_exchange_request \<Rightarrow> 'w \<Rightarrow>
   ((hello_exchange_error + hello_facts) \<times> 'w) option" where
  "exchange_hello_claims_with_deadline codec ds rq w =
     (case check_exchange_request rq of
        Inl m \<Rightarrow> Some (Inl (InvalidTranscript m), w)
      | Inr _ \<Rightarrow>
          let local_hello = local_frame rq 1 (Hello (hx_local_challenge rq) (hx_local_facts rq)) in
          bindO (mapO_err HelloTransport
              (write_one_control_frame_with_deadline codec ds local_hello (hx_deadline rq) w)) (\<lambda>_ w1.
          bindO (mapO_err HelloTransport
              (read_one_control_frame_with_deadline codec ds (hx_deadline rq) w1)) (\<lambda>remote_hello w2.
          case remote_hello_challenge rq remote_hello of
            None \<Rightarrow> Some (Inl (InvalidTranscript ''untrusted remote hello identity, session or challenge''), w2)
          | Some remote_challenge \<Rightarrow>
              let local_ack = local_frame rq 2 (HelloAck remote_challenge (hx_local_facts rq)) in
              bindO (mapO_err HelloTransport
                  (write_one_control_frame_with_deadline codec ds local_ack (hx_deadline rq) w2)) (\<lambda>_ w3.
              bindO (mapO_err HelloTransport
                  (read_one_control_frame_with_deadline codec ds (hx_deadline rq) w3)) (\<lambda>remote_ack w4.
              Some (map_err InvalidTranscript
                (validate_exporter_bound_hello_transcript codec (hx_network rq) (hx_local rq) (hx_remote rq)
                   (hx_exported_session_id rq) local_hello remote_hello local_ack remote_ack), w4))))))"

section \<open>Binding and agreement\<close>

lemma ident_bytes_append:
  "as_bytes a @ bs = as_bytes (b :: 'k ident) @ cs \<longleftrightarrow> a = b \<and> bs = cs"
proof -
  have "length (as_bytes a) = length (as_bytes b)" using as_bytes [of a] as_bytes [of b] by simp
  then show ?thesis by (auto simp: append_eq_append_conv as_bytes_inject)
qed

text \<open>The exporter context binds a session to its network and its two nodes and to nothing else. It is the
  same for both ends, and two contexts are equal only for the same network and the same pair of nodes.\<close>

theorem exporter_context_binds:
  "tls_control_exporter_context network a b = tls_control_exporter_context network b a \<and>
   (\<forall>context. tls_control_exporter_context network a b = Inr context \<longrightarrow>
      length context = 48 \<and>
      (\<forall>network' a' b'. tls_control_exporter_context network' a' b' = Inr context \<longrightarrow>
         network' = network \<and> {a', b'} = {a, b}))"
proof -
  have len: "ID_BYTES = 16" by (simp add: ID_BYTES_def)
  have "network' = network \<and> {a', b'} = {a, b}"
    if "tls_control_exporter_context network a b = Inr c" "tls_control_exporter_context network' a' b' = Inr c"
    for network' a' b' c
  proof -
    let ?lo = "\<lambda>x y. if x < y then x else y" and ?hi = "\<lambda>x y. if x < y then y else x"
    have split: "tls_control_exporter_context n x y = Inr c \<Longrightarrow>
        c = as_bytes n @ as_bytes (?lo x y) @ as_bytes (?hi x y) @ []" for n x y
      by (auto simp: tls_control_exporter_context_def split: if_splits)
    have "as_bytes network @ as_bytes (?lo a b) @ as_bytes (?hi a b) @ [] =
        as_bytes network' @ as_bytes (?lo a' b') @ as_bytes (?hi a' b') @ []"
      using split [OF that(1)] split [OF that(2)] by simp
    then have "network = network'" "?lo a b = ?lo a' b'" "?hi a b = ?hi a' b'"
      unfolding ident_bytes_append by blast+
    then show ?thesis by (auto split: if_splits)
  qed
  moreover have "tls_control_exporter_context network a b = tls_control_exporter_context network b a"
    by (cases rule: linorder_cases [of a b]) (auto simp: tls_control_exporter_context_def dest: order.asym)
  moreover have "length c = 48" if "tls_control_exporter_context network a b = Inr c" for c
    using that by (auto simp: tls_control_exporter_context_def len split: if_splits)
  ultimately show ?thesis by blast
qed

theorem exporter_context_binds_witness:
  "\<exists>context. tls_control_exporter_context (byte_ident 1) (byte_ident 4) (byte_ident 5) = Inr context \<and>
     length context = 48 \<and> tls_control_exporter_context (byte_ident 2) (byte_ident 4) (byte_ident 5) \<noteq> Inr context"
proof -
  let ?c = "as_bytes (byte_ident 1 :: network_id) @ as_bytes (byte_ident 4 :: node_id) @ as_bytes (byte_ident 5 :: node_id)"
  have "tls_control_exporter_context (byte_ident 1) (byte_ident 4) (byte_ident 5) = Inr ?c"
    by (simp add: tls_control_exporter_context_def)
  moreover have "(byte_ident 2 :: network_id) \<noteq> byte_ident 1" by simp
  ultimately show ?thesis using exporter_context_binds [of "byte_ident 1" "byte_ident 4" "byte_ident 5"] by blast
qed

definition encodable :: "json_codec \<Rightarrow> control_envelope \<Rightarrow> bool" where
  "encodable codec e \<longleftrightarrow> (\<exists>bytes. encode_control_frame codec e = Inr bytes)"

lemma encodable_valid: "encodable codec e \<Longrightarrow> validate_envelope e = Inr ()"
  by (auto simp: encodable_def elim: encode_control_frame_Inr)

lemma check_transcript_Inr:
  "check_transcript_frames codec network fs = Inr () \<longleftrightarrow> (\<forall>f\<in>set fs. encodable codec f \<and> ce_network f = network)"
  by (induction fs) (auto simp: bindR_eq_Inr encodable_def)

declare check_transcript_frames.simps [simp del]

text \<open>A transcript on which both ends agree: each has said hello with a challenge of its own and acknowledged the
  other's challenge, with the same claims both times, in the same session.\<close>

definition hello_agreed ::
  "json_codec \<Rightarrow> network_id \<Rightarrow> node_id \<Rightarrow> node_id \<Rightarrow> session_id \<Rightarrow> hello_facts \<Rightarrow> hello_facts \<Rightarrow>
   control_envelope \<Rightarrow> control_envelope \<Rightarrow> control_envelope \<Rightarrow> control_envelope \<Rightarrow> bool" where
  "hello_agreed codec network a b sid fa fb hello_a hello_b ack_a ack_b \<longleftrightarrow>
     a \<noteq> b \<and> (\<forall>f\<in>{hello_a, hello_b, ack_a, ack_b}. encodable codec f \<and> ce_network f = network \<and> ce_session_id f = sid) \<and>
     ce_sender hello_a = a \<and> ce_sender ack_a = a \<and> ce_sender hello_b = b \<and> ce_sender ack_b = b \<and>
     ce_sequence hello_a = 1 \<and> ce_sequence hello_b = 1 \<and> ce_sequence ack_a = 2 \<and> ce_sequence ack_b = 2 \<and>
     (\<exists>ca cb. ca \<noteq> cb \<and> ce_message hello_a = Hello ca fa \<and> ce_message hello_b = Hello cb fb \<and>
        ce_message ack_a = HelloAck cb fa \<and> ce_message ack_b = HelloAck ca fb)"

lemma hello_agreed_swap:
  "hello_agreed codec network a b sid fa fb hello_a hello_b ack_a ack_b \<longleftrightarrow>
   hello_agreed codec network b a sid fb fa hello_b hello_a ack_b ack_a"
  unfolding hello_agreed_def by (simp add: insert_commute) metis

lemma valid_facts:
  assumes "validate_envelope e = Inr ()"
  shows "ce_network e \<noteq> zero_ident" "ce_sender e \<noteq> zero_ident" "\<not> all_zero (ce_session_id e)"
    "ce_message e = Hello ch f \<or> ce_message e = HelloAck ch f \<Longrightarrow> \<not> all_zero ch"
  using assms by (auto simp: validate_envelope_def validate_hello_def split: if_splits)

lemma check_hello_claims_Inr:
  assumes "encodable codec rh" "encodable codec ra" "ce_network rh = network" "ce_network ra = network"
    "ce_sender rh = remote" "ce_sender ra = remote" "ce_session_id rh = sid" "ce_session_id ra = sid"
    "ce_sequence rh = 1" "ce_sequence ra = 2" "\<not> all_zero (fst l)" "\<not> all_zero (fst r)"
  shows "check_hello_claims network remote sid l r la r2 rh ra = Inr facts \<longleftrightarrow>
    fst l \<noteq> fst r \<and> fst la = fst r \<and> fst r2 = fst l \<and> snd l = snd la \<and> snd r = snd r2 \<and> facts = snd r"
proof -
  let ?s = "\<lparr>vs_network = network, vs_sender = remote, vs_session_id = sid, vs_last_sequence = 0\<rparr>"
  note v = encodable_valid [OF assms(1)] encodable_valid [OF assms(2)]
  have "verified_session_sequence_new network remote sid = Inr ?s"
    using valid_facts [OF v(1)] assms by (simp add: verified_session_sequence_new_def)
  moreover have "accept_envelope rh ?s = (Inr (), ?s\<lparr>vs_last_sequence := 1\<rparr>)"
    using v assms by (simp add: accept_envelope_def)
  moreover have "accept_envelope ra (?s\<lparr>vs_last_sequence := 1\<rparr>) = (Inr (), ?s\<lparr>vs_last_sequence := 2\<rparr>)"
    using v assms by (simp add: accept_envelope_def word_le_nat_alt)
  ultimately show ?thesis using assms(11,12) by (auto simp: check_hello_claims_def)
qed

lemma validate_transcript_Inr:
  "validate_hello_transcript codec network a b ha hb aa ab = Inr facts \<longleftrightarrow>
     (\<exists>fa. hello_agreed codec network a b (ce_session_id ha) fa facts ha hb aa ab)"
proof (cases "a \<noteq> b \<and> (\<forall>f\<in>{ha, hb, aa, ab}. encodable codec f \<and> ce_network f = network \<and> ce_session_id f = ce_session_id ha) \<and>
     ce_sender ha = a \<and> ce_sender aa = a \<and> ce_sender hb = b \<and> ce_sender ab = b \<and>
     ce_sequence ha = 1 \<and> ce_sequence hb = 1 \<and> ce_sequence aa = 2 \<and> ce_sequence ab = 2")
  case False
  then have "\<not> hello_agreed codec network a b (ce_session_id ha) fa facts ha hb aa ab" for fa
    unfolding hello_agreed_def by blast
  moreover have "validate_hello_transcript codec network a b ha hb aa ab \<noteq> Inr facts"
    using False
    by (auto simp: validate_hello_transcript_def bindR_eq_Inr check_transcript_Inr Let_def split: if_splits)
  ultimately show ?thesis by blast
next
  case True
  have "check_transcript_frames codec network [ha, hb, aa, ab] = Inr ()" using True by (simp add: check_transcript_Inr)
  then have valid: "validate_hello_transcript codec network a b ha hb aa ab =
      (case ce_message ha of
         Hello lc lf \<Rightarrow>
           (case ce_message hb of
              Hello rc rf \<Rightarrow>
                (case ce_message aa of
                   HelloAck le laf \<Rightarrow>
                     (case ce_message ab of
                        HelloAck re raf \<Rightarrow>
                          check_hello_claims network b (ce_session_id ha) (lc, lf) (rc, rf) (le, laf) (re, raf) hb ab
                      | _ \<Rightarrow> Inl ''missing remote acknowledgement'')
                 | _ \<Rightarrow> Inl ''missing local acknowledgement'')
            | _ \<Rightarrow> Inl ''missing remote hello'')
       | _ \<Rightarrow> Inl ''missing local hello'')"
    using True by (simp add: validate_hello_transcript_def)
  have claims: "check_hello_claims network b (ce_session_id ha) (lc, lf) (rc, rf) la r2 hb ab = Inr facts \<longleftrightarrow>
      lc \<noteq> rc \<and> fst la = rc \<and> fst r2 = lc \<and> lf = snd la \<and> rf = snd r2 \<and> facts = rf"
    if "ce_message ha = Hello lc lf" "ce_message hb = Hello rc rf" for lc lf rc rf la r2
    using True that valid_facts(4) [OF encodable_valid]
    by (subst check_hello_claims_Inr [of codec]) auto
  show ?thesis
  proof (cases "\<exists>lc lf rc rf le laf re raf. ce_message ha = Hello lc lf \<and> ce_message hb = Hello rc rf \<and>
      ce_message aa = HelloAck le laf \<and> ce_message ab = HelloAck re raf")
    case False
    then have "validate_hello_transcript codec network a b ha hb aa ab \<noteq> Inr facts"
      unfolding valid by (simp split: control_message.split) blast
    then show ?thesis using False unfolding hello_agreed_def by blast
  next
    case messages: True
    then obtain lc lf rc rf le laf re raf where m: "ce_message ha = Hello lc lf" "ce_message hb = Hello rc rf"
      "ce_message aa = HelloAck le laf" "ce_message ab = HelloAck re raf" by blast
    have "validate_hello_transcript codec network a b ha hb aa ab = Inr facts \<longleftrightarrow>
        lc \<noteq> rc \<and> le = rc \<and> re = lc \<and> lf = laf \<and> rf = raf \<and> facts = rf"
      using claims [OF m(1,2), of "(le, laf)" "(re, raf)"] unfolding valid by (simp add: m)
    also have "\<dots> \<longleftrightarrow> (\<exists>fa. hello_agreed codec network a b (ce_session_id ha) fa facts ha hb aa ab)"
      using True unfolding hello_agreed_def m by auto
    finally show ?thesis .
  qed
qed

text \<open>C12: a hello transcript is accepted exactly when both ends agree on it. The validation succeeds exactly on two
  hellos and two acknowledgements that are well-formed, of one network and one session, sent by two different
  nodes with the fixed sequence numbers, whose challenges differ and are each echoed by the other side, and in
  which neither side has changed its claims; it returns the remote claims. The other end, which sees the same
  four frames with the roles exchanged, then accepts them too and gets the local claims.\<close>

theorem hello_transcript_mutual:
  "(validate_hello_transcript codec network a b hello_a hello_b ack_a ack_b = Inr fb \<longleftrightarrow>
      (\<exists>fa. hello_agreed codec network a b (ce_session_id hello_a) fa fb hello_a hello_b ack_a ack_b)) \<and>
   (\<forall>ca fa. validate_hello_transcript codec network a b hello_a hello_b ack_a ack_b = Inr fb \<and>
      ce_message hello_a = Hello ca fa \<longrightarrow>
      validate_hello_transcript codec network b a hello_b hello_a ack_b ack_a = Inr fa)"
proof -
  have "validate_hello_transcript codec network b a hello_b hello_a ack_b ack_a = Inr fa"
    if v: "validate_hello_transcript codec network a b hello_a hello_b ack_a ack_b = Inr fb"
      and m: "ce_message hello_a = Hello ca fa" for ca fa
  proof -
    obtain f where agreed: "hello_agreed codec network a b (ce_session_id hello_a) f fb hello_a hello_b ack_a ack_b"
      using v validate_transcript_Inr by blast
    then have "f = fa" "ce_session_id hello_b = ce_session_id hello_a" using m by (auto simp: hello_agreed_def)
    then show ?thesis using agreed hello_agreed_swap validate_transcript_Inr by metis
  qed
  then show ?thesis using validate_transcript_Inr by blast
qed

definition sample_facts :: hello_facts where
  "sample_facts = \<lparr>hf_software_version = [0x30, 0x2e, 0x31], hf_capabilities = default_capabilities,
     hf_segment = None, hf_direct_neighbors = []\<rparr>"

definition sample_hello :: "u8 \<Rightarrow> u64 \<Rightarrow> control_message \<Rightarrow> control_envelope" where
  "sample_hello sender n message =
     \<lparr>ce_version = CONTROL_VERSION, ce_network = byte_ident 1, ce_sender = byte_ident sender,
      ce_session_id = byte_ident 3, ce_sequence = n, ce_message = message\<rparr>"

theorem hello_transcript_mutual_witness:
  "validate_hello_transcript ex_codec (byte_ident 1) (byte_ident 5) (byte_ident 4)
     (sample_hello 5 1 (Hello (byte_ident 11) sample_facts)) (sample_hello 4 1 (Hello (byte_ident 10) sample_facts))
     (sample_hello 5 2 (HelloAck (byte_ident 10) sample_facts)) (sample_hello 4 2 (HelloAck (byte_ident 11) sample_facts))
   = Inr sample_facts"
proof -
  let ?ha = "sample_hello 4 1 (Hello (byte_ident 10) sample_facts)"
  let ?hb = "sample_hello 5 1 (Hello (byte_ident 11) sample_facts)"
  let ?aa = "sample_hello 4 2 (HelloAck (byte_ident 11) sample_facts)"
  let ?ab = "sample_hello 5 2 (HelloAck (byte_ident 10) sample_facts)"
  have facts: "validate_facts sample_facts sender = Inr ()" for sender
    by (simp add: validate_facts_def sample_facts_def version_byte_def default_capabilities_def)
  have "encodable ex_codec f" if "f \<in> {?ha, ?hb, ?aa, ?ab}" for f
    using that by (auto simp: encodable_def encode_control_frame_def validate_envelope_def validate_hello_def facts
        sample_hello_def ex_codec_def MAX_CONTROL_FRAME_BYTES_def)
  then have "hello_agreed ex_codec (byte_ident 1) (byte_ident 4) (byte_ident 5) (ce_session_id ?ha) sample_facts sample_facts
      ?ha ?hb ?aa ?ab"
    by (auto simp: hello_agreed_def sample_hello_def)
  with hello_transcript_mutual [of ex_codec "byte_ident 1" "byte_ident 4" "byte_ident 5" ?ha ?hb ?aa ?ab sample_facts]
  show ?thesis by (auto simp: sample_hello_def)
qed

lemma exchange_Inr:
  assumes "exchange_hello_claims_with_deadline codec ds rq w = Some (Inr facts, w4)"
  obtains hello ack remote_hello remote_ack w1 w2 w3 where
    "hello = local_frame rq 1 (Hello (hx_local_challenge rq) (hx_local_facts rq))"
    "write_one_control_frame_with_deadline codec ds hello (hx_deadline rq) w = Some (Inr (), w1)"
    "read_one_control_frame_with_deadline codec ds (hx_deadline rq) w1 = Some (Inr remote_hello, w2)"
    "write_one_control_frame_with_deadline codec ds ack (hx_deadline rq) w2 = Some (Inr (), w3)"
    "read_one_control_frame_with_deadline codec ds (hx_deadline rq) w3 = Some (Inr remote_ack, w4)"
    "validate_hello_transcript codec (hx_network rq) (hx_local rq) (hx_remote rq) hello remote_hello ack remote_ack = Inr facts"
  using assms
  by (auto simp: exchange_hello_claims_with_deadline_def bindO_eq_Inr Let_def validate_exporter_bound_hello_transcript_def
      split: sum.splits option.splits if_splits)

lemma exchange_returns:
  assumes contract: "transport_contract ds view"
  shows "\<exists>r w'. exchange_hello_claims_with_deadline codec ds rq w = Some (r, w') \<and>
    tv_clock (view w') \<le> max (tv_clock (view w)) (hx_deadline rq)"
proof (cases "check_exchange_request rq")
  case (Inl m)
  then show ?thesis by (simp add: exchange_hello_claims_with_deadline_def)
next
  case (Inr u)
  note io = frame_io_returns [OF contract, THEN mapO_err_returns]
  show ?thesis unfolding exchange_hello_claims_with_deadline_def Inr sum.case Let_def
    by (intro bindO_returns io) (auto split: option.split intro!: bindO_returns io)
qed

text \<open>C7: a successful hello exchange has happened on this stream, in time. On any transport that keeps its
  contract the exchange returns, not later than the deadline when it starts before it. If it succeeds, the bytes
  consumed are exactly the frames of the remote hello and acknowledgement, the bytes sent are exactly those of
  the local hello and of the acknowledgement of the remote challenge, both ends agree on the transcript under
  the exported session identifier, and the deadline has not passed.\<close>

theorem hello_exchange_sound:
  assumes contract: "transport_contract ds view"
  shows "\<exists>r w'. exchange_hello_claims_with_deadline codec ds rq w = Some (r, w') \<and>
    tv_clock (view w') \<le> max (tv_clock (view w)) (hx_deadline rq) \<and>
    (\<forall>facts. r = Inr facts \<longrightarrow> tv_clock (view w') < hx_deadline rq \<and>
      (\<exists>hello ack remote_hello remote_ack sent1 sent2 got1 got2.
         hello_agreed codec (hx_network rq) (hx_local rq) (hx_remote rq) (hx_exported_session_id rq)
           (hx_local_facts rq) facts hello remote_hello ack remote_ack \<and>
         ce_message hello = Hello (hx_local_challenge rq) (hx_local_facts rq) \<and>
         encode_control_frame codec hello = Inr sent1 \<and> encode_control_frame codec ack = Inr sent2 \<and>
         decode_control_frame codec got1 = Inr remote_hello \<and> decode_control_frame codec got2 = Inr remote_ack \<and>
         tv_outbound (view w') = tv_outbound (view w) @ sent1 @ sent2 \<and>
         tv_inbound (view w) = got1 @ got2 @ tv_inbound (view w')))"
proof -
  obtain r w4 where run: "exchange_hello_claims_with_deadline codec ds rq w = Some (r, w4)"
    and clock: "tv_clock (view w4) \<le> max (tv_clock (view w)) (hx_deadline rq)"
    using exchange_returns [OF contract] by blast
  have "tv_clock (view w4) < hx_deadline rq \<and>
      (\<exists>hello ack remote_hello remote_ack sent1 sent2 got1 got2.
         hello_agreed codec (hx_network rq) (hx_local rq) (hx_remote rq) (hx_exported_session_id rq)
           (hx_local_facts rq) facts hello remote_hello ack remote_ack \<and>
         ce_message hello = Hello (hx_local_challenge rq) (hx_local_facts rq) \<and>
         encode_control_frame codec hello = Inr sent1 \<and> encode_control_frame codec ack = Inr sent2 \<and>
         decode_control_frame codec got1 = Inr remote_hello \<and> decode_control_frame codec got2 = Inr remote_ack \<and>
         tv_outbound (view w4) = tv_outbound (view w) @ sent1 @ sent2 \<and>
         tv_inbound (view w) = got1 @ got2 @ tv_inbound (view w4))" if r: "r = Inr facts" for facts
  proof -
    obtain hello ack rh ra w1 w2 w3 where hello: "hello = local_frame rq 1 (Hello (hx_local_challenge rq) (hx_local_facts rq))"
      and steps: "write_one_control_frame_with_deadline codec ds hello (hx_deadline rq) w = Some (Inr (), w1)"
        "read_one_control_frame_with_deadline codec ds (hx_deadline rq) w1 = Some (Inr rh, w2)"
        "write_one_control_frame_with_deadline codec ds ack (hx_deadline rq) w2 = Some (Inr (), w3)"
        "read_one_control_frame_with_deadline codec ds (hx_deadline rq) w3 = Some (Inr ra, w4)"
      and valid: "validate_hello_transcript codec (hx_network rq) (hx_local rq) (hx_remote rq) hello rh ack ra = Inr facts"
      by (rule exchange_Inr [OF run [unfolded r]])
    obtain fa where "hello_agreed codec (hx_network rq) (hx_local rq) (hx_remote rq) (ce_session_id hello) fa facts hello rh ack ra"
      using valid validate_transcript_Inr by blast
    moreover from this have "fa = hx_local_facts rq" "ce_session_id hello = hx_exported_session_id rq"
      "ce_message hello = Hello (hx_local_challenge rq) (hx_local_facts rq)"
      by (auto simp: hello_agreed_def hello local_frame_def)
    moreover obtain sent1 where "encode_control_frame codec hello = Inr sent1"
      "tv_outbound (view w1) = tv_outbound (view w) @ sent1" "tv_inbound (view w1) = tv_inbound (view w)"
      by (rule write_frame_Inr [OF contract steps(1)])
    moreover obtain got1 where "tv_inbound (view w1) = got1 @ tv_inbound (view w2)"
      "decode_control_frame codec got1 = Inr rh" "tv_outbound (view w2) = tv_outbound (view w1)"
      by (rule read_frame_Inr [OF contract steps(2)])
    moreover obtain sent2 where "encode_control_frame codec ack = Inr sent2"
      "tv_outbound (view w3) = tv_outbound (view w2) @ sent2" "tv_inbound (view w3) = tv_inbound (view w2)"
      by (rule write_frame_Inr [OF contract steps(3)])
    moreover obtain got2 where "tv_inbound (view w3) = got2 @ tv_inbound (view w4)"
      "decode_control_frame codec got2 = Inr ra" "tv_outbound (view w4) = tv_outbound (view w3)"
      "tv_clock (view w4) < hx_deadline rq"
      by (rule read_frame_Inr [OF contract steps(4)])
    ultimately show ?thesis by (metis append.assoc)
  qed
  then show ?thesis using run clock by blast
qed

definition sample_request :: hello_exchange_request where
  "sample_request =
     \<lparr>hx_network = byte_ident 1, hx_local = byte_ident 2, hx_remote = byte_ident 4, hx_exported_session_id = byte_ident 3,
      hx_local_challenge = byte_ident 10, hx_local_facts = sample_facts, hx_deadline = 100\<rparr>"

theorem hello_exchange_sound_witness:
  "\<exists>r v. exchange_hello_claims_with_deadline ex_codec memory_stream sample_request (memory_view [0, 0, 0, 2, 123, 125]) =
     Some (r, v) \<and> tv_clock v \<le> 100"
  using hello_exchange_sound [OF memory_stream_contract, of ex_codec sample_request "memory_view [0, 0, 0, 2, 123, 125]"]
  by (auto simp: memory_view_def sample_request_def)

end
