(* ===== verification/Peer_Pin.thy ===== *)
theory Peer_Pin
  imports Ids
begin

text \<open>
  \<open>crates/blueroute-protocol/src/peer_pin.rs\<close>: the pinned public keys of approved peers. A digest is the list
  of its 32 bytes; a \<open>&str\<close> is read byte by byte and so is a list of bytes.
\<close>

section \<open>Fingerprints\<close>

datatype peer_pin_error =
    InvalidFingerprint | PinInvalidIdentity | UnknownEnrollment | KeyConflict | NotApprovedForNetwork
  | FingerprintMismatch

datatype spki_sha256 = SpkiSha256 (spki_as_bytes: "u8 list")

definition SPKI_BYTES :: nat where
  "SPKI_BYTES = 32"

definition from_verified_certificate_digest :: "u8 list \<Rightarrow> peer_pin_error + spki_sha256" where
  "from_verified_certificate_digest digest =
     (if list_all (\<lambda>byte. byte = 0) digest then Inl InvalidFingerprint else Inr (SpkiSha256 digest))"

definition spki_nibble :: "u8 \<Rightarrow> u8 option" where
  "spki_nibble v =
     (if 48 \<le> v \<and> v \<le> 57 then Some (v - 48)
      else if 97 \<le> v \<and> v \<le> 102 then Some (v - 97 + 10)
      else None)"

fun parse_spki_pairs :: "u8 list \<Rightarrow> peer_pin_error + u8 list" where
  "parse_spki_pairs (h # l # rest) =
     bindR (ok_or InvalidFingerprint (spki_nibble h)) (\<lambda>high.
     bindR (ok_or InvalidFingerprint (spki_nibble l)) (\<lambda>low.
     bindR (parse_spki_pairs rest) (\<lambda>bytes.
       Inr ((push_bit 4 high OR low) # bytes))))"
| "parse_spki_pairs _ = Inr []"

definition parse_canonical_hex :: "u8 list \<Rightarrow> peer_pin_error + spki_sha256" where
  "parse_canonical_hex text =
     (if length text \<noteq> 64 then Inl InvalidFingerprint
      else bindR (parse_spki_pairs text) from_verified_certificate_digest)"

fun hex_text :: "u8 list \<Rightarrow> u8 list" where
  "hex_text [] = []"
| "hex_text (byte # bytes) = HEX ! unat (drop_bit 4 byte) # HEX ! unat (byte AND 15) # hex_text bytes"

definition to_canonical_hex :: "spki_sha256 \<Rightarrow> u8 list" where
  "to_canonical_hex pin = hex_text (spki_as_bytes pin)"

section \<open>Pins\<close>

type_synonym peer_key_pins = "(network_id \<times> node_id, spki_sha256) fmap"

definition pins_new :: peer_key_pins where
  "pins_new = fmempty"

definition pin_shared :: "network_id \<Rightarrow> node_id \<Rightarrow> spki_sha256 \<Rightarrow> peer_key_pins \<Rightarrow> bool" where
  "pin_shared network node pin pins \<longleftrightarrow>
     fBex (fmdom pins) (\<lambda>(enrolled_network, enrolled_node).
       enrolled_network = network \<and> enrolled_node \<noteq> node \<and>
       fmlookup pins (enrolled_network, enrolled_node) = Some pin)"

definition enroll_verified ::
  "network_id \<Rightarrow> node_id \<Rightarrow> spki_sha256 \<Rightarrow> peer_key_pins \<Rightarrow> (peer_pin_error + bool) \<times> peer_key_pins" where
  "enroll_verified network node pin pins =
     (if network = zero_ident \<or> node = zero_ident then (Inl PinInvalidIdentity, pins)
      else if pin_shared network node pin pins then (Inl KeyConflict, pins)
      else case fmlookup pins (network, node) of
        Some existing \<Rightarrow> if existing = pin then (Inr False, pins) else (Inl KeyConflict, pins)
      | None \<Rightarrow> (Inr True, fmupd (network, node) pin pins))"

definition revoke :: "network_id \<Rightarrow> node_id \<Rightarrow> peer_key_pins \<Rightarrow> bool \<times> peer_key_pins" where
  "revoke network node pins = (fmlookup pins (network, node) \<noteq> None, fmdrop (network, node) pins)"

definition authorize ::
  "network_id \<Rightarrow> node_id \<Rightarrow> bool \<Rightarrow> spki_sha256 \<Rightarrow> peer_key_pins \<Rightarrow> peer_pin_error + unit" where
  "authorize network node current_network_approval verified pins =
     (if network = zero_ident \<or> node = zero_ident then Inl PinInvalidIdentity
      else if \<not> current_network_approval then Inl NotApprovedForNetwork
      else case fmlookup pins (network, node) of
        None \<Rightarrow> Inl UnknownEnrollment
      | Some expected \<Rightarrow> if expected \<noteq> verified then Inl FingerprintMismatch else Inr ())"

definition pin_entries :: "peer_key_pins \<Rightarrow> (network_id \<times> node_id \<times> spki_sha256) list" where
  "pin_entries pins = map (\<lambda>((network, node), pin). (network, node, pin)) (sorted_list_of_fmap pins)"

section \<open>Hexadecimal fingerprints\<close>

lemma hex_text_encode_hex: "hex_text bs = encode_hex bs"
  by (induction bs) simp_all

lemma spki_nibble_Some: "spki_nibble v = Some d \<longleftrightarrow> decode_nibble v = Some d \<and> ascii_lower v = v"
  by (auto simp: spki_nibble_def decode_nibble_def ascii_lower_def word_le_nat_alt word_unat_eq_iff
      unat_add_no_overflow split: if_splits)

lemma parse_spki_pairs_Inr:
  "parse_spki_pairs s = Inr bs \<longleftrightarrow> decode_pairs s = Inr bs \<and> map ascii_lower s = s" if "even (length s)"
  using that
  by (induction s arbitrary: bs rule: parse_spki_pairs.induct) (auto simp: bindR_eq_Inr ok_or_eq_Inr spki_nibble_Some)

lemma lower_encode_hex: "map ascii_lower (encode_hex bs) = encode_hex bs"
  using encode_hex_decode_pairs [OF decode_pairs_encode_hex, of bs] by simp

text \<open>A fingerprint has exactly one text. The text of a digest that is not all zero reads back as that
  digest, and every text that is accepted is the text of the digest it reads as: no other spelling is.\<close>

theorem spki_text_canonical:
  assumes "length (spki_as_bytes pin) = SPKI_BYTES"
  shows "parse_canonical_hex hex = Inr pin \<longleftrightarrow>
    hex = to_canonical_hex pin \<and> \<not> list_all (\<lambda>byte. byte = 0) (spki_as_bytes pin)"
proof -
  have "parse_canonical_hex hex = Inr pin \<longleftrightarrow>
      length hex = 64 \<and> decode_pairs hex = Inr (spki_as_bytes pin) \<and> map ascii_lower hex = hex \<and>
      \<not> list_all (\<lambda>byte. byte = 0) (spki_as_bytes pin)"
    using parse_spki_pairs_Inr [of hex]
    by (cases pin) (auto simp: parse_canonical_hex_def bindR_eq_Inr from_verified_certificate_digest_def split: if_splits)
  moreover have "length hex = 64 \<and> decode_pairs hex = Inr (spki_as_bytes pin) \<and> map ascii_lower hex = hex \<longleftrightarrow>
      hex = encode_hex (spki_as_bytes pin)"
    using assms encode_hex_decode_pairs [of hex "spki_as_bytes pin"]
    by (auto simp: SPKI_BYTES_def lower_encode_hex)
  ultimately show ?thesis unfolding to_canonical_hex_def hex_text_encode_hex by blast
qed

theorem spki_text_canonical_witness:
  "parse_canonical_hex (to_canonical_hex (SpkiSha256 (replicate 32 0xab))) = Inr (SpkiSha256 (replicate 32 0xab))"
  using spki_text_canonical [of "SpkiSha256 (replicate 32 0xab)"]
  by (simp add: SPKI_BYTES_def list_all_iff)

section \<open>No impersonation\<close>

inductive pins_run :: "peer_key_pins \<Rightarrow> bool" where
  new: "pins_run pins_new"
| enroll: "pins_run pins \<Longrightarrow> enroll_verified network node pin pins = (r, pins') \<Longrightarrow> pins_run pins'"
| revoke: "pins_run pins \<Longrightarrow> revoke network node pins = (b, pins') \<Longrightarrow> pins_run pins'"

definition pins_inv :: "peer_key_pins \<Rightarrow> bool" where
  "pins_inv pins \<longleftrightarrow>
     (\<forall>network a b pin. fmlookup pins (network, a) = Some pin \<and> fmlookup pins (network, b) = Some pin \<longrightarrow> a = b) \<and>
     (\<forall>network a. fmlookup pins (network, a) \<noteq> None \<longrightarrow> network \<noteq> zero_ident \<and> a \<noteq> zero_ident)"

lemma pin_shared_iff:
  "pin_shared network node pin pins \<longleftrightarrow> (\<exists>other. other \<noteq> node \<and> fmlookup pins (network, other) = Some pin)"
  by (auto simp: pin_shared_def fmdomI)

lemma enroll_cases:
  assumes "enroll_verified network node pin pins = (r, pins')"
  obtains (refused) e where "r = Inl e" "pins' = pins"
  | (known) "r = Inr False" "pins' = pins" "fmlookup pins (network, node) = Some pin"
  | (enrolled) "r = Inr True" "pins' = fmupd (network, node) pin pins" "fmlookup pins (network, node) = None"
      "network \<noteq> zero_ident" "node \<noteq> zero_ident" "\<not> pin_shared network node pin pins"
  using assms by (auto simp: enroll_verified_def split: if_splits option.splits)

lemma pins_inv_mono:
  assumes "pins_inv pins" "\<And>k v. fmlookup pins' k = Some v \<Longrightarrow> fmlookup pins k = Some v"
  shows "pins_inv pins'"
proof -
  have "a = b" if "fmlookup pins' (network, a) = Some pin" "fmlookup pins' (network, b) = Some pin" for network a b pin
    using assms(1) assms(2) [OF that(1)] assms(2) [OF that(2)] unfolding pins_inv_def by blast
  moreover have "network \<noteq> zero_ident \<and> a \<noteq> zero_ident" if "fmlookup pins' (network, a) = Some pin" for network a pin
    using assms(1) assms(2) [OF that] unfolding pins_inv_def by (metis option.distinct(1))
  ultimately show ?thesis unfolding pins_inv_def by blast
qed

lemma pins_run_inv: "pins_run pins \<Longrightarrow> pins_inv pins"
proof (induction rule: pins_run.induct)
  case new
  show ?case by (simp add: pins_inv_def pins_new_def)
next
  case (enroll pins network node pin r pins')
  from enroll(2) show ?case
  proof (cases rule: enroll_cases [consumes 1, case_names refused known enrolled])
    case enrolled
    then have "fmlookup pins (network, other) \<noteq> Some pin" for other
      unfolding pin_shared_iff by (cases "other = node") auto
    then show ?thesis using enroll(3) enrolled(2,4,5) by (auto simp: pins_inv_def)
  qed (use enroll(3) in auto)
next
  case (revoke pins network node b pins')
  have "fmlookup pins' k = Some v \<Longrightarrow> fmlookup pins k = Some v" for k v
    using revoke(2) by (auto simp: revoke_def split: if_splits)
  then show ?case by (rule pins_inv_mono [OF revoke(3)])
qed

text \<open>C36: a pinned key cannot be replaced or shared. Over any enrolments and revocations, no key is pinned for two
  nodes of one network; a peer is authorized exactly when it is approved for the network now and its verified key
  is the pinned one; enrolling never changes or drops a pin that is there, and fails for a second key or a second
  node; after a revocation no key authorizes the node.\<close>

theorem pinned_keys_authoritative:
  assumes "pins_run pins"
  shows "(\<forall>network a b pin. fmlookup pins (network, a) = Some pin \<and> fmlookup pins (network, b) = Some pin \<longrightarrow> a = b) \<and>
    (authorize network node approved key pins = Inr () \<longleftrightarrow> approved \<and> fmlookup pins (network, node) = Some key) \<and>
    (\<forall>pin r pins'. enroll_verified network node pin pins = (r, pins') \<longrightarrow>
       (\<forall>k v. fmlookup pins k = Some v \<longrightarrow> fmlookup pins' k = Some v) \<and>
       (if is_err r then pins' = pins else fmlookup pins' (network, node) = Some pin)) \<and>
    is_err (authorize network node approved key (snd (revoke network node pins)))"
proof -
  note inv = pins_run_inv [OF assms, unfolded pins_inv_def]
  have "(\<forall>k v. fmlookup pins k = Some v \<longrightarrow> fmlookup pins' k = Some v) \<and>
      (if is_err r then pins' = pins else fmlookup pins' (network, node) = Some pin)"
    if "enroll_verified network node pin pins = (r, pins')" for pin r pins'
    using that by (cases rule: enroll_cases [consumes 1, case_names refused known enrolled]) auto
  moreover have "authorize network node approved key pins = Inr () \<longleftrightarrow> approved \<and> fmlookup pins (network, node) = Some key"
  proof (cases "fmlookup pins (network, node)")
    case (Some pin)
    then have "network \<noteq> zero_ident" "node \<noteq> zero_ident" using inv by (metis option.distinct(1))+
    then show ?thesis by (simp add: authorize_def Some)
  qed (simp add: authorize_def)
  moreover have "is_err (authorize network node approved key (snd (revoke network node pins)))"
    by (simp add: authorize_def revoke_def)
  ultimately show ?thesis using inv by blast
qed

theorem pinned_keys_authoritative_witness:
  "authorize (byte_ident 1) (byte_ident 2) True (SpkiSha256 [7]) (fmupd (byte_ident 1, byte_ident 2) (SpkiSha256 [7]) fmempty)
     = Inr ()"
proof -
  have "enroll_verified (byte_ident 1) (byte_ident 2) (SpkiSha256 [7]) pins_new =
      (Inr True, fmupd (byte_ident 1, byte_ident 2) (SpkiSha256 [7]) fmempty)"
    by (simp add: enroll_verified_def pins_new_def pin_shared_def)
  from pinned_keys_authoritative [OF pins_run.enroll [OF pins_run.new this]] show ?thesis by simp
qed

end
