(* ===== verification/Linux_Route.thy ===== *)
theory Linux_Route
  imports Ip_Route Route_Table "HOL-Library.Option_ord"
begin

text \<open>
  \<open>crates/blueroute-linux/src/route_projection.rs\<close> and \<open>route_reconciliation.rs\<close>: the projection of logical
  route intents to IPv4 kernel routes, and the difference between the desired and the observed kernel
  routes. The \<open>for\<close> loops with early return are \<open>foldR\<close> over the maps the code fills. An interface handle
  is the list of the code points of its string; the byte order of UTF-8 is the order of the code points.
\<close>

section \<open>Kernel routes\<close>

datatype network_interface_handle = InterfaceHandle (handle_str: ustring)

definition network_interface_handle_new :: "ustring \<Rightarrow> network_interface_handle core_result" where
  "network_interface_handle_new v =
     (if trim v = [] then Inl (core_error_new InvalidInput ''NetworkInterfaceHandle cannot be empty'')
      else Inr (InterfaceHandle v))"

instantiation network_interface_handle :: linorder
begin

definition less_eq_network_interface_handle :: "network_interface_handle \<Rightarrow> network_interface_handle \<Rightarrow> bool" where
  "less_eq_network_interface_handle a b \<longleftrightarrow> handle_str a \<le> handle_str b"

definition less_network_interface_handle :: "network_interface_handle \<Rightarrow> network_interface_handle \<Rightarrow> bool" where
  "less_network_interface_handle a b \<longleftrightarrow> handle_str a < handle_str b"

instance
  by standard (auto simp: less_eq_network_interface_handle_def less_network_interface_handle_def less_le
      network_interface_handle.expand)

end

datatype linux_route =
  LinuxRoute (lr_destination: ip_prefix) (lr_via: "ip_addr option") (lr_interface: network_interface_handle)
    (lr_metric: u32) (lr_owner: network_id)

section \<open>Projection of route intents\<close>

record route_destination_binding =
  db_network :: network_id
  db_destination :: route_destination
  db_prefix :: ip_prefix

record route_next_hop_binding =
  nb_network :: network_id
  nb_node :: node_id
  nb_address :: u32
  nb_interface :: network_interface_handle

definition nonzero :: "u8 list \<Rightarrow> bool" where
  "nonzero bytes = list_ex (\<lambda>byte. byte \<noteq> 0) bytes"

definition rfc1918 :: "u32 \<Rightarrow> u8 \<Rightarrow> bool" where
  "rfc1918 bits len \<longleftrightarrow>
     (bits AND 0xff000000 = 0x0a000000 \<and> len \<ge> 8) \<or>
     (bits AND 0xfff00000 = 0xac100000 \<and> len \<ge> 12) \<or>
     (bits AND 0xffff0000 = 0xc0a80000 \<and> len \<ge> 16)"

definition private_prefix :: "ip_prefix \<Rightarrow> unit core_result" where
  "private_prefix prefix =
     (case pfx_address prefix of
        V6 _ \<Rightarrow> Inl (invalid ''IPv6 routing is not enabled'')
      | V4 bits \<Rightarrow>
          let len = pfx_len prefix in
          if len = 0 \<or> len > 32 then Inl (invalid ''invalid or default route prefix'')
          else let mask = (case checked_shl (- 1) (unat (32 - len)) of None \<Rightarrow> 0 | Some m \<Rightarrow> m) in
            if bits AND mask \<noteq> bits then Inl (invalid ''noncanonical route prefix'')
            else if \<not> rfc1918 bits len then Inl (invalid ''route is not wholly within RFC1918 space'')
            else Inr ())"

definition destination_valid :: "route_destination \<Rightarrow> unit core_result" where
  "destination_valid destination =
     (case destination of
        Internet \<Rightarrow> Inl (invalid ''default routes are not supported'')
      | Node node \<Rightarrow> if \<not> nonzero (as_bytes node) then Inl (invalid ''zero destination node'') else Inr ()
      | Segment segment \<Rightarrow>
          if \<not> nonzero (as_bytes segment) then Inl (invalid ''zero destination segment'') else Inr ()
      | Prefix prefix \<Rightarrow> private_prefix prefix)"

type_synonym destination_maps = "(route_destination, ip_prefix) fmap \<times> ip_prefix fset"
type_synonym hop_maps = "(node_id, route_next_hop_binding) fmap \<times> (u32, node_id) fmap"

definition bind_destination ::
  "network_id \<Rightarrow> route_destination_binding \<Rightarrow> destination_maps \<Rightarrow> destination_maps core_result" where
  "bind_destination network binding st =
     (case st of (destination_map, destination_prefixes) \<Rightarrow>
      if db_network binding \<noteq> network then Inl (invalid ''foreign destination binding'')
      else bindR (destination_valid (db_destination binding)) (\<lambda>_.
        bindR (private_prefix (db_prefix binding)) (\<lambda>_.
          if (case db_destination binding of Node _ \<Rightarrow> pfx_len (db_prefix binding) \<noteq> 32 | _ \<Rightarrow> False)
          then Inl (invalid ''node route requires an IPv4 host prefix'')
          else if (case db_destination binding of Prefix p \<Rightarrow> p \<noteq> db_prefix binding | _ \<Rightarrow> False)
          then Inl (invalid ''prefix binding mismatch'')
          else if db_prefix binding |\<in>| destination_prefixes
          then Inl (invalid ''duplicate destination IPv4 prefix binding'')
          else if fmlookup destination_map (db_destination binding) \<noteq> None
          then Inl (invalid ''duplicate destination binding'')
          else Inr (fmupd (db_destination binding) (db_prefix binding) destination_map,
                 finsert (db_prefix binding) destination_prefixes))))"

definition bind_next_hop ::
  "network_id \<Rightarrow> route_next_hop_binding \<Rightarrow> hop_maps \<Rightarrow> hop_maps core_result" where
  "bind_next_hop network binding st =
     (case st of (hop_map, hop_addresses) \<Rightarrow>
      if nb_network binding \<noteq> network \<or> \<not> nonzero (as_bytes (nb_node binding))
      then Inl (invalid ''foreign or zero next-hop binding'')
      else bindR (ip_prefix_new (V4 (nb_address binding)) 32) (\<lambda>host.
        bindR (private_prefix host) (\<lambda>_.
          if fmlookup hop_addresses (nb_address binding) \<noteq> None
          then Inl (invalid ''duplicate next-hop IPv4 address binding'')
          else if fmlookup hop_map (nb_node binding) \<noteq> None
          then Inl (invalid ''duplicate next-hop binding'')
          else Inr (fmupd (nb_node binding) binding hop_map,
                 fmupd (nb_address binding) (nb_node binding) hop_addresses))))"

definition check_destination_alias ::
  "hop_maps \<Rightarrow> route_destination_binding \<Rightarrow> unit \<Rightarrow> unit core_result" where
  "check_destination_alias hops binding _ =
     (case hops of (hop_map, hop_addresses) \<Rightarrow>
      case db_destination binding of
        Node node \<Rightarrow>
          if (case fmlookup hop_map node of
                None \<Rightarrow> False | Some hop \<Rightarrow> pfx_address (db_prefix binding) \<noteq> V4 (nb_address hop))
          then Inl (invalid ''observed peer destination disagrees with next-hop IPv4'')
          else if (case pfx_address (db_prefix binding) of
                     V4 address \<Rightarrow>
                       (case fmlookup hop_addresses address of
                          None \<Rightarrow> False | Some observed_node \<Rightarrow> observed_node \<noteq> node)
                   | V6 _ \<Rightarrow> False)
          then Inl (invalid ''destination aliases another next-hop identity'')
          else Inr ()
      | _ \<Rightarrow> Inr ())"

definition project_route ::
  "network_id \<Rightarrow> (route_destination, ip_prefix) fmap \<Rightarrow> (node_id, route_next_hop_binding) fmap \<Rightarrow> route \<Rightarrow>
   (ip_prefix, linux_route) fmap \<Rightarrow> (ip_prefix, linux_route) fmap core_result" where
  "project_route network destination_map hop_map route output =
     (if rt_owner route \<noteq> BlueRouteNetwork network then Inl (invalid ''foreign route owner'')
      else bindR (destination_valid (rt_destination route)) (\<lambda>_.
        if rt_cost route = 0 \<or> \<not> nonzero (as_bytes (rt_next_hop route))
        then Inl (invalid ''invalid route cost or next hop'')
        else bindR (ok_or (invalid ''unresolved destination'') (fmlookup destination_map (rt_destination route)))
          (\<lambda>prefix.
        bindR (ok_or (invalid ''unobserved next hop'') (fmlookup hop_map (rt_next_hop route))) (\<lambda>hop.
          if rt_destination route = Node (rt_next_hop route) \<and> pfx_address prefix \<noteq> V4 (nb_address hop)
          then Inl (invalid ''direct peer route disagrees with observed IPv4 address'')
          else bindR
            (if pfx_len prefix = 32 \<and> pfx_address prefix = V4 (nb_address hop)
             then if rt_destination route \<noteq> Node (rt_next_hop route)
                  then Inl (invalid ''destination aliases another next-hop identity'')
                  else Inr None
             else Inr (Some (V4 (nb_address hop)))) (\<lambda>via.
          if fmlookup output prefix \<noteq> None
          then Inl (invalid ''multiple logical routes alias one kernel prefix'')
          else Inr (fmupd prefix (LinuxRoute prefix via (nb_interface hop) (rt_cost route) network) output))))))"

definition project_ipv4_route_intents ::
  "network_id \<Rightarrow> route list \<Rightarrow> route_destination_binding list \<Rightarrow> route_next_hop_binding list \<Rightarrow>
   linux_route list core_result" where
  "project_ipv4_route_intents network routes destinations next_hops =
     (if \<not> nonzero (as_bytes network) then Inl (invalid ''zero network identity'')
      else bindR (foldR (bind_destination network) destinations (fmempty, {||}))
        (\<lambda>(destination_map, _).
      bindR (foldR (bind_next_hop network) next_hops (fmempty, fmempty)) (\<lambda>hops.
      bindR (foldR (check_destination_alias hops) destinations ()) (\<lambda>_.
      bindR (foldR (project_route network destination_map (fst hops)) routes fmempty) (\<lambda>output.
        Inr (map snd (sorted_list_of_fmap output)))))))"

section \<open>Reconciliation\<close>

record linux_route_reconciliation_plan =
  lp_upsert :: "linux_route list"
  lp_remove :: "linux_route list"

definition canonical :: "ip_prefix \<Rightarrow> ip_prefix core_result" where
  "canonical prefix =
     bindR (ip_prefix_new (pfx_address prefix) (pfx_len prefix)) (\<lambda>_.
       let address =
         (case pfx_address prefix of
            V4 a \<Rightarrow>
              let mask = (case checked_shl (- 1) (unat (32 - pfx_len prefix)) of None \<Rightarrow> 0 | Some m \<Rightarrow> m)
              in V4 (a AND mask)
          | V6 a \<Rightarrow>
              let mask = (case checked_shl (- 1) (unat (128 - pfx_len prefix)) of None \<Rightarrow> 0 | Some m \<Rightarrow> m)
              in V6 (a AND mask))
       in ip_prefix_new address (pfx_len prefix))"

definition validate_owned :: "linux_route \<Rightarrow> network_id \<Rightarrow> unit core_result" where
  "validate_owned route network =
     (if lr_owner route \<noteq> network then Inl (invalid ''Linux route is not owned by the requested network'')
      else bindR (private_prefix (lr_destination route)) (\<lambda>_.
        if lr_metric route = 0 then Inl (invalid ''Linux route metric must be positive'')
        else case lr_via route of
          None \<Rightarrow> Inr ()
        | Some via \<Rightarrow>
            bindR (ip_prefix_new via 32) (\<lambda>host.
            bindR (private_prefix host) (\<lambda>_.
              if pfx_len (lr_destination route) = 32 \<and> pfx_address (lr_destination route) = via
              then Inl (invalid ''Linux host route cannot forward via itself'')
              else Inr ()))))"

definition want_linux_route ::
  "network_id \<Rightarrow> linux_route \<Rightarrow> (ip_prefix, linux_route) fmap \<Rightarrow> (ip_prefix, linux_route) fmap core_result" where
  "want_linux_route network route wanted =
     bindR (validate_owned route network) (\<lambda>_.
       if fmlookup wanted (lr_destination route) \<noteq> None
       then Inl (invalid ''duplicate desired Linux route destination'')
       else Inr (fmupd (lr_destination route) route wanted))"

definition note_observed_linux ::
  "network_id \<Rightarrow> (ip_prefix, linux_route) fmap \<Rightarrow> linux_route \<Rightarrow> (ip_prefix, linux_route) fmap \<times> ip_prefix fset \<Rightarrow>
   ((ip_prefix, linux_route) fmap \<times> ip_prefix fset) core_result" where
  "note_observed_linux network wanted route st =
     (case st of (existing, foreign_destinations) \<Rightarrow>
      bindR (canonical (lr_destination route)) (\<lambda>key.
        if lr_owner route \<noteq> network
        then if fmlookup wanted key \<noteq> None
             then Inl (invalid ''desired Linux route collides with foreign route'')
             else Inr (existing, finsert key foreign_destinations)
        else bindR (validate_owned route network) (\<lambda>_.
          if lr_destination route \<noteq> key
          then Inl (invalid ''owned Linux route has noncanonical destination'')
          else if fmlookup existing key \<noteq> None
          then Inl (invalid ''duplicate observed owned Linux route destination'')
          else Inr (fmupd key route existing, foreign_destinations))))"

definition plan_linux_route_reconciliation ::
  "network_id \<Rightarrow> linux_route list \<Rightarrow> linux_route list \<Rightarrow> linux_route_reconciliation_plan core_result" where
  "plan_linux_route_reconciliation network desired observed =
     (if all_zero network
      then Inl (invalid ''Linux route reconciliation requires a network identity'')
      else bindR (foldR (want_linux_route network) desired fmempty) (\<lambda>wanted.
        bindR (foldR (note_observed_linux network wanted) observed (fmempty, {||}))
          (\<lambda>(existing, foreign_destinations).
            if list_ex (\<lambda>destination. destination |\<in>| foreign_destinations) (sorted_list_of_fset (fmdom existing))
            then Inl (invalid ''owned Linux route collides with foreign route'')
            else Inr \<lparr>lp_upsert = map snd (filter (\<lambda>(destination, route).
                          fmlookup existing destination \<noteq> Some route) (sorted_list_of_fmap wanted)),
                      lp_remove = map snd (filter (\<lambda>(destination, _).
                          fmlookup wanted destination = None) (sorted_list_of_fmap existing))\<rparr>)))"

section \<open>Private prefixes\<close>

lemma nonzero_iff: "nonzero (as_bytes i) \<longleftrightarrow> i \<noteq> zero_ident"
  using all_zero_iff [of i, unfolded all_zero_def list_all_iff] by (auto simp: nonzero_def list_ex_iff)

lemma unat_prefix_shift: "len \<le> (32 :: u8) \<Longrightarrow> unat (32 - len) = 32 - unat len"
  by (simp add: unat_sub_le)

lemma private_prefix_Inr:
  "private_prefix p = Inr () \<longleftrightarrow>
     (\<exists>bits. pfx_address p = V4 bits \<and> pfx_len p \<noteq> 0 \<and> pfx_len p \<le> 32 \<and>
        bits AND push_bit (32 - unat (pfx_len p)) (- 1) = bits \<and> rfc1918 bits (pfx_len p))"
proof (cases "pfx_address p")
  case (V4 bits)
  show ?thesis
  proof (cases "pfx_len p = 0 \<or> pfx_len p > 32")
    case True
    then show ?thesis using V4 by (auto simp: private_prefix_def)
  next
    case False
    then have "unat (32 - pfx_len p) = 32 - unat (pfx_len p)" "unat (pfx_len p) \<noteq> 0"
      by (auto simp: unat_prefix_shift unat_eq_0 not_less)
    then show ?thesis using V4 False by (auto simp: private_prefix_def checked_shl_def Let_def)
  qed
next
  case (V6 x2)
  then show ?thesis by (auto simp: private_prefix_def)
qed

lemma private_canonical: "private_prefix p = Inr () \<Longrightarrow> canonical p = Inr p"
proof (cases p)
  case (IpPrefix a len)
  assume "private_prefix p = Inr ()"
  then obtain bits where p: "a = V4 bits" "len \<noteq> 0" "len \<le> 32" "bits AND push_bit (32 - unat len) (- 1) = bits"
    unfolding private_prefix_Inr IpPrefix by auto
  have "unat (32 - len) = 32 - unat len" "32 - unat len < 32"
    using p(2,3) by (simp_all add: unat_prefix_shift unat_gt_0)
  then show ?thesis using p IpPrefix by (simp add: canonical_def ip_prefix_new_def checked_shl_def Let_def not_less)
qed

lemma mask_AND_mask: "n \<le> k \<Longrightarrow> push_bit n (- 1) AND push_bit k (- 1) = (push_bit k (- 1) :: 'a::len word)"
  by (rule bit_word_eqI) (auto simp: bit_and_iff bit_not_iff bit_mask_iff)

lemma masks_32:
  "(0xff000000 :: u32) = push_bit 24 (- 1)" "(0xfff00000 :: u32) = push_bit 20 (- 1)"
  "(0xffff0000 :: u32) = push_bit 16 (- 1)"
  by (simp_all add: push_bit_eq_mult)

text \<open>A private prefix lies in its block of private addresses: the mask of the block is part of the mask of
  the prefix.\<close>

lemma block_of_prefix:
  assumes "a AND push_bit (32 - unat len) (- 1) = bits" and "32 - k \<le> unat len" and "k \<le> 32"
  shows "(a :: u32) AND push_bit k (- 1) = bits AND push_bit k (- 1)"
proof -
  have "32 - unat len \<le> k" using assms(2,3) by simp
  then show ?thesis
    using assms(1) mask_AND_mask [of "32 - unat len" k, where ?'a = 32] by (metis and.assoc)
qed

lemma private_prefix_members:
  assumes "rfc1918 bits len" and "a AND push_bit (32 - unat len) (- 1) = bits"
  shows "rfc1918 a 32"
proof -
  have "a AND 0xff000000 = bits AND 0xff000000" if "8 \<le> len"
    unfolding masks_32 by (rule block_of_prefix [OF assms(2)]) (use that in \<open>simp_all add: word_le_nat_alt\<close>)
  moreover have "a AND 0xfff00000 = bits AND 0xfff00000" if "12 \<le> len"
    unfolding masks_32 by (rule block_of_prefix [OF assms(2)]) (use that in \<open>simp_all add: word_le_nat_alt\<close>)
  moreover have "a AND 0xffff0000 = bits AND 0xffff0000" if "16 \<le> len"
    unfolding masks_32 by (rule block_of_prefix [OF assms(2)]) (use that in \<open>simp_all add: word_le_nat_alt\<close>)
  ultimately show ?thesis using assms(1) unfolding rfc1918_def by (auto simp: word_le_nat_alt)
qed

section \<open>The bindings\<close>

definition bound_destinations ::
  "route_destination_binding set \<Rightarrow> (route_destination, ip_prefix) fmap \<Rightarrow> ip_prefix fset \<Rightarrow> bool" where
  "bound_destinations B m ps \<longleftrightarrow>
     (\<forall>d p. fmlookup m d = Some p \<longrightarrow> p |\<in>| ps \<and> private_prefix p = Inr () \<and> (\<forall>n. d = Node n \<longrightarrow> pfx_len p = 32) \<and>
        (\<exists>b \<in> B. db_destination b = d \<and> db_prefix b = p)) \<and>
     (\<forall>d d' p. fmlookup m d = Some p \<longrightarrow> fmlookup m d' = Some p \<longrightarrow> d = d')"

lemma bind_destination_bound:
  assumes "bind_destination network b (m, ps) = Inr (m', ps')" and "bound_destinations B m ps" and "b \<in> B"
  shows "bound_destinations B m' ps'"
proof -
  have new: "private_prefix (db_prefix b) = Inr ()" "\<forall>n. db_destination b = Node n \<longrightarrow> pfx_len (db_prefix b) = 32"
    "db_prefix b |\<notin>| ps" "m' = fmupd (db_destination b) (db_prefix b) m" "ps' = finsert (db_prefix b) ps"
    using assms(1) by (auto simp: bind_destination_def bindR_eq_Inr split: if_splits)
  have old: "p |\<in>| ps \<and> private_prefix p = Inr () \<and> (\<forall>n. d = Node n \<longrightarrow> pfx_len p = 32) \<and>
      (\<exists>b \<in> B. db_destination b = d \<and> db_prefix b = p)" if "fmlookup m d = Some p" for d p
    using assms(2) that unfolding bound_destinations_def by blast
  have inj: "d = d'" if "fmlookup m d = Some p" "fmlookup m d' = Some p" for d d' p
    using assms(2) that unfolding bound_destinations_def by blast
  show ?thesis
    unfolding bound_destinations_def new(4,5)
  proof (intro conjI allI impI)
    show "d = d'" if "fmlookup (fmupd (db_destination b) (db_prefix b) m) d = Some p"
      "fmlookup (fmupd (db_destination b) (db_prefix b) m) d' = Some p" for d d' p
      using that new(3) inj [of d p d'] old [of d p] old [of d' p] by (auto split: if_splits)
  qed (use old new assms(3) in \<open>auto split: if_splits\<close>)
qed

lemma bind_destinations_bound:
  assumes "foldR (bind_destination network) bs (fmempty, {||}) = Inr (m, ps)"
  shows "bound_destinations (set bs) m ps"
proof -
  have "case (m, ps) of (m, ps) \<Rightarrow> bound_destinations (set bs) m ps"
  proof (rule foldR_invariant [OF assms])
    show "case (fmempty, {||}) of (m, ps) \<Rightarrow> bound_destinations (set bs) m ps"
      by (simp add: bound_destinations_def)
    show "case st' of (m, ps) \<Rightarrow> bound_destinations (set bs) m ps"
      if "b \<in> set bs" "case st of (m, ps) \<Rightarrow> bound_destinations (set bs) m ps" "bind_destination network b st = Inr st'"
      for b st st'
      using that bind_destination_bound [of network b "fst st" "snd st" "fst st'" "snd st'" "set bs"]
      by (simp add: split_beta)
  qed
  then show ?thesis by simp
qed

definition bound_hops :: "route_next_hop_binding set \<Rightarrow> (node_id, route_next_hop_binding) fmap \<Rightarrow> bool" where
  "bound_hops B m \<longleftrightarrow> (\<forall>n h. fmlookup m n = Some h \<longrightarrow>
     h \<in> B \<and> nb_node h = n \<and> private_prefix (IpPrefix (V4 (nb_address h)) 32) = Inr ())"

lemma bind_next_hops_bound:
  assumes "foldR (bind_next_hop network) bs (fmempty, fmempty) = Inr hops"
  shows "bound_hops (set bs) (fst hops)"
  by (rule foldR_invariant [OF assms])
    (auto simp: bound_hops_def bind_next_hop_def bindR_eq_Inr ip_prefix_new_Inr split: if_splits prod.splits)

section \<open>The projected routes\<close>

text \<open>The route that an intent stands for under the bindings.\<close>

definition projected ::
  "network_id \<Rightarrow> route \<Rightarrow> ip_prefix \<Rightarrow> route_next_hop_binding \<Rightarrow> linux_route" where
  "projected network i p h = LinuxRoute p
     (if rt_destination i = Node (rt_next_hop i) then None else Some (V4 (nb_address h)))
     (nb_interface h) (rt_cost i) network"

lemma project_route_Inr:
  assumes "project_route network dm hm i out = Inr out'"
    and "bound_destinations B dm ps" and "bound_hops H hm"
  obtains p h where "fmlookup dm (rt_destination i) = Some p" "fmlookup hm (rt_next_hop i) = Some h"
    "fmlookup out p = None" "out' = fmupd p (projected network i p h) out"
    "validate_owned (projected network i p h) network = Inr ()"
proof -
  from assms(1) obtain p h where p: "fmlookup dm (rt_destination i) = Some p"
    and h: "fmlookup hm (rt_next_hop i) = Some h" and free: "fmlookup out p = None" and cost: "rt_cost i \<noteq> 0"
    and direct: "rt_destination i = Node (rt_next_hop i) \<longrightarrow> pfx_address p = V4 (nb_address h)"
    and peer: "pfx_len p = 32 \<and> pfx_address p = V4 (nb_address h) \<longrightarrow> rt_destination i = Node (rt_next_hop i)"
    and out: "out' = fmupd p (LinuxRoute p
      (if pfx_len p = 32 \<and> pfx_address p = V4 (nb_address h) then None else Some (V4 (nb_address h)))
      (nb_interface h) (rt_cost i) network) out"
    by (auto simp: project_route_def bindR_eq_Inr ok_or_eq_Inr split: if_splits)
  have priv: "private_prefix p = Inr ()" and host: "\<forall>n. rt_destination i = Node n \<longrightarrow> pfx_len p = 32"
    using assms(2) p unfolding bound_destinations_def by blast+
  have via: "private_prefix (IpPrefix (V4 (nb_address h)) 32) = Inr ()"
    using assms(3) h unfolding bound_hops_def by blast
  have same: "pfx_len p = 32 \<and> pfx_address p = V4 (nb_address h) \<longleftrightarrow> rt_destination i = Node (rt_next_hop i)"
    using direct peer host by blast
  show thesis
  proof (rule that [OF p h free])
    show "out' = fmupd p (projected network i p h) out" using out unfolding same projected_def .
    show "validate_owned (projected network i p h) network = Inr ()"
      using priv via cost same by (auto simp: validate_owned_def projected_def ip_prefix_new_def)
  qed
qed

text \<open>What the projection loop leaves in its output map.\<close>

definition projection ::
  "network_id \<Rightarrow> route_destination_binding set \<Rightarrow> route_next_hop_binding set \<Rightarrow> (route_destination, ip_prefix) fmap \<Rightarrow>
   route list \<Rightarrow> (ip_prefix, linux_route) fmap \<Rightarrow> bool" where
  "projection network B H dm intents out \<longleftrightarrow>
     (\<forall>p r. fmlookup out p = Some r \<longrightarrow> lr_destination r = p \<and> validate_owned r network = Inr ()) \<and>
     (\<forall>i \<in> set intents. \<exists>p h. h \<in> H \<and> nb_node h = rt_next_hop i \<and>
        fmlookup dm (rt_destination i) = Some p \<and> fmlookup out p = Some (projected network i p h)) \<and>
     fcard (fmdom out) = length intents"

lemma project_routes_projection:
  assumes "foldR (project_route network dm hm) intents out = Inr out'"
    and bd: "bound_destinations B dm ps" and bh: "bound_hops H hm" and "projection network B H dm seen out"
  shows "projection network B H dm (seen @ intents) out'"
  using assms(1,4)
proof (induction intents arbitrary: seen out)
  case Nil
  then show ?case by simp
next
  case (Cons i intents)
  obtain out1 where step: "project_route network dm hm i out = Inr out1"
    and rest: "foldR (project_route network dm hm) intents out1 = Inr out'"
    using Cons.prems(1) by (auto simp: bindR_eq_Inr)
  obtain p h where p: "fmlookup dm (rt_destination i) = Some p" and h: "fmlookup hm (rt_next_hop i) = Some h"
    and free: "fmlookup out p = None" and out1: "out1 = fmupd p (projected network i p h) out"
    and valid: "validate_owned (projected network i p h) network = Inr ()"
    by (rule project_route_Inr [OF step bd bh])
  have hop: "h \<in> H" "nb_node h = rt_next_hop i" using bh h unfolding bound_hops_def by blast+
  have "p |\<notin>| fmdom out" using free by (simp add: fmlookup_dom_iff)
  then have size: "fcard (fmdom out1) = length (seen @ [i])"
    using Cons.prems(2) by (simp add: out1 projection_def fcard_finsert_disjoint)
  have keep: "fmlookup out q = Some r \<Longrightarrow> fmlookup out1 q = Some r" for q r
    using free by (auto simp: out1)
  have new: "fmlookup out1 p = Some (projected network i p h)" by (simp add: out1)
  have all: "\<exists>p h. h \<in> H \<and> nb_node h = rt_next_hop j \<and> fmlookup dm (rt_destination j) = Some p \<and>
      fmlookup out1 p = Some (projected network j p h)" if "j \<in> set (seen @ [i])" for j
  proof (cases "j = i")
    case True
    then show ?thesis using hop p new by blast
  next
    case False
    then have "j \<in> set seen" using that by simp
    then show ?thesis using Cons.prems(2) keep unfolding projection_def by blast
  qed
  have "lr_destination r = q \<and> validate_owned r network = Inr ()" if "fmlookup out1 q = Some r" for q r
    using that valid Cons.prems(2) by (auto simp: out1 projected_def projection_def split: if_splits)
  then have "projection network B H dm (seen @ [i]) out1"
    unfolding projection_def using all size by blast
  from Cons.IH [OF rest this] show ?case by simp
qed

lemma project_Inr:
  assumes "project_ipv4_route_intents network routes destinations next_hops = Inr out"
  obtains dm ps table where "projection network (set destinations) (set next_hops) dm routes table"
    "bound_destinations (set destinations) dm ps" "out = map snd (sorted_list_of_fmap table)" "network \<noteq> zero_ident"
proof -
  obtain dm ps hops table where d: "foldR (bind_destination network) destinations (fmempty, {||}) = Inr (dm, ps)"
    and h: "foldR (bind_next_hop network) next_hops (fmempty, fmempty) = Inr hops"
    and o: "foldR (project_route network dm (fst hops)) routes fmempty = Inr table"
    and out: "out = map snd (sorted_list_of_fmap table)" and n: "network \<noteq> zero_ident"
    using assms unfolding nonzero_iff project_ipv4_route_intents_def
    by (auto simp: nonzero_iff bindR_eq_Inr split: if_splits)
  note B = bind_destinations_bound [OF d] and H = bind_next_hops_bound [OF h]
  have "projection network (set destinations) (set next_hops) dm [] fmempty" by (simp add: projection_def)
  from project_routes_projection [OF o B H this]
  show thesis by (intro that [OF _ B out n]) simp
qed


lemma project_out:
  assumes "project_ipv4_route_intents network routes destinations next_hops = Inr out"
  shows "sorted_wrt (<) (map lr_destination out)" and "length out = length routes"
    and "\<forall>r \<in> set out. validate_owned r network = Inr ()" and "network \<noteq> zero_ident"
    and "i \<in> set routes \<Longrightarrow> \<exists>b \<in> set destinations. \<exists>h \<in> set next_hops. db_destination b = rt_destination i \<and>
      nb_node h = rt_next_hop i \<and> projected network i (db_prefix b) h \<in> set out"
proof -
  obtain dm ps table where P: "projection network (set destinations) (set next_hops) dm routes table"
    and B: "bound_destinations (set destinations) dm ps" and out: "out = map snd (sorted_list_of_fmap table)"
    and n: "network \<noteq> zero_ident"
    by (rule project_Inr [OF assms])
  have dest: "map lr_destination out = map fst (sorted_list_of_fmap table)"
    unfolding out map_map
    by (rule map_cong [OF refl]) (use P in \<open>auto simp: set_sorted_list_of_fmap projection_def\<close>)
  show "sorted_wrt (<) (map lr_destination out)"
    unfolding dest by (simp add: sorted_list_of_fmap_def o_def strict_sorted_iff)
  show "length out = length routes"
    using P by (simp add: out sorted_list_of_fmap_def projection_def fcard.rep_eq sorted_list_of_fset.rep_eq)
  have "validate_owned r network = Inr ()" if "fmlookup table p = Some r" for p r
    using P that unfolding projection_def by blast
  then show "\<forall>r \<in> set out. validate_owned r network = Inr ()"
    by (auto simp: out set_sorted_list_of_fmap)
  show "network \<noteq> zero_ident" by (rule n)
  show "\<exists>b \<in> set destinations. \<exists>h \<in> set next_hops. db_destination b = rt_destination i \<and>
      nb_node h = rt_next_hop i \<and> projected network i (db_prefix b) h \<in> set out" if i: "i \<in> set routes"
  proof -
    from P i have "\<exists>p h. h \<in> set next_hops \<and> nb_node h = rt_next_hop i \<and>
        fmlookup dm (rt_destination i) = Some p \<and> fmlookup table p = Some (projected network i p h)"
      unfolding projection_def by (elim conjE) (rule bspec)
    then obtain p h where h: "h \<in> set next_hops" "nb_node h = rt_next_hop i"
      and p: "fmlookup dm (rt_destination i) = Some p" and o: "fmlookup table p = Some (projected network i p h)"
      by (elim exE conjE)
    obtain b where "b \<in> set destinations" "db_destination b = rt_destination i" "db_prefix b = p"
      using B p unfolding bound_destinations_def by blast
    moreover have "projected network i p h \<in> set out"
      unfolding out by (simp add: image_iff set_sorted_list_of_fmap) (rule exI [of _ p], rule o)
    ultimately show ?thesis using h by blast
  qed
qed

text \<open>The IPv4 addresses a prefix covers.\<close>

definition prefix_covers :: "ip_prefix \<Rightarrow> u32 \<Rightarrow> bool" where
  "prefix_covers p a \<longleftrightarrow>
     (case pfx_address p of V4 bits \<Rightarrow> a AND push_bit (32 - unat (pfx_len p)) (- 1) = bits | V6 _ \<Rightarrow> False)"

lemma validate_owned_Inr:
  "validate_owned r network = Inr () \<longleftrightarrow> lr_owner r = network \<and> private_prefix (lr_destination r) = Inr () \<and>
     lr_metric r \<noteq> 0 \<and> (\<forall>via. lr_via r = Some via \<longrightarrow> private_prefix (IpPrefix via 32) = Inr () \<and>
       \<not> (pfx_len (lr_destination r) = 32 \<and> pfx_address (lr_destination r) = via))"
proof (cases "lr_via r")
  case (Some via)
  have "ip_prefix_new via 32 = Inr (IpPrefix via 32)" by (cases via) (simp_all add: ip_prefix_new_def)
  with Some show ?thesis by (auto simp: validate_owned_def bindR_eq_Inr)
qed (auto simp: validate_owned_def bindR_eq_Inr)

lemma private_covers:
  "private_prefix p = Inr () \<Longrightarrow> prefix_covers p a \<Longrightarrow> rfc1918 a 32"
  by (auto simp: private_prefix_Inr prefix_covers_def intro: private_prefix_members)

text \<open>C16: a successful projection gives every intent its kernel route, in ascending order of distinct
  prefixes and nothing more: the route has the prefix bound to the intent's destination, leaves through
  the interface of the next hop, and goes via the next hop's address unless the destination is the next
  hop itself. Every such route passes the reconciliation's own validation, and covers private addresses
  only.\<close>

theorem route_projection_correct:
  assumes "project_ipv4_route_intents network routes destinations next_hops = Inr out"
  shows "sorted_wrt (<) (map lr_destination out) \<and> length out = length routes \<and>
    (\<forall>i \<in> set routes. \<exists>b \<in> set destinations. \<exists>h \<in> set next_hops. db_destination b = rt_destination i \<and>
       nb_node h = rt_next_hop i \<and> projected network i (db_prefix b) h \<in> set out) \<and>
    (\<forall>r \<in> set out. validate_owned r network = Inr () \<and>
       (\<forall>a. prefix_covers (lr_destination r) a \<longrightarrow> rfc1918 a 32))"
proof (intro conjI ballI allI impI)
  note P = project_out [OF assms]
  show "sorted_wrt (<) (map lr_destination out)" "length out = length routes" by (fact P)+
  show "\<exists>b \<in> set destinations. \<exists>h \<in> set next_hops. db_destination b = rt_destination i \<and>
       nb_node h = rt_next_hop i \<and> projected network i (db_prefix b) h \<in> set out" if "i \<in> set routes" for i
    by (rule P(5) [OF that])
  show "validate_owned r network = Inr ()" if "r \<in> set out" for r using P(3) that by blast
  show "rfc1918 a 32" if "r \<in> set out" "prefix_covers (lr_destination r) a" for r a
    using P(3) that private_covers by (auto simp: validate_owned_Inr)
qed

section \<open>What a plan does\<close>

interpretation linux_diff: route_diff lr_destination "\<lambda>r. lr_owner r = network"
  "\<lambda>r. validate_owned r network = Inr ()" "\<lambda>r. validate_owned r network = Inr ()" canonical
  "want_linux_route network" "note_observed_linux network" for network
proof unfold_locales
  show "note_observed_linux network wanted r (e, f) = Inr st \<longleftrightarrow>
      (\<exists>d. canonical (lr_destination r) = Inr d \<and>
        (if lr_owner r = network
         then validate_owned r network = Inr () \<and> d = lr_destination r \<and> fmlookup e d = None \<and> st = (fmupd d r e, f)
         else fmlookup wanted d = None \<and> st = (e, finsert d f)))" for wanted r e f st
    by (cases "canonical (lr_destination r)")
      (auto simp: note_observed_linux_def bindR_eq_Inr split: if_splits)
qed (auto simp: want_linux_route_def bindR_eq_Inr validate_owned_Inr)

definition linux_owned :: "network_id \<Rightarrow> linux_route list \<Rightarrow> linux_route set" where
  "linux_owned network rs = {r \<in> set rs. lr_owner r = network}"

definition linux_foreign :: "network_id \<Rightarrow> linux_route list \<Rightarrow> linux_route set" where
  "linux_foreign network rs = {r \<in> set rs. lr_owner r \<noteq> network}"

definition apply_linux_plan ::
  "network_id \<Rightarrow> linux_route_reconciliation_plan \<Rightarrow> linux_route set \<Rightarrow> linux_route set" where
  "apply_linux_plan network plan R =
     fold (put_route (\<lambda>r. lr_owner r = network) lr_destination) (lp_upsert plan) R - set (lp_remove plan)"

lemma linux_plan_Inr:
  assumes "plan_linux_route_reconciliation network desired observed = Inr plan"
  obtains wanted existing foreign
    where "foldR (want_linux_route network) desired fmempty = Inr wanted"
    and "foldR (note_observed_linux network wanted) observed (fmempty, {||}) = Inr (existing, foreign)"
    and "\<not> list_ex (\<lambda>key. key |\<in>| foreign) (sorted_list_of_fset (fmdom existing))"
    and "lp_upsert plan = map snd (filter (\<lambda>(d, r). fmlookup existing d \<noteq> Some r) (sorted_list_of_fmap wanted))"
    and "lp_remove plan = map snd (filter (\<lambda>(d, _). fmlookup wanted d = None) (sorted_list_of_fmap existing))"
  using assms by (auto simp: plan_linux_route_reconciliation_def bindR_eq_Inr split: if_splits prod.splits)

lemma linux_plan_facts:
  assumes "plan_linux_route_reconciliation network desired observed = Inr plan"
  shows "set (lp_upsert plan) = set desired - {r \<in> set observed. lr_owner r = network}"
    and "set (lp_remove plan) = {r \<in> set observed. lr_owner r = network \<and> lr_destination r \<notin> lr_destination ` set desired}"
    and "distinct (map lr_destination (lp_upsert plan))" and "distinct (map lr_destination (lp_remove plan))"
    and "\<forall>r \<in> set desired. validate_owned r network = Inr ()" and "distinct (map lr_destination desired)"
    and "r \<in> set observed \<Longrightarrow> q \<in> set observed \<Longrightarrow> lr_owner r = network \<Longrightarrow> lr_owner q = network \<Longrightarrow>
      lr_destination r = lr_destination q \<Longrightarrow> r = q"
    and "p \<in> set observed \<Longrightarrow> lr_owner p \<noteq> network \<Longrightarrow> \<exists>d. canonical (lr_destination p) = Inr d \<and>
      d \<notin> lr_destination ` (set desired \<union> {r \<in> set observed. lr_owner r = network})"
proof -
  obtain wanted existing foreign
    where w: "foldR (want_linux_route network) desired fmempty = Inr wanted"
    and e: "foldR (note_observed_linux network wanted) observed (fmempty, {||}) = Inr (existing, foreign)"
    and clash: "\<not> list_ex (\<lambda>key. key |\<in>| foreign) (sorted_list_of_fset (fmdom existing))"
    and up: "lp_upsert plan = map snd (filter (\<lambda>(d, r). fmlookup existing d \<noteq> Some r) (sorted_list_of_fmap wanted))"
    and rm: "lp_remove plan = map snd (filter (\<lambda>(d, _). fmlookup wanted d = None) (sorted_list_of_fmap existing))"
    by (rule linux_plan_Inr [OF assms])
  note F = linux_diff.diff_facts [OF w e clash up rm]
  show "set (lp_upsert plan) = set desired - {r \<in> set observed. lr_owner r = network}"
    "set (lp_remove plan) = {r \<in> set observed. lr_owner r = network \<and> lr_destination r \<notin> lr_destination ` set desired}"
    "distinct (map lr_destination (lp_upsert plan))" "distinct (map lr_destination (lp_remove plan))"
    "\<forall>r \<in> set desired. validate_owned r network = Inr ()" "distinct (map lr_destination desired)"
    by (fact F(1-6))+
  show "r \<in> set observed \<Longrightarrow> q \<in> set observed \<Longrightarrow> lr_owner r = network \<Longrightarrow> lr_owner q = network \<Longrightarrow>
      lr_destination r = lr_destination q \<Longrightarrow> r = q" by (fact F(7))
  show "p \<in> set observed \<Longrightarrow> lr_owner p \<noteq> network \<Longrightarrow> \<exists>d. canonical (lr_destination p) = Inr d \<and>
      d \<notin> lr_destination ` (set desired \<union> {r \<in> set observed. lr_owner r = network})" by (fact F(8))
qed

lemma apply_linux_plan_result:
  assumes "plan_linux_route_reconciliation network desired observed = Inr plan"
  shows "apply_linux_plan network plan (set observed) = set desired \<union> linux_foreign network observed"
proof -
  note F = linux_plan_facts [OF assms]
  show ?thesis unfolding apply_linux_plan_def linux_foreign_def
    by (rule linux_diff.diff_result) (use F(1-6) in \<open>auto intro: F(7)\<close>)
qed

text \<open>A Linux route plan is right. Applied to the observed kernel routes it leaves exactly the desired
  routes of the network and every foreign route; no change touches the effective destination of a foreign
  route; and it is empty exactly when the owned routes are the desired ones already.\<close>

theorem linux_plan_correct:
  assumes "plan_linux_route_reconciliation network desired observed = Inr plan"
  shows "apply_linux_plan network plan (set observed) = set desired \<union> linux_foreign network observed \<and>
    (\<forall>f \<in> linux_foreign network observed. \<exists>d. canonical (lr_destination f) = Inr d \<and>
       d \<notin> lr_destination ` set (lp_upsert plan @ lp_remove plan)) \<and>
    (lp_upsert plan = [] \<and> lp_remove plan = [] \<longleftrightarrow> linux_owned network observed = set desired)"
proof (intro conjI)
  note F = linux_plan_facts [OF assms]
  show "apply_linux_plan network plan (set observed) = set desired \<union> linux_foreign network observed"
    by (rule apply_linux_plan_result [OF assms])
  have "lr_destination ` set (lp_upsert plan @ lp_remove plan) \<subseteq>
      lr_destination ` (set desired \<union> {r \<in> set observed. lr_owner r = network})"
    unfolding set_append F(1,2) by auto
  note touched = this
  show "\<forall>f \<in> linux_foreign network observed. \<exists>d. canonical (lr_destination f) = Inr d \<and>
       d \<notin> lr_destination ` set (lp_upsert plan @ lp_remove plan)"
  proof
    fix f assume "f \<in> linux_foreign network observed"
    then have "f \<in> set observed" "lr_owner f \<noteq> network" by (simp_all add: linux_foreign_def)
    from F(8) [OF this] obtain d where "canonical (lr_destination f) = Inr d"
      "d \<notin> lr_destination ` (set desired \<union> {r \<in> set observed. lr_owner r = network})" by (elim exE conjE)
    then show "\<exists>d. canonical (lr_destination f) = Inr d \<and> d \<notin> lr_destination ` set (lp_upsert plan @ lp_remove plan)"
      using subsetD [OF touched] by (intro exI [of _ d] conjI) blast+
  qed
  show "lp_upsert plan = [] \<and> lp_remove plan = [] \<longleftrightarrow> linux_owned network observed = set desired"
    unfolding linux_owned_def by (rule linux_diff.diff_idle [OF F(1,2)]) (rule F(7))
qed

text \<open>A table the plan accepts.\<close>

definition clean_kernel :: "network_id \<Rightarrow> ip_prefix set \<Rightarrow> linux_route list \<Rightarrow> bool" where
  "clean_kernel network D observed \<longleftrightarrow>
     clean_table (\<lambda>r. lr_owner r = network) lr_destination (\<lambda>r. validate_owned r network = Inr ()) canonical D observed"

lemma linux_plan_exists:
  assumes "network \<noteq> zero_ident" and v: "\<forall>r \<in> set desired. validate_owned r network = Inr ()"
    and d: "distinct (map lr_destination desired)" and "clean_kernel network (lr_destination ` set desired) observed"
  shows "\<exists>plan. plan_linux_route_reconciliation network desired observed = Inr plan"
  by (rule linux_diff.diff_exists [OF v d assms(4) [unfolded clean_kernel_def]])
    (simp add: plan_linux_route_reconciliation_def assms(1))

section \<open>Sample tables\<close>

text \<open>Two hosts of the private network 10.0.0.0/8 behind one interface: the peer 10.0.0.2 on the link, and
  10.0.0.9 behind it.\<close>

definition host_prefix :: "u32 \<Rightarrow> ip_prefix" where
  "host_prefix a = IpPrefix (V4 a) 32"

definition sample_interface :: network_interface_handle where
  "sample_interface = InterfaceHandle [98, 110, 101, 112, 48]"

definition sample_destinations :: "route_destination_binding list" where
  "sample_destinations =
     [\<lparr>db_network = byte_ident 8, db_destination = Node (byte_ident 2), db_prefix = host_prefix 0x0a000002\<rparr>,
      \<lparr>db_network = byte_ident 8, db_destination = Node (byte_ident 3), db_prefix = host_prefix 0x0a000009\<rparr>]"

definition sample_next_hops :: "route_next_hop_binding list" where
  "sample_next_hops =
     [\<lparr>nb_network = byte_ident 8, nb_node = byte_ident 2, nb_address = 0x0a000002, nb_interface = sample_interface\<rparr>]"

definition sample_intents :: "route list" where
  "sample_intents =
     [Route (Node (byte_ident 3)) (byte_ident 2) 7 (BlueRouteNetwork (byte_ident 8)),
      Route (Node (byte_ident 2)) (byte_ident 2) 4 (BlueRouteNetwork (byte_ident 8))]"

definition sample_linux_routes :: "linux_route list" where
  "sample_linux_routes =
     [LinuxRoute (host_prefix 0x0a000002) None sample_interface 4 (byte_ident 8),
      LinuxRoute (host_prefix 0x0a000009) (Some (V4 0x0a000002)) sample_interface 7 (byte_ident 8)]"

lemma private_host: "rfc1918 a 32 \<Longrightarrow> private_prefix (host_prefix a) = Inr ()"
  by (simp add: private_prefix_Inr host_prefix_def)

lemma sample_private [simp]:
  "private_prefix (host_prefix 0x0a000002) = Inr ()" "private_prefix (host_prefix 0x0a000009) = Inr ()"
  by (rule private_host, simp add: rfc1918_def)+

lemma host_prefix_simps [simp]:
  "pfx_address (host_prefix a) = V4 a" "pfx_len (host_prefix a) = 32" "ip_prefix_new (V4 a) 32 = Inr (host_prefix a)"
  "host_prefix a = host_prefix b \<longleftrightarrow> a = b" "host_prefix a \<le> host_prefix b \<longleftrightarrow> a \<le> b"
  by (auto simp: host_prefix_def ip_prefix_new_def derived_orders word_le_nat_alt)

lemma sample_projection:
  "project_ipv4_route_intents (byte_ident 8) sample_intents sample_destinations sample_next_hops =
   Inr sample_linux_routes"
  by (simp add: project_ipv4_route_intents_def sample_intents_def sample_destinations_def sample_next_hops_def
      sample_linux_routes_def bind_destination_def bind_next_hop_def check_destination_alias_def project_route_def
      destination_valid_def nonzero_iff sorted_list_of_fmap_def sorted_list_of_fset_eval)

theorem route_projection_correct_witness:
  "project_ipv4_route_intents (byte_ident 8) sample_intents sample_destinations sample_next_hops =
     Inr sample_linux_routes \<and> list_all (\<lambda>r. validate_owned r (byte_ident 8) = Inr ()) sample_linux_routes"
  using sample_projection route_projection_correct [OF sample_projection] by (intro conjI) (simp_all add: list_all_iff)

lemma sample_valid: "\<forall>r \<in> set sample_linux_routes. validate_owned r (byte_ident 8) = Inr ()"
  by (rule project_out [OF sample_projection])

definition sample_kernel :: "linux_route list" where
  "sample_kernel =
     [LinuxRoute (host_prefix 0x0a000005) None sample_interface 1 (byte_ident 7),
      LinuxRoute (host_prefix 0x0a000002) None sample_interface 9 (byte_ident 8)]"

lemma sample_linux_plan:
  "plan_linux_route_reconciliation (byte_ident 8) sample_linux_routes sample_kernel =
   Inr \<lparr>lp_upsert = sample_linux_routes, lp_remove = []\<rparr>"
proof -
  have "canonical (host_prefix 0x0a000005) = Inr (host_prefix 0x0a000005)"
    by (rule private_canonical, rule private_host) (simp add: rfc1918_def)
  then show ?thesis
    by (simp add: plan_linux_route_reconciliation_def sample_kernel_def sample_linux_routes_def want_linux_route_def
      note_observed_linux_def validate_owned_def private_canonical sorted_list_of_fmap_def sorted_list_of_fset_eval)
qed

theorem linux_plan_correct_witness:
  "plan_linux_route_reconciliation (byte_ident 8) sample_linux_routes sample_kernel =
     Inr \<lparr>lp_upsert = sample_linux_routes, lp_remove = []\<rparr> \<and>
   apply_linux_plan (byte_ident 8) \<lparr>lp_upsert = sample_linux_routes, lp_remove = []\<rparr> (set sample_kernel) =
     set sample_linux_routes \<union> {LinuxRoute (host_prefix 0x0a000005) None sample_interface 1 (byte_ident 7)}"
proof
  have "linux_foreign (byte_ident 8) sample_kernel =
      {LinuxRoute (host_prefix 0x0a000005) None sample_interface 1 (byte_ident 7)}"
    by (auto simp: linux_foreign_def sample_kernel_def)
  then show "apply_linux_plan (byte_ident 8) \<lparr>lp_upsert = sample_linux_routes, lp_remove = []\<rparr> (set sample_kernel) =
     set sample_linux_routes \<union> {LinuxRoute (host_prefix 0x0a000005) None sample_interface 1 (byte_ident 7)}"
    using linux_plan_correct [OF sample_linux_plan] by simp
qed (rule sample_linux_plan)

end
