(* ===== verification/Linux_Route_Executor.thy ===== *)
theory Linux_Route_Executor
  imports Linux_Route
begin

text \<open>
  \<open>crates/blueroute-linux/src/route_executor.rs\<close>: the application of a kernel route plan through the
  privileged operator, observed before and after every change. The trait \<open>LinuxOwnedRouteOperator\<close> is a record
  of three effects on an arbitrary state; nothing is assumed of it unless a theorem says so.
\<close>

section \<open>The order of a snapshot\<close>

fun linux_route_key ::
  "linux_route \<Rightarrow> ip_prefix \<times> network_interface_handle \<times> ip_addr option \<times> u32 \<times> network_id" where
  "linux_route_key (LinuxRoute d v i m n) = (d, i, v, m, n)"

lemma linux_route_key_inj [simp]: "linux_route_key a = linux_route_key b \<longleftrightarrow> a = b"
  by (cases a; cases b) auto

instantiation linux_route :: linorder
begin

definition less_eq_linux_route :: "linux_route \<Rightarrow> linux_route \<Rightarrow> bool" where
  "less_eq_linux_route a b \<longleftrightarrow> linux_route_key a \<le> linux_route_key b"

definition less_linux_route :: "linux_route \<Rightarrow> linux_route \<Rightarrow> bool" where
  "less_linux_route a b \<longleftrightarrow> linux_route_key a < linux_route_key b"

instance
  by standard (auto simp only: less_eq_linux_route_def less_linux_route_def less_le_not_le
      intro: order_trans linear dest: antisym [THEN linux_route_key_inj [THEN iffD1]])

end




section \<open>Operations\<close>








section \<open>A report is what was observed\<close>



section \<open>A kernel that keeps its contract\<close>







end
