(* ===== verification/Linux_Files.thy ===== *)
theory Linux_Files
  imports Ids
begin

text \<open>
  The file system as the Linux adapters use it: paths, the errors of \<open>std::io\<close> by the kinds the code looks at, and
  the calls of \<open>std::fs\<close> as a record of operations on an arbitrary state. Reasoning about sequences of such calls
  goes by triples of a precondition, an effect and a postcondition on its result and the state behind it.
\<close>

section \<open>Paths and texts\<close>

text \<open>An absolute path is the list of its components below the root.\<close>

type_synonym path = "string list"

definition path_join :: "path \<Rightarrow> string \<Rightarrow> path" where
  "path_join p name = p @ [name]"

definition path_parent :: "path \<Rightarrow> path option" where
  "path_parent p = (if p = [] then None else Some (butlast p))"

definition path_display :: "path \<Rightarrow> string" where
  "path_display p = (if p = [] then ''/'' else concat (map (\<lambda>c. CHR ''/'' # c) p))"

text \<open>\<open>str::trim\<close>, \<open>str::lines\<close> (a line ends at \<open>\n\<close> or \<open>\r\n\<close>, and a last empty line is none) and the quoted form
  \<open>{:?}\<close> of a text.\<close>

definition trim_text :: "string \<Rightarrow> string" where
  "trim_text s = map char_of (trim (map of_char s))"

definition strip_cr :: "string \<Rightarrow> string" where
  "strip_cr l = (if l \<noteq> [] \<and> last l = CHR 0x0D then butlast l else l)"

fun text_lines_from :: "string \<Rightarrow> string \<Rightarrow> string list" where
  "text_lines_from line [] = (if line = [] then [] else [line])"
| "text_lines_from line (c # s) =
     (if c = CHR 0x0A then strip_cr line # text_lines_from [] s else text_lines_from (line @ [c]) s)"

definition text_lines :: "string \<Rightarrow> string list" where
  "text_lines s = text_lines_from [] s"

lemma digit_chars: "char_of (48::nat) = CHR ''0''" "char_of (49::nat) = CHR ''1''" "char_of (50::nat) = CHR ''2''"
proof -
  have "of_char (CHR ''0'') = (48::nat)" "of_char (CHR ''1'') = (49::nat)" "of_char (CHR ''2'') = (50::nat)" by simp_all
  then show "char_of (48::nat) = CHR ''0''" "char_of (49::nat) = CHR ''1''" "char_of (50::nat) = CHR ''2''"
    by (metis char_of_char)+
qed

text \<open>Lines that are written one after another, each ended by \<open>\n\<close>, are read again.\<close>

definition unlines :: "string list \<Rightarrow> string" where
  "unlines ls = concat (map (\<lambda>l. l @ [CHR 0x0A]) ls)"

definition plain_line :: "string \<Rightarrow> bool" where
  "plain_line l \<longleftrightarrow> CHR 0x0A \<notin> set l \<and> CHR 0x0D \<notin> set l"

lemma unlines_simps [simp]:
  "unlines [] = []" "unlines (l # ls) = l @ CHR 0x0A # unlines ls" "unlines (ls @ ls') = unlines ls @ unlines ls'"
  by (simp_all add: unlines_def)

lemma text_lines_from_line:
  "CHR 0x0A \<notin> set l \<Longrightarrow> text_lines_from line (l @ s) = text_lines_from (line @ l) s"
  by (induction l arbitrary: line) auto

lemma strip_cr_plain [simp]: "CHR 0x0D \<notin> set l \<Longrightarrow> strip_cr l = l"
  by (auto simp: strip_cr_def dest: last_in_set)

lemma text_lines_unlines: "list_all plain_line ls \<Longrightarrow> text_lines (unlines ls) = ls"
  by (induction ls) (simp_all add: text_lines_def text_lines_from_line plain_line_def)

definition quote_char :: "char \<Rightarrow> string" where
  "quote_char c =
     (if c = CHR 0x22 then [CHR 0x5C, CHR 0x22]
      else if c = CHR 0x5C then [CHR 0x5C, CHR 0x5C]
      else if c = CHR 0x0A then [CHR 0x5C, CHR ''n'']
      else if c = CHR 0x0D then [CHR 0x5C, CHR ''r'']
      else if c = CHR 0x09 then [CHR 0x5C, CHR ''t'']
      else if c = CHR 0x00 then [CHR 0x5C, CHR ''0'']
      else if is_control (of_char c) then [CHR 0x5C, CHR ''u'', CHR 0x7B] @ show_hex (of_char c) @ [CHR 0x7D]
      else [c])"

definition show_debug :: "string \<Rightarrow> string" where
  "show_debug s = CHR 0x22 # concat (map quote_char s) @ [CHR 0x22]"

section \<open>File operations\<close>

datatype fs_error_kind = FsNotFound | FsAlreadyExists | FsOther

datatype fs_error = FsError (fs_kind: fs_error_kind) (fs_text: string)

type_synonym ('w, 'a) fs_call = "'w \<Rightarrow> (fs_error + 'a) \<times> 'w"

text \<open>The metadata the code reads: whether the entry is a regular file or a directory, its permission bits, the
  number of its names, its identity and its owner.\<close>

datatype file_metadata =
  FileMetadata (md_is_file: bool) (md_is_dir: bool) (md_mode: u32) (md_nlink: u64) (md_ino: u64) (md_dev: u64) (md_uid: u32)

record 'w file_system =
  fs_read_to_string :: "path \<Rightarrow> ('w, string) fs_call"
  fs_write :: "path \<Rightarrow> string \<Rightarrow> ('w, unit) fs_call"
  fs_symlink_metadata :: "path \<Rightarrow> ('w, file_metadata) fs_call"
  fs_set_permissions :: "path \<Rightarrow> u32 \<Rightarrow> ('w, unit) fs_call"
  fs_create_dir_all :: "path \<Rightarrow> ('w, unit) fs_call"
  fs_create_new :: "path \<Rightarrow> u32 \<Rightarrow> ('w, unit) fs_call"
  fs_write_all :: "path \<Rightarrow> string \<Rightarrow> ('w, unit) fs_call"
  fs_sync_all :: "path \<Rightarrow> ('w, unit) fs_call"
  fs_remove_file :: "path \<Rightarrow> ('w, unit) fs_call"

text \<open>A \<open>match\<close> on the result of a call, and \<open>map_err\<close> with \<open>?\<close>.\<close>

definition matchE :: "('w \<Rightarrow> 'r \<times> 'w) \<Rightarrow> ('r \<Rightarrow> ('w, 'b) eff) \<Rightarrow> ('w, 'b) eff" where
  "matchE m f w = (case m w of (r, w') \<Rightarrow> f r w')"

definition fs_tryE :: "(fs_error \<Rightarrow> core_error) \<Rightarrow> ('w, 'a) fs_call \<Rightarrow> ('w, 'a) eff" where
  "fs_tryE err m = matchE m (\<lambda>r. liftE (map_err err r))"

section \<open>Triples\<close>

definition triple :: "('w \<Rightarrow> bool) \<Rightarrow> ('w \<Rightarrow> 'r \<times> 'w) \<Rightarrow> ('r \<Rightarrow> 'w \<Rightarrow> bool) \<Rightarrow> bool" where
  "triple P m Q \<longleftrightarrow> (\<forall>w. P w \<longrightarrow> Q (fst (m w)) (snd (m w)))"

lemma tripleD: "triple P m Q \<Longrightarrow> P w \<Longrightarrow> m w = (r, w') \<Longrightarrow> Q r w'"
  by (metis fst_conv snd_conv triple_def)

lemma triple_weaken:
  assumes "triple P' m Q'" and "\<And>w. P w \<Longrightarrow> P' w" and "\<And>r w. Q' r w \<Longrightarrow> Q r w"
  shows "triple P m Q"
  using assms unfolding triple_def by blast

lemma triple_post: "triple P m Q' \<Longrightarrow> (\<And>r w. Q' r w \<Longrightarrow> Q r w) \<Longrightarrow> triple P m Q"
  unfolding triple_def by blast

lemma triple_pre: "triple P' m Q \<Longrightarrow> (\<And>w. P w \<Longrightarrow> P' w) \<Longrightarrow> triple P m Q"
  unfolding triple_def by blast

lemma triple_view: "(\<And>v. C v \<Longrightarrow> triple (\<lambda>w. view w = v) m Q) \<Longrightarrow> triple (\<lambda>w. C (view w)) m Q"
  unfolding triple_def by blast

lemma triple_retE: "(\<And>w. P w \<Longrightarrow> Q (Inr x) w) \<Longrightarrow> triple P (retE x) Q"
  by (simp add: triple_def)

lemma triple_raiseE: "(\<And>w. P w \<Longrightarrow> Q (Inl e) w) \<Longrightarrow> triple P (raiseE e) Q"
  by (simp add: triple_def)

lemma triple_liftE: "(\<And>w. P w \<Longrightarrow> Q r w) \<Longrightarrow> triple P (liftE r) Q"
  by (simp add: triple_def)

lemma triple_matchE:
  assumes "triple P m R" and "\<And>r. triple (R r) (f r) Q"
  shows "triple P (matchE m f) Q"
  unfolding triple_def matchE_def
proof (intro allI impI)
  fix w assume "P w"
  obtain r w' where m: "m w = (r, w')" by force
  with assms(1) \<open>P w\<close> have "R r w'" by (rule tripleD)
  then show "Q (fst (case m w of (r, w') \<Rightarrow> f r w')) (snd (case m w of (r, w') \<Rightarrow> f r w'))"
    using assms(2) [of r] m by (simp add: triple_def)
qed

lemma bindE_matchE: "bindE m f = matchE m (\<lambda>r. case r of Inl e \<Rightarrow> raiseE e | Inr x \<Rightarrow> f x)"
  by (auto simp: fun_eq_iff bindE_def matchE_def split: prod.splits sum.splits)

lemma bindE_liftE [simp]: "bindE (liftE (Inr x)) f = f x" "bindE (liftE (Inl e)) f = raiseE e"
  by (simp_all add: fun_eq_iff bindE_def)

lemma triple_bindE:
  assumes "triple P m R" and "\<And>x. triple (R (Inr x)) (f x) Q" and "\<And>e w. R (Inl e) w \<Longrightarrow> Q (Inl e) w"
  shows "triple P (bindE m f) Q"
  unfolding bindE_matchE
  by (rule triple_matchE [OF assms(1)]) (auto split: sum.splits intro: triple_raiseE assms(2,3))

lemma triple_fs_tryE:
  assumes "triple P m R" and "\<And>x w. R (Inr x) w \<Longrightarrow> Q (Inr x) w" and "\<And>e w. R (Inl e) w \<Longrightarrow> Q (Inl (err e)) w"
  shows "triple P (fs_tryE err m) Q"
  unfolding fs_tryE_def
proof (rule triple_matchE [OF assms(1)])
  fix r show "triple (R r) (liftE (map_err err r)) Q"
    using assms(2,3) by (cases r) (auto intro: triple_liftE)
qed

text \<open>Effects that leave what is looked at alone.\<close>

definition silent :: "('w \<Rightarrow> 'v) \<Rightarrow> ('w \<Rightarrow> 'r \<times> 'w) \<Rightarrow> bool" where
  "silent view m \<longleftrightarrow> (\<forall>v. triple (\<lambda>w. view w = v) m (\<lambda>r w. view w = v))"

lemma silent_triple: "silent view m \<Longrightarrow> triple (\<lambda>w. view w = v) m (\<lambda>r w. view w = v)"
  by (simp add: silent_def)

lemma silent_fs_tryE: "silent view m \<Longrightarrow> silent view (fs_tryE err m)"
  by (simp add: silent_def triple_def fs_tryE_def matchE_def split_beta)

end
