(* ===== verification/Linux_Forwarding.thy ===== *)
theory Linux_Forwarding
  imports Linux_Files Neighbor
begin

text \<open>
  \<open>crates/blueroute-linux/src/forwarding.rs\<close> and \<open>forwarding_reconciliation.rs\<close>: the kernel switch of IPv4
  forwarding, held through a lease file that remembers the value found before, and the decision over all
  topologies of the host.
\<close>

section \<open>The lease\<close>

definition IPV4_FORWARD_SYSCTL :: path where
  "IPV4_FORWARD_SYSCTL = [''proc'', ''sys'', ''net'', ''ipv4'', ''ip_forward'']"

definition RUNTIME_DIR :: path where
  "RUNTIME_DIR = [''run'', ''blueroute'']"

definition LEASE_FILE :: string where
  "LEASE_FILE = ''ipv4-forwarding-v1.state''"

definition LEASE_SCHEMA :: string where
  "LEASE_SCHEMA = ''1''"

definition LEASE_FILE_MODE :: u32 where
  "LEASE_FILE_MODE = 0x180"

record forwarding_controller =
  fc_sysctl_path :: path
  fc_lease_path :: path

definition forwarding_system :: forwarding_controller where
  "forwarding_system =
     \<lparr>fc_sysctl_path = IPV4_FORWARD_SYSCTL, fc_lease_path = path_join RUNTIME_DIR LEASE_FILE\<rparr>"

datatype forwarding_lease = ForwardingLease (fl_baseline: bool)

definition lease_serialize :: "forwarding_lease \<Rightarrow> string" where
  "lease_serialize lease =
     ''schema='' @ LEASE_SCHEMA @ [CHR 0x0A] @ ''baseline='' @ show_nat (if fl_baseline lease then 1 else 0) @ [CHR 0x0A]"

definition lease_parse :: "string \<Rightarrow> forwarding_lease core_result" where
  "lease_parse contents =
     (let lines = text_lines contents;
          schema = (case lines of [] \<Rightarrow> None | l # _ \<Rightarrow> Some l);
          baseline = (case drop 1 lines of [] \<Rightarrow> None | l # _ \<Rightarrow> Some l)
      in if schema \<noteq> Some ''schema=1'' \<or> drop 2 lines \<noteq> []
         then Inl (with_diagnostic InvalidState
                ''BlueRoute IPv4 forwarding lease is malformed or uses an unsupported schema'' contents)
         else if baseline = Some ''baseline=0'' then Inr (ForwardingLease False)
         else if baseline = Some ''baseline=1'' then Inr (ForwardingLease True)
         else Inl (with_diagnostic InvalidState
                ''BlueRoute IPv4 forwarding lease has an invalid baseline value'' contents))"

definition lease_io_error :: "string \<Rightarrow> path \<Rightarrow> fs_error \<Rightarrow> core_error" where
  "lease_io_error message path error =
     with_diagnostic NetworkBackendUnavailable message
       (''path='' @ path_display path @ '' error='' @ fs_text error)"

text \<open>\<open>Display\<close> of a \<open>CoreError\<close> is its message.\<close>

definition error_diagnostic :: "core_error \<Rightarrow> string" where
  "error_diagnostic error = (case err_diagnostic error of None \<Rightarrow> err_message error | Some d \<Rightarrow> d)"

definition combined_rollback_error :: "core_error \<Rightarrow> core_error \<Rightarrow> core_error" where
  "combined_rollback_error primary cleanup =
     with_diagnostic NetworkBackendUnavailable
       ''IPv4 forwarding operation failed and BlueRoute could not roll back its forwarding lease''
       (''primary-error='' @ error_diagnostic primary @ ''; lease-cleanup-error='' @ error_diagnostic cleanup)"

section \<open>Operations\<close>

definition read_forwarding_value :: "'w file_system \<Rightarrow> path \<Rightarrow> ('w, bool) eff" where
  "read_forwarding_value fs path =
     bindE (fs_tryE (lease_io_error ''failed to read kernel IPv4 forwarding state'' path) (fs_read_to_string fs path)) (\<lambda>v.
       if trim_text v = ''0'' then retE False
       else if trim_text v = ''1'' then retE True
       else raiseE (with_diagnostic InvalidState ''kernel IPv4 forwarding state is not 0 or 1''
              (''path='' @ path_display path @ '' value='' @ show_debug (trim_text v))))"

definition write_forwarding_value :: "'w file_system \<Rightarrow> path \<Rightarrow> bool \<Rightarrow> ('w, unit) eff" where
  "write_forwarding_value fs path enabled =
     fs_tryE (lease_io_error (if enabled then ''failed to enable kernel IPv4 forwarding''
                        else ''failed to restore kernel IPv4 forwarding state'') path)
       (fs_write fs path (if enabled then [CHR ''1'', CHR 0x0A] else [CHR ''0'', CHR 0x0A]))"

definition read_lease_contents :: "'w file_system \<Rightarrow> path \<Rightarrow> ('w, forwarding_lease option) eff" where
  "read_lease_contents fs path =
     matchE (fs_read_to_string fs path) (\<lambda>r. case r of
         Inr contents \<Rightarrow> bindE (liftE (lease_parse contents)) (\<lambda>lease. retE (Some lease))
       | Inl error \<Rightarrow>
           if fs_kind error = FsNotFound then retE None
           else raiseE (lease_io_error ''failed to read the BlueRoute IPv4 forwarding lease'' path error))"

definition read_lease :: "'w file_system \<Rightarrow> path \<Rightarrow> ('w, forwarding_lease option) eff" where
  "read_lease fs path =
     matchE (fs_symlink_metadata fs path) (\<lambda>r. case r of
         Inr metadata \<Rightarrow>
           if \<not> md_is_file metadata
           then raiseE (core_error_new InvalidState ''BlueRoute IPv4 forwarding lease is not a regular file'')
           else bindE (if md_mode metadata AND 0x3F \<noteq> 0
                  then fs_tryE (lease_io_error ''failed to secure the BlueRoute IPv4 forwarding lease'' path)
                         (fs_set_permissions fs path LEASE_FILE_MODE)
                  else retE ()) (\<lambda>_. read_lease_contents fs path)
       | Inl error \<Rightarrow>
           if fs_kind error = FsNotFound then retE None
           else raiseE (lease_io_error ''failed to inspect the BlueRoute IPv4 forwarding lease'' path error))"

definition remove_lease :: "'w file_system \<Rightarrow> path \<Rightarrow> ('w, unit) eff" where
  "remove_lease fs path =
     matchE (fs_remove_file fs path) (\<lambda>r. case r of
         Inr _ \<Rightarrow> retE ()
       | Inl error \<Rightarrow>
           if fs_kind error = FsNotFound then retE ()
           else raiseE (lease_io_error ''failed to remove the BlueRoute IPv4 forwarding lease'' path error))"

text \<open>The roll-back of a lease after a failure.\<close>

definition drop_lease_after :: "'w file_system \<Rightarrow> path \<Rightarrow> core_error \<Rightarrow> ('w, 'a) eff" where
  "drop_lease_after fs path write_error =
     matchE (remove_lease fs path) (\<lambda>r. case r of
         Inl cleanup_error \<Rightarrow> raiseE (combined_rollback_error write_error cleanup_error)
       | Inr _ \<Rightarrow> raiseE write_error)"

definition write_new_lease :: "'w file_system \<Rightarrow> path \<Rightarrow> string \<Rightarrow> ('w, unit) eff" where
  "write_new_lease fs path serialized =
     bindE (fs_tryE (lease_io_error ''failed to write the BlueRoute IPv4 forwarding lease'' path)
         (fs_write_all fs path serialized)) (\<lambda>_.
       fs_tryE (lease_io_error ''failed to synchronize the BlueRoute IPv4 forwarding lease'' path) (fs_sync_all fs path))"

definition create_lease :: "'w file_system \<Rightarrow> forwarding_controller \<Rightarrow> bool \<Rightarrow> ('w, bool) eff" where
  "create_lease fs c baseline =
     (let path = fc_lease_path c in
      bindE (liftE (ok_or (core_error_new Internal ''BlueRoute IPv4 forwarding lease path has no parent directory'')
          (path_parent path))) (\<lambda>parent.
      bindE (fs_tryE (lease_io_error ''failed to create the BlueRoute runtime directory for IPv4 forwarding'' parent)
          (fs_create_dir_all fs parent)) (\<lambda>_.
      matchE (fs_create_new fs path LEASE_FILE_MODE) (\<lambda>r. case r of
          Inr _ \<Rightarrow>
            matchE (write_new_lease fs path (lease_serialize (ForwardingLease baseline))) (\<lambda>written. case written of
                Inl write_error \<Rightarrow> drop_lease_after fs path write_error
              | Inr _ \<Rightarrow> retE True)
        | Inl error \<Rightarrow>
            if fs_kind error = FsAlreadyExists
            then bindE (read_lease fs path) (\<lambda>lease.
                   bindE (liftE (ok_or (core_error_new InvalidState
                       ''BlueRoute IPv4 forwarding lease disappeared during concurrent creation'') lease)) (\<lambda>_.
                     retE False))
            else raiseE (lease_io_error ''failed to create the BlueRoute IPv4 forwarding lease'' path error)))))"

definition forwarding_enable :: "'w file_system \<Rightarrow> forwarding_controller \<Rightarrow> ('w, unit) eff" where
  "forwarding_enable fs c =
     bindE (read_forwarding_value fs (fc_sysctl_path c)) (\<lambda>current.
     bindE (read_lease fs (fc_lease_path c)) (\<lambda>lease.
     bindE (case lease of Some _ \<Rightarrow> retE False | None \<Rightarrow> create_lease fs c current) (\<lambda>created.
       if current then retE ()
       else matchE (write_forwarding_value fs (fc_sysctl_path c) True) (\<lambda>written. case written of
           Inl write_error \<Rightarrow>
             if created then drop_lease_after fs (fc_lease_path c) write_error else raiseE write_error
         | Inr _ \<Rightarrow>
             matchE (read_forwarding_value fs (fc_sysctl_path c)) (\<lambda>after. case after of
                 Inr True \<Rightarrow> retE ()
               | Inr False \<Rightarrow>
                   bindE (if created then remove_lease fs (fc_lease_path c) else retE ()) (\<lambda>_.
                     raiseE (core_error_new NetworkBackendUnavailable
                       ''kernel IPv4 forwarding did not become enabled after the requested write''))
               | Inl error \<Rightarrow> raiseE error)))))"

definition forwarding_release :: "'w file_system \<Rightarrow> forwarding_controller \<Rightarrow> ('w, unit) eff" where
  "forwarding_release fs c =
     bindE (read_lease fs (fc_lease_path c)) (\<lambda>lease. case lease of
         None \<Rightarrow> retE ()
       | Some lease \<Rightarrow>
           bindE (read_forwarding_value fs (fc_sysctl_path c)) (\<lambda>current.
           bindE (if current \<and> \<not> fl_baseline lease
                  then bindE (write_forwarding_value fs (fc_sysctl_path c) False) (\<lambda>_.
                       bindE (read_forwarding_value fs (fc_sysctl_path c)) (\<lambda>still.
                         if still
                         then raiseE (core_error_new NetworkBackendUnavailable
                           ''kernel IPv4 forwarding remained enabled while releasing the BlueRoute forwarding lease'')
                         else retE ()))
                  else retE ()) (\<lambda>_.
             remove_lease fs (fc_lease_path c))))"

definition forwarding_set :: "'w file_system \<Rightarrow> forwarding_controller \<Rightarrow> bool \<Rightarrow> ('w, unit) eff" where
  "forwarding_set fs c enabled = (if enabled then forwarding_enable fs c else forwarding_release fs c)"

definition set_ipv4_forwarding :: "'w file_system \<Rightarrow> bool \<Rightarrow> ('w, unit) eff" where
  "set_ipv4_forwarding fs enabled = forwarding_set fs forwarding_system enabled"

definition want_forwarding :: "node_id \<Rightarrow> topology_graph \<Rightarrow> bool \<Rightarrow> bool core_result" where
  "want_forwarding local topology desired =
     (if graph_node topology local = None
      then Inl (core_error_new InvalidInput ''local node absent from a supplied BlueRoute network topology'')
      else bindR (desired_ipv4_forwarding topology local) (\<lambda>wanted. Inr (desired \<or> wanted)))"

definition reconcile_ipv4_forwarding ::
  "(bool \<Rightarrow> ('w, unit) eff) \<Rightarrow> topology_graph list \<Rightarrow> node_id \<Rightarrow> ('w, bool) eff" where
  "reconcile_ipv4_forwarding set_forwarding topologies local =
     bindE (liftE (foldR (want_forwarding local) topologies False)) (\<lambda>desired.
     bindE (set_forwarding desired) (\<lambda>_. retE desired))"

section \<open>The lease text\<close>

lemma lease_prefix_enum:
  "list_all (\<lambda>b. list_all (\<lambda>n. case lease_parse (take n (lease_serialize (ForwardingLease b))) of
       Inl _ \<Rightarrow> n < 19 | Inr l \<Rightarrow> l = ForwardingLease b) [0..<21]) [False, True]"
  by code_simp

lemma lease_serialize_length: "length (lease_serialize l) = 20"
  by (cases "fl_baseline l") (simp_all add: lease_serialize_def LEASE_SCHEMA_def show_nat.simps)

text \<open>A lease that was cut short while it was written is refused or reads as the baseline that was meant.\<close>

lemma lease_parse_prefix:
  assumes "lease_parse (take n (lease_serialize (ForwardingLease b))) = Inr l"
  shows "l = ForwardingLease b"
proof -
  have cut: "take n (lease_serialize (ForwardingLease b)) = take (min n 20) (lease_serialize (ForwardingLease b))"
    by (cases "n \<le> 20") (simp_all add: lease_serialize_length min_def)
  have "min n 20 \<in> set [0..<21]" "b \<in> set [False, True]" by auto
  with lease_prefix_enum
  have "case lease_parse (take (min n 20) (lease_serialize (ForwardingLease b))) of
      Inl _ \<Rightarrow> min n 20 < 19 | Inr l \<Rightarrow> l = ForwardingLease b"
    unfolding list_all_iff by blast
  then show ?thesis using assms unfolding cut by simp
qed

lemma lease_roundtrip: "lease_parse (lease_serialize (ForwardingLease b)) = Inr (ForwardingLease b)"
proof -
  have "20 \<in> set [0..<21::nat]" "b \<in> set [False, True]" by auto
  with lease_prefix_enum have "case lease_parse (take 20 (lease_serialize (ForwardingLease b))) of
      Inl _ \<Rightarrow> 20 < (19::nat) | Inr l \<Rightarrow> l = ForwardingLease b"
    unfolding list_all_iff by blast
  then show ?thesis by (simp add: lease_serialize_length split: sum.splits)
qed

section \<open>What the file system promises\<close>

text \<open>The two files as they are: the text of the kernel switch and the text of the lease, if there is one.\<close>

record lease_view =
  lv_sysctl :: string
  lv_lease :: "string option"

text \<open>The documented behaviour of the calls, any of which may fail. Reads report what is there. A write to the
  switch may be accepted without an effect. A new file is created empty, and only where there is none; a failed
  write may leave a part of the text. Nobody else writes the two files.\<close>

definition lease_fs_contract :: "'w file_system \<Rightarrow> forwarding_controller \<Rightarrow> ('w \<Rightarrow> lease_view) \<Rightarrow> bool" where
  "lease_fs_contract fs c view \<longleftrightarrow> (\<forall>v.
     triple (\<lambda>w. view w = v) (fs_read_to_string fs (fc_sysctl_path c))
       (\<lambda>r w. view w = v \<and> (\<forall>s. r = Inr s \<longrightarrow> s = lv_sysctl v)) \<and>
     (\<forall>s. triple (\<lambda>w. view w = v) (fs_write fs (fc_sysctl_path c) s)
       (\<lambda>r w. view w = v \<or> r = Inr () \<and> view w = v\<lparr>lv_sysctl := s\<rparr>)) \<and>
     triple (\<lambda>w. view w = v) (fs_symlink_metadata fs (fc_lease_path c))
       (\<lambda>r w. view w = v \<and> (\<forall>e. r = Inl e \<and> fs_kind e = FsNotFound \<longrightarrow> lv_lease v = None)) \<and>
     triple (\<lambda>w. view w = v) (fs_set_permissions fs (fc_lease_path c) LEASE_FILE_MODE) (\<lambda>r w. view w = v) \<and>
     triple (\<lambda>w. view w = v) (fs_read_to_string fs (fc_lease_path c))
       (\<lambda>r w. view w = v \<and> (\<forall>s. r = Inr s \<longrightarrow> lv_lease v = Some s) \<and>
          (\<forall>e. r = Inl e \<and> fs_kind e = FsNotFound \<longrightarrow> lv_lease v = None)) \<and>
     (\<forall>p. triple (\<lambda>w. view w = v) (fs_create_dir_all fs p) (\<lambda>r w. view w = v)) \<and>
     triple (\<lambda>w. view w = v) (fs_create_new fs (fc_lease_path c) LEASE_FILE_MODE)
       (\<lambda>r w. if is_err r then view w = v else lv_lease v = None \<and> view w = v\<lparr>lv_lease := Some []\<rparr>) \<and>
     (\<forall>s. triple (\<lambda>w. view w = v \<and> lv_lease v = Some []) (fs_write_all fs (fc_lease_path c) s)
       (\<lambda>r w. if is_err r then \<exists>n. view w = v\<lparr>lv_lease := Some (take n s)\<rparr> else view w = v\<lparr>lv_lease := Some s\<rparr>)) \<and>
     triple (\<lambda>w. view w = v) (fs_sync_all fs (fc_lease_path c)) (\<lambda>r w. view w = v) \<and>
     triple (\<lambda>w. view w = v) (fs_remove_file fs (fc_lease_path c))
       (\<lambda>r w. if r = Inr () \<or> lv_lease v = None then view w = v\<lparr>lv_lease := None\<rparr>
          else view w = v \<and> (\<forall>e. r = Inl e \<longrightarrow> fs_kind e \<noteq> FsNotFound)))"

lemma lease_fs_contractD:
  assumes "lease_fs_contract fs c view"
  shows "triple (\<lambda>w. view w = v) (fs_read_to_string fs (fc_sysctl_path c))
       (\<lambda>r w. view w = v \<and> (\<forall>s. r = Inr s \<longrightarrow> s = lv_sysctl v))"
    and "triple (\<lambda>w. view w = v) (fs_write fs (fc_sysctl_path c) s)
       (\<lambda>r w. view w = v \<or> r = Inr () \<and> view w = v\<lparr>lv_sysctl := s\<rparr>)"
    and "triple (\<lambda>w. view w = v) (fs_symlink_metadata fs (fc_lease_path c))
       (\<lambda>r w. view w = v \<and> (\<forall>e. r = Inl e \<and> fs_kind e = FsNotFound \<longrightarrow> lv_lease v = None))"
    and "triple (\<lambda>w. view w = v) (fs_set_permissions fs (fc_lease_path c) LEASE_FILE_MODE) (\<lambda>r w. view w = v)"
    and "triple (\<lambda>w. view w = v) (fs_read_to_string fs (fc_lease_path c))
       (\<lambda>r w. view w = v \<and> (\<forall>s. r = Inr s \<longrightarrow> lv_lease v = Some s) \<and>
          (\<forall>e. r = Inl e \<and> fs_kind e = FsNotFound \<longrightarrow> lv_lease v = None))"
    and "triple (\<lambda>w. view w = v) (fs_create_dir_all fs p) (\<lambda>r w. view w = v)"
    and "triple (\<lambda>w. view w = v) (fs_create_new fs (fc_lease_path c) LEASE_FILE_MODE)
       (\<lambda>r w. if is_err r then view w = v else lv_lease v = None \<and> view w = v\<lparr>lv_lease := Some []\<rparr>)"
    and "triple (\<lambda>w. view w = v \<and> lv_lease v = Some []) (fs_write_all fs (fc_lease_path c) s)
       (\<lambda>r w. if is_err r then \<exists>n. view w = v\<lparr>lv_lease := Some (take n s)\<rparr> else view w = v\<lparr>lv_lease := Some s\<rparr>)"
    and "triple (\<lambda>w. view w = v) (fs_sync_all fs (fc_lease_path c)) (\<lambda>r w. view w = v)"
    and "triple (\<lambda>w. view w = v) (fs_remove_file fs (fc_lease_path c))
       (\<lambda>r w. if r = Inr () \<or> lv_lease v = None then view w = v\<lparr>lv_lease := None\<rparr>
          else view w = v \<and> (\<forall>e. r = Inl e \<longrightarrow> fs_kind e \<noteq> FsNotFound))"
  using assms unfolding lease_fs_contract_def by blast+

section \<open>What the calls do\<close>

definition sysctl_value :: "string \<Rightarrow> bool option" where
  "sysctl_value s =
     (if trim_text s = ''0'' then Some False else if trim_text s = ''1'' then Some True else None)"

lemma sysctl_value_written [simp]:
  "sysctl_value [CHR ''1'', CHR 0x0A] = Some True" "sysctl_value [CHR ''0'', CHR 0x0A] = Some False"
  by (simp_all add: sysctl_value_def trim_text_def trim_def is_whitespace_def digit_chars)

lemma read_value_triple:
  assumes "lease_fs_contract fs c view"
  shows "triple (\<lambda>w. view w = v) (read_forwarding_value fs (fc_sysctl_path c))
    (\<lambda>r w. view w = v \<and> (\<forall>b. r = Inr b \<longrightarrow> sysctl_value (lv_sysctl v) = Some b))"
  unfolding read_forwarding_value_def
  by (rule triple_bindE [where R = "\<lambda>r w. view w = v \<and> (\<forall>s. r = Inr s \<longrightarrow> s = lv_sysctl v)"],
      rule triple_fs_tryE, rule lease_fs_contractD(1) [OF assms])
    (auto simp: sysctl_value_def intro!: triple_retE triple_raiseE)

lemma write_value_triple:
  assumes "lease_fs_contract fs c view"
  shows "triple (\<lambda>w. view w = v) (write_forwarding_value fs (fc_sysctl_path c) b)
    (\<lambda>r w. view w = v \<or> r = Inr () \<and>
       (\<exists>s. view w = v\<lparr>lv_sysctl := s\<rparr> \<and> sysctl_value s = Some b))"
  unfolding write_forwarding_value_def
  by (rule triple_fs_tryE, rule lease_fs_contractD(2) [OF assms]) auto

lemma read_contents_triple:
  assumes "lease_fs_contract fs c view"
  shows "triple (\<lambda>w. view w = v) (read_lease_contents fs (fc_lease_path c))
    (\<lambda>r w. view w = v \<and> (r = Inr None \<longrightarrow> lv_lease v = None) \<and>
       (\<forall>l. r = Inr (Some l) \<longrightarrow> (\<exists>s. lv_lease v = Some s \<and> lease_parse s = Inr l)))"
  unfolding read_lease_contents_def
proof (rule triple_matchE [OF lease_fs_contractD(5) [OF assms]], goal_cases)
  case (1 r)
  then show ?case
    by (cases r) (auto simp: triple_def bindE_def split: sum.splits)
qed

lemma read_lease_triple:
  assumes "lease_fs_contract fs c view"
  shows "triple (\<lambda>w. view w = v) (read_lease fs (fc_lease_path c))
    (\<lambda>r w. view w = v \<and> (r = Inr None \<longrightarrow> lv_lease v = None) \<and>
       (\<forall>l. r = Inr (Some l) \<longrightarrow> (\<exists>s. lv_lease v = Some s \<and> lease_parse s = Inr l)))" (is "triple _ _ ?Q")
  unfolding read_lease_def
proof (rule triple_matchE [OF lease_fs_contractD(3) [OF assms]], goal_cases)
  case (1 r)
  show ?case
  proof (cases r)
    case (Inl e)
    then show ?thesis by (auto intro!: triple_retE triple_raiseE)
  next
    case (Inr m)
    have "triple (\<lambda>w. view w = v) (fs_tryE err (fs_set_permissions fs (fc_lease_path c) LEASE_FILE_MODE)) (\<lambda>r w. view w = v)"
      for err by (rule triple_fs_tryE [OF lease_fs_contractD(4) [OF assms]])
    then have secured: "triple (\<lambda>w. view w = v) (if md_mode m AND 0x3F \<noteq> 0
        then fs_tryE err (fs_set_permissions fs (fc_lease_path c) LEASE_FILE_MODE) else retE ()) (\<lambda>r w. view w = v)"
      for err by (simp add: triple_retE)
    have "triple (\<lambda>w. view w = v) (bindE (if md_mode m AND 0x3F \<noteq> 0
        then fs_tryE err (fs_set_permissions fs (fc_lease_path c) LEASE_FILE_MODE) else retE ())
        (\<lambda>_. read_lease_contents fs (fc_lease_path c))) ?Q" for err
      by (rule triple_bindE [OF secured read_contents_triple [OF assms]]) simp
    then show ?thesis using Inr by (auto intro!: triple_raiseE)
  qed
qed

lemma remove_lease_triple:
  assumes "lease_fs_contract fs c view"
  shows "triple (\<lambda>w. view w = v) (remove_lease fs (fc_lease_path c))
    (\<lambda>r w. if is_err r then view w = v else view w = v\<lparr>lv_lease := None\<rparr>)"
  unfolding remove_lease_def
proof (rule triple_matchE [OF lease_fs_contractD(10) [OF assms]], goal_cases)
  case (1 r)
  show ?case by (cases r) (auto intro!: triple_retE triple_raiseE split: if_splits)
qed

lemma drop_lease_triple:
  assumes "lease_fs_contract fs c view"
  shows "triple (\<lambda>w. view w = v) (drop_lease_after fs (fc_lease_path c) e)
    (\<lambda>r w. is_err r \<and> (view w = v \<or> view w = v\<lparr>lv_lease := None\<rparr>))"
  unfolding drop_lease_after_def
proof (rule triple_matchE [OF remove_lease_triple [OF assms]], goal_cases)
  case (1 r)
  show ?case by (cases r) (auto intro!: triple_raiseE)
qed

lemma write_new_lease_triple:
  assumes "lease_fs_contract fs c view"
  shows "triple (\<lambda>w. view w = v \<and> lv_lease v = Some []) (write_new_lease fs (fc_lease_path c) s)
    (\<lambda>r w. \<exists>n. view w = v\<lparr>lv_lease := Some (take n s)\<rparr> \<and> (\<not> is_err r \<longrightarrow> take n s = s))" (is "triple _ _ ?Q")
  unfolding write_new_lease_def
proof (rule triple_bindE)
  show "triple (\<lambda>w. view w = v \<and> lv_lease v = Some [])
      (fs_tryE (lease_io_error ''failed to write the BlueRoute IPv4 forwarding lease'' (fc_lease_path c))
        (fs_write_all fs (fc_lease_path c) s)) ?Q"
    by (rule triple_fs_tryE [OF lease_fs_contractD(8) [OF assms]]) (auto intro: exI [of _ "length s"])
  have sync: "triple (\<lambda>w. view w = v') (fs_tryE err (fs_sync_all fs (fc_lease_path c))) (\<lambda>r w. view w = v')" for v' err
    by (rule triple_fs_tryE [OF lease_fs_contractD(9) [OF assms]])
  show "triple (?Q (Inr x))
      (fs_tryE (lease_io_error ''failed to synchronize the BlueRoute IPv4 forwarding lease'' (fc_lease_path c))
        (fs_sync_all fs (fc_lease_path c))) ?Q" for x
    by (rule triple_pre, rule triple_post, rule sync [of "v\<lparr>lv_lease := Some s\<rparr>"])
      (auto intro: exI [of _ "length s"])
qed simp

text \<open>Creating the lease leaves it complete, or at most a part of it when it fails, or finds a valid one.\<close>

definition lease_created :: "bool \<Rightarrow> lease_view \<Rightarrow> bool core_result \<Rightarrow> lease_view \<Rightarrow> bool" where
  "lease_created b v r v' \<longleftrightarrow>
     (case r of
        Inl _ \<Rightarrow> v' = v \<or> lv_lease v = None \<and>
          (\<exists>n. v' = v\<lparr>lv_lease := Some (take n (lease_serialize (ForwardingLease b)))\<rparr>)
      | Inr True \<Rightarrow> lv_lease v = None \<and> v' = v\<lparr>lv_lease := Some (lease_serialize (ForwardingLease b))\<rparr>
      | Inr False \<Rightarrow> v' = v \<and> (\<exists>s l. lv_lease v = Some s \<and> lease_parse s = Inr l))"

lemma create_lease_triple:
  assumes "lease_fs_contract fs c view"
  shows "triple (\<lambda>w. view w = v) (create_lease fs c b) (\<lambda>r w. lease_created b v r (view w))"
  unfolding create_lease_def Let_def
proof (rule triple_bindE [where R = "\<lambda>r w. view w = v"], goal_cases)
  case 1
  show ?case by (rule triple_liftE)
next
  case (2 parent)
  let ?text = "lease_serialize (ForwardingLease b)"
  have written: "triple (\<lambda>w. view w = v\<lparr>lv_lease := Some []\<rparr>)
      (matchE (write_new_lease fs (fc_lease_path c) ?text) (\<lambda>written. case written of
         Inl e \<Rightarrow> drop_lease_after fs (fc_lease_path c) e | Inr _ \<Rightarrow> retE True))
      (\<lambda>r w. lease_created b v r (view w))" if none: "lv_lease v = None"
  proof (rule triple_matchE [where R = "\<lambda>r w.
        \<exists>n. view w = v\<lparr>lv_lease := Some (take n ?text)\<rparr> \<and> (\<not> is_err r \<longrightarrow> take n ?text = ?text)"], goal_cases)
    case 1
    show ?case
      by (rule triple_weaken [OF write_new_lease_triple [OF assms, of "v\<lparr>lv_lease := Some []\<rparr>"]]) auto
  next
    case (2 r)
    have same: "v\<lparr>lv_lease := None\<rparr> = v" using none by (cases v) simp
    show ?case
    proof (cases r)
      case (Inl e)
      have "triple (\<lambda>w. view w = v\<lparr>lv_lease := Some (take n ?text)\<rparr>)
          (drop_lease_after fs (fc_lease_path c) e) (\<lambda>r w. lease_created b v r (view w))" for n
        by (rule triple_post [OF drop_lease_triple [OF assms, of "v\<lparr>lv_lease := Some (take n ?text)\<rparr>" e]])
          (auto simp: lease_created_def is_err_def none same split: sum.splits)
      then show ?thesis using Inl unfolding triple_def by auto
    qed (auto simp: lease_created_def none intro!: triple_retE)
  qed
  have found: "triple (\<lambda>w. view w = v) (bindE (read_lease fs (fc_lease_path c)) (\<lambda>lease.
      bindE (liftE (ok_or e lease)) (\<lambda>_. retE False))) (\<lambda>r w. lease_created b v r (view w))" for e
    by (rule triple_bindE [OF read_lease_triple [OF assms]])
      (auto simp: triple_def bindE_def lease_created_def ok_or_def split: option.splits)
  show ?case
  proof (rule triple_bindE [where R = "\<lambda>r w. view w = v"], goal_cases)
    case 1
    show ?case by (rule triple_fs_tryE [OF lease_fs_contractD(6) [OF assms]])
  next
    case (2 u)
    show ?case
    proof (rule triple_matchE [OF lease_fs_contractD(7) [OF assms]], goal_cases)
      case (1 r)
      show ?case
      proof (cases r)
        case (Inl e)
        then show ?thesis using found by (auto simp: lease_created_def intro!: triple_raiseE)
      next
        case (Inr u)
        then show ?thesis using written by (cases "lv_lease v = None") (auto simp: triple_def)
      qed
    qed
  qed (simp add: lease_created_def)
qed (simp add: lease_created_def)

section \<open>The baseline can always be restored\<close>

text \<open>The forwarding value found before the first call is not lost: without a lease the switch has that value;
  with one, the switch has it or was turned on under a lease that reads as off.\<close>

definition restorable :: "bool \<Rightarrow> lease_view \<Rightarrow> bool" where
  "restorable v0 v \<longleftrightarrow>
     (case lv_lease v of
        None \<Rightarrow> sysctl_value (lv_sysctl v) = Some v0
      | Some s \<Rightarrow> (\<exists>n. s = take n (lease_serialize (ForwardingLease v0))) \<and>
          (sysctl_value (lv_sysctl v) = Some v0 \<or>
           \<not> v0 \<and> sysctl_value (lv_sysctl v) = Some True \<and> lease_parse s = Inr (ForwardingLease False)))"

lemma restorable_lease:
  assumes "restorable v0 v" and "lv_lease v = Some s" and "lease_parse s = Inr l"
  shows "l = ForwardingLease v0"
  using assms lease_parse_prefix unfolding restorable_def by auto

lemma restorable_write:
  assumes "restorable v0 v" and "lv_lease v = Some s" and "lease_parse s = Inr l" and "sysctl_value t = Some b"
    and "b \<or> \<not> v0"
  shows "restorable v0 (v\<lparr>lv_sysctl := t\<rparr>)"
  using assms restorable_lease [OF assms(1-3)] unfolding restorable_def by (cases b; cases v0) auto

lemma restorable_drop: "restorable v0 v \<Longrightarrow> sysctl_value (lv_sysctl v) = Some v0 \<Longrightarrow> restorable v0 (v\<lparr>lv_lease := None\<rparr>)"
  by (simp add: restorable_def)

lemma restorable_created:
  assumes "restorable v0 v" and "sysctl_value (lv_sysctl v) = Some b" and "lease_created b v r v'"
  shows "restorable v0 v' \<and> lv_sysctl v' = lv_sysctl v \<and>
    (\<not> is_err r \<longrightarrow> (\<exists>s l. lv_lease v' = Some s \<and> lease_parse s = Inr l))"
proof (cases r)
  case (Inl e)
  then show ?thesis using assms by (auto simp: lease_created_def restorable_def)
next
  case (Inr created)
  then show ?thesis
    using assms lease_roundtrip by (cases created) (auto simp: lease_created_def restorable_def intro: exI [of _ 20]
      simp: lease_serialize_length)
qed

text \<open>What a call leaves: the baseline still restorable, and after a success the switch on, or back at the
  baseline with the lease gone.\<close>

definition forwarding_outcome :: "bool \<Rightarrow> bool \<Rightarrow> unit core_result \<Rightarrow> lease_view \<Rightarrow> bool" where
  "forwarding_outcome v0 enabled r v \<longleftrightarrow> restorable v0 v \<and>
     (\<not> is_err r \<longrightarrow> sysctl_value (lv_sysctl v) = Some (enabled \<or> v0) \<and> (lv_lease v \<noteq> None \<longleftrightarrow> enabled))"

lemma enable_switch_triple:
  assumes "lease_fs_contract fs c view" and inv: "restorable v0 v" and off: "sysctl_value (lv_sysctl v) = Some False"
    and lease: "lv_lease v = Some s" "lease_parse s = Inr l"
  shows "triple (\<lambda>w. view w = v)
    (matchE (write_forwarding_value fs (fc_sysctl_path c) True) (\<lambda>written. case written of
        Inl write_error \<Rightarrow>
          if created then drop_lease_after fs (fc_lease_path c) write_error else raiseE write_error
      | Inr _ \<Rightarrow>
          matchE (read_forwarding_value fs (fc_sysctl_path c)) (\<lambda>after. case after of
              Inr True \<Rightarrow> retE ()
            | Inr False \<Rightarrow>
                bindE (if created then remove_lease fs (fc_lease_path c) else retE ()) (\<lambda>_. raiseE unheeded)
            | Inl error \<Rightarrow> raiseE error)))
    (\<lambda>r w. forwarding_outcome v0 True r (view w))"
proof (rule triple_matchE [OF write_value_triple [OF assms(1)]], goal_cases)
  case (1 r)
  have v0: "\<not> v0" using inv off lease unfolding restorable_def by auto
  have dropped: "restorable v0 (v\<lparr>lv_lease := None\<rparr>)" using restorable_drop [OF inv] off v0 by simp
  show ?case
  proof (cases r)
    case (Inl e)
    have "triple (\<lambda>w. view w = v) (if created then drop_lease_after fs (fc_lease_path c) e else raiseE e)
        (\<lambda>r w. forwarding_outcome v0 True r (view w))"
      using triple_post [OF drop_lease_triple [OF assms(1)]] dropped inv
      by (auto simp: forwarding_outcome_def intro!: triple_raiseE triple_post [OF drop_lease_triple [OF assms(1), of v e]])
    then show ?thesis using Inl by (auto elim: triple_pre)
  next
    case (Inr u)
    let ?check = "matchE (read_forwarding_value fs (fc_sysctl_path c)) (\<lambda>after. case after of
        Inr True \<Rightarrow> retE ()
      | Inr False \<Rightarrow> bindE (if created then remove_lease fs (fc_lease_path c) else retE ()) (\<lambda>_. raiseE unheeded)
      | Inl error \<Rightarrow> raiseE error)"
    have "triple (\<lambda>w. view w = v') ?check (\<lambda>r w. forwarding_outcome v0 True r (view w))"
      if inv': "restorable v0 v'" and l': "lv_lease v' = Some s" for v'
    proof (rule triple_matchE [OF read_value_triple [OF assms(1)]], goal_cases)
      case (1 after)
      have "triple (\<lambda>w. view w = v') (bindE (if created then remove_lease fs (fc_lease_path c) else retE ())
          (\<lambda>_. raiseE unheeded)) (\<lambda>r w. forwarding_outcome v0 True r (view w))"
        if "sysctl_value (lv_sysctl v') = Some False"
      proof (rule triple_bindE [where R = "\<lambda>r w. restorable v0 (view w)"], goal_cases)
        case 1
        have "restorable v0 (v'\<lparr>lv_lease := None\<rparr>)" using restorable_drop [OF inv'] that v0 by simp
        then show ?case using inv'
          by (auto intro!: triple_retE triple_post [OF remove_lease_triple [OF assms(1), of v']] split: if_splits)
      qed (auto simp: forwarding_outcome_def intro!: triple_raiseE)
      then show ?case using inv' l' v0
        by (cases after) (auto simp: forwarding_outcome_def triple_def split: bool.splits)
    qed
    note check = this
    have "triple (\<lambda>w. view w = v\<lparr>lv_sysctl := t\<rparr>) ?check (\<lambda>r w. forwarding_outcome v0 True r (view w))"
      if "sysctl_value t = Some True" for t
      by (rule check) (use lease restorable_write [OF inv lease that] in auto)
    then show ?thesis using Inr check [OF inv lease(1)] unfolding triple_def by auto
  qed
qed

lemma enable_triple:
  assumes "lease_fs_contract fs c view" and inv: "restorable v0 v"
  shows "triple (\<lambda>w. view w = v) (forwarding_enable fs c) (\<lambda>r w. forwarding_outcome v0 True r (view w))"
  unfolding forwarding_enable_def
proof (rule triple_bindE [OF read_value_triple [OF assms(1)]], goal_cases)
  case (1 current)
  show ?case
  proof (rule triple_bindE [where R = "\<lambda>r w. sysctl_value (lv_sysctl v) = Some current \<and> view w = v \<and>
      (r = Inr None \<longrightarrow> lv_lease v = None) \<and>
      (\<forall>l. r = Inr (Some l) \<longrightarrow> (\<exists>s. lv_lease v = Some s \<and> lease_parse s = Inr l))"], goal_cases)
    case 1
    show ?case using read_lease_triple [OF assms(1), of v] unfolding triple_def by auto
  next
    case (2 lease)
    show ?case
    proof (rule triple_bindE [where R = "\<lambda>r w. restorable v0 (view w) \<and> sysctl_value (lv_sysctl (view w)) = Some current \<and>
        (\<not> is_err r \<longrightarrow> (\<exists>s l. lv_lease (view w) = Some s \<and> lease_parse s = Inr l))"], goal_cases)
      case 1
      show ?case
      proof (cases lease)
        case None
        have "triple (\<lambda>w. sysctl_value (lv_sysctl v) = Some current \<and> view w = v) (create_lease fs c current)
          (\<lambda>r w. restorable v0 (view w) \<and> sysctl_value (lv_sysctl (view w)) = Some current \<and>
            (\<not> is_err r \<longrightarrow> (\<exists>s l. lv_lease (view w) = Some s \<and> lease_parse s = Inr l)))"
          using create_lease_triple [OF assms(1), of v current] restorable_created [OF inv]
          unfolding triple_def by fastforce
        then show ?thesis using None by (auto elim: triple_pre)
      qed (use inv in \<open>auto intro!: triple_retE\<close>)
    next
      case (2 created)
      show ?case
      proof (cases current)
        case True
        then show ?thesis by (auto simp: forwarding_outcome_def restorable_def intro!: triple_retE)
      next
        case False
        show ?thesis unfolding if_not_P [OF False]
        proof (rule triple_pre [OF triple_view [where view = view and C = "\<lambda>v. restorable v0 v \<and>
            sysctl_value (lv_sysctl v) = Some False \<and> (\<exists>s l. lv_lease v = Some s \<and> lease_parse s = Inr l)"]], goal_cases)
          case (1 v)
          then obtain s l where "restorable v0 v" "sysctl_value (lv_sysctl v) = Some False" "lv_lease v = Some s"
            "lease_parse s = Inr l" by (elim conjE exE)
          then show ?case by (rule enable_switch_triple [OF assms(1)])
        qed (use False in auto)
      qed
    qed (simp add: forwarding_outcome_def)
  qed (simp add: forwarding_outcome_def inv)
qed (simp add: forwarding_outcome_def inv)

lemma release_triple:
  assumes "lease_fs_contract fs c view" and inv: "restorable v0 v"
  shows "triple (\<lambda>w. view w = v) (forwarding_release fs c) (\<lambda>r w. forwarding_outcome v0 False r (view w))"
  unfolding forwarding_release_def
proof (rule triple_bindE [OF read_lease_triple [OF assms(1)]], goal_cases)
  case (1 lease)
  show ?case
  proof (cases lease)
    case None
    then show ?thesis using inv by (auto simp: forwarding_outcome_def restorable_def intro!: triple_retE)
  next
    case (Some l)
    let ?held = "\<lambda>v'. restorable v0 v' \<and> (\<exists>s. lv_lease v' = Some s \<and> lease_parse s = Inr l)"
    have "triple (\<lambda>w. ?held (view w)) (bindE (read_forwarding_value fs (fc_sysctl_path c)) (\<lambda>current.
        bindE (if current \<and> \<not> fl_baseline l
               then bindE (write_forwarding_value fs (fc_sysctl_path c) False) (\<lambda>_.
                    bindE (read_forwarding_value fs (fc_sysctl_path c)) (\<lambda>still.
                      if still then raiseE stuck else retE ()))
               else retE ()) (\<lambda>_. remove_lease fs (fc_lease_path c))))
        (\<lambda>r w. forwarding_outcome v0 False r (view w))" for stuck
    proof (rule triple_view [where C = ?held], goal_cases)
      case (1 v)
      then have inv: "restorable v0 v" and l: "l = ForwardingLease v0" and held: "?held v"
        using restorable_lease [of v0 v _ l] by auto
      let ?restored = "\<lambda>r w. restorable v0 (view w) \<and> (\<not> is_err r \<longrightarrow> sysctl_value (lv_sysctl (view w)) = Some v0)"
      have switch: "triple (\<lambda>w. view w = v) (bindE (write_forwarding_value fs (fc_sysctl_path c) False) (\<lambda>_.
          bindE (read_forwarding_value fs (fc_sysctl_path c)) (\<lambda>still.
            if still then raiseE stuck else retE ()))) ?restored" if v0: "\<not> v0"
      proof (rule triple_bindE [where R = "\<lambda>r w. restorable v0 (view w)"], goal_cases)
        case 1
        have "restorable v0 (v\<lparr>lv_sysctl := t\<rparr>)" if "sysctl_value t = Some False" for t
          using held restorable_write [OF inv _ _ that] v0 by auto
        then show ?case using inv by (auto intro!: triple_post [OF write_value_triple [OF assms(1), of v False]])
      next
        case (2 u)
        show ?case
        proof (rule triple_view [where C = "restorable v0"], rule triple_bindE [OF read_value_triple [OF assms(1)]], goal_cases)
          case (1 v still)
          then show ?case using v0 by (cases still) (auto intro!: triple_raiseE triple_retE)
        qed simp
      qed simp
      show ?case
      proof (rule triple_bindE [OF read_value_triple [OF assms(1)]], goal_cases)
        case (1 current)
        show ?case
        proof (rule triple_bindE [where R = ?restored], goal_cases)
          case 1
          have "sysctl_value (lv_sysctl v) = Some current \<Longrightarrow> \<not> (current \<and> \<not> v0) \<Longrightarrow> current = v0"
            using inv unfolding restorable_def by (auto split: option.splits)
          then show ?case
            using switch inv unfolding l by (auto intro!: triple_retE elim: triple_pre)
        next
          case (2 u)
          show ?case
          proof (rule triple_pre [OF triple_view [where view = view and C = "\<lambda>v. restorable v0 v \<and>
              sysctl_value (lv_sysctl v) = Some v0"]], goal_cases)
            case (1 v)
            then show ?case
              using restorable_drop [of v0 v]
              by (intro triple_post [OF remove_lease_triple [OF assms(1), of v]])
                (auto simp: forwarding_outcome_def split: if_splits)
          qed simp
        qed (simp add: forwarding_outcome_def)
      qed (simp add: forwarding_outcome_def inv)
    qed
    note held = this
    show ?thesis unfolding Some option.case by (rule triple_pre [OF held]) (use inv in auto)
  qed
qed (simp add: forwarding_outcome_def inv)

lemma set_triple:
  assumes "lease_fs_contract fs c view" and "restorable v0 v"
  shows "triple (\<lambda>w. view w = v) (forwarding_set fs c enabled) (\<lambda>r w. forwarding_outcome v0 enabled r (view w))"
  using enable_triple [OF assms] release_triple [OF assms] by (cases enabled) (simp_all add: forwarding_set_def)

text \<open>C3: the forwarding switch of the host is never lost. Whatever calls fail and wherever, as long as nobody else
  writes the two files, the value found before the first call stays restorable: without a lease the switch has it,
  and a switch that was turned on has a readable lease that says off. A successful call has turned the switch on
  under a lease, or has put it back to the value found and removed the lease.\<close>

theorem forwarding_lease_restores:
  assumes "lease_fs_contract fs c view" and "restorable v0 (view w)" and "forwarding_set fs c enabled w = (r, w')"
  shows "restorable v0 (view w') \<and>
    (\<not> is_err r \<longrightarrow> sysctl_value (lv_sysctl (view w')) = Some (enabled \<or> v0) \<and>
       (lv_lease (view w') \<noteq> None \<longleftrightarrow> enabled))"
  using tripleD [OF set_triple [OF assms(1,2)] refl assms(3)] unfolding forwarding_outcome_def .

section \<open>Forwarding follows the topologies\<close>

lemma want_forwarding_Inr:
  "foldR (want_forwarding local) gs d0 = Inr d \<longleftrightarrow>
     (\<forall>g \<in> set gs. graph_node g local \<noteq> None) \<and>
     d = (d0 \<or> (\<exists>g \<in> set gs. desired_ipv4_forwarding g local = Inr True))"
proof (induction gs arbitrary: d0)
  case (Cons g gs)
  show ?case
  proof (cases "graph_node g local")
    case (Some caps)
    then obtain b where b: "desired_ipv4_forwarding g local = Inr b"
      by (cases "can_route caps = Some True") (auto simp: desired_ipv4_forwarding_def Let_def)
    have "foldR (want_forwarding local) (g # gs) d0 = foldR (want_forwarding local) gs (d0 \<or> b)"
      using Some b by (simp add: want_forwarding_def)
    then show ?thesis using Cons.IH [of "d0 \<or> b"] Some b by auto
  qed (simp add: want_forwarding_def)
qed auto

text \<open>C17: the kernel forwards exactly when a topology needs it. A reconciliation over all topologies of the host that
  succeeds has turned forwarding on when the local node is to forward in one of them, and otherwise has put the
  switch back to the value found and dropped the lease. A topology without the local node is an error before
  anything is touched, and no failure loses the value found.\<close>

theorem host_forwarding_follows_topologies:
  assumes "lease_fs_contract fs forwarding_system view" and "restorable v0 (view w)"
    and "reconcile_ipv4_forwarding (set_ipv4_forwarding fs) topologies local w = (r, w')"
  shows "restorable v0 (view w') \<and>
    (\<forall>d. r = Inr d \<longrightarrow> (d \<longleftrightarrow> (\<exists>g \<in> set topologies. desired_ipv4_forwarding g local = Inr True)) \<and>
       sysctl_value (lv_sysctl (view w')) = Some (d \<or> v0) \<and> (lv_lease (view w') \<noteq> None \<longleftrightarrow> d)) \<and>
    ((\<exists>g \<in> set topologies. graph_node g local = None) \<longrightarrow> is_err r \<and> w' = w)"
proof (cases "foldR (want_forwarding local) topologies False")
  case (Inl e)
  then have "\<not> (\<forall>g \<in> set topologies. graph_node g local \<noteq> None)"
    using want_forwarding_Inr [of local topologies False] by fastforce
  moreover have "r = Inl e" "w' = w"
    using assms(3) Inl by (simp_all add: reconcile_ipv4_forwarding_def bindE_def)
  ultimately show ?thesis using assms(2) by simp
next
  case (Inr d)
  obtain r1 where set: "forwarding_set fs forwarding_system d w = (r1, w')" and r: "r = bindR r1 (\<lambda>_. Inr d)"
    using assms(3) Inr
    by (auto simp: reconcile_ipv4_forwarding_def set_ipv4_forwarding_def bindE_def split: prod.splits sum.splits)
  have "forwarding_outcome v0 d r1 (view w')"
    by (rule tripleD [OF set_triple [OF assms(1,2)] refl set])
  moreover have "\<forall>g \<in> set topologies. graph_node g local \<noteq> None"
    "d \<longleftrightarrow> (\<exists>g \<in> set topologies. desired_ipv4_forwarding g local = Inr True)"
    using Inr unfolding want_forwarding_Inr by simp_all
  ultimately show ?thesis unfolding r forwarding_outcome_def by (cases r1) auto
qed

section \<open>A file system in memory\<close>

definition memory_files :: "forwarding_controller \<Rightarrow> lease_view file_system" where
  "memory_files c = \<lparr>
     fs_read_to_string = (\<lambda>p v. if p = fc_sysctl_path c then (Inr (lv_sysctl v), v)
       else case lv_lease v of None \<Rightarrow> (Inl (FsError FsNotFound ''absent''), v) | Some s \<Rightarrow> (Inr s, v)),
     fs_write = (\<lambda>p s v. (Inr (), v\<lparr>lv_sysctl := s\<rparr>)),
     fs_symlink_metadata = (\<lambda>p v. case lv_lease v of
         None \<Rightarrow> (Inl (FsError FsNotFound ''absent''), v) | Some _ \<Rightarrow> (Inr (FileMetadata True False LEASE_FILE_MODE 1 0 0 0), v)),
     fs_set_permissions = (\<lambda>p m v. (Inr (), v)),
     fs_create_dir_all = (\<lambda>p v. (Inr (), v)),
     fs_create_new = (\<lambda>p m v. case lv_lease v of
         None \<Rightarrow> (Inr (), v\<lparr>lv_lease := Some []\<rparr>) | Some _ \<Rightarrow> (Inl (FsError FsAlreadyExists ''present''), v)),
     fs_write_all = (\<lambda>p s v. (Inr (), v\<lparr>lv_lease := Some s\<rparr>)),
     fs_sync_all = (\<lambda>p v. (Inr (), v)),
     fs_remove_file = (\<lambda>p v. case lv_lease v of
         None \<Rightarrow> (Inl (FsError FsNotFound ''absent''), v) | Some _ \<Rightarrow> (Inr (), v\<lparr>lv_lease := None\<rparr>))\<rparr>"

lemma memory_files_contract: "fc_lease_path c \<noteq> fc_sysctl_path c \<Longrightarrow> lease_fs_contract (memory_files c) c id"
  by (auto simp: lease_fs_contract_def memory_files_def triple_def split: option.splits)

lemma system_paths: "fc_lease_path forwarding_system \<noteq> fc_sysctl_path forwarding_system"
  by (simp add: forwarding_system_def path_join_def RUNTIME_DIR_def IPV4_FORWARD_SYSCTL_def)

definition switch_off :: lease_view where
  "switch_off = \<lparr>lv_sysctl = [CHR ''0'', CHR 0x0A], lv_lease = None\<rparr>"

lemma switch_off_restorable: "restorable False (id switch_off)"
  by (simp add: restorable_def switch_off_def)

lemma memory_enable:
  "forwarding_set (memory_files forwarding_system) forwarding_system True switch_off =
     (Inr (), \<lparr>lv_sysctl = [CHR ''1'', CHR 0x0A], lv_lease = Some (lease_serialize (ForwardingLease False))\<rparr>)"
proof -
  have t: "trim_text [CHR ''0'', CHR 0x0A] = ''0''" "trim_text [CHR ''1'', CHR 0x0A] = ''1''"
    by (simp_all add: trim_text_def trim_def is_whitespace_def digit_chars)
  show ?thesis
    by (simp add: forwarding_set_def forwarding_enable_def read_forwarding_value_def read_lease_def create_lease_def
        write_new_lease_def write_forwarding_value_def memory_files_def switch_off_def bindE_def matchE_def fs_tryE_def
        path_parent_def t Let_def forwarding_system_def path_join_def RUNTIME_DIR_def IPV4_FORWARD_SYSCTL_def)
qed

theorem forwarding_lease_restores_witness:
  "restorable False \<lparr>lv_sysctl = [CHR ''1'', CHR 0x0A], lv_lease = Some (lease_serialize (ForwardingLease False))\<rparr>"
  using forwarding_lease_restores [OF memory_files_contract [OF system_paths] switch_off_restorable memory_enable]
  by simp

theorem host_forwarding_follows_topologies_witness:
  "fst (reconcile_ipv4_forwarding (set_ipv4_forwarding (memory_files forwarding_system)) [] (byte_ident 1) switch_off) =
     Inr False \<and>
   restorable False (snd (reconcile_ipv4_forwarding (set_ipv4_forwarding (memory_files forwarding_system)) []
     (byte_ident 1) switch_off))"
proof -
  have run: "reconcile_ipv4_forwarding (set_ipv4_forwarding (memory_files forwarding_system)) [] (byte_ident 1) switch_off =
      (Inr False, switch_off)"
    by (simp add: reconcile_ipv4_forwarding_def set_ipv4_forwarding_def forwarding_set_def forwarding_release_def
        read_lease_def memory_files_def switch_off_def bindE_def matchE_def)
  show ?thesis
    using host_forwarding_follows_topologies [OF memory_files_contract [OF system_paths] switch_off_restorable run] run
    by simp
qed

end
