(* ===== verification/Utf8.thy ===== *)
theory Utf8
  imports Ids
begin

text \<open>
  The text functions of Rust's standard library that the stored documents are read with: the UTF-8 form of a
  \<open>str\<close> and \<open>String::from_utf8\<close> with the place and extent of its errors, fields between separators, and decimal
  numbers. A text that is read by its bytes is a \<open>string\<close> of characters below 256, one for each byte.
\<close>

section \<open>Bytes and texts\<close>

definition text_of :: "u8 list \<Rightarrow> string" where
  "text_of = map (\<lambda>b. char_of (unat b))"

definition bytes_of :: "string \<Rightarrow> u8 list" where
  "bytes_of = map (\<lambda>c. of_nat (of_char c))"

lemma bytes_of_text_of [simp]: "bytes_of (text_of bs) = bs"
proof -
  have "unat b mod 256 = unat b" for b :: u8 using unat_less_pow [of b] by simp
  then show ?thesis by (simp add: bytes_of_def text_of_def comp_def)
qed

lemma text_of_bytes_of [simp]: "text_of (bytes_of s) = s"
proof -
  have "unat (of_nat (of_char c) :: u8) = of_char c" for c
    by (simp add: unsigned_of_nat take_bit_nat_eq_self)
  then show ?thesis by (simp add: bytes_of_def text_of_def comp_def)
qed

lemma text_of_append [simp]: "text_of (a @ b) = text_of a @ text_of b"
  by (simp add: text_of_def)

lemma length_text_of [simp]: "length (text_of bs) = length bs" "length (bytes_of s) = length s"
  by (simp_all add: text_of_def bytes_of_def)

section \<open>UTF-8\<close>

definition is_scalar :: "nat \<Rightarrow> bool" where
  "is_scalar c \<longleftrightarrow> c < 0xD800 \<or> (0xE000 \<le> c \<and> c < 0x110000)"

definition utf8_char :: "nat \<Rightarrow> u8 list" where
  "utf8_char c =
     (if c < 0x80 then [of_nat c]
      else if c < 0x800 then [of_nat (0xC0 + c div 0x40), of_nat (0x80 + c mod 0x40)]
      else if c < 0x10000
      then [of_nat (0xE0 + c div 0x1000), of_nat (0x80 + c div 0x40 mod 0x40), of_nat (0x80 + c mod 0x40)]
      else [of_nat (0xF0 + c div 0x40000), of_nat (0x80 + c div 0x1000 mod 0x40),
            of_nat (0x80 + c div 0x40 mod 0x40), of_nat (0x80 + c mod 0x40)])"

definition utf8_encode :: "ustring \<Rightarrow> u8 list" where
  "utf8_encode s = concat (map utf8_char s)"

text \<open>An error tells how many bytes are valid and how many the bad sequence has; none if the input ends inside it.\<close>

datatype utf8_error = Utf8Error (valid_up_to: nat) (error_len: "nat option")

definition show_utf8_error :: "utf8_error \<Rightarrow> string" where
  "show_utf8_error e =
     (case error_len e of
        Some n \<Rightarrow> ''invalid utf-8 sequence of '' @ show_nat n @ '' bytes from index '' @ show_nat (valid_up_to e)
      | None \<Rightarrow> ''incomplete utf-8 byte sequence from index '' @ show_nat (valid_up_to e))"

text \<open>The continuation bytes of a sequence: the values of the bytes after the first, each in its range.\<close>

fun utf8_tail :: "nat \<Rightarrow> nat \<Rightarrow> (nat \<times> nat) list \<Rightarrow> u8 list \<Rightarrow> nat \<Rightarrow> utf8_error + nat \<times> u8 list" where
  "utf8_tail start n [] bs acc = Inr (acc, bs)"
| "utf8_tail start n (r # ranges) [] acc = Inl (Utf8Error start None)"
| "utf8_tail start n ((low, high) # ranges) (b # bs) acc =
     (if low \<le> unat b \<and> unat b \<le> high
      then utf8_tail start (Suc n) ranges bs (acc * 0x40 + (unat b - 0x80))
      else Inl (Utf8Error start (Some n)))"

definition utf8_ranges :: "nat \<Rightarrow> (nat \<times> (nat \<times> nat) list) option" where
  "utf8_ranges b =
     (if b < 0x80 then Some (b, [])
      else if 0xC2 \<le> b \<and> b \<le> 0xDF then Some (b - 0xC0, [(0x80, 0xBF)])
      else if b = 0xE0 then Some (b - 0xE0, [(0xA0, 0xBF), (0x80, 0xBF)])
      else if b = 0xED then Some (b - 0xE0, [(0x80, 0x9F), (0x80, 0xBF)])
      else if 0xE1 \<le> b \<and> b \<le> 0xEF then Some (b - 0xE0, [(0x80, 0xBF), (0x80, 0xBF)])
      else if b = 0xF0 then Some (b - 0xF0, [(0x90, 0xBF), (0x80, 0xBF), (0x80, 0xBF)])
      else if b = 0xF4 then Some (b - 0xF0, [(0x80, 0x8F), (0x80, 0xBF), (0x80, 0xBF)])
      else if 0xF1 \<le> b \<and> b \<le> 0xF3 then Some (b - 0xF0, [(0x80, 0xBF), (0x80, 0xBF), (0x80, 0xBF)])
      else None)"

lemma utf8_tail_length: "utf8_tail start n ranges bs acc = Inr (c, rest) \<Longrightarrow> length rest \<le> length bs"
  by (induction start n ranges bs acc rule: utf8_tail.induct) (auto split: if_splits)

function utf8_decode :: "nat \<Rightarrow> u8 list \<Rightarrow> utf8_error + ustring" where
  "utf8_decode start [] = Inr []"
| "utf8_decode start (b # bs) =
     (case utf8_ranges (unat b) of
        None \<Rightarrow> Inl (Utf8Error start (Some 1))
      | Some (acc, ranges) \<Rightarrow>
          (case utf8_tail start 1 ranges bs acc of
             Inl e \<Rightarrow> Inl e
           | Inr (c, rest) \<Rightarrow>
               bindR (utf8_decode (start + Suc (length ranges)) rest) (\<lambda>cs. Inr (c # cs))))"
  by pat_completeness auto
termination
  by (relation "measure (\<lambda>(start, bs). length bs)") (auto dest: utf8_tail_length)

definition from_utf8 :: "u8 list \<Rightarrow> utf8_error + ustring" where
  "from_utf8 bs = utf8_decode 0 bs"

lemma utf8_byte: "n < 256 \<Longrightarrow> unat (of_nat n :: u8) = n"
  by (simp add: unsigned_of_nat take_bit_nat_eq_self)

lemma base64_digits:
  obtains a b where "c = a * 64 + b" "b < (64::nat)" "c div 64 = a" "c mod 64 = b"
  by (rule that [of "c div 64" "c mod 64"]) simp_all

lemma utf8_ranges_three:
  assumes "a < 16"
  shows "utf8_ranges (0xE0 + a) =
    Some (a, [(if a = 0 then 0xA0 else 0x80, if a = 13 then 0x9F else 0xBF), (0x80, 0xBF)])"
  using assms by (auto simp: utf8_ranges_def)

lemma utf8_ranges_four:
  assumes "a < 5"
  shows "utf8_ranges (0xF0 + a) =
    Some (a, [(if a = 0 then 0x90 else 0x80, if a = 4 then 0x8F else 0xBF), (0x80, 0xBF), (0x80, 0xBF)])"
  using assms by (auto simp: utf8_ranges_def)

lemma utf8_decode_char:
  assumes "is_scalar c"
  shows "utf8_decode start (utf8_char c @ bs) =
    bindR (utf8_decode (start + length (utf8_char c)) bs) (\<lambda>cs. Inr (c # cs))"
proof -
  consider "c < 0x80" | "0x80 \<le> c" "c < 0x800" | "0x800 \<le> c" "c < 0x10000" | "0x10000 \<le> c" by linarith
  then show ?thesis
  proof cases
    case 1
    then show ?thesis by (simp add: utf8_char_def utf8_byte utf8_ranges_def)
  next
    case 2
    obtain a b where c: "c = a * 64 + b" "b < 64" "c div 64 = a" "c mod 64 = b" by (rule base64_digits)
    have a: "2 \<le> a" "a < 32" using 2 c by auto
    then have "utf8_ranges (0xC0 + a) = Some (a, [(0x80, 0xBF)])" by (simp add: utf8_ranges_def)
    then show ?thesis using 2 a c(1,2) unfolding utf8_char_def c(3,4) by (simp add: utf8_byte del: of_nat_add)
  next
    case 3
    obtain ab e where c: "c = ab * 64 + e" "e < 64" "c div 64 = ab" "c mod 64 = e" by (rule base64_digits)
    obtain a b where ab: "ab = a * 64 + b" "b < 64" "ab div 64 = a" "ab mod 64 = b" by (rule base64_digits)
    have top: "c div 0x1000 = a" using div_mult2_eq [of c 64 64] by (simp add: c(3) ab(3))
    have a: "a < 16" and first: "a = 0 \<Longrightarrow> 32 \<le> b" and surrogate: "a = 13 \<Longrightarrow> b < 32"
      using 3 c(1,2) ab(1,2) assms unfolding is_scalar_def by auto
    show ?thesis
      using 3 a c(1,2) ab(1,2) first surrogate utf8_ranges_three [OF a]
      unfolding utf8_char_def top c(3,4) ab(4) by (auto simp: utf8_byte simp del: of_nat_add)
  next
    case 4
    obtain abd e where c: "c = abd * 64 + e" "e < 64" "c div 64 = abd" "c mod 64 = e" by (rule base64_digits)
    obtain ab d where abd: "abd = ab * 64 + d" "d < 64" "abd div 64 = ab" "abd mod 64 = d" by (rule base64_digits)
    obtain a b where ab: "ab = a * 64 + b" "b < 64" "ab div 64 = a" "ab mod 64 = b" by (rule base64_digits)
    have mid: "c div 0x1000 = ab" using div_mult2_eq [of c 64 64] by (simp add: c(3) abd(3))
    have top: "c div 0x40000 = a" using div_mult2_eq [of c "0x1000" 64] by (simp add: mid ab(3))
    have a: "a < 5" and first: "a = 0 \<Longrightarrow> 16 \<le> b" and last: "a = 4 \<Longrightarrow> b < 16"
      using 4 c(1,2) abd(1,2) ab(1,2) assms unfolding is_scalar_def by auto
    show ?thesis
      using 4 a c(1,2) abd(1,2) ab(1,2) first last utf8_ranges_four [OF a]
      unfolding utf8_char_def top mid c(3,4) abd(4) ab(4) by (auto simp: utf8_byte simp del: of_nat_add)
  qed
qed

lemma utf8_decode_encode: "list_all is_scalar s \<Longrightarrow> utf8_decode start (utf8_encode s) = Inr s"
  by (induction s arbitrary: start) (simp_all add: utf8_encode_def utf8_decode_char)

lemma from_utf8_encode: "list_all is_scalar s \<Longrightarrow> from_utf8 (utf8_encode s) = Inr s"
  by (simp add: from_utf8_def utf8_decode_encode)

lemma utf8_tail_Inr:
  "utf8_tail start n ((low, high) # ranges) bs acc = Inr r \<longleftrightarrow>
     (\<exists>b bs'. bs = b # bs' \<and> low \<le> unat b \<and> unat b \<le> high \<and>
        utf8_tail start (Suc n) ranges bs' (acc * 0x40 + (unat b - 0x80)) = Inr r)"
  by (cases bs) auto

lemma utf8_first_scalar:
  assumes "utf8_ranges b = Some (acc, ranges)" and "utf8_tail start 1 ranges bs acc = Inr (c, rest)"
  shows "is_scalar c"
  using assms
  by (auto simp: utf8_ranges_def is_scalar_def utf8_tail_Inr split: if_splits) arith+

lemma utf8_decode_scalar: "utf8_decode start bs = Inr s \<Longrightarrow> list_all is_scalar s"
  by (induction start bs arbitrary: s rule: utf8_decode.induct)
    (auto simp: bindR_eq_Inr split: option.splits sum.splits prod.splits dest: utf8_first_scalar)

section \<open>Fields and numbers\<close>

text \<open>\<open>str::split\<close> at a character: always at least one field.\<close>

fun split_from :: "char \<Rightarrow> string \<Rightarrow> string \<Rightarrow> string list" where
  "split_from sep field [] = [field]"
| "split_from sep field (c # s) =
     (if c = sep then field # split_from sep [] s else split_from sep (field @ [c]) s)"

definition split_text :: "char \<Rightarrow> string \<Rightarrow> string list" where
  "split_text sep s = split_from sep [] s"

lemma split_from_field: "sep \<notin> set a \<Longrightarrow> split_from sep field (a @ s) = split_from sep (field @ a) s"
  by (induction a arbitrary: field) auto

lemma split_text_field:
  "sep \<notin> set a \<Longrightarrow> split_text sep (a @ sep # s) = a # split_text sep s"
  "sep \<notin> set a \<Longrightarrow> split_text sep a = [a]"
  using split_from_field [of sep a "[]" "[]"] by (simp_all add: split_text_def split_from_field)

definition strip_prefix :: "string \<Rightarrow> string \<Rightarrow> string option" where
  "strip_prefix p s = (if take (length p) s = p then Some (drop (length p) s) else None)"

definition is_ascii_digit :: "char \<Rightarrow> bool" where
  "is_ascii_digit c \<longleftrightarrow> 48 \<le> (of_char c :: nat) \<and> (of_char c :: nat) \<le> 57"

text \<open>\<open>str::parse::<u32>\<close> of a text of digits, which can only overflow.\<close>

definition parse_u32_digits :: "string \<Rightarrow> string + u32" where
  "parse_u32_digits s =
     (let n = foldl (\<lambda>n c. 10 * n + (of_char c - 48)) (0::nat) s
      in if n < 2 ^ 32 then Inr (of_nat n) else Inl ''number too large to fit in target type'')"

end
