(* ===== verification/Membership_Document.thy ===== *)
theory Membership_Document
  imports Utf8 Linux_Files Membership
begin

text \<open>
  The text format of the durable membership registry in \<open>crates/blueroute-linux/src/membership_store.rs\<close>: writing,
  reading with its line-numbered errors, and the migration of older versions. The fields of a line that are still to
  be read are a list; taking the next one returns the rest.
\<close>

section \<open>Errors\<close>

definition malformed_state :: "string \<Rightarrow> core_error" where
  "malformed_state message =
     core_error_new PersistenceError (''network membership state is malformed: '' @ message)"

definition malformed_line :: "nat \<Rightarrow> string \<Rightarrow> core_error" where
  "malformed_line line_number message =
     malformed_state (''line '' @ show_nat line_number @ '': '' @ message)"

definition malformed_value :: "nat \<Rightarrow> string \<Rightarrow> string \<Rightarrow> core_error" where
  "malformed_value line_number message error =
     with_diagnostic PersistenceError
       (''network membership state is malformed: line '' @ show_nat line_number @ '': '' @ message) error"

section \<open>Fields\<close>

definition FORMAT_HEADER_PREFIX :: string where
  "FORMAT_HEADER_PREFIX = ''BLUEROUTE_MEMBERSHIP_V''"

definition LEGACY_FORMAT_VERSION :: u32 where
  "LEGACY_FORMAT_VERSION = 1"

definition CURRENT_FORMAT_VERSION :: u32 where
  "CURRENT_FORMAT_VERSION = 2"

definition format_header :: "u32 \<Rightarrow> string" where
  "format_header version = FORMAT_HEADER_PREFIX @ show_nat (unat version)"

definition durable_state_code :: "membership_state \<Rightarrow> string core_result" where
  "durable_state_code state =
     (case state of
        NotMember \<Rightarrow> Inr ''not-member''
      | Member \<Rightarrow> Inr ''member''
      | _ \<Rightarrow> Inl (core_error_new PersistenceError ''cannot persist a transient network membership state''))"

definition parse_durable_state :: "string \<Rightarrow> nat \<Rightarrow> membership_state core_result" where
  "parse_durable_state s line_number =
     (if s = ''not-member'' then Inr NotMember
      else if s = ''member'' then Inr Member
      else Inl (malformed_line line_number ''invalid membership state''))"

definition bool_code :: "bool \<Rightarrow> string" where
  "bool_code b = (if b then ''1'' else ''0'')"

definition parse_bool :: "string \<Rightarrow> nat \<Rightarrow> bool core_result" where
  "parse_bool s line_number =
     (if s = ''0'' then Inr False
      else if s = ''1'' then Inr True
      else Inl (malformed_line line_number ''invalid boolean flag''))"

fun name_encode_hex :: "u8 list \<Rightarrow> string" where
  "name_encode_hex [] = []"
| "name_encode_hex (byte # bytes) =
     char_of (unat (HEX ! unat (drop_bit 4 byte))) # char_of (unat (HEX ! unat (byte AND 0x0f))) # name_encode_hex bytes"

definition name_decode_nibble :: "u8 \<Rightarrow> u8 option" where
  "name_decode_nibble v =
     (if 48 \<le> v \<and> v \<le> 57 then Some (v - 48)
      else if 97 \<le> v \<and> v \<le> 102 then Some (v - 97 + 10)
      else if 65 \<le> v \<and> v \<le> 70 then Some (v - 65 + 10)
      else None)"

fun name_decode_pairs :: "nat \<Rightarrow> u8 list \<Rightarrow> u8 list core_result" where
  "name_decode_pairs line_number (h # l # rest) =
     bindR (ok_or (malformed_line line_number ''hex field contains invalid data'') (name_decode_nibble h)) (\<lambda>high.
     bindR (ok_or (malformed_line line_number ''hex field contains invalid data'') (name_decode_nibble l)) (\<lambda>low.
     bindR (name_decode_pairs line_number rest) (\<lambda>bytes.
       Inr ((push_bit 4 high OR low) # bytes))))"
| "name_decode_pairs line_number _ = Inr []"

definition name_decode_hex :: "string \<Rightarrow> nat \<Rightarrow> u8 list core_result" where
  "name_decode_hex s line_number =
     (let bytes = bytes_of s in
      if odd (length bytes) then Inl (malformed_line line_number ''hex field has an odd length'')
      else name_decode_pairs line_number bytes)"

definition required_field :: "string list \<Rightarrow> nat \<Rightarrow> string \<Rightarrow> (string \<times> string list) core_result" where
  "required_field flds line_number field_name =
     (case flds of
        [] \<Rightarrow> Inl (malformed_line line_number (''missing '' @ field_name))
      | f # rest \<Rightarrow> Inr (f, rest))"

section \<open>Writing\<close>

definition TAB :: char where
  "TAB = CHR 0x09"

definition LF :: char where
  "LF = CHR 0x0A"

definition serialize_peer :: "network_membership \<Rightarrow> peer_membership \<Rightarrow> string \<Rightarrow> string core_result" where
  "serialize_peer membership peer doc =
     (if pm_node_id peer = zero_ident then Inl (malformed_state ''cannot persist an all-zero peer identity'')
      else Inr (doc @ ''peer'' @ [TAB] @ text_of (ident_to_string (nm_network_id membership)) @ [TAB] @
        text_of (ident_to_string (pm_node_id peer)) @ [TAB] @ bool_code (pm_member peer) @ [TAB] @
        bool_code (pm_trusted peer) @ [LF]))"

definition serialize_network :: "network_membership \<Rightarrow> string \<Rightarrow> string core_result" where
  "serialize_network membership doc =
     (if nm_network_id membership = zero_ident
      then Inl (malformed_state ''cannot persist an all-zero network identity'')
      else bindR (durable_state_code (nm_state membership)) (\<lambda>state.
        let encoded_name = name_encode_hex (utf8_encode (display_name_as_str (nm_network_name membership)));
            doc' = doc @ ''network'' @ [TAB] @ text_of (ident_to_string (nm_network_id membership)) @ [TAB] @
              state @ [TAB] @ encoded_name @ [LF]
        in foldR (serialize_peer membership) (fm_values (nm_peers membership)) doc'))"

definition serialize_registry :: "membership_registry \<Rightarrow> string core_result" where
  "serialize_registry registry =
     foldR serialize_network (fm_values (mr_networks registry)) (format_header CURRENT_FORMAT_VERSION @ [LF])"

section \<open>Reading\<close>

definition registry_default :: membership_registry where
  "registry_default = \<lparr>mr_networks = fmempty\<rparr>"

definition parse_network_record ::
  "membership_registry \<Rightarrow> string list \<Rightarrow> nat \<Rightarrow> (membership_registry \<times> string list) core_result" where
  "parse_network_record registry flds line_number =
     bindR (required_field flds line_number ''network id'') (\<lambda>(id_text, flds).
     bindR (map_err (\<lambda>e. malformed_value line_number ''invalid network id'' (err_message e))
         (ident_from_str (bytes_of id_text))) (\<lambda>network_id.
       if network_id = zero_ident then Inl (malformed_line line_number ''all-zero network identity is invalid'')
       else if registry_network registry network_id \<noteq> None
       then Inl (malformed_line line_number ''duplicate network record'')
       else
     bindR (required_field flds line_number ''membership state'') (\<lambda>(state_text, flds).
     bindR (parse_durable_state state_text line_number) (\<lambda>state.
     bindR (required_field flds line_number ''network name'') (\<lambda>(encoded_name, flds).
     bindR (name_decode_hex encoded_name line_number) (\<lambda>name_bytes.
     bindR (map_err (\<lambda>e. malformed_value line_number ''network name is not valid UTF-8'' (show_utf8_error e))
         (from_utf8 name_bytes)) (\<lambda>name.
     bindR (map_err (\<lambda>e. malformed_value line_number ''invalid network name'' (err_message e))
         (display_name_new name)) (\<lambda>display_name.
       Inr (snd (remember_network registry
              ((network_membership_new network_id display_name)\<lparr>nm_state := state\<rparr>)), flds)))))))))"

definition parse_peer_record ::
  "membership_registry \<Rightarrow> string list \<Rightarrow> nat \<Rightarrow> (membership_registry \<times> string list) core_result" where
  "parse_peer_record registry flds line_number =
     bindR (required_field flds line_number ''network id'') (\<lambda>(network_text, flds).
     bindR (map_err (\<lambda>e. malformed_value line_number ''invalid network id'' (err_message e))
         (ident_from_str (bytes_of network_text))) (\<lambda>network_id.
     bindR (required_field flds line_number ''peer node id'') (\<lambda>(node_text, flds).
     bindR (map_err (\<lambda>e. malformed_value line_number ''invalid peer node id'' (err_message e))
         (ident_from_str (bytes_of node_text))) (\<lambda>node_id.
       if network_id = zero_ident \<or> node_id = zero_ident
       then Inl (malformed_line line_number ''all-zero network or peer identity is invalid'')
       else
     bindR (required_field flds line_number ''peer member flag'') (\<lambda>(member_text, flds).
     bindR (parse_bool member_text line_number) (\<lambda>member.
     bindR (required_field flds line_number ''peer trust flag'') (\<lambda>(trust_text, flds).
     bindR (parse_bool trust_text line_number) (\<lambda>trusted.
     bindR (ok_or (malformed_line line_number ''peer record refers to a network that has not been declared'')
         (network_mut registry network_id (\<lambda>membership.
            if is_peer_known membership node_id then (False, membership)
            else let m1 = snd (remember_peer membership node_id); m2 = snd (set_peer_member m1 node_id member)
                 in (True, if trusted then snd (trust_peer m2 node_id) else m2)))) (\<lambda>(fresh, registry').
       if \<not> fresh then Inl (malformed_line line_number ''duplicate peer record'')
       else Inr (registry', flds))))))))))"

definition parse_line :: "nat \<times> string \<Rightarrow> membership_registry \<Rightarrow> membership_registry core_result" where
  "parse_line numbered registry =
     (case numbered of (line_number, line) \<Rightarrow>
      if line = [] then Inl (malformed_line line_number ''blank records are not allowed'')
      else bindR (case split_text TAB line of
          [] \<Rightarrow> Inl (malformed_line line_number ''missing record type'')
        | record_type # flds \<Rightarrow>
            if record_type = ''network'' then parse_network_record registry flds line_number
            else if record_type = ''peer'' then parse_peer_record registry flds line_number
            else Inl (malformed_line line_number ''unknown record type'')) (\<lambda>(registry', flds).
        if flds \<noteq> [] then Inl (malformed_line line_number ''record has too many fields'')
        else Inr registry'))"

definition parse_registry :: "string \<Rightarrow> membership_registry core_result" where
  "parse_registry serialized =
     (case text_lines serialized of
        [] \<Rightarrow> Inl (malformed_state ''unsupported or missing current membership format header'')
      | header # rest \<Rightarrow>
          if header \<noteq> format_header CURRENT_FORMAT_VERSION
          then Inl (malformed_state ''unsupported or missing current membership format header'')
          else foldR parse_line (enumerate 2 rest) registry_default)"

section \<open>Migration\<close>

definition detect_format_version :: "string \<Rightarrow> u32 core_result" where
  "detect_format_version serialized =
     bindR (ok_or (malformed_state ''missing membership format header'')
       (case text_lines serialized of [] \<Rightarrow> None | header # _ \<Rightarrow> Some header)) (\<lambda>header.
     bindR (ok_or (malformed_state ''unsupported or missing membership format header'')
       (strip_prefix FORMAT_HEADER_PREFIX header)) (\<lambda>version.
       if version = [] \<or> \<not> list_all is_ascii_digit version
       then Inl (malformed_state ''membership format version is invalid'')
       else map_err (malformed_value 1 ''invalid membership format version'') (parse_u32_digits version)))"

definition migrate_v1_to_v2 :: "string \<Rightarrow> string core_result" where
  "migrate_v1_to_v2 serialized =
     (case text_lines serialized of
        header # rest \<Rightarrow>
          if header \<noteq> format_header LEGACY_FORMAT_VERSION
          then Inl (core_error_new PersistenceError
                 ''network membership v1 migration received the wrong source schema'')
          else let migrated = format_header CURRENT_FORMAT_VERSION @ [LF] @ concat (map (\<lambda>line. line @ [LF]) rest)
               in bindR (parse_registry migrated) (\<lambda>_. Inr migrated)
      | [] \<Rightarrow> Inl (core_error_new PersistenceError
                 ''network membership v1 migration received the wrong source schema''))"

record migration_result =
  mg_serialized :: string
  mg_migrated :: bool

text \<open>The \<open>while\<close> loop over the versions.\<close>

function migrate_from :: "u32 \<Rightarrow> string \<Rightarrow> string core_result" where
  "migrate_from version current =
     (if version < CURRENT_FORMAT_VERSION
      then bindR (if version = LEGACY_FORMAT_VERSION then migrate_v1_to_v2 current
             else Inl (core_error_new PersistenceError
               (''no network membership migration path exists from schema version '' @ show_nat (unat version))))
             (migrate_from (version + 1))
      else Inr current)"
  by pat_completeness auto
termination
proof (relation "measure (\<lambda>(version, current). 2 - unat version)")
  fix version :: u32 and current x :: string
  assume "version < CURRENT_FORMAT_VERSION"
  then have "unat version < 2" by (simp add: CURRENT_FORMAT_VERSION_def word_less_nat_alt)
  moreover from this have "unat (version + 1) = unat version + 1"
    by (simp add: unat_add_no_overflow)
  ultimately show "((version + 1, x), version, current) \<in> measure (\<lambda>(version, current). 2 - unat version)" by simp
qed simp

declare migrate_from.simps [simp del]

definition migrate_to_current :: "string \<Rightarrow> migration_result core_result" where
  "migrate_to_current serialized =
     bindR (detect_format_version serialized) (\<lambda>original_version.
       if original_version > CURRENT_FORMAT_VERSION
       then Inl (core_error_new PersistenceError
              (''network membership state uses unsupported future schema version '' @ show_nat (unat original_version) @
               ''; current version is '' @ show_nat (unat CURRENT_FORMAT_VERSION)))
       else bindR (migrate_from original_version serialized) (\<lambda>current.
         Inr \<lparr>mg_serialized = current, mg_migrated = (original_version \<noteq> CURRENT_FORMAT_VERSION)\<rparr>))"

section \<open>Hexadecimal names\<close>

lemma name_encode_hex_text: "name_encode_hex bs = text_of (encode_hex bs)"
  by (induction bs) (simp_all add: text_of_def)

lemma name_decode_pairs_encode: "name_decode_pairs n (encode_hex bs) = Inr bs"
proof -
  have "name_decode_nibble = decode_nibble" by (simp add: fun_eq_iff name_decode_nibble_def decode_nibble_def)
  then show ?thesis
    by (induction bs) (simp_all add: decode_nibble_HEX unat_high_nibble unat_low_nibble nibbles_join)
qed

lemma name_decode_encode: "name_decode_hex (name_encode_hex bs) n = Inr bs"
  by (simp add: name_decode_hex_def name_encode_hex_text name_decode_pairs_encode)

lemma HEX_range: "n < 16 \<Longrightarrow> 48 \<le> unat (HEX ! n)"
proof -
  have "list_all (\<lambda>n. 48 \<le> unat (HEX ! n)) [0..<16]" by code_simp
  then show "n < 16 \<Longrightarrow> 48 \<le> unat (HEX ! n)" by (simp add: list_all_iff)
qed

lemma hex_bytes: "b \<in> set (encode_hex bs) \<Longrightarrow> 48 \<le> unat b"
  by (induction bs) (auto simp: HEX_range unat_high_nibble unat_low_nibble)

lemma hex_no_control: "c \<in> set (text_of (encode_hex bs)) \<Longrightarrow> 48 \<le> (of_char c :: nat)"
proof -
  assume "c \<in> set (text_of (encode_hex bs))"
  then obtain b where "b \<in> set (encode_hex bs)" "c = char_of (unat b)" by (auto simp: text_of_def)
  moreover have "unat b mod 256 = unat b" for b :: u8 using unat_less_pow [of b] by simp
  ultimately show ?thesis using hex_bytes by simp
qed

lemma hex_plain [simp]:
  "TAB \<notin> set (text_of (encode_hex bs))" "CHR 0x0A \<notin> set (text_of (encode_hex bs))"
  "CHR 0x0D \<notin> set (text_of (encode_hex bs))"
  using hex_no_control [of _ bs] by (fastforce simp: TAB_def)+

section \<open>Lines\<close>

definition state_text :: "membership_state \<Rightarrow> string" where
  "state_text state = (if state = Member then ''member'' else ''not-member'')"

definition network_line :: "network_membership \<Rightarrow> string" where
  "network_line m = ''network'' @ [TAB] @ text_of (ident_to_string (nm_network_id m)) @ [TAB] @ state_text (nm_state m) @
     [TAB] @ name_encode_hex (utf8_encode (display_name_as_str (nm_network_name m)))"

definition peer_line :: "network_membership \<Rightarrow> peer_membership \<Rightarrow> string" where
  "peer_line m p = ''peer'' @ [TAB] @ text_of (ident_to_string (nm_network_id m)) @ [TAB] @
     text_of (ident_to_string (pm_node_id p)) @ [TAB] @ bool_code (pm_member p) @ [TAB] @ bool_code (pm_trusted p)"

definition network_lines :: "network_membership \<Rightarrow> string list" where
  "network_lines m = network_line m # map (peer_line m) (fm_values (nm_peers m))"

lemma field_plain:
  "TAB \<notin> set (state_text s)" "TAB \<notin> set (bool_code b)"
  "plain_line (state_text s)" "plain_line (bool_code b)" "plain_line [TAB]" "plain_line (text_of (encode_hex bs))"
  by (simp_all add: state_text_def bool_code_def TAB_def plain_line_def)

lemma lines_plain [simp]: "plain_line (network_line m)" "plain_line (peer_line m p)" "plain_line (format_header CURRENT_FORMAT_VERSION)"
  using field_plain
  by (simp_all add: network_line_def peer_line_def plain_line_def name_encode_hex_text ident_to_string_def format_header_def
      FORMAT_HEADER_PREFIX_def CURRENT_FORMAT_VERSION_def show_nat.simps digit_chars)

text \<open>The registries that a restart may find: networks and peers under their own identifiers, none of them zero,
  names as the constructor makes them, and no transition under way.\<close>

definition stored_name :: "display_name \<Rightarrow> bool" where
  "stored_name name \<longleftrightarrow> display_name_new (display_name_as_str name) = Inr name \<and> list_all is_scalar (display_name_as_str name)"

definition keyed_registry :: "membership_registry \<Rightarrow> bool" where
  "keyed_registry r \<longleftrightarrow> (\<forall>i m. fmlookup (mr_networks r) i = Some m \<longrightarrow> nm_network_id m = i \<and> stored_name (nm_network_name m) \<and>
     (\<forall>n p. fmlookup (nm_peers m) n = Some p \<longrightarrow> pm_node_id p = n))"

definition settled_network :: "network_membership \<Rightarrow> bool" where
  "settled_network m \<longleftrightarrow> nm_network_id m \<noteq> zero_ident \<and> (nm_state m = NotMember \<or> nm_state m = Member) \<and>
     (\<forall>n p. fmlookup (nm_peers m) n = Some p \<longrightarrow> pm_node_id p \<noteq> zero_ident)"

definition durable_registry :: "membership_registry \<Rightarrow> bool" where
  "durable_registry r \<longleftrightarrow> keyed_registry r \<and> (\<forall>i m. fmlookup (mr_networks r) i = Some m \<longrightarrow> settled_network m)"

section \<open>What is written\<close>

lemma foldR_serialize_peers:
  "list_all (\<lambda>p. pm_node_id p \<noteq> zero_ident) ps \<Longrightarrow>
   foldR (serialize_peer m) ps doc = Inr (doc @ unlines (map (peer_line m) ps))"
  by (induction ps arbitrary: doc) (simp_all add: serialize_peer_def peer_line_def LF_def)

lemma foldR_serialize_peers_err:
  "list_ex (\<lambda>p. pm_node_id p = zero_ident) ps \<Longrightarrow>
   \<exists>e. foldR (serialize_peer m) ps doc = Inl e \<and> err_kind e = PersistenceError"
  by (induction ps arbitrary: doc) (auto simp: serialize_peer_def malformed_state_def)

lemma serialize_network_exact:
  "serialize_network m doc = Inr (doc @ unlines (network_lines m)) \<and> settled_network m \<or>
   (\<exists>e. serialize_network m doc = Inl e \<and> err_kind e = PersistenceError) \<and> \<not> settled_network m"
proof (cases "list_all (\<lambda>p. pm_node_id p \<noteq> zero_ident) (fm_values (nm_peers m))")
  case True
  then have "settled_network m \<longleftrightarrow> nm_network_id m \<noteq> zero_ident \<and> (nm_state m = NotMember \<or> nm_state m = Member)"
    by (auto simp: settled_network_def list_all_iff set_fm_values)
  then show ?thesis using foldR_serialize_peers [OF True, of m]
    by (cases "nm_state m")
      (auto simp: serialize_network_def durable_state_code_def malformed_state_def network_lines_def network_line_def
        state_text_def LF_def Let_def)
next
  case False
  then have ex: "list_ex (\<lambda>p. pm_node_id p = zero_ident) (fm_values (nm_peers m))"
    by (auto simp: list_all_iff list_ex_iff)
  then have "\<not> settled_network m" by (auto simp: settled_network_def list_ex_iff set_fm_values)
  then show ?thesis using foldR_serialize_peers_err [OF ex, of m]
    by (cases "nm_state m") (auto simp: serialize_network_def durable_state_code_def malformed_state_def Let_def)
qed

lemma foldR_serialize_networks:
  "foldR serialize_network ms doc = Inr (doc @ unlines (concat (map network_lines ms))) \<and> list_all settled_network ms \<or>
   (\<exists>e. foldR serialize_network ms doc = Inl e \<and> err_kind e = PersistenceError) \<and> \<not> list_all settled_network ms"
proof (induction ms arbitrary: doc)
  case (Cons m ms)
  show ?case using serialize_network_exact [of m doc] Cons.IH [of "doc @ unlines (network_lines m)"] by auto
qed simp

definition registry_lines :: "membership_registry \<Rightarrow> string list" where
  "registry_lines r = concat (map network_lines (fm_values (mr_networks r)))"

lemma serialize_registry_exact:
  "serialize_registry r = Inr (unlines (format_header CURRENT_FORMAT_VERSION # registry_lines r)) \<and>
     (\<forall>i m. fmlookup (mr_networks r) i = Some m \<longrightarrow> settled_network m) \<or>
   (\<exists>e. serialize_registry r = Inl e \<and> err_kind e = PersistenceError) \<and>
     \<not> (\<forall>i m. fmlookup (mr_networks r) i = Some m \<longrightarrow> settled_network m)"
  using foldR_serialize_networks [of "fm_values (mr_networks r)" "format_header CURRENT_FORMAT_VERSION @ [LF]"]
  by (auto simp: serialize_registry_def registry_lines_def list_all_iff set_fm_values LF_def)

section \<open>What is read\<close>

lemma ident_text [simp]: "ident_from_str (ident_to_string i) = Inr i"
  by (simp add: ident_from_str_def ident_to_string_def decode_hex_def ID_HEX_CHARS_def)

lemma parse_bool_code [simp]: "parse_bool (bool_code b) n = Inr b"
  by (simp add: parse_bool_def bool_code_def)

lemma record_tags:
  "split_text TAB (''network'' @ TAB # s) = ''network'' # split_text TAB s"
  "split_text TAB (''peer'' @ TAB # s) = ''peer'' # split_text TAB s"
  by (rule split_text_field, simp add: TAB_def)+

lemma network_line_fields:
  "split_text TAB (network_line m) = [''network'', text_of (ident_to_string (nm_network_id m)), state_text (nm_state m),
     name_encode_hex (utf8_encode (display_name_as_str (nm_network_name m)))]"
  using field_plain record_tags(1)
  by (simp add: network_line_def split_text_field name_encode_hex_text ident_to_string_def)

lemma peer_line_fields:
  "split_text TAB (peer_line m p) = [''peer'', text_of (ident_to_string (nm_network_id m)),
     text_of (ident_to_string (pm_node_id p)), bool_code (pm_member p), bool_code (pm_trusted p)]"
  using field_plain record_tags(2)
  by (simp add: peer_line_def split_text_field ident_to_string_def)

lemma parse_network_line:
  assumes "settled_network m" and "stored_name (nm_network_name m)"
    and "fmlookup (mr_networks r) (nm_network_id m) = None"
  shows "parse_line (n, network_line m) r =
    Inr (r\<lparr>mr_networks := fmupd (nm_network_id m) (m\<lparr>nm_peers := fmempty\<rparr>) (mr_networks r)\<rparr>)"
proof -
  have state: "parse_durable_state (state_text (nm_state m)) n = Inr (nm_state m)"
    using assms(1) by (auto simp: settled_network_def parse_durable_state_def state_text_def)
  have name: "from_utf8 (utf8_encode (display_name_as_str (nm_network_name m))) = Inr (display_name_as_str (nm_network_name m))"
    "display_name_new (display_name_as_str (nm_network_name m)) = Inr (nm_network_name m)"
    using assms(2) by (auto simp: stored_name_def from_utf8_encode)
  have empty: "m\<lparr>nm_peers := fmempty\<rparr> = \<lparr>nm_network_id = nm_network_id m, nm_network_name = nm_network_name m,
      nm_state = nm_state m, nm_peers = fmempty\<rparr>" by (cases m) simp
  have "network_line m \<noteq> []" by (simp add: network_line_def)
  then show ?thesis
    unfolding empty using assms(1,3) state name
    by (simp add: parse_line_def network_line_fields parse_network_record_def required_field_def settled_network_def
        registry_network_def name_decode_encode remember_network_def network_membership_new_def)
qed

lemma parse_peer_line:
  assumes "settled_network m" and "pm_node_id p \<noteq> zero_ident"
    and "fmlookup (mr_networks r) (nm_network_id m) = Some m'" and "fmlookup (nm_peers m') (pm_node_id p) = None"
  shows "parse_line (n, peer_line m p) r =
    Inr (r\<lparr>mr_networks := fmupd (nm_network_id m) (m'\<lparr>nm_peers := fmupd (pm_node_id p) p (nm_peers m')\<rparr>) (mr_networks r)\<rparr>)"
proof -
  have "peer_line m p \<noteq> []" by (simp add: peer_line_def)
  then show ?thesis
    using assms
    by (cases p)
      (simp add: parse_line_def peer_line_fields parse_peer_record_def required_field_def settled_network_def network_mut_def
        is_peer_known_def remember_peer_def set_peer_member_def trust_peer_def peer_entry_def peer_membership_new_def Let_def)
qed

lemma foldR_parse_peers:
  assumes "settled_network m" and "list_all (\<lambda>p. pm_node_id p \<noteq> zero_ident) ps"
    and "fmlookup (mr_networks r) (nm_network_id m) = Some m'"
    and "distinct (map pm_node_id ps)" and "list_all (\<lambda>p. fmlookup (nm_peers m') (pm_node_id p) = None) ps"
  shows "foldR parse_line (enumerate n (map (peer_line m) ps)) r =
    Inr (r\<lparr>mr_networks := fmupd (nm_network_id m)
      (m'\<lparr>nm_peers := fold (\<lambda>p. fmupd (pm_node_id p) p) ps (nm_peers m')\<rparr>) (mr_networks r)\<rparr>)"
  using assms(2-)
proof (induction ps arbitrary: n r m')
  case Nil
  have "fmupd (nm_network_id m) m' (mr_networks r) = mr_networks r"
    by (rule fmap_ext) (use Nil.prems(2) in auto)
  then show ?case by simp
next
  case (Cons p ps)
  let ?m = "m'\<lparr>nm_peers := fmupd (pm_node_id p) p (nm_peers m')\<rparr>"
  let ?r = "r\<lparr>mr_networks := fmupd (nm_network_id m) ?m (mr_networks r)\<rparr>"
  have "foldR parse_line (enumerate (Suc n) (map (peer_line m) ps)) ?r =
      Inr (?r\<lparr>mr_networks := fmupd (nm_network_id m)
        (?m\<lparr>nm_peers := fold (\<lambda>p. fmupd (pm_node_id p) p) ps (nm_peers ?m)\<rparr>) (mr_networks ?r)\<rparr>)"
    by (rule Cons.IH) (use Cons.prems in \<open>auto simp: list_all_iff image_iff\<close>)
  then show ?case using Cons.prems by (simp add: parse_peer_line [OF assms(1)])
qed

lemma parse_network_lines:
  assumes m: "settled_network m" and name: "stored_name (nm_network_name m)"
    and keys: "\<And>n p. fmlookup (nm_peers m) n = Some p \<Longrightarrow> pm_node_id p = n"
    and fresh: "fmlookup (mr_networks r) (nm_network_id m) = None"
  shows "foldR parse_line (enumerate n (network_lines m)) r =
    Inr (r\<lparr>mr_networks := fmupd (nm_network_id m) m (mr_networks r)\<rparr>)"
proof -
  let ?m0 = "m\<lparr>nm_peers := fmempty\<rparr>"
  let ?r0 = "r\<lparr>mr_networks := fmupd (nm_network_id m) ?m0 (mr_networks r)\<rparr>"
  have "foldR parse_line (enumerate (Suc n) (map (peer_line m) (fm_values (nm_peers m)))) ?r0 =
    Inr (?r0\<lparr>mr_networks := fmupd (nm_network_id m)
      (?m0\<lparr>nm_peers := fold (\<lambda>p. fmupd (pm_node_id p) p) (fm_values (nm_peers m)) (nm_peers ?m0)\<rparr>) (mr_networks ?r0)\<rparr>)"
    by (rule foldR_parse_peers [OF m])
      (use m distinct_keys [of "nm_peers m" pm_node_id, OF keys] in \<open>auto simp: settled_network_def list_all_iff set_fm_values\<close>)
  then show ?thesis
    by (simp add: network_lines_def parse_network_line [OF m name fresh] fm_rebuild [of "nm_peers m" pm_node_id, OF keys])
qed

lemma foldR_parse_networks:
  assumes "list_all settled_network ms" and "list_all (\<lambda>m. stored_name (nm_network_name m)) ms"
    and "list_all (\<lambda>m. \<forall>n p. fmlookup (nm_peers m) n = Some p \<longrightarrow> pm_node_id p = n) ms"
    and "list_all (\<lambda>m. fmlookup (mr_networks r) (nm_network_id m) = None) ms" and "distinct (map nm_network_id ms)"
  shows "foldR parse_line (enumerate n (concat (map network_lines ms))) r =
    Inr (r\<lparr>mr_networks := fold (\<lambda>m. fmupd (nm_network_id m) m) ms (mr_networks r)\<rparr>)"
  using assms
proof (induction ms arbitrary: n r)
  case (Cons m ms)
  let ?r = "r\<lparr>mr_networks := fmupd (nm_network_id m) m (mr_networks r)\<rparr>"
  have "foldR parse_line (enumerate (n + length (network_lines m)) (concat (map network_lines ms))) ?r =
      Inr (?r\<lparr>mr_networks := fold (\<lambda>m. fmupd (nm_network_id m) m) ms (mr_networks ?r)\<rparr>)"
    by (rule Cons.IH) (use Cons.prems in \<open>auto simp: list_all_iff image_iff\<close>)
  moreover have "foldR parse_line (enumerate n (network_lines m)) r = Inr ?r"
    by (rule parse_network_lines) (use Cons.prems in auto)
  ultimately show ?case by (simp add: enumerate_append_eq foldR_append)
qed simp

lemma parse_serialized:
  assumes "durable_registry r"
  shows "parse_registry (unlines (format_header CURRENT_FORMAT_VERSION # registry_lines r)) = Inr r"
proof -
  have keys: "nm_network_id m = i" if "fmlookup (mr_networks r) i = Some m" for i m
    using assms that by (auto simp: durable_registry_def keyed_registry_def)
  have "list_all plain_line (format_header CURRENT_FORMAT_VERSION # registry_lines r)"
    by (auto simp: registry_lines_def network_lines_def list_all_iff)
  then have "text_lines (unlines (format_header CURRENT_FORMAT_VERSION # registry_lines r)) =
      format_header CURRENT_FORMAT_VERSION # registry_lines r" by (rule text_lines_unlines)
  moreover have "foldR parse_line (enumerate 2 (registry_lines r)) registry_default =
      Inr (registry_default\<lparr>mr_networks := fold (\<lambda>m. fmupd (nm_network_id m) m) (fm_values (mr_networks r))
        (mr_networks registry_default)\<rparr>)"
    unfolding registry_lines_def
    by (rule foldR_parse_networks)
      (use assms distinct_keys [of "mr_networks r" nm_network_id, OF keys] in
        \<open>auto simp: durable_registry_def keyed_registry_def registry_default_def list_all_iff set_fm_values\<close>)
  ultimately show ?thesis
    using fm_rebuild [of "mr_networks r" nm_network_id, OF keys] by (simp add: parse_registry_def registry_default_def)
qed

section \<open>What reading accepts\<close>

lemma display_name_new_again:
  assumes "display_name_new s = Inr name" and "list_all is_scalar s"
  shows "stored_name name"
proof -
  have name: "name = DisplayName (trim s)" "trim s \<noteq> []" "length (trim s) \<le> MAX_CHARS" "\<not> list_ex is_unsafe_char s"
    using assms(1) by (auto simp: display_name_new_def Let_def split: if_splits)
  have "\<not> list_ex is_unsafe_char (trim s)" "list_all is_scalar (trim s)"
    using name(4) assms(2) set_trim [of s] by (auto simp: list_ex_iff list_all_iff)
  then show ?thesis using name(1,2,3) by (simp add: stored_name_def display_name_new_def)
qed

lemma durable_update:
  assumes "durable_registry r" and "nm_network_id m = i" "settled_network m" "stored_name (nm_network_name m)"
    and "\<And>n p. fmlookup (nm_peers m) n = Some p \<Longrightarrow> pm_node_id p = n"
  shows "durable_registry (r\<lparr>mr_networks := fmupd i m (mr_networks r)\<rparr>)"
  using assms by (auto simp: durable_registry_def keyed_registry_def)

lemma parse_network_durable:
  assumes "durable_registry r" and "parse_network_record r flds n = Inr (r', rest)"
  shows "durable_registry r'"
  using assms(2)
  by (auto simp: parse_network_record_def bindR_eq_Inr remember_network_def network_membership_new_def settled_network_def
      parse_durable_state_def from_utf8_def split: prod.splits if_splits
      intro!: durable_update [OF assms(1)] dest: display_name_new_again utf8_decode_scalar)

lemma durable_registryD:
  assumes "durable_registry r" and "fmlookup (mr_networks r) i = Some m"
  shows "nm_network_id m = i" "settled_network m" "stored_name (nm_network_name m)"
    and "\<And>n p. fmlookup (nm_peers m) n = Some p \<Longrightarrow> pm_node_id p = n"
  using assms unfolding durable_registry_def keyed_registry_def by blast+

lemma durable_peer:
  assumes "durable_registry r" and "fmlookup (mr_networks r) i = Some m" and "p \<noteq> zero_ident"
  shows "durable_registry (r\<lparr>mr_networks := fmupd i
    (m\<lparr>nm_peers := fmupd p \<lparr>pm_node_id = p, pm_member = a, pm_trusted = b\<rparr> (nm_peers m)\<rparr>) (mr_networks r)\<rparr>)"
proof -
  note m = durable_registryD [OF assms(1,2)]
  show ?thesis
    by (rule durable_update [OF assms(1)]) (use m assms(3) in \<open>auto simp: settled_network_def split: if_splits\<close>)
qed

lemma record_peer:
  "(if is_peer_known m node then (False, m)
    else let m1 = snd (remember_peer m node); m2 = snd (set_peer_member m1 node member)
         in (True, if trusted then snd (trust_peer m2 node) else m2)) =
   (if is_peer_known m node then (False, m)
    else (True, m\<lparr>nm_peers := fmupd node \<lparr>pm_node_id = node, pm_member = member, pm_trusted = trusted\<rparr> (nm_peers m)\<rparr>))"
  by (simp add: is_peer_known_def remember_peer_def set_peer_member_def trust_peer_def peer_entry_def
      peer_membership_new_def Let_def)

lemma parse_peer_durable:
  assumes "durable_registry r" and "parse_peer_record r flds n = Inr (r', rest)"
  shows "durable_registry r'"
proof -
  obtain network_id node_id member trusted fresh where node: "node_id \<noteq> zero_ident" and
    found: "network_mut r network_id (\<lambda>m. if is_peer_known m node_id then (False, m)
      else (True, m\<lparr>nm_peers := fmupd node_id \<lparr>pm_node_id = node_id, pm_member = member, pm_trusted = trusted\<rparr> (nm_peers m)\<rparr>))
      = Some (fresh, r')" and fresh: "fresh"
    using assms(2) unfolding parse_peer_record_def record_peer
    by (auto simp: bindR_eq_Inr ok_or_eq_Inr split: prod.splits if_splits)
  then show ?thesis
    by (auto simp: network_mut_def split: option.splits if_splits intro: durable_peer [OF assms(1)])
qed

lemma parse_line_durable: "durable_registry r \<Longrightarrow> parse_line x r = Inr r' \<Longrightarrow> durable_registry r'"
  by (auto simp: parse_line_def bindR_eq_Inr split: prod.splits if_splits list.splits
      dest: parse_network_durable parse_peer_durable)

lemma parse_registry_durable:
  assumes "parse_registry doc = Inr r"
  shows "durable_registry r"
proof -
  obtain ls where "foldR parse_line ls registry_default = Inr r"
    using assms by (auto simp: parse_registry_def split: list.splits if_splits)
  moreover have "durable_registry registry_default"
    by (simp add: durable_registry_def keyed_registry_def registry_default_def)
  ultimately show ?thesis by (rule foldR_invariant) (auto dest: parse_line_durable)
qed

section \<open>Versions\<close>

lemma version_digits:
  "show_nat (unat LEGACY_FORMAT_VERSION) = ''1''" "show_nat (unat CURRENT_FORMAT_VERSION) = ''2''"
  by (simp_all add: LEGACY_FORMAT_VERSION_def CURRENT_FORMAT_VERSION_def show_nat.simps digit_chars)

lemma version_texts:
  "list_all is_ascii_digit ''1''" "list_all is_ascii_digit ''2''"
  "parse_u32_digits ''1'' = Inr LEGACY_FORMAT_VERSION" "parse_u32_digits ''2'' = Inr CURRENT_FORMAT_VERSION"
  by (simp_all add: is_ascii_digit_def parse_u32_digits_def LEGACY_FORMAT_VERSION_def CURRENT_FORMAT_VERSION_def)

lemma version_header:
  assumes "text_lines doc = format_header v # rest" and "v = LEGACY_FORMAT_VERSION \<or> v = CURRENT_FORMAT_VERSION"
  shows "detect_format_version doc = Inr v"
proof -
  have "strip_prefix FORMAT_HEADER_PREFIX (format_header v) = Some (show_nat (unat v))"
    by (simp add: strip_prefix_def format_header_def)
  then show ?thesis
    using assms(2) version_digits version_texts unfolding detect_format_version_def assms(1) by auto
qed

lemma parse_registry_header: "parse_registry doc = Inr r \<Longrightarrow> \<exists>rest. text_lines doc = format_header CURRENT_FORMAT_VERSION # rest"
  by (auto simp: parse_registry_def split: list.splits if_splits)

lemma migrate_current:
  assumes "text_lines doc = format_header CURRENT_FORMAT_VERSION # rest"
  shows "migrate_to_current doc = Inr \<lparr>mg_serialized = doc, mg_migrated = False\<rparr>"
  using version_header [OF assms] by (simp add: migrate_to_current_def migrate_from.simps)

lemma migrate_legacy:
  assumes "text_lines doc = format_header LEGACY_FORMAT_VERSION # rest"
  shows "migrate_to_current doc =
    bindR (parse_registry (unlines (format_header CURRENT_FORMAT_VERSION # rest)))
      (\<lambda>_. Inr \<lparr>mg_serialized = unlines (format_header CURRENT_FORMAT_VERSION # rest), mg_migrated = True\<rparr>)"
proof -
  have "LEGACY_FORMAT_VERSION + 1 = CURRENT_FORMAT_VERSION" "LEGACY_FORMAT_VERSION < CURRENT_FORMAT_VERSION"
    by (simp_all add: LEGACY_FORMAT_VERSION_def CURRENT_FORMAT_VERSION_def)
  then have "migrate_from LEGACY_FORMAT_VERSION doc = migrate_v1_to_v2 doc"
    by (cases "migrate_v1_to_v2 doc") (simp_all add: migrate_from.simps)
  moreover have "migrate_v1_to_v2 doc = bindR (parse_registry (unlines (format_header CURRENT_FORMAT_VERSION # rest)))
      (\<lambda>_. Inr (unlines (format_header CURRENT_FORMAT_VERSION # rest)))"
    by (simp add: migrate_v1_to_v2_def assms unlines_def LF_def Let_def)
  ultimately show ?thesis using version_header [OF assms] \<open>LEGACY_FORMAT_VERSION < CURRENT_FORMAT_VERSION\<close>
    by (cases "parse_registry (unlines (format_header CURRENT_FORMAT_VERSION # rest))")
      (auto simp: migrate_to_current_def)
qed

lemma migrated_valid:
  assumes "migrate_to_current doc = Inr g" and "mg_migrated g"
  shows "\<exists>r. parse_registry (mg_serialized g) = Inr r"
proof -
  obtain v where v: "\<not> CURRENT_FORMAT_VERSION < v" "v \<noteq> CURRENT_FORMAT_VERSION" and run: "migrate_from v doc = Inr (mg_serialized g)"
    using assms by (auto simp: migrate_to_current_def bindR_eq_Inr split: if_splits)
  then obtain doc' where "v = LEGACY_FORMAT_VERSION" "migrate_v1_to_v2 doc = Inr doc'" "migrate_from (v + 1) doc' = Inr (mg_serialized g)"
    by (auto simp: migrate_from.simps [of v] bindR_eq_Inr split: if_splits)
  then have "migrate_v1_to_v2 doc = Inr (mg_serialized g)"
    by (simp add: migrate_from.simps LEGACY_FORMAT_VERSION_def CURRENT_FORMAT_VERSION_def)
  then show ?thesis by (auto simp: migrate_v1_to_v2_def bindR_eq_Inr Let_def split: list.splits if_splits)
qed

text \<open>C10: the stored text of a registry means that registry. Writing succeeds exactly when no network is joining or
  leaving and no identifier is zero; then the text is of the current version, is left alone by migration and reads as
  the registry it was written from. Everything that is read, in whatever text, can be written again, and a migrated
  text has been read in full before it may replace anything.\<close>

theorem membership_document_roundtrip:
  assumes "keyed_registry r"
  shows "(case serialize_registry r of
      Inl e \<Rightarrow> err_kind e = PersistenceError \<and> \<not> durable_registry r
    | Inr doc \<Rightarrow> durable_registry r \<and> migrate_to_current doc = Inr \<lparr>mg_serialized = doc, mg_migrated = False\<rparr> \<and>
        parse_registry doc = Inr r) \<and>
    (\<forall>doc s. parse_registry doc = Inr s \<longrightarrow> durable_registry s) \<and>
    (\<forall>doc g. migrate_to_current doc = Inr g \<and> mg_migrated g \<longrightarrow> (\<exists>s. parse_registry (mg_serialized g) = Inr s))"
proof (intro conjI allI impI)
  show "case serialize_registry r of
      Inl e \<Rightarrow> err_kind e = PersistenceError \<and> \<not> durable_registry r
    | Inr doc \<Rightarrow> durable_registry r \<and> migrate_to_current doc = Inr \<lparr>mg_serialized = doc, mg_migrated = False\<rparr> \<and>
        parse_registry doc = Inr r"
    using serialize_registry_exact [of r]
  proof (elim disjE conjE exE)
    assume doc: "serialize_registry r = Inr (unlines (format_header CURRENT_FORMAT_VERSION # registry_lines r))"
      and "\<forall>i m. fmlookup (mr_networks r) i = Some m \<longrightarrow> settled_network m"
    then have r: "durable_registry r" using assms by (simp add: durable_registry_def)
    note parsed = parse_serialized [OF r]
    obtain rest where "text_lines (unlines (format_header CURRENT_FORMAT_VERSION # registry_lines r)) =
        format_header CURRENT_FORMAT_VERSION # rest" using parse_registry_header [OF parsed] by blast
    from migrate_current [OF this] show ?thesis using doc parsed r by simp
  qed (auto simp: durable_registry_def)
next
  fix doc s assume "parse_registry doc = Inr s" then show "durable_registry s" by (rule parse_registry_durable)
next
  fix doc g assume "migrate_to_current doc = Inr g \<and> mg_migrated g"
  then show "\<exists>s. parse_registry (mg_serialized g) = Inr s" using migrated_valid by blast
qed

definition sample_registry :: membership_registry where
  "sample_registry = \<lparr>mr_networks = fmupd (byte_ident 8)
     \<lparr>nm_network_id = byte_ident 8, nm_network_name = DisplayName [0x42, 0x20AC], nm_state = Member,
      nm_peers = fmupd (byte_ident 2) \<lparr>pm_node_id = byte_ident 2, pm_member = False, pm_trusted = True\<rparr> fmempty\<rparr> fmempty\<rparr>"

lemma sample_registry_durable: "durable_registry sample_registry"
  by (auto simp: sample_registry_def durable_registry_def keyed_registry_def settled_network_def stored_name_def
      display_name_new_def is_unsafe_char_def is_control_def trim_def is_whitespace_def MAX_CHARS_def is_scalar_def)

theorem membership_document_roundtrip_witness:
  "\<exists>doc. serialize_registry sample_registry = Inr doc \<and> parse_registry doc = Inr sample_registry"
proof -
  have "keyed_registry sample_registry" using sample_registry_durable by (simp add: durable_registry_def)
  from membership_document_roundtrip [OF this] show ?thesis
    using sample_registry_durable by (auto split: sum.splits)
qed

end
