(* ===== verification/Linux_Store.thy ===== *)
theory Linux_Store
  imports Membership_Document
begin

text \<open>
  The durable files of \<open>crates/blueroute-linux\<close>: the membership store (\<open>membership_store.rs\<close>), the secret store
  (\<open>secret_store.rs\<close>) and the node identity (\<open>identity.rs\<close>), over the file operations they call. A document is
  written to a temporary file in the same directory, synchronized and renamed over the old one.
\<close>

section \<open>File operations of the stores\<close>

text \<open>The calls beyond those of the forwarding lease, the counters behind the names of temporary files, the process
  identifier in these names, and the current directory.\<close>

record 'w store_files = "'w file_system" +
  sf_read :: "path \<Rightarrow> ('w, u8 list) fs_call"
  sf_rename :: "path \<Rightarrow> path \<Rightarrow> ('w, unit) fs_call"
  sf_hard_link :: "path \<Rightarrow> path \<Rightarrow> ('w, unit) fs_call"
  sf_create_dirs :: "path \<Rightarrow> u32 \<Rightarrow> ('w, unit) fs_call"
  sf_sync_directory :: "path \<Rightarrow> ('w, unit) fs_call"
  sf_next_membership_temp :: "'w \<Rightarrow> u64 \<times> 'w"
  sf_next_secret_temp :: "'w \<Rightarrow> u64 \<times> 'w"
  sf_process_id :: u32
  sf_current_dir :: path

definition persistence_error :: "string \<Rightarrow> fs_error \<Rightarrow> core_error" where
  "persistence_error message e = with_diagnostic PersistenceError message (fs_text e)"

definition temporary_name :: "string \<Rightarrow> u32 \<Rightarrow> u64 \<Rightarrow> string" where
  "temporary_name name pid sequence = ''.'' @ name @ ''.tmp-'' @ show_nat (unat pid) @ ''-'' @ show_nat (unat sequence)"

section \<open>The membership store\<close>

definition MEMBERSHIP_FILE_MODE :: u32 where
  "MEMBERSHIP_FILE_MODE = 0x180"

definition parent_directory :: "'w store_files \<Rightarrow> path \<Rightarrow> path" where
  "parent_directory fs path = (case path_parent path of Some parent \<Rightarrow> parent | None \<Rightarrow> sf_current_dir fs)"

definition ensure_parent_directory :: "'w store_files \<Rightarrow> path \<Rightarrow> ('w, unit) eff" where
  "ensure_parent_directory fs path =
     fs_tryE (persistence_error ''failed to create the network membership state directory'')
       (fs_create_dir_all fs (parent_directory fs path))"

definition membership_validate_destination :: "'w store_files \<Rightarrow> path \<Rightarrow> ('w, unit) eff" where
  "membership_validate_destination fs path =
     matchE (fs_symlink_metadata fs path) (\<lambda>r. case r of
         Inr metadata \<Rightarrow>
           if md_is_file metadata then retE ()
           else raiseE (core_error_new PersistenceError ''network membership state path is not a regular file'')
       | Inl e \<Rightarrow>
           if fs_kind e = FsNotFound then retE ()
           else raiseE (persistence_error ''failed to inspect the network membership state file'' e))"

definition membership_temporary_path :: "'w store_files \<Rightarrow> path \<Rightarrow> ('w, path) eff" where
  "membership_temporary_path fs path w =
     (if path = [] then (Inl (core_error_new PersistenceError ''network membership state path must name a file''), w)
      else case sf_next_membership_temp fs w of (sequence, w') \<Rightarrow>
        (Inr (path_join (parent_directory fs path) (temporary_name (last path) (sf_process_id fs) sequence)), w'))"

text \<open>\<open>write_all\<close> and then \<open>sync_all\<close> of the open file.\<close>

definition write_and_sync :: "'w store_files \<Rightarrow> path \<Rightarrow> string \<Rightarrow> ('w, unit) fs_call" where
  "write_and_sync fs path contents w =
     (case fs_write_all fs path contents w of (Inl e, w') \<Rightarrow> (Inl e, w') | (Inr _, w') \<Rightarrow> fs_sync_all fs path w')"

definition membership_sync_directory :: "'w store_files \<Rightarrow> path \<Rightarrow> ('w, unit) eff" where
  "membership_sync_directory fs path =
     fs_tryE (persistence_error ''failed to sync the membership state directory'') (sf_sync_directory fs path)"

definition membership_write_temporary_and_replace ::
  "'w store_files \<Rightarrow> path \<Rightarrow> path \<Rightarrow> string \<Rightarrow> ('w, unit) eff" where
  "membership_write_temporary_and_replace fs path temporary serialized =
     bindE (fs_tryE (persistence_error ''failed to create a temporary network membership state file'')
         (fs_create_new fs temporary MEMBERSHIP_FILE_MODE)) (\<lambda>_.
     bindE (fs_tryE (persistence_error ''failed to persist network membership state'')
         (write_and_sync fs temporary serialized)) (\<lambda>_.
     bindE (fs_tryE (persistence_error ''failed to replace the network membership state file'')
         (sf_rename fs temporary path)) (\<lambda>_.
       membership_sync_directory fs (parent_directory fs path))))"

definition membership_save :: "'w store_files \<Rightarrow> path \<Rightarrow> membership_registry \<Rightarrow> ('w, unit) eff" where
  "membership_save fs path registry =
     bindE (liftE (serialize_registry registry)) (\<lambda>serialized.
     bindE (ensure_parent_directory fs path) (\<lambda>_.
     bindE (membership_validate_destination fs path) (\<lambda>_.
     bindE (membership_temporary_path fs path) (\<lambda>temporary.
       matchE (membership_write_temporary_and_replace fs path temporary serialized) (\<lambda>result.
         if is_err result then matchE (fs_remove_file fs temporary) (\<lambda>_. liftE result) else liftE result)))))"

definition membership_enforce_permissions :: "'w store_files \<Rightarrow> path \<Rightarrow> u32 \<Rightarrow> ('w, unit) eff" where
  "membership_enforce_permissions fs path current_mode =
     (if current_mode AND 0x3F = 0 then retE ()
      else fs_tryE (persistence_error ''failed to secure the network membership state file'')
        (fs_set_permissions fs path MEMBERSHIP_FILE_MODE))"

definition membership_load :: "'w store_files \<Rightarrow> path \<Rightarrow> ('w, membership_registry) eff" where
  "membership_load fs path =
     matchE (fs_symlink_metadata fs path) (\<lambda>r. case r of
         Inl e \<Rightarrow>
           if fs_kind e = FsNotFound then retE registry_default
           else raiseE (persistence_error ''failed to inspect the network membership state file'' e)
       | Inr metadata \<Rightarrow>
           if \<not> md_is_file metadata
           then raiseE (core_error_new PersistenceError ''network membership state path is not a regular file'')
           else bindE (membership_enforce_permissions fs path (md_mode metadata)) (\<lambda>_.
             bindE (fs_tryE (persistence_error ''failed to read the network membership state file'')
                 (fs_read_to_string fs path)) (\<lambda>serialized.
             bindE (liftE (migrate_to_current serialized)) (\<lambda>migration.
             bindE (liftE (parse_registry (mg_serialized migration))) (\<lambda>registry.
             bindE (if mg_migrated migration then membership_save fs path registry else retE ()) (\<lambda>_.
               retE registry))))))"

section \<open>The secret store\<close>

definition SECRET_DIRECTORY_MODE :: u32 where
  "SECRET_DIRECTORY_MODE = 0x1C0"

definition SECRET_FILE_MODE :: u32 where
  "SECRET_FILE_MODE = 0x180"

text \<open>A name that is a single normal component of a path.\<close>

definition normal_component :: "string \<Rightarrow> bool" where
  "normal_component name \<longleftrightarrow> name \<noteq> [] \<and> name \<noteq> ''.'' \<and> name \<noteq> ''..'' \<and> CHR ''/'' \<notin> set name"

definition secret_path :: "path \<Rightarrow> string \<Rightarrow> path core_result" where
  "secret_path directory name =
     (if normal_component name then Inr (path_join directory name)
      else Inl (core_error_new InvalidInput ''secret name must be one normal path component''))"

definition enforce_directory_permissions :: "'w store_files \<Rightarrow> path \<Rightarrow> u32 \<Rightarrow> ('w, unit) eff" where
  "enforce_directory_permissions fs directory current_mode =
     (if current_mode AND 0x1FF = SECRET_DIRECTORY_MODE then retE ()
      else fs_tryE (persistence_error ''failed to secure the secret store directory'')
        (fs_set_permissions fs directory SECRET_DIRECTORY_MODE))"

definition enforce_file_permissions :: "'w store_files \<Rightarrow> path \<Rightarrow> u32 \<Rightarrow> ('w, unit) eff" where
  "enforce_file_permissions fs path current_mode =
     (if current_mode AND 0x1FF = SECRET_FILE_MODE then retE ()
      else fs_tryE (persistence_error ''failed to secure a persisted secret file'')
        (fs_set_permissions fs path SECRET_FILE_MODE))"

definition ensure_secure_directory :: "'w store_files \<Rightarrow> path \<Rightarrow> ('w, unit) eff" where
  "ensure_secure_directory fs directory =
     matchE (fs_symlink_metadata fs directory) (\<lambda>r. case r of
         Inr metadata \<Rightarrow>
           if md_is_dir metadata then enforce_directory_permissions fs directory (md_mode metadata)
           else raiseE (core_error_new PersistenceError ''secret store path is not a directory'')
       | Inl e \<Rightarrow>
           if fs_kind e = FsNotFound
           then bindE (fs_tryE (persistence_error ''failed to create the secret store directory'')
                  (sf_create_dirs fs directory SECRET_DIRECTORY_MODE)) (\<lambda>_.
                bindE (fs_tryE (persistence_error ''failed to inspect the secret store directory'')
                  (fs_symlink_metadata fs directory)) (\<lambda>metadata.
                  if \<not> md_is_dir metadata
                  then raiseE (core_error_new PersistenceError ''secret store path is not a directory'')
                  else enforce_directory_permissions fs directory (md_mode metadata)))
           else raiseE (persistence_error ''failed to inspect the secret store directory'' e))"

definition secret_load :: "'w store_files \<Rightarrow> path \<Rightarrow> string \<Rightarrow> ('w, u8 list option) eff" where
  "secret_load fs directory name =
     bindE (liftE (secret_path directory name)) (\<lambda>path.
     bindE (ensure_secure_directory fs directory) (\<lambda>_.
     matchE (fs_symlink_metadata fs path) (\<lambda>r. case r of
         Inl e \<Rightarrow>
           if fs_kind e = FsNotFound then retE None
           else raiseE (persistence_error ''failed to inspect a persisted secret file'' e)
       | Inr metadata \<Rightarrow>
           if \<not> md_is_file metadata
           then raiseE (core_error_new PersistenceError ''persisted secret path is not a regular file'')
           else bindE (enforce_file_permissions fs path (md_mode metadata)) (\<lambda>_.
             bindE (fs_tryE (persistence_error ''failed to read a persisted secret'') (sf_read fs path)) (\<lambda>bytes.
               retE (Some bytes))))))"

definition secret_validate_destination :: "'w store_files \<Rightarrow> path \<Rightarrow> ('w, unit) eff" where
  "secret_validate_destination fs path =
     matchE (fs_symlink_metadata fs path) (\<lambda>r. case r of
         Inr metadata \<Rightarrow>
           if md_is_file metadata then retE ()
           else raiseE (core_error_new PersistenceError ''persisted secret path is not a regular file'')
       | Inl e \<Rightarrow>
           if fs_kind e = FsNotFound then retE ()
           else raiseE (persistence_error ''failed to inspect a persisted secret file'' e))"

definition secret_temporary_path :: "'w store_files \<Rightarrow> path \<Rightarrow> string \<Rightarrow> ('w, path) eff" where
  "secret_temporary_path fs directory name =
     bindE (liftE (secret_path directory name)) (\<lambda>_ w.
       case sf_next_secret_temp fs w of (sequence, w') \<Rightarrow>
         (Inr (path_join directory (temporary_name name (sf_process_id fs) sequence)), w'))"

text \<open>The \<open>for\<close> loop: the first argument counts the attempts that are left.\<close>

fun create_temporary_file :: "nat \<Rightarrow> 'w store_files \<Rightarrow> path \<Rightarrow> string \<Rightarrow> ('w, path) eff" where
  "create_temporary_file 0 fs directory name =
     raiseE (core_error_new PersistenceError ''could not allocate a unique temporary secret file'')"
| "create_temporary_file (Suc attempts) fs directory name =
     bindE (secret_temporary_path fs directory name) (\<lambda>path.
     matchE (fs_create_new fs path SECRET_FILE_MODE) (\<lambda>r. case r of
         Inr _ \<Rightarrow> retE path
       | Inl e \<Rightarrow>
           if fs_kind e = FsAlreadyExists
           then matchE (fs_remove_file fs path) (\<lambda>_. create_temporary_file attempts fs directory name)
           else raiseE (persistence_error ''failed to create a temporary secret file'' e)))"

definition secret_sync_directory :: "'w store_files \<Rightarrow> path \<Rightarrow> ('w, unit) eff" where
  "secret_sync_directory fs path =
     fs_tryE (persistence_error ''failed to sync the secret store directory'') (sf_sync_directory fs path)"

definition secret_write_temporary_and_replace ::
  "'w store_files \<Rightarrow> path \<Rightarrow> string \<Rightarrow> path \<Rightarrow> u8 list \<Rightarrow> ('w, unit) eff" where
  "secret_write_temporary_and_replace fs directory name destination secret =
     bindE (create_temporary_file 128 fs directory name) (\<lambda>temporary.
     matchE (write_and_sync fs temporary (text_of secret)) (\<lambda>written. case written of
         Inl e \<Rightarrow> matchE (fs_remove_file fs temporary) (\<lambda>_.
           raiseE (persistence_error ''failed to persist secret material'' e))
       | Inr _ \<Rightarrow> matchE (sf_rename fs temporary destination) (\<lambda>renamed. case renamed of
           Inl e \<Rightarrow> matchE (fs_remove_file fs temporary) (\<lambda>_.
             raiseE (persistence_error ''failed to replace persisted secret'' e))
         | Inr _ \<Rightarrow> secret_sync_directory fs directory)))"

definition secret_save :: "'w store_files \<Rightarrow> path \<Rightarrow> string \<Rightarrow> u8 list \<Rightarrow> ('w, unit) eff" where
  "secret_save fs directory name secret =
     bindE (liftE (secret_path directory name)) (\<lambda>path.
     bindE (ensure_secure_directory fs directory) (\<lambda>_.
     bindE (secret_validate_destination fs path) (\<lambda>_.
       secret_write_temporary_and_replace fs directory name path secret)))"

definition save_if_absent :: "'w store_files \<Rightarrow> path \<Rightarrow> string \<Rightarrow> u8 list \<Rightarrow> ('w, bool) eff" where
  "save_if_absent fs directory name secret =
     bindE (liftE (secret_path directory name)) (\<lambda>path.
     bindE (ensure_secure_directory fs directory) (\<lambda>_.
     bindE (create_temporary_file 128 fs directory name) (\<lambda>temporary.
     matchE (write_and_sync fs temporary (text_of secret)) (\<lambda>written. case written of
         Inl e \<Rightarrow> matchE (fs_remove_file fs temporary) (\<lambda>_.
           raiseE (persistence_error ''failed to persist secret material'' e))
       | Inr _ \<Rightarrow> matchE (sf_hard_link fs temporary path) (\<lambda>linked. case linked of
           Inr _ \<Rightarrow>
             bindE (fs_tryE (persistence_error ''failed to remove the temporary secret file'')
                 (fs_remove_file fs temporary)) (\<lambda>_.
             bindE (secret_sync_directory fs directory) (\<lambda>_. retE True))
         | Inl e \<Rightarrow>
             if fs_kind e = FsAlreadyExists
             then bindE (fs_tryE (persistence_error ''failed to remove the temporary secret file'')
                    (fs_remove_file fs temporary)) (\<lambda>_. retE False)
             else matchE (fs_remove_file fs temporary) (\<lambda>_.
               raiseE (persistence_error ''failed to create a new secret file'' e)))))))"

section \<open>The node identity\<close>

definition IDENTITY_FILE_MODE :: u32 where
  "IDENTITY_FILE_MODE = 0x180"

definition identity_ensure_parent_directory :: "'w store_files \<Rightarrow> path \<Rightarrow> ('w, unit) eff" where
  "identity_ensure_parent_directory fs path =
     (case path_parent path of
        None \<Rightarrow> retE ()
      | Some parent \<Rightarrow> fs_tryE (persistence_error ''failed to create the node identity state directory'')
          (fs_create_dir_all fs parent))"

definition identity_enforce_permissions :: "'w store_files \<Rightarrow> path \<Rightarrow> u32 \<Rightarrow> ('w, unit) eff" where
  "identity_enforce_permissions fs path current_mode =
     (if current_mode AND 0x3F = 0 then retE ()
      else fs_tryE (persistence_error ''failed to secure the stable node identity file'')
        (fs_set_permissions fs path IDENTITY_FILE_MODE))"

definition sync_parent_directory :: "'w store_files \<Rightarrow> path \<Rightarrow> ('w, unit) eff" where
  "sync_parent_directory fs path =
     fs_tryE (persistence_error ''failed to synchronize the node identity directory'')
       (sf_sync_directory fs (parent_directory fs path))"

definition strip_newline :: "string \<Rightarrow> string" where
  "strip_newline s = (if s \<noteq> [] \<and> last s = LF then butlast s else s)"

definition load_existing :: "'w store_files \<Rightarrow> path \<Rightarrow> ('w, node_id option) eff" where
  "load_existing fs path =
     matchE (fs_symlink_metadata fs path) (\<lambda>r. case r of
         Inl e \<Rightarrow>
           if fs_kind e = FsNotFound then retE None
           else raiseE (persistence_error ''failed to inspect the stable node identity file'' e)
       | Inr metadata \<Rightarrow>
           if \<not> md_is_file metadata
           then raiseE (core_error_new PersistenceError ''stable node identity path is not a regular file'')
           else bindE (identity_enforce_permissions fs path (md_mode metadata)) (\<lambda>_.
             bindE (fs_tryE (persistence_error ''failed to read the stable node identity file'')
                 (fs_read_to_string fs path)) (\<lambda>serialized.
             bindE (liftE (map_err (\<lambda>e. with_diagnostic PersistenceError ''stable node identity file is malformed''
                 (err_message e)) (ident_from_str (bytes_of (strip_newline serialized))))) (\<lambda>identity.
               retE (Some identity)))))"

text \<open>\<open>SystemNodeIdentityGenerator\<close>, over opening and reading \<open>/dev/urandom\<close>.\<close>

definition system_identity_generate :: "('w, unit) fs_call \<Rightarrow> ('w, u8 list) fs_call \<Rightarrow> ('w, node_id) eff" where
  "system_identity_generate open_random read_random =
     bindE (fs_tryE (persistence_error ''failed to open the Linux random source'') open_random) (\<lambda>_.
     bindE (fs_tryE (persistence_error ''failed to generate a stable node identity'') read_random) (\<lambda>bytes.
       retE (from_bytes bytes)))"

definition load_or_create :: "'w store_files \<Rightarrow> path \<Rightarrow> ('w, node_id) eff \<Rightarrow> ('w, node_id) eff" where
  "load_or_create fs path generate =
     bindE (load_existing fs path) (\<lambda>existing. case existing of
         Some identity \<Rightarrow> retE identity
       | None \<Rightarrow>
           bindE (identity_ensure_parent_directory fs path) (\<lambda>_.
           bindE generate (\<lambda>identity.
           matchE (fs_create_new fs path IDENTITY_FILE_MODE) (\<lambda>r. case r of
               Inr _ \<Rightarrow>
                 matchE (write_and_sync fs path (text_of (ident_to_string identity) @ [LF])) (\<lambda>written. case written of
                     Inl e \<Rightarrow> matchE (fs_remove_file fs path) (\<lambda>_.
                       raiseE (persistence_error ''failed to persist the stable node identity'' e))
                   | Inr _ \<Rightarrow> bindE (sync_parent_directory fs path) (\<lambda>_. retE identity))
             | Inl e \<Rightarrow>
                 if fs_kind e = FsAlreadyExists
                 then bindE (load_existing fs path) (\<lambda>found.
                   liftE (ok_or (core_error_new PersistenceError
                     ''node identity appeared during creation but could not be loaded'') found))
                 else raiseE (persistence_error ''failed to create the stable node identity file'' e)))))"

section \<open>What the file system promises\<close>

text \<open>The regular files as they are.\<close>

type_synonym contents = "path \<Rightarrow> string option"

text \<open>The documented behaviour of the calls, any of which may fail: reads report what is there, a new file is created
  empty and only where there is none, a failed write may leave a part of the text, a rename replaces its target as a
  whole, and a link is made only where there is no entry. Nobody else writes the files.\<close>

definition files_contract :: "'w store_files \<Rightarrow> ('w \<Rightarrow> contents) \<Rightarrow> bool" where
  "files_contract fs files \<longleftrightarrow>
     (\<forall>v p. triple (\<lambda>w. files w = v) (fs_symlink_metadata fs p)
        (\<lambda>r w. files w = v \<and> (\<forall>e. r = Inl e \<and> fs_kind e = FsNotFound \<longrightarrow> v p = None))) \<and>
     (\<forall>v p. triple (\<lambda>w. files w = v) (fs_read_to_string fs p) (\<lambda>r w. files w = v \<and> (\<forall>s. r = Inr s \<longrightarrow> v p = Some s))) \<and>
     (\<forall>v p. triple (\<lambda>w. files w = v) (sf_read fs p) (\<lambda>r w. files w = v \<and> (\<forall>bs. r = Inr bs \<longrightarrow> v p = Some (text_of bs)))) \<and>
     (\<forall>v p m. triple (\<lambda>w. files w = v) (fs_create_new fs p m)
        (\<lambda>r w. if is_err r then files w = v else v p = None \<and> files w = v(p \<mapsto> []))) \<and>
     (\<forall>v p s. triple (\<lambda>w. files w = v \<and> v p = Some []) (fs_write_all fs p s)
        (\<lambda>r w. if is_err r then \<exists>n. files w = v(p \<mapsto> take n s) else files w = v(p \<mapsto> s))) \<and>
     (\<forall>v p q. triple (\<lambda>w. files w = v) (sf_rename fs p q)
        (\<lambda>r w. files w = (if is_err r then v else (v(p := None))(q := v p)))) \<and>
     (\<forall>v p q. triple (\<lambda>w. files w = v) (sf_hard_link fs p q)
        (\<lambda>r w. if is_err r then files w = v else v q = None \<and> files w = v(q := v p))) \<and>
     (\<forall>v p. triple (\<lambda>w. files w = v) (fs_remove_file fs p)
        (\<lambda>r w. files w = (if is_err r then v else v(p := None)))) \<and>
     (\<forall>p. silent files (fs_sync_all fs p)) \<and> (\<forall>p. silent files (sf_sync_directory fs p)) \<and>
     (\<forall>p m. silent files (fs_set_permissions fs p m)) \<and> (\<forall>p. silent files (fs_create_dir_all fs p)) \<and>
     (\<forall>p m. silent files (sf_create_dirs fs p m)) \<and>
     silent files (sf_next_membership_temp fs) \<and> silent files (sf_next_secret_temp fs)"

lemma files_contractD:
  assumes "files_contract fs files"
  shows "triple (\<lambda>w. files w = v) (fs_symlink_metadata fs p)
      (\<lambda>r w. files w = v \<and> (\<forall>e. r = Inl e \<and> fs_kind e = FsNotFound \<longrightarrow> v p = None))"
    and "triple (\<lambda>w. files w = v) (fs_read_to_string fs p) (\<lambda>r w. files w = v \<and> (\<forall>s. r = Inr s \<longrightarrow> v p = Some s))"
    and "triple (\<lambda>w. files w = v) (sf_read fs p) (\<lambda>r w. files w = v \<and> (\<forall>bs. r = Inr bs \<longrightarrow> v p = Some (text_of bs)))"
    and "triple (\<lambda>w. files w = v) (fs_create_new fs p m)
      (\<lambda>r w. if is_err r then files w = v else v p = None \<and> files w = v(p \<mapsto> []))"
    and "triple (\<lambda>w. files w = v \<and> v p = Some []) (fs_write_all fs p s)
      (\<lambda>r w. if is_err r then \<exists>n. files w = v(p \<mapsto> take n s) else files w = v(p \<mapsto> s))"
    and "triple (\<lambda>w. files w = v) (sf_rename fs p q) (\<lambda>r w. files w = (if is_err r then v else (v(p := None))(q := v p)))"
    and "triple (\<lambda>w. files w = v) (sf_hard_link fs p q)
      (\<lambda>r w. if is_err r then files w = v else v q = None \<and> files w = v(q := v p))"
    and "triple (\<lambda>w. files w = v) (fs_remove_file fs p) (\<lambda>r w. files w = (if is_err r then v else v(p := None)))"
    and "silent files (fs_sync_all fs p)" "silent files (sf_sync_directory fs p)" "silent files (fs_set_permissions fs p m)"
    and "silent files (fs_create_dir_all fs p)" "silent files (sf_create_dirs fs p m)"
    and "silent files (sf_next_membership_temp fs)" "silent files (sf_next_secret_temp fs)"
  using assms unfolding files_contract_def by simp_all

lemma write_and_sync_triple:
  assumes c: "files_contract fs files"
  shows "triple (\<lambda>w. files w = v \<and> v p = Some []) (write_and_sync fs p s)
    (\<lambda>r w. \<exists>part. files w = v(p \<mapsto> part) \<and> (\<not> is_err r \<longrightarrow> part = s))"
  unfolding triple_def
proof (intro allI impI)
  fix w assume "files w = v \<and> v p = Some []"
  obtain r w' where run: "fs_write_all fs p s w = (r, w')" by force
  have post: "if is_err r then \<exists>n. files w' = v(p \<mapsto> take n s) else files w' = v(p \<mapsto> s)"
    by (rule tripleD [OF files_contractD(5) [OF c] \<open>files w = v \<and> v p = Some []\<close> run])
  have "files (snd (fs_sync_all fs p w')) = files w'"
    using silent_triple [OF files_contractD(9) [OF c]] by (simp add: triple_def)
  then show "\<exists>part. files (snd (write_and_sync fs p s w)) = v(p \<mapsto> part) \<and>
      (\<not> is_err (fst (write_and_sync fs p s w)) \<longrightarrow> part = s)"
    using post run by (cases r) (auto simp: write_and_sync_def)
qed

section \<open>Temporary files\<close>

definition temporary_of :: "path \<Rightarrow> path \<Rightarrow> bool" where
  "temporary_of path q \<longleftrightarrow> path \<noteq> [] \<and> (\<exists>suffix. q = butlast path @ [''.'' @ last path @ ''.tmp-'' @ suffix])"

lemma temporary_other: "\<not> temporary_of path path"
proof
  assume "temporary_of path path"
  then obtain suffix where "path \<noteq> []" "path = butlast path @ [''.'' @ last path @ ''.tmp-'' @ suffix]"
    by (auto simp: temporary_of_def)
  then have "last path = ''.'' @ last path @ ''.tmp-'' @ suffix" by (metis last_snoc)
  then have "length (last path) = length (''.'' @ last path @ ''.tmp-'' @ suffix)" by (rule arg_cong)
  then show False by simp
qed

lemma temporary_name_of:
  "path \<noteq> [] \<Longrightarrow> temporary_of path (path_join (butlast path) (temporary_name (last path) pid sequence))"
  by (auto simp: temporary_of_def path_join_def temporary_name_def)

text \<open>What an attempt to replace a file leaves: the new text, or after an error perhaps the old one, and every other
  file but temporary ones as it was.\<close>

definition replaced :: "path \<Rightarrow> string \<Rightarrow> contents \<Rightarrow> ('e + 'a) \<Rightarrow> contents \<Rightarrow> bool" where
  "replaced path text v r v' \<longleftrightarrow> (v' path = Some text \<or> is_err r \<and> v' path = v path) \<and>
     (\<forall>q. q \<noteq> path \<and> \<not> temporary_of path q \<longrightarrow> v' q = v q)"

lemma replaced_intros:
  assumes "temporary_of path t"
  shows "replaced path text v (Inl e) v" and "replaced path text v (Inl e) (v(t := x))"
    and "replaced path text v r (v(t := x, path \<mapsto> text))" and "replaced path text v r ((v(t := x, path \<mapsto> text))(t := y))"
    and "replaced path text v r v' \<Longrightarrow> replaced path text v r (v'(t := x))"
  using assms temporary_other by (auto simp: replaced_def)

lemma membership_replace_triple:
  assumes c: "files_contract fs files" and t: "temporary_of path t"
  shows "triple (\<lambda>w. files w = v) (membership_write_temporary_and_replace fs path t doc)
    (\<lambda>r w. replaced path doc v r (files w))"
  unfolding membership_write_temporary_and_replace_def
proof (rule triple_bindE [where R = "\<lambda>r w. if is_err r then files w = v else files w = v(t \<mapsto> [])"], goal_cases)
  case 1
  show ?case by (rule triple_fs_tryE [OF files_contractD(4) [OF c]]) auto
next
  case (2 x)
  show ?case
  proof (rule triple_bindE [where R = "\<lambda>r w. \<exists>part. files w = v(t \<mapsto> part) \<and> (\<not> is_err r \<longrightarrow> part = doc)"], goal_cases)
    case 1
    show ?case by (rule triple_fs_tryE [OF triple_pre [OF write_and_sync_triple [OF c, of "v(t \<mapsto> [])"]]]) auto
  next
    case (2 y)
    show ?case
    proof (rule triple_bindE [where R = "\<lambda>r w. if is_err r then files w = v(t \<mapsto> doc) else files w = v(t := None, path \<mapsto> doc)"],
        goal_cases)
      case 1
      have "t \<noteq> path" using t temporary_other by auto
      then show ?case
        by (intro triple_fs_tryE [OF triple_pre [OF files_contractD(6) [OF c, of "v(t \<mapsto> doc)"]]])
          (auto simp: fun_upd_twist)
    next
      case (2 z)
      show ?case unfolding membership_sync_directory_def
        by (rule triple_fs_tryE [OF triple_pre [OF silent_triple [OF files_contractD(10) [OF c]]]])
          (auto intro: replaced_intros [OF t])
    qed (auto intro: replaced_intros [OF t])
  qed (auto intro: replaced_intros [OF t])
qed (auto intro: replaced_intros [OF t])

lemma inspect_triple:
  assumes c: "files_contract fs files" and found: "\<And>m. triple (\<lambda>w. files w = v) (f (Inr m)) Q"
    and absent: "\<And>e. fs_kind e = FsNotFound \<Longrightarrow> v p = None \<Longrightarrow> triple (\<lambda>w. files w = v) (f (Inl e)) Q"
    and failed: "\<And>e. fs_kind e \<noteq> FsNotFound \<Longrightarrow> triple (\<lambda>w. files w = v) (f (Inl e)) Q"
  shows "triple (\<lambda>w. files w = v) (matchE (fs_symlink_metadata fs p) f) Q"
proof (rule triple_matchE [OF files_contractD(1) [OF c]])
  fix r
  show "triple (\<lambda>w. files w = v \<and> (\<forall>e. r = Inl e \<and> fs_kind e = FsNotFound \<longrightarrow> v p = None)) (f r) Q"
  proof (cases r)
    case (Inl e)
    then show ?thesis using absent [of e] failed [of e]
      by (cases "fs_kind e = FsNotFound"; cases "v p = None") (auto simp: triple_def)
  qed (auto intro: triple_pre [OF found])
qed

lemma remove_after_triple:
  assumes c: "files_contract fs files" and "\<And>x. Q res (v(p := x))" and "Q res v"
  shows "triple (\<lambda>w. files w = v) (matchE (fs_remove_file fs p) (\<lambda>_. liftE res)) (\<lambda>r w. Q r (files w))"
  by (rule triple_matchE [OF files_contractD(8) [OF c]], rule triple_liftE) (use assms(2,3) in auto)

lemma remove_after_raise:
  assumes c: "files_contract fs files" and "\<And>x. Q (Inl e) (v(p := x))" and "Q (Inl e) v"
  shows "triple (\<lambda>w. files w = v) (matchE (fs_remove_file fs p) (\<lambda>_. raiseE e)) (\<lambda>r w. Q r (files w))"
  by (rule triple_matchE [OF files_contractD(8) [OF c]], rule triple_raiseE) (use assms(2,3) in auto)

lemma membership_temporary_triple:
  assumes c: "files_contract fs files"
  shows "triple (\<lambda>w. files w = v) (membership_temporary_path fs path)
    (\<lambda>r w. files w = v \<and> (\<forall>t. r = Inr t \<longrightarrow> temporary_of path t))"
proof -
  have "parent_directory fs path = butlast path" if "path \<noteq> []"
    using that by (simp add: parent_directory_def path_parent_def)
  then show ?thesis
    using silent_triple [OF files_contractD(14) [OF c], of v] temporary_name_of [of path "sf_process_id fs"]
    by (auto simp: triple_def membership_temporary_path_def split: prod.splits)
qed

lemma membership_validate_triple:
  assumes "files_contract fs files"
  shows "triple (\<lambda>w. files w = v) (membership_validate_destination fs path) (\<lambda>r w. files w = v)"
  unfolding membership_validate_destination_def
  by (rule inspect_triple [OF assms]) (auto intro: triple_retE triple_raiseE)

lemma membership_save_triple:
  assumes c: "files_contract fs files" and doc: "serialize_registry x = Inr doc"
  shows "triple (\<lambda>w. files w = v) (membership_save fs path x) (\<lambda>r w. replaced path doc v r (files w))"
  unfolding membership_save_def doc bindE_liftE
proof (rule triple_bindE [where R = "\<lambda>r w. files w = v"], goal_cases)
  case 1
  show ?case unfolding ensure_parent_directory_def
    by (rule silent_triple [OF silent_fs_tryE [OF files_contractD(12) [OF c]]])
next
  case (2 x)
  show ?case
  proof (rule triple_bindE [OF membership_validate_triple [OF c]],
      rule triple_bindE [OF membership_temporary_triple [OF c]], goal_cases)
    case (1 y t)
    show ?case
    proof (cases "temporary_of path t")
      case t: True
      show ?thesis
      proof (rule triple_matchE [OF triple_pre [OF membership_replace_triple [OF c t]]], simp, goal_cases)
        case (1 r)
        show ?case
        proof (cases "is_err r")
          case True
          have "triple (\<lambda>w. replaced path doc v r (files w)) (matchE (fs_remove_file fs t) (\<lambda>_. liftE r))
              (\<lambda>r w. replaced path doc v r (files w))"
            by (rule triple_view [where view = files and C = "replaced path doc v r"],
                rule remove_after_triple [OF c], erule replaced_intros(5) [OF t], assumption)
          then show ?thesis using True by simp
        qed (auto intro: triple_liftE)
      qed
    qed (auto simp: triple_def)
  qed (auto simp: replaced_def)
qed (auto simp: replaced_def)

lemma membership_save_refused:
  "serialize_registry x = Inl e \<Longrightarrow> membership_save fs path x w = (Inl e, w)"
  by (simp add: membership_save_def)

text \<open>What the file of a store says.\<close>

definition read_document :: "string option \<Rightarrow> membership_registry core_result" where
  "read_document text =
     (case text of
        None \<Rightarrow> Inr registry_default
      | Some doc \<Rightarrow> bindR (migrate_to_current doc) (\<lambda>migration. parse_registry (mg_serialized migration)))"

lemma serialize_durable:
  assumes "durable_registry x"
  obtains doc where "serialize_registry x = Inr doc" "read_document (Some doc) = Inr x"
proof -
  let ?doc = "unlines (format_header CURRENT_FORMAT_VERSION # registry_lines x)"
  have "serialize_registry x = Inr ?doc"
    using serialize_registry_exact [of x] assms by (auto simp: durable_registry_def)
  moreover note parsed = parse_serialized [OF assms]
  obtain rest where "text_lines ?doc = format_header CURRENT_FORMAT_VERSION # rest"
    using parse_registry_header [OF parsed] by blast
  then have "read_document (Some ?doc) = Inr x"
    using migrate_current parsed by (auto simp: read_document_def)
  ultimately show thesis by (rule that)
qed

lemma membership_load_triple:
  assumes c: "files_contract fs files"
  shows "triple (\<lambda>w. files w = v) (membership_load fs path)
    (\<lambda>r w. read_document (files w path) = read_document (v path) \<and> (\<forall>x. r = Inr x \<longrightarrow> read_document (v path) = Inr x) \<and>
       (\<forall>q. q \<noteq> path \<and> \<not> temporary_of path q \<longrightarrow> files w q = v q))"
  unfolding membership_load_def
proof (rule inspect_triple [OF c, where p = path], goal_cases)
  case (1 m)
  have perm: "triple (\<lambda>w. files w = v) (membership_enforce_permissions fs path (md_mode m)) (\<lambda>r w. files w = v)"
    unfolding membership_enforce_permissions_def
    by (auto intro: triple_retE silent_triple [OF silent_fs_tryE [OF files_contractD(11) [OF c]]])
  have read: "triple (\<lambda>w. files w = v) (fs_tryE err (fs_read_to_string fs path))
      (\<lambda>r w. files w = v \<and> (\<forall>s. r = Inr s \<longrightarrow> v path = Some s))" for err
    by (rule triple_fs_tryE [OF files_contractD(2) [OF c]]) auto
  have "triple (\<lambda>w. files w = v) (bindE (membership_enforce_permissions fs path (md_mode m)) (\<lambda>_.
      bindE (fs_tryE (persistence_error ''failed to read the network membership state file'') (fs_read_to_string fs path)) (\<lambda>serialized.
      bindE (liftE (migrate_to_current serialized)) (\<lambda>migration.
      bindE (liftE (parse_registry (mg_serialized migration))) (\<lambda>registry.
      bindE (if mg_migrated migration then membership_save fs path registry else retE ()) (\<lambda>_. retE registry))))))
    (\<lambda>r w. read_document (files w path) = read_document (v path) \<and> (\<forall>x. r = Inr x \<longrightarrow> read_document (v path) = Inr x) \<and>
       (\<forall>q. q \<noteq> path \<and> \<not> temporary_of path q \<longrightarrow> files w q = v q))"
  proof (rule triple_bindE [OF perm], rule triple_bindE [OF read], goal_cases)
    case (1 u serialized)
    show ?case
    proof (cases "v path = Some serialized")
      case same: True
      show ?thesis
      proof (cases "bindR (migrate_to_current serialized) (\<lambda>g. parse_registry (mg_serialized g))")
        case (Inl e)
        then show ?thesis
          by (auto simp: bindR_eq_Inl triple_def)
      next
        case (Inr x)
        then obtain g where g: "migrate_to_current serialized = Inr g" and x: "parse_registry (mg_serialized g) = Inr x"
          by (auto simp: bindR_eq_Inr)
        have stored: "read_document (v path) = Inr x" by (simp add: same read_document_def g x)
        obtain doc where doc: "serialize_registry x = Inr doc" "read_document (Some doc) = Inr x"
          by (rule serialize_durable [OF parse_registry_durable [OF x]])
        have "triple (\<lambda>w. files w = v) (bindE (if mg_migrated g then membership_save fs path x else retE ()) (\<lambda>_. retE x))
          (\<lambda>r w. read_document (files w path) = Inr x \<and> (\<forall>y. r = Inr y \<longrightarrow> Inr x = Inr y) \<and>
             (\<forall>q. q \<noteq> path \<and> \<not> temporary_of path q \<longrightarrow> files w q = v q))"
        proof (rule triple_bindE [where R = "\<lambda>r w. read_document (files w path) = Inr x \<and>
             (\<forall>q. q \<noteq> path \<and> \<not> temporary_of path q \<longrightarrow> files w q = v q)"], goal_cases)
          case 1
          show ?case using stored doc(2)
            by (auto simp: replaced_def intro!: triple_retE triple_post [OF membership_save_triple [OF c doc(1)]])
        qed (auto intro: triple_retE)
        then show ?thesis unfolding g x bindE_liftE stored by (rule triple_pre) simp
      qed
    qed (auto simp: triple_def)
  qed auto
  then show ?case by (auto intro: triple_raiseE)
next
  case (2 e)
  then show ?case by (auto simp: read_document_def intro: triple_retE)
next
  case (3 e)
  then show ?case by (auto intro: triple_raiseE)
qed

section \<open>Secrets\<close>

definition secret_file :: "path \<Rightarrow> string \<Rightarrow> path" where
  "secret_file directory name = path_join directory name"

lemma secret_path_Inr: "secret_path directory name = Inr path \<longleftrightarrow> normal_component name \<and> path = secret_file directory name"
  by (auto simp: secret_path_def secret_file_def)

lemma secure_directory_triple:
  assumes c: "files_contract fs files"
  shows "triple (\<lambda>w. files w = v) (ensure_secure_directory fs directory) (\<lambda>r w. files w = v)"
proof -
  have perm: "triple (\<lambda>w. files w = v) (enforce_directory_permissions fs directory m) (\<lambda>r w. files w = v)" for m
    unfolding enforce_directory_permissions_def
    by (auto intro: triple_retE silent_triple [OF silent_fs_tryE [OF files_contractD(11) [OF c]]])
  have create: "triple (\<lambda>w. files w = v) (bindE (fs_tryE err (sf_create_dirs fs directory SECRET_DIRECTORY_MODE)) (\<lambda>_.
      bindE (fs_tryE err' (fs_symlink_metadata fs directory)) (\<lambda>metadata.
        if \<not> md_is_dir metadata then raiseE e else enforce_directory_permissions fs directory (md_mode metadata))))
      (\<lambda>r w. files w = v)" for err err' e
  proof (rule triple_bindE [OF silent_triple [OF silent_fs_tryE [OF files_contractD(13) [OF c]]]],
      rule triple_bindE [where R = "\<lambda>r w. files w = v"], goal_cases)
    case 1
    show ?case by (rule triple_fs_tryE [OF files_contractD(1) [OF c]]) auto
  qed (auto intro: triple_raiseE perm)
  show ?thesis
    unfolding ensure_secure_directory_def
    by (rule inspect_triple [OF c]) (auto intro: triple_raiseE perm create)
qed

lemma secret_load_triple:
  assumes c: "files_contract fs files"
  shows "triple (\<lambda>w. files w = v) (secret_load fs directory name)
    (\<lambda>r w. files w = v \<and> (\<forall>x. r = Inr x \<longrightarrow> v (secret_file directory name) = map_option text_of x))"
proof (cases "normal_component name")
  case True
  let ?p = "secret_file directory name"
  have perm: "triple (\<lambda>w. files w = v) (enforce_file_permissions fs ?p m) (\<lambda>r w. files w = v)" for m
    unfolding enforce_file_permissions_def
    by (auto intro: triple_retE silent_triple [OF silent_fs_tryE [OF files_contractD(11) [OF c]]])
  have "triple (\<lambda>w. files w = v) (bindE (enforce_file_permissions fs ?p m) (\<lambda>_.
      bindE (fs_tryE err (sf_read fs ?p)) (\<lambda>bytes. retE (Some bytes))))
      (\<lambda>r w. files w = v \<and> (\<forall>x. r = Inr x \<longrightarrow> v ?p = map_option text_of x))" for m err
    by (rule triple_bindE [OF perm], rule triple_bindE [where R = "\<lambda>r w. files w = v \<and> (\<forall>bs. r = Inr bs \<longrightarrow> v ?p = Some (text_of bs))"],
        rule triple_fs_tryE [OF files_contractD(3) [OF c]]) (auto intro: triple_retE)
  moreover have "secret_path directory name = Inr ?p" using True by (simp add: secret_path_Inr)
  ultimately show ?thesis
    unfolding secret_load_def
    by (auto intro!: triple_bindE [OF secure_directory_triple [OF c]] inspect_triple [OF c, where p = ?p]
        triple_raiseE triple_retE)
next
  case False
  then show ?thesis by (auto simp: secret_load_def secret_path_def intro: triple_raiseE)
qed

lemma secret_temporary_triple:
  assumes c: "files_contract fs files"
  shows "triple (\<lambda>w. files w = v) (secret_temporary_path fs directory name)
    (\<lambda>r w. files w = v \<and> (\<forall>t. r = Inr t \<longrightarrow> temporary_of (secret_file directory name) t))"
proof -
  have "temporary_of (secret_file directory name) (path_join directory (temporary_name name pid n))" for pid n
    using temporary_name_of [of "secret_file directory name" pid n] by (simp add: secret_file_def path_join_def)
  then show ?thesis
    using silent_triple [OF files_contractD(15) [OF c], of v]
    by (auto simp: triple_def secret_temporary_path_def bindE_def split: prod.splits sum.splits)
qed

text \<open>Only temporary files differ.\<close>

definition aside :: "path \<Rightarrow> contents \<Rightarrow> contents \<Rightarrow> bool" where
  "aside path v v' \<longleftrightarrow> (\<forall>q. \<not> temporary_of path q \<longrightarrow> v' q = v q)"

lemma aside_intros:
  "aside path v v" "temporary_of path t \<Longrightarrow> aside path v v' \<Longrightarrow> aside path v (v'(t := x))"
  by (auto simp: aside_def)

lemma create_temporary_triple:
  assumes c: "files_contract fs files"
  shows "triple (\<lambda>w. aside (secret_file directory name) v (files w)) (create_temporary_file n fs directory name)
    (\<lambda>r w. aside (secret_file directory name) v (files w) \<and>
       (\<forall>t. r = Inr t \<longrightarrow> temporary_of (secret_file directory name) t \<and> files w t = Some []))"
proof (induction n)
  case (Suc n)
  let ?p = "secret_file directory name"
  show ?case unfolding create_temporary_file.simps
  proof (rule triple_bindE [where R = "\<lambda>r w. aside ?p v (files w) \<and> (\<forall>t. r = Inr t \<longrightarrow> temporary_of ?p t)"], goal_cases)
    case 1
    show ?case
      by (rule triple_view [where view = files], rule triple_post [OF secret_temporary_triple [OF c]]) auto
  next
    case (2 t)
    show ?case
    proof (cases "temporary_of ?p t")
      case t: True
      show ?thesis
      proof (rule triple_matchE [where R = "\<lambda>r w. aside ?p v (files w) \<and> (\<not> is_err r \<longrightarrow> files w t = Some [])"], goal_cases)
        case 1
        have "triple (\<lambda>w. aside ?p v (files w)) (fs_create_new fs t SECRET_FILE_MODE)
            (\<lambda>r w. aside ?p v (files w) \<and> (\<not> is_err r \<longrightarrow> files w t = Some []))"
          by (rule triple_view [where view = files], rule triple_post [OF files_contractD(4) [OF c]])
            (auto split: if_splits intro: aside_intros(2) [OF t])
        then show ?case by (rule triple_pre) simp
      next
        case (2 r)
        have "triple (\<lambda>w. aside ?p v (files w)) (matchE (fs_remove_file fs t) (\<lambda>_. create_temporary_file n fs directory name))
            (\<lambda>r w. aside ?p v (files w) \<and> (\<forall>t. r = Inr t \<longrightarrow> temporary_of ?p t \<and> files w t = Some []))"
        proof (rule triple_matchE [OF _ Suc.IH])
          show "triple (\<lambda>w. aside ?p v (files w)) (fs_remove_file fs t) (\<lambda>r w. aside ?p v (files w))"
            by (rule triple_view [where view = files], rule triple_post [OF files_contractD(8) [OF c]])
              (auto split: if_splits intro: aside_intros(2) [OF t])
        qed
        then show ?case using t by (cases r) (auto intro!: triple_retE triple_raiseE elim: triple_pre)
      qed
    qed (auto simp: triple_def)
  qed auto
qed (simp add: triple_def)

lemma aside_replaced:
  assumes "aside path v v0" and "temporary_of path t"
  shows "replaced path text v (Inl e) (v0(t := x))" and "replaced path text v (Inl e) v0"
    and "replaced path text v r ((v0(t := x, path \<mapsto> text))(t := y))" and "replaced path text v r (v0(t := x, path \<mapsto> text))"
  using assms temporary_other [of path] by (auto simp: replaced_def aside_def)

lemma secret_replace_triple:
  assumes c: "files_contract fs files"
  shows "triple (\<lambda>w. files w = v) (secret_write_temporary_and_replace fs directory name (secret_file directory name) secret)
    (\<lambda>r w. replaced (secret_file directory name) (text_of secret) v r (files w))"
  unfolding secret_write_temporary_and_replace_def
proof (rule triple_bindE [OF triple_pre [OF create_temporary_triple [OF c, where v = v]]], goal_cases)
  let ?p = "secret_file directory name"
  let ?Q = "\<lambda>r w. replaced ?p (text_of secret) v r (files w)"
  case (2 t)
  show ?case
  proof (rule triple_view [where view = files and C = "\<lambda>v0. aside ?p v v0 \<and>
      (\<forall>t'. Inr t = (Inr t' :: core_error + _) \<longrightarrow> temporary_of ?p t' \<and> v0 t' = Some [])"], goal_cases)
    case (1 v0)
    then have a: "aside ?p v v0" and t: "temporary_of ?p t" and new: "v0 t = Some []" by auto
    have rest: "triple (\<lambda>w. files w = v0(t \<mapsto> text_of secret)) (matchE (sf_rename fs t ?p) (\<lambda>renamed. case renamed of
           Inl e \<Rightarrow> matchE (fs_remove_file fs t) (\<lambda>_. raiseE (err e))
         | Inr _ \<Rightarrow> secret_sync_directory fs directory)) ?Q" for err
    proof (rule triple_matchE [OF files_contractD(6) [OF c]], goal_cases)
      case (1 renamed)
      have tp: "t \<noteq> ?p" using t temporary_other by auto
      show ?case
      proof (cases renamed)
        case (Inl e)
        have "triple (\<lambda>w. files w = v0(t \<mapsto> text_of secret)) (matchE (fs_remove_file fs t) (\<lambda>_. raiseE (err e))) ?Q"
          by (rule remove_after_raise [OF c], unfold fun_upd_upd, (rule aside_replaced(1) [OF a t])+)
        then show ?thesis using Inl by simp
      next
        case (Inr u)
        have "replaced ?p (text_of secret) v r (v0(t := None, ?p \<mapsto> text_of secret))" for r :: "unit core_result"
          using aside_replaced(4) [OF a t] by blast
        then show ?thesis using Inr tp unfolding secret_sync_directory_def
          by (auto simp: fun_upd_twist
              intro!: triple_post [OF silent_triple [OF silent_fs_tryE [OF files_contractD(10) [OF c]]]])
      qed
    qed
    have "triple (\<lambda>w. files w = v0) (matchE (write_and_sync fs t (text_of secret)) (\<lambda>written. case written of
         Inl e \<Rightarrow> matchE (fs_remove_file fs t) (\<lambda>_. raiseE (err' e))
       | Inr _ \<Rightarrow> matchE (sf_rename fs t ?p) (\<lambda>renamed. case renamed of
           Inl e \<Rightarrow> matchE (fs_remove_file fs t) (\<lambda>_. raiseE (err e))
         | Inr _ \<Rightarrow> secret_sync_directory fs directory))) ?Q" for err err'
    proof (rule triple_matchE [OF triple_pre [OF write_and_sync_triple [OF c, of v0]]], goal_cases)
      case (2 written)
      show ?case
      proof (cases written)
        case (Inl e)
        have "triple (\<lambda>w. files w = v0(t \<mapsto> part)) (matchE (fs_remove_file fs t) (\<lambda>_. raiseE (err' e))) ?Q" for part
          by (rule remove_after_raise [OF c], unfold fun_upd_upd, (rule aside_replaced(1) [OF a t])+)
        then show ?thesis using Inl by (auto simp: triple_def)
      next
        case (Inr u)
        then show ?thesis using rest by (auto elim!: triple_pre)
      qed
    qed (use new in auto)
    then show ?case .
  qed
qed (auto simp: aside_intros aside_def replaced_def temporary_other)

lemma secret_save_triple:
  assumes c: "files_contract fs files"
  shows "triple (\<lambda>w. files w = v) (secret_save fs directory name secret)
    (\<lambda>r w. replaced (secret_file directory name) (text_of secret) v r (files w))"
proof (cases "normal_component name")
  case True
  have check: "triple (\<lambda>w. files w = v) (secret_validate_destination fs p) (\<lambda>r w. files w = v)" for p
    unfolding secret_validate_destination_def
    by (rule inspect_triple [OF c]) (auto intro: triple_retE triple_raiseE)
  have "secret_path directory name = Inr (secret_file directory name)" using True by (simp add: secret_path_Inr)
  then show ?thesis
    unfolding secret_save_def
    by (auto simp: replaced_def [where r = "Inl e" for e] intro!: triple_bindE [OF secure_directory_triple [OF c]] triple_bindE [OF check]
        secret_replace_triple [OF c])
next
  case False
  then show ?thesis by (auto simp: secret_save_def secret_path_def replaced_def intro!: triple_raiseE)
qed

text \<open>Creating a secret never replaces one.\<close>

definition created_once :: "path \<Rightarrow> string \<Rightarrow> contents \<Rightarrow> bool core_result \<Rightarrow> contents \<Rightarrow> bool" where
  "created_once path text v r v' \<longleftrightarrow>
     (v' path = v path \<and> r \<noteq> Inr True \<or> v path = None \<and> v' path = Some text \<and> r \<noteq> Inr False) \<and>
     (\<forall>q. q \<noteq> path \<and> \<not> temporary_of path q \<longrightarrow> v' q = v q)"

lemma created_once_intros:
  assumes a: "aside path v v0" and t: "temporary_of path t"
  shows "r \<noteq> Inr True \<Longrightarrow> created_once path text v r v0"
    and "r \<noteq> Inr True \<Longrightarrow> created_once path text v r (v0(t := x))"
    and "v0 path = None \<Longrightarrow> r \<noteq> Inr False \<Longrightarrow> created_once path text v r (v0(t := x, path \<mapsto> text))"
  using a t temporary_other [of path] by (auto simp: created_once_def aside_def)

lemma link_triple:
  assumes c: "files_contract fs files" and a: "aside p v v0" and t: "temporary_of p t"
  shows "triple (\<lambda>w. files w = v0(t \<mapsto> s)) (matchE (sf_hard_link fs t p) (\<lambda>linked. case linked of
       Inr _ \<Rightarrow> bindE (fs_tryE err (fs_remove_file fs t)) (\<lambda>_.
         bindE (secret_sync_directory fs directory) (\<lambda>_. retE True))
     | Inl e \<Rightarrow> if fs_kind e = FsAlreadyExists then bindE (fs_tryE err (fs_remove_file fs t)) (\<lambda>_. retE False)
         else matchE (fs_remove_file fs t) (\<lambda>_. raiseE (err' e)))) (\<lambda>r w. created_once p s v r (files w))"
proof (rule triple_matchE [OF files_contractD(7) [OF c]], goal_cases)
  case (1 linked)
  have tp: "t \<noteq> p" using t temporary_other by auto
  show ?case
  proof (cases linked)
    case (Inl e)
    have "triple (\<lambda>w. files w = v0(t \<mapsto> s)) (bindE (fs_tryE err (fs_remove_file fs t)) (\<lambda>_. retE False))
        (\<lambda>r w. created_once p s v r (files w))"
      by (rule triple_bindE [where R = "\<lambda>r w. \<exists>x. files w = v0(t := x)"], rule triple_fs_tryE [OF files_contractD(8) [OF c]])
        (auto intro!: triple_retE created_once_intros(2) [OF a t])
    moreover have "triple (\<lambda>w. files w = v0(t \<mapsto> s)) (matchE (fs_remove_file fs t) (\<lambda>_. raiseE (err' e)))
        (\<lambda>r w. created_once p s v r (files w))"
      by (rule remove_after_raise [OF c], unfold fun_upd_upd, (rule created_once_intros(2) [OF a t], simp)+)
    ultimately show ?thesis using Inl by auto
  next
    case (Inr u)
    show ?thesis
    proof (cases "v0 p = None")
      case True
      have sync: "triple (\<lambda>w. files w = v1) (secret_sync_directory fs directory) (\<lambda>r w. files w = v1)" for v1
        unfolding secret_sync_directory_def by (rule silent_triple [OF silent_fs_tryE [OF files_contractD(10) [OF c]]])
      have "triple (\<lambda>w. files w = v0(t \<mapsto> s, p \<mapsto> s)) (bindE (fs_tryE err (fs_remove_file fs t)) (\<lambda>_.
          bindE (secret_sync_directory fs directory) (\<lambda>_. retE True))) (\<lambda>r w. created_once p s v r (files w))"
      proof (rule triple_bindE [where R = "\<lambda>r w. \<exists>x. files w = v0(t := x, p \<mapsto> s)"], goal_cases)
        case 1
        show ?case by (rule triple_fs_tryE [OF files_contractD(8) [OF c]]) (use tp in \<open>auto simp: fun_upd_twist\<close>)
      next
        case (2 x)
        show ?case
          by (rule triple_bindE [where R = "\<lambda>r w. \<exists>x. files w = v0(t := x, p \<mapsto> s)"])
            (use sync in \<open>auto simp: triple_def intro!: created_once_intros(3) [where path = p, OF a t True]\<close>)
      next
        case (3 e w)
        then show ?case by (auto intro: created_once_intros(3) [OF a t True])
      qed
      then show ?thesis using Inr tp by (auto elim!: triple_pre)
    qed (use Inr tp in \<open>auto simp: triple_def\<close>)
  qed
qed

lemma save_if_absent_triple:
  assumes c: "files_contract fs files"
  shows "triple (\<lambda>w. files w = v) (save_if_absent fs directory name secret)
    (\<lambda>r w. created_once (secret_file directory name) (text_of secret) v r (files w))"
proof (cases "normal_component name")
  case True
  let ?p = "secret_file directory name"
  let ?Q = "\<lambda>r w. created_once ?p (text_of secret) v r (files w)"
  have path: "secret_path directory name = Inr ?p" using True by (simp add: secret_path_Inr)
  have failed: "created_once ?p (text_of secret) v (Inl e) v'" if "aside ?p v v'" for e v'
    using that temporary_other [of ?p] by (auto simp: created_once_def aside_def)
  show ?thesis
    unfolding save_if_absent_def path bindE_liftE
  proof (rule triple_bindE [OF secure_directory_triple [OF c]],
      rule triple_bindE [OF triple_pre [OF create_temporary_triple [OF c, where v = v]]], goal_cases)
    case (2 u t)
    show ?case
    proof (rule triple_view [where view = files and C = "\<lambda>v0. aside ?p v v0 \<and>
        (\<forall>t'. Inr t = (Inr t' :: core_error + _) \<longrightarrow> temporary_of ?p t' \<and> v0 t' = Some [])"], goal_cases)
      case (1 v0)
      then have a: "aside ?p v v0" and t: "temporary_of ?p t" and new: "v0 t = Some []" by auto
      show ?case
      proof (rule triple_matchE [OF triple_pre [OF write_and_sync_triple [OF c, of v0]]], goal_cases)
        case (2 written)
        show ?case
        proof (cases written)
          case (Inl e)
          have "triple (\<lambda>w. files w = v0(t \<mapsto> part)) (matchE (fs_remove_file fs t) (\<lambda>_. raiseE (err e))) ?Q" for part err
            by (rule remove_after_raise [OF c], unfold fun_upd_upd, (rule created_once_intros(2) [OF a t], simp)+)
          then show ?thesis using Inl by (auto simp: triple_def)
        next
          case (Inr u)
          then show ?thesis using link_triple [OF c a t] by (auto elim!: triple_pre)
        qed
      qed (use new in auto)
    qed
  qed (auto simp: failed aside_intros)
next
  case False
  then show ?thesis by (auto simp: save_if_absent_def secret_path_def created_once_def intro!: triple_raiseE)
qed

section \<open>The node identity\<close>

definition identity_of :: "string \<Rightarrow> node_id core_result" where
  "identity_of s = ident_from_str (bytes_of (strip_newline s))"

lemma identity_of_text: "identity_of (text_of (ident_to_string i) @ [LF]) = Inr i"
  by (simp add: identity_of_def strip_newline_def)

lemma load_existing_triple:
  assumes c: "files_contract fs files"
  shows "triple (\<lambda>w. files w = v) (load_existing fs path) (\<lambda>r w. files w = v \<and> (r = Inr None \<longrightarrow> v path = None) \<and>
    (\<forall>i. r = Inr (Some i) \<longrightarrow> (\<exists>s. v path = Some s \<and> identity_of s = Inr i)))"
proof -
  have perm: "triple (\<lambda>w. files w = v) (identity_enforce_permissions fs path m) (\<lambda>r w. files w = v)" for m
    unfolding identity_enforce_permissions_def
    by (auto intro: triple_retE silent_triple [OF silent_fs_tryE [OF files_contractD(11) [OF c]]])
  have "triple (\<lambda>w. files w = v) (bindE (identity_enforce_permissions fs path m) (\<lambda>_.
      bindE (fs_tryE err (fs_read_to_string fs path)) (\<lambda>serialized.
      bindE (liftE (map_err err' (ident_from_str (bytes_of (strip_newline serialized))))) (\<lambda>identity.
        retE (Some identity))))) (\<lambda>r w. files w = v \<and> (r = Inr None \<longrightarrow> v path = None) \<and>
    (\<forall>i. r = Inr (Some i) \<longrightarrow> (\<exists>s. v path = Some s \<and> identity_of s = Inr i)))" for m err err'
    by (rule triple_bindE [OF perm], rule triple_bindE [where R = "\<lambda>r w. files w = v \<and> (\<forall>s. r = Inr s \<longrightarrow> v path = Some s)"],
        rule triple_fs_tryE [OF files_contractD(2) [OF c]])
      (auto simp: triple_def bindE_def identity_of_def split: sum.splits)
  then show ?thesis
    unfolding load_existing_def
    by (auto intro!: inspect_triple [OF c, where p = path] triple_raiseE triple_retE)
qed

text \<open>A stored identity is kept, and a returned one is stored.\<close>

definition identity_kept :: "path \<Rightarrow> contents \<Rightarrow> node_id core_result \<Rightarrow> contents \<Rightarrow> bool" where
  "identity_kept path v r v' \<longleftrightarrow> (\<forall>q. q \<noteq> path \<longrightarrow> v' q = v q) \<and> (\<forall>s. v path = Some s \<longrightarrow> v' path = Some s) \<and>
     (\<forall>i. r = Inr i \<longrightarrow> (\<exists>s. v' path = Some s \<and> identity_of s = Inr i))"

lemma store_identity_triple:
  assumes c: "files_contract fs files" and new: "v path = None"
  shows "triple (\<lambda>w. files w = v(path \<mapsto> [])) (matchE (write_and_sync fs path (text_of (ident_to_string i) @ [LF]))
      (\<lambda>written. case written of
         Inl e \<Rightarrow> matchE (fs_remove_file fs path) (\<lambda>_. raiseE (err e))
       | Inr _ \<Rightarrow> bindE (sync_parent_directory fs path) (\<lambda>_. retE i))) (\<lambda>r w. identity_kept path v r (files w))"
proof (rule triple_matchE [OF triple_pre [OF write_and_sync_triple [OF c, of "v(path \<mapsto> [])"]]], goal_cases)
  case (2 written)
  have failed: "identity_kept path v (Inl e) (v(path := x))" for e x using new by (auto simp: identity_kept_def)
  show ?case
  proof (cases written)
    case (Inl e)
    have "triple (\<lambda>w. files w = v(path \<mapsto> part)) (matchE (fs_remove_file fs path) (\<lambda>_. raiseE (err e)))
        (\<lambda>r w. identity_kept path v r (files w))" for part
      by (rule remove_after_raise [OF c], unfold fun_upd_upd, (rule failed)+)
    then show ?thesis using Inl by (auto simp: triple_def)
  next
    case (Inr u)
    have kept: "identity_kept path v (Inr i) (v(path \<mapsto> text_of (ident_to_string i) @ [LF]))"
      using new by (simp add: identity_kept_def identity_of_text)
    have "triple (\<lambda>w. files w = v(path \<mapsto> text_of (ident_to_string i) @ [LF])) (sync_parent_directory fs path)
        (\<lambda>r w. files w = v(path \<mapsto> text_of (ident_to_string i) @ [LF]))"
      unfolding sync_parent_directory_def by (rule silent_triple [OF silent_fs_tryE [OF files_contractD(10) [OF c]]])
    then have "triple (\<lambda>w. files w = v(path \<mapsto> text_of (ident_to_string i) @ [LF]))
        (bindE (sync_parent_directory fs path) (\<lambda>_. retE i)) (\<lambda>r w. identity_kept path v r (files w))"
      by (rule triple_bindE) (use kept failed in \<open>auto intro: triple_retE\<close>)
    then show ?thesis using Inr by (auto elim!: triple_pre)
  qed
qed auto

lemma load_or_create_triple:
  assumes c: "files_contract fs files" and g: "silent files generate"
  shows "triple (\<lambda>w. files w = v) (load_or_create fs path generate) (\<lambda>r w. identity_kept path v r (files w))"
  unfolding load_or_create_def
proof (rule triple_bindE [OF load_existing_triple [OF c]], goal_cases)
  case (1 existing)
  have failed: "identity_kept path v (Inl e) v" for e by (simp add: identity_kept_def)
  show ?case
  proof (cases existing)
    case (Some i)
    then show ?thesis by (auto simp: identity_kept_def intro!: triple_retE)
  next
    case None
    have parent: "triple (\<lambda>w. files w = v) (identity_ensure_parent_directory fs path) (\<lambda>r w. files w = v)"
      unfolding identity_ensure_parent_directory_def
      by (auto split: option.splits intro: triple_retE silent_triple [OF silent_fs_tryE [OF files_contractD(12) [OF c]]])
    have again: "triple (\<lambda>w. files w = v) (bindE (load_existing fs path) (\<lambda>found. liftE (ok_or err found)))
        (\<lambda>r w. identity_kept path v r (files w))" for err
      by (rule triple_bindE [OF load_existing_triple [OF c]])
        (auto simp: triple_def identity_kept_def ok_or_def split: option.splits)
    have "triple (\<lambda>w. files w = v) (bindE (identity_ensure_parent_directory fs path) (\<lambda>_. bindE generate (\<lambda>identity.
        matchE (fs_create_new fs path IDENTITY_FILE_MODE) (f identity)))) (\<lambda>r w. identity_kept path v r (files w))"
      if created: "\<And>i. v path = None \<Longrightarrow> triple (\<lambda>w. files w = v(path \<mapsto> [])) (f i (Inr ())) (\<lambda>r w. identity_kept path v r (files w))"
        and refused: "\<And>i e. triple (\<lambda>w. files w = v) (f i (Inl e)) (\<lambda>r w. identity_kept path v r (files w))" for f
    proof (rule triple_bindE [OF parent], rule triple_bindE [OF silent_triple [OF g]],
        rule triple_matchE [OF files_contractD(4) [OF c]], goal_cases)
      case (1 u i r)
      then show ?case using created [of i] refused [of i] by (cases r) (auto simp: triple_def)
    qed (auto simp: failed)
    note step = this
    show ?thesis unfolding None option.case
      by (rule triple_pre [OF step]) (auto simp: identity_kept_def [where r = "Inl e" for e] intro!: triple_raiseE again store_identity_triple [OF c])
  qed
qed (auto simp: identity_kept_def)

section \<open>Properties\<close>

text \<open>C9: the stores replace their files as a whole. Whatever call fails and wherever, a membership file says after
  \<open>save\<close> what was saved or, after an error only, what it said before; a registry that is not settled is refused with
  nothing touched; \<open>load\<close> returns what the file says and, migrating it or not, leaves it saying that. A secret is
  replaced in the same way, and \<open>save_if_absent\<close> never changes one that is there. No other file is touched but
  temporary ones.\<close>

theorem durable_stores_atomic:
  assumes "files_contract fs files"
  shows "(durable_registry x \<longrightarrow> membership_save fs path x w = (r, w') \<longrightarrow>
      (read_document (files w' path) = Inr x \<or> is_err r \<and> files w' path = files w path) \<and>
      (\<forall>q. q \<noteq> path \<and> \<not> temporary_of path q \<longrightarrow> files w' q = files w q)) \<and>
    (keyed_registry x \<and> \<not> durable_registry x \<longrightarrow> (\<exists>e. membership_save fs path x w = (Inl e, w))) \<and>
    (membership_load fs path w = (r', w') \<longrightarrow> read_document (files w' path) = read_document (files w path) \<and>
      (\<forall>y. r' = Inr y \<longrightarrow> read_document (files w path) = Inr y) \<and>
      (\<forall>q. q \<noteq> path \<and> \<not> temporary_of path q \<longrightarrow> files w' q = files w q)) \<and>
    (secret_save fs directory name secret w = (r, w') \<longrightarrow>
      replaced (secret_file directory name) (text_of secret) (files w) r (files w')) \<and>
    (save_if_absent fs directory name secret w = (b, w') \<longrightarrow>
      created_once (secret_file directory name) (text_of secret) (files w) b (files w'))"
proof (intro conjI impI)
  assume x: "durable_registry x" and run: "membership_save fs path x w = (r, w')"
  obtain doc where doc: "serialize_registry x = Inr doc" "read_document (Some doc) = Inr x" by (rule serialize_durable [OF x])
  have saved: "replaced path doc (files w) r (files w')"
    by (rule tripleD [OF membership_save_triple [OF assms doc(1)] refl run])
  show "read_document (files w' path) = Inr x \<or> is_err r \<and> files w' path = files w path"
    using saved doc(2) by (auto simp: replaced_def)
  show "\<forall>q. q \<noteq> path \<and> \<not> temporary_of path q \<longrightarrow> files w' q = files w q" using saved by (simp add: replaced_def)
next
  assume "keyed_registry x \<and> \<not> durable_registry x"
  then obtain e where "serialize_registry x = Inl e" using serialize_registry_exact [of x] by (auto simp: durable_registry_def)
  then show "\<exists>e. membership_save fs path x w = (Inl e, w)" by (auto dest: membership_save_refused)
next
  assume run: "membership_load fs path w = (r', w')"
  note loaded = tripleD [OF membership_load_triple [OF assms] refl run]
  from loaded show "read_document (files w' path) = read_document (files w path)"
    "\<forall>y. r' = Inr y \<longrightarrow> read_document (files w path) = Inr y"
    "\<forall>q. q \<noteq> path \<and> \<not> temporary_of path q \<longrightarrow> files w' q = files w q" by simp_all
next
  assume "secret_save fs directory name secret w = (r, w')"
  then show "replaced (secret_file directory name) (text_of secret) (files w) r (files w')"
    by (rule tripleD [OF secret_save_triple [OF assms] refl])
next
  assume "save_if_absent fs directory name secret w = (b, w')"
  then show "created_once (secret_file directory name) (text_of secret) (files w) b (files w')"
    by (rule tripleD [OF save_if_absent_triple [OF assms] refl])
qed

text \<open>C21: a node keeps its identity. Once \<open>load_or_create\<close> has returned an identity, every later call that returns,
  whatever fails and whatever it would generate, returns that identity; an identity file that exists is never changed,
  valid or not.\<close>

theorem node_identity_stable:
  assumes "files_contract fs files" and "silent files generate" and "silent files generate'"
  shows "(\<forall>s r w'. load_or_create fs path generate w = (r, w') \<and> files w path = Some s \<longrightarrow> files w' path = Some s) \<and>
    (\<forall>i w' u j u'. load_or_create fs path generate w = (Inr i, w') \<and> files u path = files w' path \<and>
       load_or_create fs path generate' u = (Inr j, u') \<longrightarrow> j = i)"
proof (intro conjI allI impI)
  fix s r w' assume "load_or_create fs path generate w = (r, w') \<and> files w path = Some s"
  then show "files w' path = Some s"
    using tripleD [OF load_or_create_triple [OF assms(1,2)] refl] by (auto simp: identity_kept_def)
next
  fix i w' u j u'
  assume run: "load_or_create fs path generate w = (Inr i, w') \<and> files u path = files w' path \<and>
       load_or_create fs path generate' u = (Inr j, u')"
  then have "identity_kept path (files w) (Inr i) (files w')" "identity_kept path (files u) (Inr j) (files u')"
    using tripleD [OF load_or_create_triple [OF assms(1,2)] refl] tripleD [OF load_or_create_triple [OF assms(1,3)] refl]
    by blast+
  then show "j = i" using run by (auto simp: identity_kept_def)
qed

section \<open>Files in memory\<close>

definition memory_store :: "(contents \<times> u64) store_files" where
  "memory_store = \<lparr>
     fs_read_to_string = (\<lambda>p (v, n). (case v p of None \<Rightarrow> Inl (FsError FsNotFound ''absent'') | Some s \<Rightarrow> Inr s, v, n)),
     fs_write = (\<lambda>p s (v, n). (Inr (), v(p \<mapsto> s), n)),
     fs_symlink_metadata = (\<lambda>p (v, n). (case v p of None \<Rightarrow> Inl (FsError FsNotFound ''absent'')
       | Some _ \<Rightarrow> Inr (FileMetadata True False MEMBERSHIP_FILE_MODE 1 0 0 0), v, n)),
     fs_set_permissions = (\<lambda>p m w. (Inr (), w)),
     fs_create_dir_all = (\<lambda>p w. (Inr (), w)),
     fs_create_new = (\<lambda>p m (v, n). case v p of None \<Rightarrow> (Inr (), v(p \<mapsto> []), n)
       | Some _ \<Rightarrow> (Inl (FsError FsAlreadyExists ''present''), v, n)),
     fs_write_all = (\<lambda>p s (v, n). (Inr (), v(p \<mapsto> s), n)),
     fs_sync_all = (\<lambda>p w. (Inr (), w)),
     fs_remove_file = (\<lambda>p (v, n). (Inr (), v(p := None), n)),
     sf_read = (\<lambda>p (v, n). (case v p of None \<Rightarrow> Inl (FsError FsNotFound ''absent'') | Some s \<Rightarrow> Inr (bytes_of s), v, n)),
     sf_rename = (\<lambda>p q (v, n). (Inr (), (v(p := None))(q := v p), n)),
     sf_hard_link = (\<lambda>p q (v, n). case v q of None \<Rightarrow> (Inr (), v(q := v p), n)
       | Some _ \<Rightarrow> (Inl (FsError FsAlreadyExists ''present''), v, n)),
     sf_create_dirs = (\<lambda>p m w. (Inr (), w)),
     sf_sync_directory = (\<lambda>p w. (Inr (), w)),
     sf_next_membership_temp = (\<lambda>(v, n). (n, v, n + 1)),
     sf_next_secret_temp = (\<lambda>(v, n). (n, v, n + 1)),
     sf_process_id = 7,
     sf_current_dir = []\<rparr>"

lemma memory_store_contract: "files_contract memory_store fst"
  by (auto simp: files_contract_def memory_store_def triple_def silent_def split: option.splits)

definition state_path :: path where
  "state_path = [''var'', ''lib'', ''blueroute'', ''membership'']"

theorem durable_stores_atomic_witness:
  "\<exists>w'. membership_save memory_store state_path sample_registry (Map.empty, 0) = (Inr (), w') \<and>
     read_document (fst w' state_path) = Inr sample_registry"
proof -
  obtain doc where "serialize_registry sample_registry = Inr doc" by (rule serialize_durable [OF sample_registry_durable])
  then obtain w' where run: "membership_save memory_store state_path sample_registry (Map.empty, 0) = (Inr (), w')"
    by (simp add: membership_save_def bindE_def ensure_parent_directory_def membership_validate_destination_def
        membership_temporary_path_def membership_write_temporary_and_replace_def membership_sync_directory_def
        write_and_sync_def fs_tryE_def matchE_def memory_store_def state_path_def)
  show ?thesis
    using durable_stores_atomic [OF memory_store_contract, THEN conjunct1, THEN mp, OF sample_registry_durable, THEN mp, OF run]
      run by auto
qed

theorem node_identity_stable_witness:
  "\<exists>w' u'. load_or_create memory_store state_path (retE (byte_ident 5)) (Map.empty, 0) = (Inr (byte_ident 5), w') \<and>
     load_or_create memory_store state_path (retE (byte_ident 6)) w' = (Inr (byte_ident 5), u')"
proof -
  note defs = load_or_create_def load_existing_def bindE_def identity_ensure_parent_directory_def sync_parent_directory_def
    identity_enforce_permissions_def write_and_sync_def fs_tryE_def matchE_def memory_store_def state_path_def path_parent_def
  obtain w' where run: "load_or_create memory_store state_path (retE (byte_ident 5)) (Map.empty, 0) = (Inr (byte_ident 5), w')"
    and stored: "fst w' state_path = Some (text_of (ident_to_string (byte_ident 5 :: node_id)) @ [LF])"
    by (simp add: defs)
  obtain j u' where again: "load_or_create memory_store state_path (retE (byte_ident 6)) w' = (Inr j, u')"
    using stored identity_of_text [of "byte_ident 5"] unfolding identity_of_def
    by (cases w') (simp add: defs MEMBERSHIP_FILE_MODE_def)
  have quiet: "silent fst (retE i)" for i :: node_id by (simp add: silent_def triple_def)
  have "j = byte_ident 5"
    using node_identity_stable [OF memory_store_contract quiet quiet, THEN conjunct2] run again by blast
  then show ?thesis using run again by blast
qed

end
