(* ===== verification/Daemon_Pins.thy ===== *)
theory Daemon_Pins
  imports Linux_Store Peer_Pin
begin

text \<open>
  \<open>apps/daemon/src/peer_pin_store.rs\<close>: the durable file of pinned keys in the secret store, and the advisory lock that
  the daemons of one host take around every use of it.
\<close>

section \<open>The lock\<close>

text \<open>The calls on the lock file: opening it without following links, the metadata and the lock of the open file, and
  closing it, which drops the lock. An open file is a number.\<close>

datatype try_lock_error = WouldBlock | TryLockError fs_error

record 'w lock_files = "'w store_files" +
  lf_open :: "path \<Rightarrow> u32 \<Rightarrow> ('w, nat) fs_call"
  lf_metadata :: "nat \<Rightarrow> ('w, file_metadata) fs_call"
  lf_try_lock :: "nat \<Rightarrow> 'w \<Rightarrow> (try_lock_error + unit) \<times> 'w"
  lf_close :: "nat \<Rightarrow> 'w \<Rightarrow> 'w"

text \<open>The fallible rest of a function that owns an open file: on an error the file is dropped.\<close>

definition owning :: "'w lock_files \<Rightarrow> nat \<Rightarrow> ('w, 'a) eff \<Rightarrow> ('w, 'a) eff" where
  "owning fs file m w =
     (case m w of (Inl e, w') \<Rightarrow> (Inl e, lf_close fs file w') | (Inr x, w') \<Rightarrow> (Inr x, w'))"

definition PIN_FILE_NAME :: string where
  "PIN_FILE_NAME = ''peer-key-pins-v1''"

definition PIN_HEADER :: string where
  "PIN_HEADER = ''BLUEROUTE_PEER_PINS_V1''"

definition PIN_MAX_BYTES :: nat where
  "PIN_MAX_BYTES = 256 * 1024"

definition PIN_MAX_RECORDS :: nat where
  "PIN_MAX_RECORDS = 128"

definition PEER_LOCK_FILE :: string where
  "PEER_LOCK_FILE = ''.peer-approval.lock''"

definition store_of :: "'w lock_files \<Rightarrow> 'w store_files" where
  "store_of fs = store_files.truncate fs"

definition unsafe_lock :: "file_metadata \<Rightarrow> file_metadata \<Rightarrow> file_metadata \<Rightarrow> bool" where
  "unsafe_lock descriptor on_disk directory \<longleftrightarrow>
     \<not> md_is_file descriptor \<or> \<not> md_is_file on_disk \<or> \<not> md_is_dir directory \<or>
     md_mode descriptor AND 0x1FF \<noteq> 0x180 \<or> md_mode directory AND 0x1FF \<noteq> 0x1C0 \<or> md_nlink descriptor \<noteq> 1 \<or>
     md_ino descriptor \<noteq> md_ino on_disk \<or> md_dev descriptor \<noteq> md_dev on_disk \<or> md_uid descriptor \<noteq> md_uid directory"

definition pins_try_lock :: "'w lock_files \<Rightarrow> path \<Rightarrow> ('w, nat) eff" where
  "pins_try_lock fs directory =
     bindE (secret_load (store_of fs) directory PIN_FILE_NAME) (\<lambda>_.
     bindE (fs_tryE (persistence_error ''failed to open owner-only peer approval lock without following symlinks'')
         (lf_open fs (path_join directory PEER_LOCK_FILE) 0x180)) (\<lambda>file. owning fs file (
     bindE (fs_tryE (persistence_error ''failed to inspect peer approval lock handle'') (lf_metadata fs file)) (\<lambda>descriptor.
     bindE (fs_tryE (persistence_error ''failed to verify persistent peer approval lock path'')
         (fs_symlink_metadata fs (path_join directory PEER_LOCK_FILE))) (\<lambda>on_disk.
     bindE (fs_tryE (persistence_error ''failed to verify peer approval lock directory'')
         (fs_symlink_metadata fs directory)) (\<lambda>dir.
       if unsafe_lock descriptor on_disk dir
       then raiseE (core_error_new PersistenceError
              ''peer approval lock file or directory has unsafe identity or permissions'')
       else matchE (lf_try_lock fs file) (\<lambda>r. case r of
           Inr _ \<Rightarrow> retE file
         | Inl WouldBlock \<Rightarrow> raiseE (core_error_new InvalidState
             ''another BlueRoute daemon is updating peer approval; retry safely'')
         | Inl (TryLockError e) \<Rightarrow>
             raiseE (persistence_error ''failed to acquire peer approval process lock'' e))))))))"

section \<open>The document\<close>

definition pin_invalid :: "string \<Rightarrow> core_error" where
  "pin_invalid message = core_error_new PersistenceError message"

definition decode_digest :: "string \<Rightarrow> spki_sha256 core_result" where
  "decode_digest s =
     map_err (\<lambda>_. pin_invalid ''peer key fingerprint must be canonical lowercase SHA-256 hex'')
       (parse_canonical_hex (bytes_of s))"

definition next_field :: "string \<Rightarrow> string list \<Rightarrow> (string \<times> string list) core_result" where
  "next_field missing flds =
     (case flds of [] \<Rightarrow> Inl (pin_invalid missing) | f # rest \<Rightarrow> Inr (f, rest))"

definition parse_pin_line :: "string \<Rightarrow> peer_key_pins \<Rightarrow> peer_key_pins core_result" where
  "parse_pin_line line pins =
     (if fm_len pins \<ge> PIN_MAX_RECORDS then Inl (pin_invalid ''too many peer key pins'')
      else
     bindR (next_field ''missing key pin network identity'' (split_text TAB line)) (\<lambda>(network_text, flds).
     bindR (map_err (\<lambda>_. pin_invalid ''invalid key pin network identity'')
         (ident_from_str (bytes_of network_text))) (\<lambda>network.
     bindR (next_field ''missing key pin node identity'' flds) (\<lambda>(node_text, flds).
     bindR (map_err (\<lambda>_. pin_invalid ''invalid key pin node identity'')
         (ident_from_str (bytes_of node_text))) (\<lambda>node.
     bindR (next_field ''missing key pin fingerprint'' flds) (\<lambda>(digest_text, flds).
     bindR (decode_digest digest_text) (\<lambda>fingerprint.
       if flds \<noteq> [] then Inl (pin_invalid ''unexpected key pin record fields'')
       else case enroll_verified network node fingerprint pins of (r, pins') \<Rightarrow>
         bindR (map_err (\<lambda>_. pin_invalid ''conflicting duplicate key pin'') r) (\<lambda>changed.
           if \<not> changed then Inl (pin_invalid ''duplicate key pin record'')
           else Inr pins'))))))))"

definition parse_pins :: "u8 list \<Rightarrow> peer_key_pins core_result" where
  "parse_pins bytes =
     (if length bytes > PIN_MAX_BYTES then Inl (pin_invalid ''peer-key pin file exceeds size limit'')
      else bindR (map_err (\<lambda>_. pin_invalid ''peer-key pin file is not valid UTF-8'') (from_utf8 bytes)) (\<lambda>_.
        case text_lines (text_of bytes) of
          [] \<Rightarrow> Inl (pin_invalid ''missing or unsupported peer-key pin format version'')
        | header # rest \<Rightarrow>
            if header \<noteq> PIN_HEADER
            then Inl (pin_invalid ''missing or unsupported peer-key pin format version'')
            else foldR parse_pin_line rest pins_new))"

definition pins_load :: "'w store_files \<Rightarrow> path \<Rightarrow> ('w, peer_key_pins) eff" where
  "pins_load fs directory =
     bindE (secret_load fs directory PIN_FILE_NAME) (\<lambda>found. case found of
         None \<Rightarrow> retE pins_new
       | Some bytes \<Rightarrow> liftE (parse_pins bytes))"

definition pin_record :: "network_id \<times> node_id \<times> spki_sha256 \<Rightarrow> string" where
  "pin_record entry =
     (case entry of (network, node, pin) \<Rightarrow>
        text_of (ident_to_string network) @ [TAB] @ text_of (ident_to_string node) @ [TAB] @
        text_of (to_canonical_hex pin) @ [LF])"

definition serialize_pins :: "peer_key_pins \<Rightarrow> string core_result" where
  "serialize_pins pins =
     (if fm_len pins > PIN_MAX_RECORDS then Inl (pin_invalid ''too many peer key pins'')
      else let doc = PIN_HEADER @ [LF] @ concat (map pin_record (pin_entries pins)) in
        if length doc > PIN_MAX_BYTES then Inl (pin_invalid ''peer-key pin file exceeds size limit'')
        else Inr doc)"

definition pins_save :: "'w store_files \<Rightarrow> path \<Rightarrow> peer_key_pins \<Rightarrow> ('w, unit) eff" where
  "pins_save fs directory pins =
     bindE (liftE (serialize_pins pins)) (\<lambda>doc. secret_save fs directory PIN_FILE_NAME (bytes_of doc))"

section \<open>Round trip\<close>

text \<open>The pins that enrolment makes, with digests of 32 bytes that are not all zero.\<close>

definition spki_ok :: "spki_sha256 \<Rightarrow> bool" where
  "spki_ok pin \<longleftrightarrow> length (spki_as_bytes pin) = SPKI_BYTES \<and> \<not> list_all (\<lambda>byte. byte = 0) (spki_as_bytes pin)"

definition valid_pins :: "peer_key_pins \<Rightarrow> bool" where
  "valid_pins pins \<longleftrightarrow> pins_inv pins \<and> (\<forall>k pin. fmlookup pins k = Some pin \<longrightarrow> spki_ok pin)"

lemma canonical_hex_read:
  assumes "spki_ok pin"
  shows "parse_canonical_hex (to_canonical_hex pin) = Inr pin"
proof -
  let ?hex = "encode_hex (spki_as_bytes pin)"
  have hex: "to_canonical_hex pin = ?hex" by (simp add: to_canonical_hex_def hex_text_encode_hex)
  have len: "length ?hex = 64" using assms by (simp add: spki_ok_def SPKI_BYTES_def)
  then have "parse_spki_pairs ?hex = Inr (spki_as_bytes pin)"
    using parse_spki_pairs_Inr [of ?hex "spki_as_bytes pin"] lower_encode_hex [of "spki_as_bytes pin"] by simp
  then show ?thesis unfolding hex parse_canonical_hex_def
    using len assms by (simp only: from_verified_certificate_digest_def spki_ok_def bindR_simps) simp
qed

lemma canonical_hex_ok:
  assumes "parse_canonical_hex hex = Inr pin"
  shows "spki_ok pin"
proof -
  have len: "length hex = 64" using assms by (simp add: parse_canonical_hex_def split: if_splits)
  then obtain bs where bs: "parse_spki_pairs hex = Inr bs" and pin: "from_verified_certificate_digest bs = Inr pin"
    using assms by (auto simp: parse_canonical_hex_def bindR_eq_Inr)
  have "even (length hex)" using len by simp
  then have "decode_pairs hex = Inr bs" using parse_spki_pairs_Inr [of hex bs] bs by blast
  then have "length bs = 32" using decode_pairs_length [of hex bs] len by simp
  then show ?thesis
    using pin by (auto simp: from_verified_certificate_digest_def spki_ok_def SPKI_BYTES_def split: if_splits)
qed

definition pin_line :: "network_id \<times> node_id \<times> spki_sha256 \<Rightarrow> string" where
  "pin_line entry =
     (case entry of (network, node, pin) \<Rightarrow>
        text_of (ident_to_string network) @ [TAB] @ text_of (ident_to_string node) @ [TAB] @ text_of (to_canonical_hex pin))"

lemma pin_document_lines:
  "PIN_HEADER @ [LF] @ concat (map pin_record entries) = unlines (PIN_HEADER # map pin_line entries)"
proof -
  have "concat (map pin_record entries) = unlines (map pin_line entries)"
    by (induction entries) (auto simp: pin_record_def pin_line_def LF_def)
  then show ?thesis by (simp add: LF_def)
qed

lemma pin_line_plain: "plain_line (pin_line entry)" "plain_line PIN_HEADER"
  using field_plain
  by (auto simp: pin_line_def plain_line_def ident_to_string_def to_canonical_hex_def hex_text_encode_hex PIN_HEADER_def
      split: prod.splits)

lemma pin_line_fields:
  "split_text TAB (pin_line (network, node, pin)) =
     [text_of (ident_to_string network), text_of (ident_to_string node), text_of (to_canonical_hex pin)]"
  by (simp add: pin_line_def split_text_field ident_to_string_def to_canonical_hex_def hex_text_encode_hex)

lemma parse_pin_line_new:
  assumes "fm_len acc < PIN_MAX_RECORDS" and "spki_ok pin" and "network \<noteq> zero_ident" "node \<noteq> zero_ident"
    and "\<not> pin_shared network node pin acc" and "fmlookup acc (network, node) = None"
  shows "parse_pin_line (pin_line (network, node, pin)) acc = Inr (fmupd (network, node) pin acc)"
  using assms
  by (simp add: parse_pin_line_def pin_line_fields next_field_def decode_digest_def canonical_hex_read enroll_verified_def)

lemma foldR_parse_pins:
  assumes pins: "valid_pins pins" and "list_all (\<lambda>(network, node, pin). fmlookup pins (network, node) = Some pin) entries"
    and "\<And>k pin. fmlookup acc k = Some pin \<Longrightarrow> fmlookup pins k = Some pin"
    and "distinct (map (\<lambda>(network, node, pin). (network, node)) entries)"
    and "list_all (\<lambda>(network, node, pin). fmlookup acc (network, node) = None) entries"
    and "fm_len acc + length entries \<le> PIN_MAX_RECORDS"
  shows "foldR parse_pin_line (map pin_line entries) acc =
    Inr (fold (\<lambda>e. fmupd (fst e, fst (snd e)) (snd (snd e))) entries acc)"
  using assms(2-)
proof (induction entries arbitrary: acc)
  case (Cons entry entries)
  obtain network node pin where entry: "entry = (network, node, pin)" by (cases entry) auto
  have here: "fmlookup pins (network, node) = Some pin" and free: "fmlookup acc (network, node) = None"
    using Cons.prems(1,4) by (simp_all add: entry)
  have inv: "pins_inv pins" and ok: "spki_ok pin" using pins here by (auto simp: valid_pins_def)
  have "network \<noteq> zero_ident \<and> node \<noteq> zero_ident" using inv here unfolding pins_inv_def by (metis option.distinct(1))
  moreover have "\<not> pin_shared network node pin acc"
    using inv here Cons.prems(2) unfolding pin_shared_iff pins_inv_def by metis
  ultimately have step: "parse_pin_line (pin_line entry) acc = Inr (fmupd (network, node) pin acc)"
    unfolding entry using Cons.prems(5) ok free by (intro parse_pin_line_new) simp_all
  have "foldR parse_pin_line (map pin_line entries) (fmupd (network, node) pin acc) =
      Inr (fold (\<lambda>e. fmupd (fst e, fst (snd e)) (snd (snd e))) entries (fmupd (network, node) pin acc))"
  proof (rule Cons.IH)
    show "fmlookup pins k = Some p" if "fmlookup (fmupd (network, node) pin acc) k = Some p" for k p
      using that here Cons.prems(2) by (auto split: if_splits)
    show "list_all (\<lambda>(network', node', p). fmlookup (fmupd (network, node) pin acc) (network', node') = None) entries"
      using Cons.prems(3,4) by (auto simp: entry list_all_iff image_iff split: prod.splits)
    show "fm_len (fmupd (network, node) pin acc) + length entries \<le> PIN_MAX_RECORDS"
      using Cons.prems(5) by (auto simp: fm_len_fmupd)
  qed (use Cons.prems in \<open>auto simp: list_all_iff\<close>)
  then show ?case using step by (simp add: entry)
qed simp

lemma ascii_utf8: "list_all (\<lambda>b. unat b < 0x80) bs \<Longrightarrow> utf8_decode start bs = Inr (map unat bs)"
  by (induction bs arbitrary: start) (simp_all add: utf8_ranges_def)

definition ascii_text :: "string \<Rightarrow> bool" where
  "ascii_text s \<longleftrightarrow> list_all (\<lambda>c. (of_char c :: nat) < 0x80) s"

lemma ascii_text_simps [simp]:
  "ascii_text []" "ascii_text (c # s) \<longleftrightarrow> (of_char c :: nat) < 0x80 \<and> ascii_text s" "ascii_text (s @ t) \<longleftrightarrow> ascii_text s \<and> ascii_text t"
  by (simp_all add: ascii_text_def)

lemma from_utf8_ascii: "ascii_text s \<Longrightarrow> \<exists>t. from_utf8 (bytes_of s) = Inr t"
proof -
  assume "ascii_text s"
  then have "list_all (\<lambda>b. unat b < 0x80) (bytes_of s)"
    by (simp add: ascii_text_def bytes_of_def list_all_iff utf8_byte)
  then show ?thesis by (simp add: from_utf8_def ascii_utf8)
qed

lemma ascii_hex [simp]: "ascii_text (text_of (encode_hex bs))"
proof -
  have HEX: "unat (HEX ! n) < 0x80" if "n < 16" for n
  proof -
    have "list_all (\<lambda>n. unat (HEX ! n) < 0x80) [0..<16]" by code_simp
    then show ?thesis using that by (simp add: list_all_iff)
  qed
  have "list_all (\<lambda>b. unat b < 0x80) (encode_hex bs)"
    by (induction bs) (simp_all add: HEX unat_high_nibble unat_low_nibble)
  moreover have "unat b mod 256 = unat b" for b :: u8 using unat_less_pow [of b] by simp
  ultimately show ?thesis by (simp add: ascii_text_def text_of_def list_all_iff)
qed

lemma ascii_pin_document: "ascii_text (unlines (PIN_HEADER # map pin_line entries))"
proof -
  have "ascii_text (unlines (map pin_line entries))"
    by (induction entries)
      (auto simp: pin_line_def ident_to_string_def to_canonical_hex_def hex_text_encode_hex TAB_def)
  then show ?thesis by (simp add: PIN_HEADER_def)
qed

lemma pin_entry_keys: "map (\<lambda>(network, node, pin). (network, node)) (pin_entries pins) = sorted_list_of_fset (fmdom pins)"
  unfolding pin_entries_def map_map map_fst_sorted_list_of_fmap [symmetric] by (rule map_cong) auto

lemma pin_entries_listed:
  "list_all (\<lambda>(network, node, pin). fmlookup pins (network, node) = Some pin) (pin_entries pins)"
  by (auto simp: pin_entries_def list_all_iff set_sorted_list_of_fmap)

lemma length_pin_entries: "length (pin_entries pins) = fm_len pins"
  using length_fm_values [of pins] by (simp add: pin_entries_def fm_values_def)

lemma pins_rebuild: "fold (\<lambda>e. fmupd (fst e, fst (snd e)) (snd (snd e))) (pin_entries pins) fmempty = pins"
proof (rule fmap_ext)
  fix k
  have "list_all (\<lambda>e. fmlookup pins (fst e, fst (snd e)) = Some (snd (snd e))) (pin_entries pins)"
    using pin_entries_listed [of pins] by (auto simp: list_all_iff split: prod.splits)
  then have "fmlookup (fold (\<lambda>e. fmupd (fst e, fst (snd e)) (snd (snd e))) (pin_entries pins) fmempty) k =
      (if k \<in> (\<lambda>e. (fst e, fst (snd e))) ` set (pin_entries pins) then fmlookup pins k else fmlookup fmempty k)"
    by (rule fold_fmupd_lookup)
  moreover have "(\<lambda>e. (fst e, fst (snd e))) ` set (pin_entries pins) = fset (fmdom pins)"
    using arg_cong [OF pin_entry_keys [of pins], of set] by (simp add: split_beta)
  ultimately show "fmlookup (fold (\<lambda>e. fmupd (fst e, fst (snd e)) (snd (snd e))) (pin_entries pins) fmempty) k = fmlookup pins k"
    by (auto simp: fmdom_notD)
qed

lemma parse_serialized_pins:
  assumes pins: "valid_pins pins" and doc: "serialize_pins pins = Inr doc"
  shows "parse_pins (bytes_of doc) = Inr pins"
proof -
  have few: "fm_len pins \<le> PIN_MAX_RECORDS" and small: "length doc \<le> PIN_MAX_BYTES"
    and lines: "doc = unlines (PIN_HEADER # map pin_line (pin_entries pins))"
    using doc unfolding serialize_pins_def pin_document_lines Let_def by (auto simp del: unlines_simps split: if_splits)
  have "list_all plain_line (PIN_HEADER # map pin_line (pin_entries pins))"
    using pin_line_plain by (auto simp: list_all_iff)
  then have read: "text_lines doc = PIN_HEADER # map pin_line (pin_entries pins)"
    unfolding lines by (rule text_lines_unlines)
  have free: "list_all (\<lambda>(network, node, pin). fmlookup pins_new (network, node) = None) (pin_entries pins)"
    by (auto simp: list_all_iff pins_new_def)
  have "foldR parse_pin_line (map pin_line (pin_entries pins)) pins_new =
      Inr (fold (\<lambda>e. fmupd (fst e, fst (snd e)) (snd (snd e))) (pin_entries pins) pins_new)"
    by (rule foldR_parse_pins [OF pins pin_entries_listed _ _ free])
      (use few in \<open>auto simp: pin_entry_keys length_pin_entries pins_new_def\<close>)
  then have "foldR parse_pin_line (map pin_line (pin_entries pins)) pins_new = Inr pins"
    using pins_rebuild [of pins] by (simp add: pins_new_def)
  moreover obtain t where "from_utf8 (bytes_of doc) = Inr t"
    using from_utf8_ascii [of doc] ascii_pin_document [of "pin_entries pins"] lines by blast
  ultimately show ?thesis using small by (simp add: parse_pins_def read)
qed

lemma enroll_valid:
  assumes "valid_pins pins" and "spki_ok pin" and "enroll_verified network node pin pins = (r, pins')"
  shows "valid_pins pins'"
  using assms(3)
proof (cases rule: enroll_cases [consumes 1, case_names refused known enrolled])
  case enrolled
  then have "fmlookup pins (network, other) \<noteq> Some pin" for other
    unfolding pin_shared_iff by (cases "other = node") auto
  then have "pins_inv pins'" using assms(1) enrolled(2,4,5) by (auto simp: valid_pins_def pins_inv_def)
  then show ?thesis using assms(1,2) enrolled(2) by (auto simp: valid_pins_def)
qed (use assms(1) in auto)

lemma parse_pin_line_valid:
  assumes "valid_pins pins" and "parse_pin_line line pins = Inr pins'"
  shows "valid_pins pins'"
  using assms(2)
  by (auto simp: parse_pin_line_def bindR_eq_Inr decode_digest_def split: if_splits prod.splits
      dest: enroll_valid [OF assms(1) canonical_hex_ok])

lemma parse_pins_valid:
  assumes "parse_pins bytes = Inr pins"
  shows "valid_pins pins"
proof -
  obtain ls where "foldR parse_pin_line ls pins_new = Inr pins"
    using assms by (auto simp: parse_pins_def bindR_eq_Inr split: if_splits list.splits)
  moreover have "valid_pins pins_new" by (simp add: valid_pins_def pins_inv_def pins_new_def)
  ultimately show ?thesis by (rule foldR_invariant) (auto dest: parse_pin_line_valid)
qed

section \<open>The file of pins\<close>

definition pin_file :: "path \<Rightarrow> path" where
  "pin_file directory = secret_file directory PIN_FILE_NAME"

definition read_pins :: "string option \<Rightarrow> peer_key_pins core_result" where
  "read_pins doc = (case doc of None \<Rightarrow> Inr pins_new | Some s \<Rightarrow> parse_pins (bytes_of s))"

lemma read_pins_valid: "read_pins doc = Inr pins \<Longrightarrow> valid_pins pins"
proof (cases doc)
  case (Some s)
  assume "read_pins doc = Inr pins"
  then show ?thesis using Some parse_pins_valid by (simp add: read_pins_def)
qed (auto simp: read_pins_def valid_pins_def pins_inv_def pins_new_def)

lemma pins_load_triple:
  assumes c: "files_contract fs files"
  shows "triple (\<lambda>w. files w = v) (pins_load fs directory)
    (\<lambda>r w. files w = v \<and> (\<forall>x. r = Inr x \<longrightarrow> read_pins (v (pin_file directory)) = Inr x))"
  unfolding pins_load_def
proof (rule triple_bindE [OF secret_load_triple [OF c]], goal_cases)
  case (1 found)
  then show ?case
    by (cases found) (auto simp: triple_def pin_file_def read_pins_def)
qed auto

lemma pins_save_triple:
  assumes c: "files_contract fs files" and x: "valid_pins x"
  shows "triple (\<lambda>w. files w = v) (pins_save fs directory x)
    (\<lambda>r w. (read_pins (files w (pin_file directory)) = Inr x \<or> is_err r \<and> files w (pin_file directory) = v (pin_file directory)) \<and>
       (\<forall>q. q \<noteq> pin_file directory \<and> \<not> temporary_of (pin_file directory) q \<longrightarrow> files w q = v q))"
proof (cases "serialize_pins x")
  case (Inl e)
  then show ?thesis by (auto simp: pins_save_def intro: triple_raiseE)
next
  case (Inr doc)
  then have "read_pins (Some doc) = Inr x" using parse_serialized_pins [OF x] by (simp add: read_pins_def)
  then show ?thesis unfolding pins_save_def Inr bindE_liftE
    by (intro triple_post [OF secret_save_triple [OF c]]) (auto simp: replaced_def pin_file_def)
qed

lemma serialize_pins_err:
  assumes "valid_pins x"
  shows "is_err (serialize_pins x) \<longleftrightarrow> fm_len x > 128"
proof -
  have ident: "length (ident_to_string i) = 32" for i :: "'k ident"
    by (simp add: ident_to_string_def ID_BYTES_def)
  have "length (pin_record e) = 131" if "e \<in> set (pin_entries x)" for e
  proof -
    obtain network node pin where e: "e = (network, node, pin)" by (cases e)
    then have "fmlookup x (network, node) = Some pin" using that pin_entries_listed [of x] by (auto simp: list_all_iff)
    then have "length (spki_as_bytes pin) = 32" using assms by (auto simp: valid_pins_def spki_ok_def SPKI_BYTES_def)
    then show ?thesis unfolding e pin_record_def by (simp add: ident to_canonical_hex_def hex_text_encode_hex)
  qed
  then have "length (concat (map pin_record es)) = 131 * length es" if "set es \<subseteq> set (pin_entries x)" for es
    using that by (induction es) auto
  then have "length (PIN_HEADER @ [LF] @ concat (map pin_record (pin_entries x))) = 23 + 131 * fm_len x"
    by (simp add: length_pin_entries PIN_HEADER_def)
  then show ?thesis
    unfolding serialize_pins_def Let_def PIN_MAX_RECORDS_def PIN_MAX_BYTES_def by (simp only: ) auto
qed

text \<open>C11: the stored keys are the keys that were stored. Pins that enrolment made are written while they are at most
  128, and what is written reads as the same pins; everything that is read satisfies the rules of enrolment, so that
  no key of a network stands for two nodes; and after a save the file holds the pins that were saved or, after an error
  only, what it held before.\<close>

theorem pin_document_roundtrip:
  assumes "files_contract fs files" and "valid_pins x"
  shows "(is_err (serialize_pins x) \<longleftrightarrow> fm_len x > 128) \<and>
    (\<forall>doc. serialize_pins x = Inr doc \<longrightarrow> parse_pins (bytes_of doc) = Inr x) \<and>
    (\<forall>bytes y. parse_pins bytes = Inr y \<longrightarrow> valid_pins y) \<and>
    (\<forall>r w'. pins_save fs directory x w = (r, w') \<longrightarrow>
       read_pins (files w' (pin_file directory)) = Inr x \<or>
       is_err r \<and> files w' (pin_file directory) = files w (pin_file directory))"
proof (intro conjI allI impI)
  show "is_err (serialize_pins x) \<longleftrightarrow> fm_len x > 128" by (rule serialize_pins_err [OF assms(2)])
next
  show "parse_pins (bytes_of doc) = Inr x" if "serialize_pins x = Inr doc" for doc
    using parse_serialized_pins [OF assms(2) that] .
  show "valid_pins y" if "parse_pins bytes = Inr y" for bytes y using parse_pins_valid [OF that] .
  show "read_pins (files w' (pin_file directory)) = Inr x \<or>
      is_err r \<and> files w' (pin_file directory) = files w (pin_file directory)"
    if "pins_save fs directory x w = (r, w')" for r w'
    using tripleD [OF pins_save_triple [OF assms] refl that] by blast
qed

definition sample_pins :: peer_key_pins where
  "sample_pins = fmupd (byte_ident 8, byte_ident 2) (SpkiSha256 (replicate 32 7)) fmempty"

lemma sample_pins_valid: "valid_pins sample_pins"
  by (auto simp: valid_pins_def pins_inv_def sample_pins_def spki_ok_def SPKI_BYTES_def list_all_iff split: if_splits)

theorem pin_document_roundtrip_witness:
  "\<exists>doc. serialize_pins sample_pins = Inr doc \<and> parse_pins (bytes_of doc) = Inr sample_pins"
proof -
  note rt = pin_document_roundtrip [OF memory_store_contract sample_pins_valid]
  have "fm_len sample_pins = 1" by (simp add: sample_pins_def fm_len_fmupd)
  then obtain doc where "serialize_pins sample_pins = Inr doc"
    using rt [THEN conjunct1] by (cases "serialize_pins sample_pins") auto
  then show ?thesis using rt [THEN conjunct2, THEN conjunct1] by blast
qed

end
