(* ===== verification/Daemon_Store.thy ===== *)
theory Daemon_Store
  imports Daemon_Pins
begin

text \<open>
  What the daemon's operations share: the interface of the durable membership registry and of the durable key pins,
  what the operations rely on, and \<open>current_network\<close> of \<open>apps/daemon/src/single_star.rs\<close>. The stores of
  \<open>Linux_Store\<close> and \<open>Daemon_Pins\<close> implement the interface.
\<close>

section \<open>Stores\<close>

record 'w membership_store =
  ms_load :: "('w, membership_registry) eff"
  ms_save :: "membership_registry \<Rightarrow> ('w, unit) eff"

record 'w peer_pin_store =
  ps_try_lock :: "('w, nat) eff"
  ps_unlock :: "nat \<Rightarrow> 'w \<Rightarrow> 'w"
  ps_load :: "('w, peer_key_pins) eff"
  ps_save :: "peer_key_pins \<Rightarrow> ('w, unit) eff"

definition current_network :: "membership_registry \<Rightarrow> network_id option core_result" where
  "current_network registry =
     (case map nm_network_id (filter (\<lambda>m. nm_state m = Member) (fm_values (mr_networks registry))) of
        [] \<Rightarrow> Inr None
      | [network] \<Rightarrow> Inr (Some network)
      | _ \<Rightarrow> Inl (core_error_new InvalidState ''durable state contains more than one active BlueRoute network''))"

section \<open>What the stores promise\<close>

text \<open>What a client relies on: loading reports what is stored, which is well-formed, and saving something well-formed
  replaces it as a whole. A save that reports an error may still have replaced it, since the file is renamed into place
  before its directory is synchronized. \<open>view\<close> reads what is stored, \<open>put\<close> stores.\<close>

definition load_contract :: "('w \<Rightarrow> 'v) \<Rightarrow> ('v \<Rightarrow> 'a) \<Rightarrow> ('a \<Rightarrow> bool) \<Rightarrow> ('w, 'a) eff \<Rightarrow> bool" where
  "load_contract view stored ok load \<longleftrightarrow>
     (\<forall>v. triple (\<lambda>w. view w = v) load (\<lambda>r w. view w = v \<and> (\<forall>x. r = Inr x \<longrightarrow> x = stored v \<and> ok x)))"

definition save_contract :: "('w \<Rightarrow> 'v) \<Rightarrow> ('a \<Rightarrow> 'v \<Rightarrow> 'v) \<Rightarrow> ('a \<Rightarrow> bool) \<Rightarrow> ('a \<Rightarrow> ('w, unit) eff) \<Rightarrow> bool" where
  "save_contract view put ok save \<longleftrightarrow>
     (\<forall>v x. ok x \<longrightarrow> triple (\<lambda>w. view w = v) (save x) (\<lambda>r w. view w = put x v \<or> is_err r \<and> view w = v))"

lemma load_triple:
  "load_contract view stored ok load \<Longrightarrow>
   triple (\<lambda>w. view w = v) load (\<lambda>r w. view w = v \<and> (\<forall>x. r = Inr x \<longrightarrow> x = stored v \<and> ok x))"
  by (simp add: load_contract_def)

lemma save_triple:
  "save_contract view put ok save \<Longrightarrow> ok x \<Longrightarrow>
   triple (\<lambda>w. view w = v) (save x) (\<lambda>r w. view w = put x v \<or> is_err r \<and> view w = v)"
  by (simp add: save_contract_def)

section \<open>Registries\<close>

text \<open>Every network is stored under its own identifier.\<close>

definition registry_ok :: "membership_registry \<Rightarrow> bool" where
  "registry_ok registry \<longleftrightarrow> (\<forall>i m. fmlookup (mr_networks registry) i = Some m \<longrightarrow> nm_network_id m = i)"

definition active_networks :: "membership_registry \<Rightarrow> network_id set" where
  "active_networks registry = {i. \<exists>m. fmlookup (mr_networks registry) i = Some m \<and> nm_state m = Member}"

lemma members_listed:
  assumes "registry_ok registry"
  shows "map nm_network_id (filter (\<lambda>m. nm_state m = Member) (fm_values (mr_networks registry))) =
    filter (\<lambda>i. i \<in> active_networks registry) (sorted_list_of_fset (fmdom (mr_networks registry)))"
proof -
  let ?m = "\<lambda>i. the (fmlookup (mr_networks registry) i)"
  have listed: "fm_values (mr_networks registry) = map ?m (sorted_list_of_fset (fmdom (mr_networks registry)))"
    by (simp add: fm_values_def sorted_list_of_fmap_def)
  have own: "nm_network_id (?m i) = i \<and> (nm_state (?m i) = Member \<longleftrightarrow> i \<in> active_networks registry)"
    if i: "i |\<in>| fmdom (mr_networks registry)" for i
  proof -
    from i obtain m where "fmlookup (mr_networks registry) i = Some m" by (auto simp: fmlookup_dom_iff)
    then show ?thesis using assms by (auto simp: registry_ok_def active_networks_def)
  qed
  have "map nm_network_id (filter (\<lambda>m. nm_state m = Member) (map ?m members)) = filter (\<lambda>i. i \<in> active_networks registry) members"
    if "set members \<subseteq> fset (fmdom (mr_networks registry))" for members
    using that own by (induction members) auto
  then show ?thesis unfolding listed by simp
qed

lemma current_network_Inr:
  assumes "registry_ok registry"
  shows "current_network registry = Inr (Some n) \<longleftrightarrow> active_networks registry = {n}"
    and "current_network registry = Inr None \<longleftrightarrow> active_networks registry = {}"
proof -
  let ?l = "filter (\<lambda>i. i \<in> active_networks registry) (sorted_list_of_fset (fmdom (mr_networks registry)))"
  have set: "set ?l = active_networks registry" by (auto simp: active_networks_def fmdomI)
  have d: "distinct ?l" by simp
  have one: "?l = [n] \<longleftrightarrow> active_networks registry = {n}"
  proof
    assume "active_networks registry = {n}"
    then have "set ?l = set [n]" using set by simp
    moreover have "sorted ?l" "sorted [n]" "distinct [n]" by (simp_all add: sorted_wrt_filter)
    ultimately show "?l = [n]" using d sorted_distinct_set_unique by blast
  qed (use set in force)
  have none: "?l = [] \<longleftrightarrow> active_networks registry = {}" using arg_cong [OF set, of "\<lambda>S. S = {}"] by (simp only: set_empty)
  have "(case l of [] \<Rightarrow> Inr None | [x] \<Rightarrow> Inr (Some x) | _ \<Rightarrow> Inl e) = (Inr (Some n) :: core_error + _) \<longleftrightarrow> l = [n]"
    "(case l of [] \<Rightarrow> Inr None | [x] \<Rightarrow> Inr (Some x) | _ \<Rightarrow> Inl e) = (Inr None :: core_error + _) \<longleftrightarrow> l = []" for l e
    by (auto split: list.splits)
  then show "current_network registry = Inr (Some n) \<longleftrightarrow> active_networks registry = {n}"
    "current_network registry = Inr None \<longleftrightarrow> active_networks registry = {}"
    unfolding current_network_def members_listed [OF assms] one [symmetric] none [symmetric] by blast+
qed

end
