(* ===== verification/Daemon_Trust.thy ===== *)
theory Daemon_Trust
  imports Daemon_Store
begin

text \<open>
  \<open>apps/daemon/src/peer_trust.rs\<close>: approval of peers and enrolment of their keys over the two durable stores. The
  operations run under a thread mutex and an advisory file lock, so each is one atomic step; a poisoned mutex is a
  predicate of the state. Instants are natural numbers.
\<close>

section \<open>Operations\<close>

record 'w durable_peer_trust =
  pt_store :: "'w membership_store"
  pt_pin_store :: "'w peer_pin_store option"
  pt_poisoned :: "'w \<Rightarrow> bool"
  pt_now :: "'w \<Rightarrow> nat \<times> 'w"

datatype pinned_control_tls_peer =
  PinnedControlTlsPeer (pp_network: network_id) (pp_node: node_id) (pp_fingerprint: spki_sha256)

definition pinned_control_tls_peer_new ::
  "network_id \<Rightarrow> node_id \<Rightarrow> spki_sha256 \<Rightarrow> pinned_control_tls_peer option" where
  "pinned_control_tls_peer_new network node fingerprint =
     (if all_zero network \<or> all_zero node then None else Some (PinnedControlTlsPeer network node fingerprint))"

definition show_peer_pin_error :: "peer_pin_error \<Rightarrow> string" where
  "show_peer_pin_error e =
     (case e of
        InvalidFingerprint \<Rightarrow> ''invalid peer key fingerprint''
      | PinInvalidIdentity \<Rightarrow> ''zero network or node identity cannot be enrolled''
      | UnknownEnrollment \<Rightarrow> ''no verified peer key enrollment exists''
      | KeyConflict \<Rightarrow> ''peer key changed; explicit re-enrollment required''
      | NotApprovedForNetwork \<Rightarrow> ''peer lacks network membership approval''
      | FingerprintMismatch \<Rightarrow> ''authenticated peer public key differs from pin'')"

text \<open>The guard of a transaction: the open lock file, where there is a store of pins.\<close>

definition lock_state :: "'w durable_peer_trust \<Rightarrow> ('w, nat option) eff" where
  "lock_state ops w =
     (if pt_poisoned ops w
      then (Inl (core_error_new Internal
              ''peer trust state lock poisoned; refusing to use unverified approval state''), w)
      else case pt_pin_store ops of
          None \<Rightarrow> (Inr None, w)
        | Some pins \<Rightarrow> bindE (ps_try_lock pins) (\<lambda>process_lock. retE (Some process_lock)) w)"

text \<open>The body of an operation under both guards, which are dropped when it returns.\<close>

definition guarded :: "'w durable_peer_trust \<Rightarrow> ('w, 'a) eff \<Rightarrow> ('w, 'a) eff" where
  "guarded ops body =
     bindE (lock_state ops) (\<lambda>guard w.
       case body w of (r, w') \<Rightarrow>
         (r, case (pt_pin_store ops, guard) of (Some pins, Some process_lock) \<Rightarrow> ps_unlock pins process_lock w' | _ \<Rightarrow> w'))"

definition require_nonzero_peer_identity :: "node_id \<Rightarrow> unit core_result" where
  "require_nonzero_peer_identity node =
     (if node = zero_ident
      then Inl (core_error_new InvalidInput ''all-zero peer NodeId cannot be trusted or authorized'')
      else Inr ())"

definition no_current_network :: core_error where
  "no_current_network =
     core_error_new InvalidState ''this daemon does not currently belong to a BlueRoute network''"

definition require_peer_approved :: "'w durable_peer_trust \<Rightarrow> network_id \<Rightarrow> node_id \<Rightarrow> ('w, unit) eff" where
  "require_peer_approved ops network node =
     bindE (liftE (require_nonzero_peer_identity node)) (\<lambda>_.
     bindE (ms_load (pt_store ops)) (\<lambda>registry.
     bindE (liftE (bindR (current_network registry) (ok_or no_current_network))) (\<lambda>current.
       if current \<noteq> network
       then raiseE (core_error_new InvalidState
              ''refusing peer authorization for a network other than the current network'')
       else bindE (liftE (ok_or (core_error_new InvalidState
              ''current BlueRoute network is missing from durable membership state'')
              (registry_network registry network))) (\<lambda>membership.
         if is_peer_trusted membership node then retE ()
         else raiseE (core_error_new AuthenticationFailed
                ''BlueRoute peer has not been explicitly approved for this network'')))))"

definition collect_approved_pin ::
  "network_id \<Rightarrow> network_membership \<Rightarrow> network_id \<times> node_id \<times> spki_sha256 \<Rightarrow> pinned_control_tls_peer list \<Rightarrow>
   pinned_control_tls_peer list core_result" where
  "collect_approved_pin network membership entry approved =
     (case entry of (pin_network, node, fingerprint) \<Rightarrow>
      if pin_network \<noteq> network \<or> \<not> is_peer_trusted membership node then Inr approved
      else bindR (ok_or (core_error_new AuthenticationFailed
               ''invalid enrolled TLS peer key in durable snapshot'')
             (pinned_control_tls_peer_new network node fingerprint)) (\<lambda>pinned.
           Inr (approved @ [pinned])))"

definition approved_control_pins ::
  "'w durable_peer_trust \<Rightarrow> network_id \<Rightarrow> ('w, pinned_control_tls_peer list) eff" where
  "approved_control_pins ops network = guarded ops (
     bindE (ms_load (pt_store ops)) (\<lambda>registry.
     bindE (liftE (current_network registry)) (\<lambda>current.
       if current \<noteq> Some network
       then raiseE (core_error_new InvalidState
              ''requested TLS pin snapshot does not match the active network'')
       else bindE (liftE (ok_or (core_error_new InvalidState
              ''active network is missing from durable member registry'')
              (registry_network registry network))) (\<lambda>membership.
         bindE (liftE (ok_or (core_error_new AuthenticationFailed
              ''no enrolled TLS peer key store is configured'') (pt_pin_store ops))) (\<lambda>pin_store.
         bindE (ps_load pin_store) (\<lambda>pins.
           liftE (foldR (collect_approved_pin network membership) (pin_entries pins) [])))))))"

definition with_approved_pinned_tls_peer ::
  "'w durable_peer_trust \<Rightarrow> network_id \<Rightarrow> node_id \<Rightarrow> spki_sha256 \<Rightarrow> ('w \<Rightarrow> 'a \<times> 'w) \<Rightarrow> ('w, 'a) eff" where
  "with_approved_pinned_tls_peer ops network node verified operation = guarded ops (
     bindE (require_peer_approved ops network node) (\<lambda>_.
     bindE (liftE (ok_or (core_error_new AuthenticationFailed
         ''no durable peer key pin store is configured for authenticated control'') (pt_pin_store ops))) (\<lambda>store.
     bindE (ps_load store) (\<lambda>pins.
     bindE (liftE (map_err (\<lambda>e. with_diagnostic AuthenticationFailed
         ''peer has no matching explicitly enrolled BlueRoute cryptographic identity'' (show_peer_pin_error e))
         (authorize network node True verified pins))) (\<lambda>_ w.
       case operation w of (x, w') \<Rightarrow> (Inr x, w'))))))"

definition require_approved_pinned_tls_peer ::
  "'w durable_peer_trust \<Rightarrow> network_id \<Rightarrow> node_id \<Rightarrow> spki_sha256 \<Rightarrow> ('w, unit) eff" where
  "require_approved_pinned_tls_peer ops network node verified =
     with_approved_pinned_tls_peer ops network node verified (\<lambda>w. ((), w))"

definition check_enrollment_deadline :: "'w durable_peer_trust \<Rightarrow> nat option \<Rightarrow> ('w, unit) eff" where
  "check_enrollment_deadline ops deadline w =
     (case deadline of
        None \<Rightarrow> (Inr (), w)
      | Some limit \<Rightarrow>
          (case pt_now ops w of (now, w') \<Rightarrow>
             if now \<ge> limit
             then (Inl (core_error_new AuthenticationFailed
                    ''confirmed enrollment deadline expired before durable key enrollment''), w')
             else (Inr (), w')))"

definition enroll_key_inner ::
  "'w durable_peer_trust \<Rightarrow> network_id \<Rightarrow> node_id \<Rightarrow> spki_sha256 \<Rightarrow> spki_sha256 \<Rightarrow> nat option \<Rightarrow> ('w, bool) eff" where
  "enroll_key_inner ops network node verified confirmed deadline = guarded ops (
     bindE (require_peer_approved ops network node) (\<lambda>_.
       if verified \<noteq> confirmed
       then raiseE (core_error_new AuthenticationFailed
              ''independently confirmed peer key does not match verified TLS identity'')
       else bindE (liftE (ok_or (core_error_new AuthenticationFailed
              ''no durable peer key pin store is configured for enrollment'') (pt_pin_store ops))) (\<lambda>store.
       bindE (ps_load store) (\<lambda>pins.
       bindE (check_enrollment_deadline ops deadline) (\<lambda>_.
         case enroll_verified network node verified pins of (r, pins') \<Rightarrow>
         bindE (liftE (map_err (\<lambda>_. core_error_new AuthenticationFailed
             ''peer identity or key conflicts with an existing enrollment'') r)) (\<lambda>changed.
           if changed
           then bindE (check_enrollment_deadline ops deadline) (\<lambda>_.
                bindE (ps_save store pins') (\<lambda>_. retE changed))
           else retE changed))))))"

text \<open>The entries for keys that TLS has verified.\<close>

datatype verified_control_tls_peer =
  VerifiedControlTlsPeer (vp_network: network_id) (vp_node: node_id) (vp_fingerprint: spki_sha256)

definition enroll_key_after_independent_confirmation ::
  "'w durable_peer_trust \<Rightarrow> verified_control_tls_peer \<Rightarrow> spki_sha256 \<Rightarrow> ('w, bool) eff" where
  "enroll_key_after_independent_confirmation ops peer confirmed =
     enroll_key_inner ops (vp_network peer) (vp_node peer) (vp_fingerprint peer) confirmed None"

definition enroll_key_after_independent_confirmation_until ::
  "'w durable_peer_trust \<Rightarrow> verified_control_tls_peer \<Rightarrow> spki_sha256 \<Rightarrow> nat \<Rightarrow> ('w, bool) eff" where
  "enroll_key_after_independent_confirmation_until ops peer confirmed deadline =
     enroll_key_inner ops (vp_network peer) (vp_node peer) (vp_fingerprint peer) confirmed (Some deadline)"

definition durable_trust_peer :: "'w durable_peer_trust \<Rightarrow> node_id \<Rightarrow> ('w, unit) eff" where
  "durable_trust_peer ops node =
     bindE (liftE (require_nonzero_peer_identity node)) (\<lambda>_. guarded ops (
       bindE (ms_load (pt_store ops)) (\<lambda>registry.
       bindE (liftE (bindR (current_network registry) (ok_or no_current_network))) (\<lambda>network.
       bindE (liftE (ok_or (core_error_new InvalidState
           ''current BlueRoute network is missing from durable membership state'')
           (network_mut registry network (\<lambda>m. trust_peer m node)))) (\<lambda>(changed, registry').
         if changed then ms_save (pt_store ops) registry' else retE ())))))"

definition revoke_pin :: "'w peer_pin_store \<Rightarrow> network_id \<Rightarrow> node_id \<Rightarrow> ('w, unit) eff" where
  "revoke_pin store network node =
     bindE (ps_load store) (\<lambda>pins.
       case revoke network node pins of (removed, pins') \<Rightarrow>
         if removed then ps_save store pins' else retE ())"

definition durable_forget_peer :: "'w durable_peer_trust \<Rightarrow> node_id \<Rightarrow> ('w, unit) eff" where
  "durable_forget_peer ops node =
     bindE (liftE (require_nonzero_peer_identity node)) (\<lambda>_. guarded ops (
       bindE (ms_load (pt_store ops)) (\<lambda>registry.
       bindE (liftE (bindR (current_network registry) (ok_or no_current_network))) (\<lambda>network.
       bindE (liftE (ok_or (core_error_new InvalidState
           ''current BlueRoute network is missing from durable membership state'')
           (network_mut registry network (\<lambda>m. forget_peer m node)))) (\<lambda>(changed, registry').
       bindE (case pt_pin_store ops of None \<Rightarrow> retE () | Some store \<Rightarrow> revoke_pin store network node) (\<lambda>_.
         if changed then ms_save (pt_store ops) registry' else retE ()))))))"

section \<open>Who may open a control session\<close>

record trust_view =
  dv_registry :: membership_registry
  dv_pins :: peer_key_pins

definition trust_contract :: "'w durable_peer_trust \<Rightarrow> ('w \<Rightarrow> trust_view) \<Rightarrow> bool" where
  "trust_contract ops view \<longleftrightarrow>
     load_contract view dv_registry durable_registry (ms_load (pt_store ops)) \<and>
     save_contract view (\<lambda>x v. v\<lparr>dv_registry := x\<rparr>) durable_registry (ms_save (pt_store ops)) \<and>
     silent view (pt_now ops) \<and>
     (\<forall>pins. pt_pin_store ops = Some pins \<longrightarrow> silent view (ps_try_lock pins) \<and> (\<forall>l w. view (ps_unlock pins l w) = view w) \<and>
        load_contract view dv_pins valid_pins (ps_load pins) \<and>
        save_contract view (\<lambda>x v. v\<lparr>dv_pins := x\<rparr>) valid_pins (ps_save pins))"

definition approved :: "membership_registry \<Rightarrow> network_id \<Rightarrow> node_id \<Rightarrow> bool" where
  "approved registry network node \<longleftrightarrow> current_network registry = Inr (Some network) \<and>
     (\<exists>m. registry_network registry network = Some m \<and> is_peer_trusted m node)"

text \<open>A peer may open a control session in the current network when it is approved there now and presents its pinned
  key.\<close>

definition may_control :: "trust_view \<Rightarrow> network_id \<Rightarrow> node_id \<Rightarrow> spki_sha256 \<Rightarrow> bool" where
  "may_control v network node key \<longleftrightarrow>
     approved (dv_registry v) network node \<and> fmlookup (dv_pins v) (network, node) = Some key"

lemma contract_parts:
  assumes "trust_contract ops view"
  shows "load_contract view dv_registry durable_registry (ms_load (pt_store ops))"
    and "save_contract view (\<lambda>x v. v\<lparr>dv_registry := x\<rparr>) durable_registry (ms_save (pt_store ops))"
    and "silent view (pt_now ops)"
    and "pt_pin_store ops = Some pins \<Longrightarrow> silent view (ps_try_lock pins)"
    and "pt_pin_store ops = Some pins \<Longrightarrow> view (ps_unlock pins l w) = view w"
    and "pt_pin_store ops = Some pins \<Longrightarrow> load_contract view dv_pins valid_pins (ps_load pins)"
    and "pt_pin_store ops = Some pins \<Longrightarrow> save_contract view (\<lambda>x v. v\<lparr>dv_pins := x\<rparr>) valid_pins (ps_save pins)"
  using assms unfolding trust_contract_def by blast+

lemma lock_triple:
  assumes "trust_contract ops view"
  shows "triple (\<lambda>w. view w = v) (lock_state ops) (\<lambda>r w. view w = v)"
proof -
  have "triple (\<lambda>w. view w = v) (bindE (ps_try_lock pins) (\<lambda>l. retE (Some l))) (\<lambda>r w. view w = v)"
    if "pt_pin_store ops = Some pins" for pins
    by (rule triple_bindE [OF silent_triple [OF contract_parts(4) [OF assms that]]]) (auto intro: triple_retE)
  then show ?thesis by (cases "pt_pin_store ops") (auto simp: triple_def lock_state_def)
qed

lemma guarded_triple:
  assumes c: "trust_contract ops view"
    and body: "triple (\<lambda>w. view w = v) body (\<lambda>r w. Q r (view w))" and fail: "\<And>e. Q (Inl e) v"
  shows "triple (\<lambda>w. view w = v) (guarded ops body) (\<lambda>r w. Q r (view w))"
  unfolding guarded_def
proof (rule triple_bindE [OF lock_triple [OF c]], goal_cases)
  case (1 guard)
  have "view (case (pt_pin_store ops, guard) of (Some pins, Some process_lock) \<Rightarrow> ps_unlock pins process_lock w' | _ \<Rightarrow> w') = view w'"
    for w' using contract_parts(5) [OF c] by (auto split: option.splits)
  then show ?case using body by (simp add: triple_def split_beta)
qed (simp add: fail)

lemma approved_triple:
  assumes c: "trust_contract ops view"
  shows "triple (\<lambda>w. view w = v) (require_peer_approved ops network node)
    (\<lambda>r w. view w = v \<and> (r = Inr () \<longrightarrow> approved (dv_registry v) network node))"
  unfolding require_peer_approved_def
proof (rule triple_bindE [where R = "\<lambda>r w. view w = v"], goal_cases)
  case (2 u)
  show ?case
  proof (rule triple_bindE [OF load_triple [OF contract_parts(1) [OF c]]], goal_cases)
    case (1 registry)
    then show ?case
      by (auto simp: triple_def bindE_def ok_or_def approved_def split: sum.splits option.splits)
        (auto simp: bindR_def ok_or_eq_Inr split: sum.splits option.splits)
  qed simp
qed (auto intro: triple_liftE)

lemma deadline_triple:
  assumes "trust_contract ops view"
  shows "triple (\<lambda>w. view w = v) (check_enrollment_deadline ops deadline) (\<lambda>r w. view w = v)"
  using silent_triple [OF contract_parts(3) [OF assms], of v]
  by (auto simp: triple_def check_enrollment_deadline_def split: option.splits prod.splits)

section \<open>Registry updates\<close>

lemma map_fm_values_update:
  assumes "fmlookup m i = Some x" and "f x' = f x"
  shows "map f (fm_values (fmupd i x' m)) = map f (fm_values m)"
proof -
  have "fmdom (fmupd i x' m) = fmdom m" using assms(1) by (auto simp: fmdomI)
  then show ?thesis using assms
    by (auto simp: fm_values_def sorted_list_of_fmap_def)
qed

lemma current_network_update:
  assumes "fmlookup (mr_networks r) i = Some m" and "nm_network_id m' = nm_network_id m" and "nm_state m' = nm_state m"
  shows "current_network (r\<lparr>mr_networks := fmupd i m' (mr_networks r)\<rparr>) = current_network r"
proof -
  have pairs: "map nm_network_id (filter (\<lambda>m. nm_state m = Member) ms) =
      map fst (filter (\<lambda>(i, s). s = Member) (map (\<lambda>m. (nm_network_id m, nm_state m)) ms))" for ms
    by (induction ms) auto
  have "map (\<lambda>m. (nm_network_id m, nm_state m)) (fm_values (fmupd i m' (mr_networks r))) =
      map (\<lambda>m. (nm_network_id m, nm_state m)) (fm_values (mr_networks r))"
    by (rule map_fm_values_update) (use assms in auto)
  then show ?thesis unfolding current_network_def pairs by simp
qed

lemma network_mut_Some:
  "network_mut r i f = Some (x, r') \<longleftrightarrow>
     (\<exists>m m'. fmlookup (mr_networks r) i = Some m \<and> f m = (x, m') \<and> r' = r\<lparr>mr_networks := fmupd i m' (mr_networks r)\<rparr>)"
  by (auto simp: network_mut_def split: option.splits prod.splits)

lemma trust_update:
  assumes "network_mut r i (\<lambda>m. trust_peer m node) = Some (changed, r')"
  shows "approved r' n p \<longrightarrow> approved r n p \<or> p = node"
    and "current_network r = Inr (Some i) \<Longrightarrow> approved r' i node"
    and "current_network r = Inr (Some i) \<Longrightarrow> \<not> changed \<Longrightarrow> approved r i node"
proof -
  obtain m where m: "fmlookup (mr_networks r) i = Some m" "changed = fst (trust_peer m node)"
    and r': "r' = r\<lparr>mr_networks := fmupd i (snd (trust_peer m node)) (mr_networks r)\<rparr>"
    using assms by (auto simp: network_mut_Some)
  have cur: "current_network r' = current_network r"
    unfolding r' by (rule current_network_update [OF m(1)]) (simp_all add: trust_peer_def Let_def)
  moreover have "is_peer_trusted (snd (trust_peer m node)) p \<longrightarrow> is_peer_trusted m p \<or> p = node"
    by (auto simp: trust_peer_def is_peer_trusted_def Let_def)
  ultimately show "approved r' n p \<longrightarrow> approved r n p \<or> p = node"
    using m(1) r' by (auto simp: approved_def registry_network_def)
  show "current_network r = Inr (Some i) \<Longrightarrow> approved r' i node"
    using cur r' by (simp add: approved_def registry_network_def trust_peer_def is_peer_trusted_def Let_def)
  show "current_network r = Inr (Some i) \<Longrightarrow> \<not> changed \<Longrightarrow> approved r i node"
    using m by (auto simp: approved_def registry_network_def trust_peer_def is_peer_trusted_def Let_def peer_entry_def
        peer_membership_new_def split: option.splits)
qed

lemma forget_update:
  assumes "network_mut r i (\<lambda>m. forget_peer m node) = Some (changed, r')"
  shows "approved r' n p \<longrightarrow> approved r n p"
    and "current_network r = Inr (Some i) \<Longrightarrow> \<not> approved r' n node"
    and "current_network r = Inr (Some i) \<Longrightarrow> \<not> changed \<Longrightarrow> \<not> approved r n node"
proof -
  obtain m where m: "fmlookup (mr_networks r) i = Some m" "changed = fst (forget_peer m node)"
    and r': "r' = r\<lparr>mr_networks := fmupd i (snd (forget_peer m node)) (mr_networks r)\<rparr>"
    using assms by (auto simp: network_mut_Some)
  have cur: "current_network r' = current_network r"
    unfolding r' by (rule current_network_update [OF m(1)]) (simp_all add: forget_peer_def)
  have sub: "is_peer_trusted (snd (forget_peer m node)) p \<longrightarrow> is_peer_trusted m p \<and> p \<noteq> node" for p
    by (auto simp: forget_peer_def is_peer_trusted_def)
  show "approved r' n p \<longrightarrow> approved r n p"
    using cur sub [of p] m(1) r' by (auto simp: approved_def registry_network_def split: if_splits)
  show "current_network r = Inr (Some i) \<Longrightarrow> \<not> approved r' n node"
    using cur sub [of node] r' by (auto simp: approved_def registry_network_def)
  show "current_network r = Inr (Some i) \<Longrightarrow> \<not> changed \<Longrightarrow> \<not> approved r n node"
    using m by (auto simp: approved_def registry_network_def forget_peer_def is_peer_trusted_def)
qed

lemma trust_durable:
  assumes r: "durable_registry r" and "network_mut r i (\<lambda>m. trust_peer m node) = Some (changed, r')" and "node \<noteq> zero_ident"
  shows "durable_registry r'"
proof -
  obtain m where m: "fmlookup (mr_networks r) i = Some m"
    and r': "r' = r\<lparr>mr_networks := fmupd i (snd (trust_peer m node)) (mr_networks r)\<rparr>"
    using assms(2) by (auto simp: network_mut_Some)
  note D = durable_registryD [OF r m]
  have "pm_node_id (peer_entry m node) = node"
    using D(4) [of node] by (auto simp: peer_entry_def peer_membership_new_def split: option.splits)
  then show ?thesis unfolding r'
    by (intro durable_update [OF r])
      (use D assms(3) in \<open>auto simp: trust_peer_def Let_def settled_network_def split: if_splits\<close>)
qed

lemma forget_durable:
  assumes r: "durable_registry r" and "network_mut r i (\<lambda>m. forget_peer m node) = Some (changed, r')"
  shows "durable_registry r'"
proof -
  obtain m where m: "fmlookup (mr_networks r) i = Some m"
    and r': "r' = r\<lparr>mr_networks := fmupd i (snd (forget_peer m node)) (mr_networks r)\<rparr>"
    using assms(2) by (auto simp: network_mut_Some)
  note D = durable_registryD [OF r m]
  show ?thesis unfolding r'
    by (intro durable_update [OF r]) (use D in \<open>auto simp: forget_peer_def settled_network_def split: if_splits\<close>)
qed

lemma revoke_valid:
  assumes "valid_pins pins"
  shows "valid_pins (fmdrop k pins)"
proof -
  have "pins_inv (fmdrop k pins)"
    by (rule pins_inv_mono [of pins]) (use assms in \<open>auto simp: valid_pins_def split: if_splits\<close>)
  then show ?thesis using assms by (auto simp: valid_pins_def split: if_splits)
qed

section \<open>The operations\<close>

lemma current_or_Inr:
  "bindR (current_network r) (ok_or no_current_network) = Inr n \<longleftrightarrow> current_network r = Inr (Some n)"
  by (auto simp: bindR_eq_Inr ok_or_eq_Inr)

lemma load_current_triple:
  assumes c: "trust_contract ops view"
    and rest: "\<And>network changed registry'. durable_registry (dv_registry v) \<Longrightarrow>
      current_network (dv_registry v) = Inr (Some network) \<Longrightarrow>
      network_mut (dv_registry v) network f = Some (changed, registry') \<Longrightarrow>
      triple (\<lambda>w. view w = v) (body network changed registry') (\<lambda>r w. Q r (view w))"
    and fail: "\<And>e. Q (Inl e) v"
  shows "triple (\<lambda>w. view w = v) (bindE (ms_load (pt_store ops)) (\<lambda>registry.
      bindE (liftE (bindR (current_network registry) (ok_or no_current_network))) (\<lambda>network.
      bindE (liftE (ok_or missing (network_mut registry network f))) (\<lambda>(changed, registry').
        body network changed registry')))) (\<lambda>r w. Q r (view w))"
proof (rule triple_bindE [OF load_triple [OF contract_parts(1) [OF c]]], goal_cases)
  case (1 registry)
  show ?case
  proof (cases "registry = dv_registry v \<and> durable_registry (dv_registry v)")
    case ok: True
    then have True: "registry = dv_registry v" by simp
    show ?thesis
    proof (rule triple_bindE [where R = "\<lambda>r w. view w = v \<and> r = bindR (current_network registry) (ok_or no_current_network)"],
        goal_cases)
      case (2 network)
      show ?case
      proof (rule triple_bindE [where R = "\<lambda>r w. view w = v \<and> current_network (dv_registry v) = Inr (Some network) \<and>
          r = ok_or missing (network_mut registry network f)"], goal_cases)
        case 1
        show ?case using True current_or_Inr [of registry network] by (auto intro!: triple_liftE)
      next
        case (2 found)
        obtain changed registry' where found: "found = (changed, registry')" by force
        show ?case
        proof (cases "current_network (dv_registry v) = Inr (Some network) \<and>
            network_mut (dv_registry v) network f = Some (changed, registry')")
          case yes: True
          show ?thesis unfolding found prod.case by (rule triple_pre [OF rest]) (use yes ok in auto)
        next
          case False
          then show ?thesis using True found by (auto simp: triple_def ok_or_eq_Inr eq_commute [of "Inr _"])
        qed
      qed (simp add: fail)
    qed (auto simp: fail intro!: triple_liftE)
  qed (auto simp: triple_def)
qed (simp add: fail)

text \<open>Approval adds no key and no other peer, and what it reports is in force.\<close>

definition trusted_more :: "node_id \<Rightarrow> trust_view \<Rightarrow> unit core_result \<Rightarrow> trust_view \<Rightarrow> bool" where
  "trusted_more node v r v' \<longleftrightarrow> dv_pins v' = dv_pins v \<and>
     (\<forall>n p. approved (dv_registry v') n p \<longrightarrow> approved (dv_registry v) n p \<or> p = node) \<and>
     (\<not> is_err r \<longrightarrow> (\<exists>n. current_network (dv_registry v) = Inr (Some n) \<and> approved (dv_registry v') n node))"

lemma nonzero_triple:
  "triple (\<lambda>w. view w = v) (liftE (require_nonzero_peer_identity node)) (\<lambda>r w. view w = v \<and> (\<not> is_err r \<longrightarrow> node \<noteq> zero_ident))"
  by (rule triple_liftE) (auto simp: require_nonzero_peer_identity_def)

lemma trust_triple:
  assumes c: "trust_contract ops view"
  shows "triple (\<lambda>w. view w = v) (durable_trust_peer ops node) (\<lambda>r w. trusted_more node v r (view w))"
  unfolding durable_trust_peer_def
proof (rule triple_bindE [OF nonzero_triple], goal_cases)
  case (1 u)
  have same: "trusted_more node v (Inl e) v" for e by (simp add: trusted_more_def)
  have "triple (\<lambda>w. view w = v) (guarded ops (bindE (ms_load (pt_store ops)) (\<lambda>registry.
       bindE (liftE (bindR (current_network registry) (ok_or no_current_network))) (\<lambda>network.
       bindE (liftE (ok_or missing (network_mut registry network (\<lambda>m. trust_peer m node)))) (\<lambda>(changed, registry').
         if changed then ms_save (pt_store ops) registry' else retE ()))))) (\<lambda>r w. trusted_more node v r (view w))"
    if node: "node \<noteq> zero_ident" for missing
  proof (rule guarded_triple [OF c, where Q = "trusted_more node v"],
      rule load_current_triple [OF c, where Q = "trusted_more node v"], goal_cases)
    case (1 network changed registry')
    have "trusted_more node v r (v\<lparr>dv_registry := registry'\<rparr>)" for r
      using trust_update(1,2) [OF 1(3)] 1(2) by (simp add: trusted_more_def)
    moreover have "trusted_more node v (Inr ()) v" if "\<not> changed"
      using trust_update(3) [OF 1(3,2) that] 1(2) by (simp add: trusted_more_def)
    moreover have "is_err r \<Longrightarrow> trusted_more node v r v" for r using same by (cases r) simp_all
    ultimately show ?case
      by (cases changed)
        (auto intro!: triple_retE triple_post [OF save_triple [OF contract_parts(2) [OF c] trust_durable [OF 1(1,3) node], of v]])
  qed (simp_all add: same)
  then show ?case by (cases "node = zero_ident") (auto simp: triple_def)
qed (auto simp: trusted_more_def)

text \<open>The key is dropped at most, and it is gone when the call reports success.\<close>

definition pin_revoked :: "network_id \<Rightarrow> node_id \<Rightarrow> trust_view \<Rightarrow> unit core_result \<Rightarrow> trust_view \<Rightarrow> bool" where
  "pin_revoked network node v r v' \<longleftrightarrow> dv_registry v' = dv_registry v \<and>
     (dv_pins v' = dv_pins v \<or> dv_pins v' = fmdrop (network, node) (dv_pins v)) \<and>
     (\<not> is_err r \<longrightarrow> fmlookup (dv_pins v') (network, node) = None)"

lemma revoke_pin_triple:
  assumes c: "trust_contract ops view" and store: "pt_pin_store ops = Some store"
  shows "triple (\<lambda>w. view w = v) (revoke_pin store network node) (\<lambda>r w. pin_revoked network node v r (view w))"
  unfolding revoke_pin_def
proof (rule triple_bindE [OF load_triple [OF contract_parts(6) [OF c store]]], goal_cases)
  case (1 pins)
  show ?case
  proof (cases "pins = dv_pins v \<and> valid_pins (dv_pins v)")
    case True
    then have "triple (\<lambda>w. view w = v) (ps_save store (fmdrop (network, node) (dv_pins v)))
        (\<lambda>r w. pin_revoked network node v r (view w))"
      by (intro triple_post [OF save_triple [OF contract_parts(7) [OF c store]]]) (auto simp: pin_revoked_def intro: revoke_valid)
    moreover have "triple (\<lambda>w. view w = v) (retE ()) (\<lambda>r w. pin_revoked network node v r (view w))"
      if "fmlookup (dv_pins v) (network, node) = None"
      using that by (intro triple_retE) (simp add: pin_revoked_def)
    ultimately show ?thesis using True by (auto simp: revoke_def elim: triple_pre)
  qed (auto simp: triple_def)
qed (simp add: pin_revoked_def)

text \<open>Forgetting takes away at most the key of the peer in the current network and approvals, the key before the
  approvals; on success the peer has neither.\<close>

definition forgotten :: "node_id \<Rightarrow> trust_view \<Rightarrow> unit core_result \<Rightarrow> trust_view \<Rightarrow> bool" where
  "forgotten node v r v' \<longleftrightarrow>
     (v' = v \<or> (\<exists>n. current_network (dv_registry v) = Inr (Some n) \<and>
        (dv_pins v' = dv_pins v \<or> dv_pins v' = fmdrop (n, node) (dv_pins v)) \<and>
        (dv_registry v' = dv_registry v \<or> fmlookup (dv_pins v') (n, node) = None))) \<and>
     (\<forall>n p. approved (dv_registry v') n p \<longrightarrow> approved (dv_registry v) n p) \<and>
     (\<not> is_err r \<longrightarrow> (\<exists>n. current_network (dv_registry v) = Inr (Some n) \<and> fmlookup (dv_pins v') (n, node) = None) \<and>
        (\<forall>n. \<not> approved (dv_registry v') n node))"

lemma forget_triple:
  assumes c: "trust_contract ops view" and store: "pt_pin_store ops = Some store"
  shows "triple (\<lambda>w. view w = v) (durable_forget_peer ops node) (\<lambda>r w. forgotten node v r (view w))"
  unfolding durable_forget_peer_def store option.case
proof (rule triple_bindE [where R = "\<lambda>r w. view w = v"], goal_cases)
  case (2 u)
  show ?case
  proof (rule guarded_triple [OF c, where Q = "forgotten node v"],
      rule load_current_triple [OF c, where Q = "forgotten node v"], goal_cases)
    case (1 network changed registry')
    note durable = forget_durable [OF 1(1,3)] and current = 1(2) and forget = forget_update [OF 1(3)]
    have revoked: "forgotten node v (Inl e) v'" if "pin_revoked network node v r v'" for e r v'
      using that current by (auto simp: forgotten_def pin_revoked_def)
    show ?case
    proof (rule triple_bindE [OF revoke_pin_triple [OF c store]], goal_cases)
      case (1 u)
      show ?case
      proof (rule triple_view [where C = "pin_revoked network node v (Inr u)"], goal_cases)
        case (1 v')
        have saved: "forgotten node v r (v'\<lparr>dv_registry := registry'\<rparr>)" for r
          using 1 forget(1,2) current by (auto simp: forgotten_def pin_revoked_def)
        have idle: "forgotten node v (Inr ()) v'" if "\<not> changed"
          using 1 that forget(3) current by (auto simp: forgotten_def pin_revoked_def)
        have "is_err r \<Longrightarrow> forgotten node v r v'" for r using revoked [OF 1] by (cases r) simp_all
        then show ?case
          using saved idle
          by (cases changed)
            (auto intro!: triple_retE triple_post [OF save_triple [OF contract_parts(2) [OF c] durable, of v']])
      qed
    next
      case (2 e w)
      then show ?case by (rule revoked)
    qed
  qed (simp_all add: forgotten_def)
qed (auto simp: forgotten_def require_nonzero_peer_identity_def intro!: triple_liftE)

text \<open>Only the confirmed key of an approved peer is ever added, and a reported enrolment is in force.\<close>

definition enrolled ::
  "network_id \<Rightarrow> node_id \<Rightarrow> spki_sha256 \<Rightarrow> spki_sha256 \<Rightarrow> trust_view \<Rightarrow> bool core_result \<Rightarrow> trust_view \<Rightarrow> bool" where
  "enrolled network node verified confirmed v r v' \<longleftrightarrow> dv_registry v' = dv_registry v \<and>
     (dv_pins v' = dv_pins v \<or> verified = confirmed \<and> approved (dv_registry v) network node \<and>
        fmlookup (dv_pins v) (network, node) = None \<and> dv_pins v' = fmupd (network, node) verified (dv_pins v)) \<and>
     (\<not> is_err r \<longrightarrow> verified = confirmed \<and> may_control v' network node verified)"

lemma enroll_save_triple:
  assumes c: "trust_contract ops view" and store: "pt_pin_store ops = Some store"
    and ok: "approved (dv_registry v) network node" and pins: "valid_pins (dv_pins v)" and key: "spki_ok verified"
    and step: "enroll_verified network node verified (dv_pins v) = (r, pins')"
  shows "triple (\<lambda>w. view w = v) (bindE (liftE (map_err err r)) (\<lambda>changed.
      if changed then bindE (check_enrollment_deadline ops deadline) (\<lambda>_. bindE (ps_save store pins') (\<lambda>_. retE changed))
      else retE changed)) (\<lambda>r w. enrolled network node verified verified v r (view w))"
  using step
proof (cases rule: enroll_cases [consumes 1, case_names refused known added])
  case refused
  then show ?thesis by (auto simp: triple_def bindE_def enrolled_def)
next
  case known
  then show ?thesis using ok by (auto simp: triple_def bindE_def enrolled_def may_control_def)
next
  case added
  have "triple (\<lambda>w. view w = v) (bindE (check_enrollment_deadline ops deadline) (\<lambda>_. bindE (ps_save store pins') (\<lambda>_. retE True)))
      (\<lambda>r w. enrolled network node verified verified v r (view w))"
  proof (rule triple_bindE [OF deadline_triple [OF c]], rule triple_bindE [OF save_triple [OF contract_parts(7) [OF c store] enroll_valid [OF pins key step]]],
      goal_cases)
    case (1 u u')
    show ?case using added ok by (auto simp: enrolled_def may_control_def intro!: triple_retE)
  next
    case (2 u e w)
    then show ?case using added ok by (auto simp: enrolled_def)
  qed (simp add: enrolled_def)
  then show ?thesis using added by (simp add: triple_def bindE_def)
qed

lemma enroll_triple:
  assumes c: "trust_contract ops view" and key: "spki_ok verified"
  shows "triple (\<lambda>w. view w = v) (enroll_key_inner ops network node verified confirmed deadline)
    (\<lambda>r w. enrolled network node verified confirmed v r (view w))"
  unfolding enroll_key_inner_def
proof (rule guarded_triple [OF c, where Q = "enrolled network node verified confirmed v"],
    rule triple_bindE [OF approved_triple [OF c]], goal_cases)
  case (1 u)
  have fail: "enrolled network node verified confirmed v (Inl e) v" for e by (simp add: enrolled_def)
  show ?case
  proof (cases "verified = confirmed \<and> approved (dv_registry v) network node")
    case yes: True
    show ?thesis
    proof (cases "pt_pin_store ops")
      case None
      then show ?thesis using fail by (auto simp: triple_def bindE_def)
    next
      case (Some store)
      have "triple (\<lambda>w. view w = v) (bindE (ps_load store) (\<lambda>pins. bindE (check_enrollment_deadline ops deadline) (\<lambda>_.
          case enroll_verified network node verified pins of (r, pins') \<Rightarrow>
          bindE (liftE (map_err err r)) (\<lambda>changed.
            if changed then bindE (check_enrollment_deadline ops deadline) (\<lambda>_. bindE (ps_save store pins') (\<lambda>_. retE changed))
            else retE changed)))) (\<lambda>r w. enrolled network node verified confirmed v r (view w))" for err
      proof (rule triple_bindE [OF load_triple [OF contract_parts(6) [OF c Some]]], goal_cases)
        case (1 pins)
        show ?case
        proof (cases "pins = dv_pins v \<and> valid_pins (dv_pins v)")
          case both: True
          then have True: "pins = dv_pins v" by simp
          obtain r pins' where step: "enroll_verified network node verified (dv_pins v) = (r, pins')" by force
          show ?thesis unfolding True step prod.case
            by (rule triple_bindE [where R = "\<lambda>r w. view w = v"],
                rule triple_pre [OF deadline_triple [OF c]])
              (use enroll_save_triple [OF c Some _ _ key step] yes both fail in auto)
        qed (auto simp: triple_def)
      qed (simp add: fail)
      then show ?thesis using yes Some by (auto elim: triple_pre)
    qed
  qed (use fail in \<open>auto simp: triple_def\<close>)
qed (simp_all add: enrolled_def)

lemma require_triple:
  assumes c: "trust_contract ops view"
  shows "triple (\<lambda>w. view w = v) (require_approved_pinned_tls_peer ops network node key)
    (\<lambda>r w. view w = v \<and> (\<not> is_err r \<longrightarrow> may_control v network node key))"
  unfolding require_approved_pinned_tls_peer_def with_approved_pinned_tls_peer_def
proof (rule guarded_triple [OF c, where Q = "\<lambda>r v'. v' = v \<and> (\<not> is_err r \<longrightarrow> may_control v network node key)"],
    rule triple_bindE [OF approved_triple [OF c]], goal_cases)
  case (1 u)
  show ?case
  proof (cases "pt_pin_store ops")
    case None
    then show ?thesis by (auto simp: triple_def bindE_def)
  next
    case (Some store)
    have "triple (\<lambda>w. view w = v \<and> approved (dv_registry v) network node) (bindE (ps_load store) (\<lambda>pins.
        bindE (liftE (map_err err (authorize network node True key pins))) (\<lambda>_ w. (Inr (), w))))
        (\<lambda>r w. view w = v \<and> (\<not> is_err r \<longrightarrow> may_control v network node key))" for err
    proof (rule triple_bindE [where R = "\<lambda>r w. view w = v \<and> approved (dv_registry v) network node \<and>
        (\<forall>x. r = Inr x \<longrightarrow> x = dv_pins v)"], goal_cases)
      case 1
      show ?case using load_triple [OF contract_parts(6) [OF c Some], of v] by (auto simp: triple_def)
    next
      case (2 pins)
      show ?case
        by (auto simp: triple_def bindE_def may_control_def authorize_def split: if_splits option.splits)
    qed simp
    then show ?thesis using Some by simp
  qed
qed auto


section \<open>On files\<close>

text \<open>The constructor \<open>with_peer_pin_store\<close> on the stores of the file system.\<close>

definition with_peer_pin_store ::
  "'w membership_store \<Rightarrow> 'w peer_pin_store \<Rightarrow> ('w \<Rightarrow> bool) \<Rightarrow> ('w \<Rightarrow> nat \<times> 'w) \<Rightarrow> 'w durable_peer_trust" where
  "with_peer_pin_store store pins poisoned now =
     \<lparr>pt_store = store, pt_pin_store = Some pins, pt_poisoned = poisoned, pt_now = now\<rparr>"

definition network_membership_store :: "'w store_files \<Rightarrow> path \<Rightarrow> 'w membership_store" where
  "network_membership_store fs path = \<lparr>ms_load = membership_load fs path, ms_save = membership_save fs path\<rparr>"

definition file_pin_store :: "'w lock_files \<Rightarrow> path \<Rightarrow> 'w peer_pin_store" where
  "file_pin_store fs directory = \<lparr>ps_try_lock = pins_try_lock fs directory, ps_unlock = lf_close fs,
     ps_load = pins_load (store_of fs) directory, ps_save = pins_save (store_of fs) directory\<rparr>"

text \<open>Opening the lock file may create it; the other calls on it change no file.\<close>

definition lock_files_contract :: "'w lock_files \<Rightarrow> ('w \<Rightarrow> contents) \<Rightarrow> bool" where
  "lock_files_contract fs files \<longleftrightarrow> files_contract (store_of fs) files \<and>
     (\<forall>v p m. triple (\<lambda>w. files w = v) (lf_open fs p m) (\<lambda>r w. files w = v \<or> v p = None \<and> files w = v(p \<mapsto> []))) \<and>
     (\<forall>file. silent files (lf_metadata fs file)) \<and> (\<forall>file. silent files (lf_try_lock fs file)) \<and>
     (\<forall>file w. files (lf_close fs file w) = files w)"

text \<open>The membership file, the file of pins and the lock file are different files, also from the temporary ones.\<close>

definition stores_apart :: "path \<Rightarrow> path \<Rightarrow> bool" where
  "stores_apart path directory \<longleftrightarrow> path \<noteq> pin_file directory \<and> path \<noteq> path_join directory PEER_LOCK_FILE \<and>
     \<not> temporary_of path (pin_file directory) \<and> \<not> temporary_of (pin_file directory) path"

definition trust_at :: "path \<Rightarrow> path \<Rightarrow> contents \<Rightarrow> trust_view" where
  "trust_at path directory v =
     \<lparr>dv_registry = (case read_document (v path) of Inr r \<Rightarrow> r | Inl _ \<Rightarrow> registry_default),
      dv_pins = (case read_pins (v (pin_file directory)) of Inr pins \<Rightarrow> pins | Inl _ \<Rightarrow> pins_new)\<rparr>"

lemma triple_image:
  assumes "\<And>v. triple (\<lambda>w. files w = v) m (\<lambda>r w. Q r (h v) (h (files w)))"
  shows "triple (\<lambda>w. h (files w) = x) m (\<lambda>r w. Q r x (h (files w)))"
  using assms unfolding triple_def by blast

lemma trust_at_frame:
  assumes "stores_apart path directory"
  shows "read_document (v' path) = read_document (v path) \<Longrightarrow> v' (pin_file directory) = v (pin_file directory) \<Longrightarrow>
      trust_at path directory v' = trust_at path directory v"
  by (simp add: trust_at_def)

lemma pin_file_not_lock: "pin_file directory \<noteq> path_join directory PEER_LOCK_FILE"
  by (simp add: pin_file_def secret_file_def path_join_def PIN_FILE_NAME_def PEER_LOCK_FILE_def)

lemma read_document_durable:
  assumes "read_document doc = Inr r"
  shows "durable_registry r"
proof (cases doc)
  case None
  then show ?thesis using assms by (auto simp: read_document_def durable_registry_def keyed_registry_def registry_default_def)
next
  case (Some s)
  then show ?thesis using assms parse_registry_durable by (auto simp: read_document_def bindR_eq_Inr)
qed

lemma membership_contracts:
  assumes c: "files_contract fs files" and apart: "stores_apart path directory"
  shows "load_contract (\<lambda>w. trust_at path directory (files w)) dv_registry durable_registry (membership_load fs path)"
    and "save_contract (\<lambda>w. trust_at path directory (files w)) (\<lambda>x v. v\<lparr>dv_registry := x\<rparr>) durable_registry (membership_save fs path)"
proof -
  have "triple (\<lambda>w. files w = v) (membership_load fs path) (\<lambda>r w. trust_at path directory (files w) = trust_at path directory v \<and>
      (\<forall>x. r = Inr x \<longrightarrow> x = dv_registry (trust_at path directory v) \<and> durable_registry x))" for v
    by (rule triple_post [OF membership_load_triple [OF c]])
      (use apart in \<open>auto simp: stores_apart_def trust_at_def dest: read_document_durable\<close>)
  then show "load_contract (\<lambda>w. trust_at path directory (files w)) dv_registry durable_registry (membership_load fs path)"
    unfolding load_contract_def
    by (intro allI triple_image [where files = files and h = "trust_at path directory" and
        Q = "\<lambda>r v v'. v' = v \<and> (\<forall>x. r = Inr x \<longrightarrow> x = dv_registry v \<and> durable_registry x)"])
next
  have "triple (\<lambda>w. files w = v) (membership_save fs path x) (\<lambda>r w. trust_at path directory (files w) =
      (trust_at path directory v)\<lparr>dv_registry := x\<rparr> \<or> is_err r \<and> trust_at path directory (files w) = trust_at path directory v)"
    if x: "durable_registry x" for v x
  proof -
    obtain doc where doc: "serialize_registry x = Inr doc" "read_document (Some doc) = Inr x" by (rule serialize_durable [OF x])
    show ?thesis
      by (rule triple_post [OF membership_save_triple [OF c doc(1)]])
        (use apart doc(2) in \<open>auto simp: stores_apart_def trust_at_def replaced_def\<close>)
  qed
  then show "save_contract (\<lambda>w. trust_at path directory (files w)) (\<lambda>x v. v\<lparr>dv_registry := x\<rparr>) durable_registry (membership_save fs path)"
    unfolding save_contract_def
    by (intro allI impI triple_image [where files = files and h = "trust_at path directory" and
        Q = "\<lambda>r v v'. v' = v\<lparr>dv_registry := x\<rparr> \<or> is_err r \<and> v' = v" for x])
qed

lemma pin_contracts:
  assumes c: "files_contract fs files" and apart: "stores_apart path directory"
  shows "load_contract (\<lambda>w. trust_at path directory (files w)) dv_pins valid_pins (pins_load fs directory)"
    and "save_contract (\<lambda>w. trust_at path directory (files w)) (\<lambda>x v. v\<lparr>dv_pins := x\<rparr>) valid_pins (pins_save fs directory)"
proof -
  have "triple (\<lambda>w. files w = v) (pins_load fs directory) (\<lambda>r w. trust_at path directory (files w) = trust_at path directory v \<and>
      (\<forall>x. r = Inr x \<longrightarrow> x = dv_pins (trust_at path directory v) \<and> valid_pins x))" for v
    by (rule triple_post [OF pins_load_triple [OF c]]) (auto simp: trust_at_def dest: read_pins_valid)
  then show "load_contract (\<lambda>w. trust_at path directory (files w)) dv_pins valid_pins (pins_load fs directory)"
    unfolding load_contract_def
    by (intro allI triple_image [where files = files and h = "trust_at path directory" and
        Q = "\<lambda>r v v'. v' = v \<and> (\<forall>x. r = Inr x \<longrightarrow> x = dv_pins v \<and> valid_pins x)"])
next
  have "triple (\<lambda>w. files w = v) (pins_save fs directory x) (\<lambda>r w. trust_at path directory (files w) =
      (trust_at path directory v)\<lparr>dv_pins := x\<rparr> \<or> is_err r \<and> trust_at path directory (files w) = trust_at path directory v)"
    if x: "valid_pins x" for v x
    by (rule triple_post [OF pins_save_triple [OF c x]])
      (use apart in \<open>auto simp: stores_apart_def trust_at_def\<close>)
  then show "save_contract (\<lambda>w. trust_at path directory (files w)) (\<lambda>x v. v\<lparr>dv_pins := x\<rparr>) valid_pins (pins_save fs directory)"
    unfolding save_contract_def
    by (intro allI impI triple_image [where files = files and h = "trust_at path directory" and
        Q = "\<lambda>r v v'. v' = v\<lparr>dv_pins := x\<rparr> \<or> is_err r \<and> v' = v" for x])
qed

lemma lock_contractD:
  assumes "lock_files_contract fs files"
  shows "files_contract (store_of fs) files"
    and "triple (\<lambda>w. files w = v) (lf_open fs p m) (\<lambda>r w. files w = v \<or> v p = None \<and> files w = v(p \<mapsto> []))"
    and "silent files (lf_metadata fs file)" "silent files (lf_try_lock fs file)" "files (lf_close fs file w) = files w"
    and "silent files (fs_symlink_metadata fs p)"
proof -
  show c: "files_contract (store_of fs) files"
    and "triple (\<lambda>w. files w = v) (lf_open fs p m) (\<lambda>r w. files w = v \<or> v p = None \<and> files w = v(p \<mapsto> []))"
    and "silent files (lf_metadata fs file)" "silent files (lf_try_lock fs file)" "files (lf_close fs file w) = files w"
    using assms by (simp_all add: lock_files_contract_def)
  have "fs_symlink_metadata (store_of fs) = fs_symlink_metadata fs"
    by (simp add: store_of_def store_files.truncate_def)
  then show "silent files (fs_symlink_metadata fs p)"
    using files_contractD(1) [OF c, of _ p] by (auto simp: silent_def intro: triple_post)
qed

lemma owning_triple:
  assumes "lock_files_contract fs files" and "triple P m (\<lambda>r w. Q (files w))"
  shows "triple P (owning fs file m) (\<lambda>r w. Q (files w))"
  using assms(2) lock_contractD(5) [OF assms(1)]
  by (auto simp: triple_def owning_def split: prod.splits sum.splits)

lemma try_lock_triple:
  assumes c: "lock_files_contract fs files"
  shows "triple (\<lambda>w. files w = v) (pins_try_lock fs directory)
    (\<lambda>r w. \<forall>q. q \<noteq> path_join directory PEER_LOCK_FILE \<longrightarrow> files w q = v q)"
proof -
  let ?near = "\<lambda>v'. \<forall>q. q \<noteq> path_join directory PEER_LOCK_FILE \<longrightarrow> v' q = v q"
  have quiet: "triple (\<lambda>w. ?near (files w)) m (\<lambda>r w. ?near (files w))" if "silent files m" for m :: "'a \<Rightarrow> 'b \<times> 'a"
    by (rule triple_view [where view = files], rule triple_post [OF silent_triple [OF that]]) simp
  have opened: "triple (\<lambda>w. files w = v) (fs_tryE err (lf_open fs (path_join directory PEER_LOCK_FILE) 0x180))
      (\<lambda>r w. ?near (files w))" for err
    by (rule triple_fs_tryE [OF lock_contractD(2) [OF c]]) auto
  have loaded: "triple (\<lambda>w. files w = v) (secret_load (store_of fs) directory PIN_FILE_NAME) (\<lambda>r w. files w = v)"
    by (rule triple_post [OF secret_load_triple [OF lock_contractD(1) [OF c]]]) simp
  show ?thesis
    unfolding pins_try_lock_def
  proof (rule triple_bindE [OF loaded], rule triple_bindE [OF opened], rule owning_triple [OF c], goal_cases)
    case (1 u lock)
    show ?case
    proof (rule triple_bindE [OF quiet [OF silent_fs_tryE [OF lock_contractD(3) [OF c]]]],
        rule triple_bindE [OF quiet [OF silent_fs_tryE [OF lock_contractD(6) [OF c]]]],
        rule triple_bindE [OF quiet [OF silent_fs_tryE [OF lock_contractD(6) [OF c]]]], goal_cases)
      case (1 descriptor on_disk dir)
      have "triple (\<lambda>w. ?near (files w)) (matchE (lf_try_lock fs lock) (\<lambda>r. case r of
           Inr _ \<Rightarrow> retE lock | Inl WouldBlock \<Rightarrow> raiseE e | Inl (TryLockError err) \<Rightarrow> raiseE (f err))) (\<lambda>r w. ?near (files w))"
        for e f
        by (rule triple_matchE [OF quiet [OF lock_contractD(4) [OF c]]])
          (auto simp: triple_def split: sum.splits try_lock_error.splits)
      then show ?case by (cases "unsafe_lock descriptor on_disk dir") (simp_all add: triple_raiseE del: eff_simps)
    qed simp_all
  qed simp_all
qed

lemma file_trust_contract:
  assumes c: "lock_files_contract fs files" and now: "silent files now" and apart: "stores_apart path directory"
  shows "trust_contract (with_peer_pin_store (network_membership_store (store_of fs) path) (file_pin_store fs directory) poisoned now)
    (\<lambda>w. trust_at path directory (files w))"
proof -
  have "triple (\<lambda>w. files w = v) (pins_try_lock fs directory) (\<lambda>r w. trust_at path directory (files w) = trust_at path directory v)"
    for v
    by (rule triple_post [OF try_lock_triple [OF c]])
      (use apart pin_file_not_lock in \<open>auto simp: stores_apart_def trust_at_def\<close>)
  then have "silent (\<lambda>w. trust_at path directory (files w)) (pins_try_lock fs directory)"
    unfolding silent_def
    by (intro allI triple_image [where files = files and h = "trust_at path directory" and Q = "\<lambda>r v v'. v' = v"])
  moreover have "silent (\<lambda>w. trust_at path directory (files w)) now"
    using now by (auto simp: silent_def triple_def)
  ultimately show ?thesis
    using membership_contracts [OF lock_contractD(1) [OF c] apart] pin_contracts [OF lock_contractD(1) [OF c] apart]
      lock_contractD(5) [OF c]
    by (simp add: trust_contract_def with_peer_pin_store_def network_membership_store_def file_pin_store_def)
qed

text \<open>C8: control sessions stay with approved peers and their confirmed keys, on the stored registry and the stored
  pins. A positive check changes nothing and means that the peer is approved in the current network now and that its
  key is the pinned one. Approving a peer changes no pin and approves nobody else; on success the peer is approved.
  Enrolment changes no approval; the pins stay as they are unless the key is the confirmed one, the peer is approved in
  the current network and has no pin, and then exactly this pin is added; on success the key is in force. Forgetting
  drops at most the pin of the peer in the current network and approves nobody, whatever store fails; the registry
  changes only when the pin is gone; on success the peer has neither a pin in the current network nor an approval.\<close>

theorem peer_trust_sound:
  assumes "lock_files_contract fs files" and "silent files now" and "stores_apart path directory" and "spki_ok key"
    and "ops = with_peer_pin_store (network_membership_store (store_of fs) path) (file_pin_store fs directory) poisoned now"
    and "view = (\<lambda>w. trust_at path directory (files w))"
  shows "(\<forall>r w'. require_approved_pinned_tls_peer ops network node key w = (r, w') \<longrightarrow>
      view w' = view w \<and> (\<not> is_err r \<longrightarrow> may_control (view w) network node key)) \<and>
    (\<forall>r w'. durable_trust_peer ops node w = (r, w') \<longrightarrow> dv_pins (view w') = dv_pins (view w) \<and>
      (\<forall>n p. approved (dv_registry (view w')) n p \<longrightarrow> approved (dv_registry (view w)) n p \<or> p = node) \<and>
      (\<not> is_err r \<longrightarrow> (\<exists>n. current_network (dv_registry (view w)) = Inr (Some n) \<and>
         approved (dv_registry (view w')) n node))) \<and>
    (\<forall>r w'. enroll_key_inner ops network node key confirmed deadline w = (r, w') \<longrightarrow>
      dv_registry (view w') = dv_registry (view w) \<and>
      (dv_pins (view w') = dv_pins (view w) \<or>
         key = confirmed \<and> approved (dv_registry (view w)) network node \<and>
         fmlookup (dv_pins (view w)) (network, node) = None \<and>
         dv_pins (view w') = fmupd (network, node) key (dv_pins (view w))) \<and>
      (\<not> is_err r \<longrightarrow> key = confirmed \<and> may_control (view w') network node key)) \<and>
    (\<forall>r w'. durable_forget_peer ops node w = (r, w') \<longrightarrow>
      (view w' = view w \<or> (\<exists>n. current_network (dv_registry (view w)) = Inr (Some n) \<and>
         (dv_pins (view w') = dv_pins (view w) \<or> dv_pins (view w') = fmdrop (n, node) (dv_pins (view w))) \<and>
         (dv_registry (view w') = dv_registry (view w) \<or> fmlookup (dv_pins (view w')) (n, node) = None))) \<and>
      (\<forall>n p. approved (dv_registry (view w')) n p \<longrightarrow> approved (dv_registry (view w)) n p) \<and>
      (\<not> is_err r \<longrightarrow> (\<exists>n. current_network (dv_registry (view w)) = Inr (Some n) \<and>
         fmlookup (dv_pins (view w')) (n, node) = None) \<and> (\<forall>n. \<not> approved (dv_registry (view w')) n node)))"
proof -
  have c: "trust_contract ops view" unfolding assms(5,6) by (rule file_trust_contract [OF assms(1-3)])
  have store: "pt_pin_store ops = Some (file_pin_store fs directory)" by (simp add: assms(5) with_peer_pin_store_def)
  show ?thesis
  proof ((rule conjI [OF _ conjI [OF _ conjI]]; intro allI impI), goal_cases)
    case (1 r w')
    then show ?case by (rule tripleD [OF require_triple [OF c] refl])
  next
    case (2 r w')
    then show ?case by (rule tripleD [OF trust_triple [OF c] refl, unfolded trusted_more_def])
  next
    case (3 r w')
    then show ?case by (rule tripleD [OF enroll_triple [OF c assms(4)] refl, unfolded enrolled_def])
  next
    case (4 r w')
    then show ?case by (rule tripleD [OF forget_triple [OF c store] refl, unfolded forgotten_def])
  qed
qed

text \<open>Files and locks in memory, with one directory for secrets, and a membership file that holds the sample registry.\<close>

definition secret_dir :: path where
  "secret_dir = [''var'', ''lib'', ''blueroute'', ''secrets'']"

definition memory_locks :: "(contents \<times> u64) lock_files" where
  "memory_locks = store_files.extend (memory_store\<lparr>fs_symlink_metadata := (\<lambda>p (v, n).
       if p = secret_dir then (Inr (FileMetadata False True 0x1C0 1 0 0 0), v, n) else fs_symlink_metadata memory_store p (v, n))\<rparr>)
     (lock_files.fields
       (\<lambda>p m (v, n). (Inr 3, (if v p = None then v(p \<mapsto> []) else v), n))
       (\<lambda>file w. (Inr (FileMetadata True False 0x180 1 0 0 0), w))
       (\<lambda>file w. (Inr (), w))
       (\<lambda>file w. w))"

lemma store_of_memory_locks:
  "store_of memory_locks = memory_store\<lparr>fs_symlink_metadata := (\<lambda>p (v, n).
     if p = secret_dir then (Inr (FileMetadata False True 0x1C0 1 0 0 0), v, n) else fs_symlink_metadata memory_store p (v, n))\<rparr>"
  by (simp add: store_of_def memory_locks_def store_files.defs memory_store_def lock_files.defs)

lemma memory_locks_contract: "lock_files_contract memory_locks fst"
proof -
  have "files_contract (store_of memory_locks) fst"
    using memory_store_contract unfolding store_of_memory_locks files_contract_def
    by (auto simp: triple_def split: if_splits)
  moreover have "lf_open memory_locks = (\<lambda>p m (v, n). (Inr 3, (if v p = None then v(p \<mapsto> []) else v), n))"
    "lf_metadata memory_locks = (\<lambda>file w. (Inr (FileMetadata True False 0x180 1 0 0 0), w))"
    "lf_try_lock memory_locks = (\<lambda>file w. (Inr (), w))" "lf_close memory_locks = (\<lambda>file w. w)"
    by (simp_all add: memory_locks_def store_files.defs memory_store_def lock_files.defs)
  ultimately show ?thesis by (auto simp: lock_files_contract_def silent_def triple_def)
qed

definition sample_document :: string where
  "sample_document = (case serialize_registry sample_registry of Inr doc \<Rightarrow> doc | Inl _ \<Rightarrow> [])"

lemma sample_document_read:
  "migrate_to_current sample_document = Inr \<lparr>mg_serialized = sample_document, mg_migrated = False\<rparr>"
  "parse_registry sample_document = Inr sample_registry"
proof -
  let ?doc = "unlines (format_header CURRENT_FORMAT_VERSION # registry_lines sample_registry)"
  have doc: "sample_document = ?doc"
    using serialize_registry_exact [of sample_registry] sample_registry_durable
    by (auto simp: sample_document_def durable_registry_def simp del: unlines_simps)
  note parsed = parse_serialized [OF sample_registry_durable]
  obtain rest where "text_lines ?doc = format_header CURRENT_FORMAT_VERSION # rest"
    using parse_registry_header [OF parsed] by blast
  from migrate_current [OF this] parsed doc
  show "migrate_to_current sample_document = Inr \<lparr>mg_serialized = sample_document, mg_migrated = False\<rparr>"
    "parse_registry sample_document = Inr sample_registry" by simp_all
qed

definition sample_files :: "contents \<times> u64" where
  "sample_files = (Map.empty(state_path \<mapsto> sample_document), 0)"

lemmas memory_locks_defs = memory_locks_def store_files.defs lock_files.defs memory_store_def

lemma load_sample:
  assumes "v state_path = Some sample_document"
  shows "membership_load (store_of memory_locks) state_path (v, n) = (Inr sample_registry, v, n)"
proof -
  have "state_path \<noteq> secret_dir" by (simp add: state_path_def secret_dir_def)
  then show ?thesis
    unfolding store_of_memory_locks
    by (simp add: membership_load_def matchE_def bindE_def fs_tryE_def membership_enforce_permissions_def assms
        sample_document_read memory_store_def MEMBERSHIP_FILE_MODE_def)
qed

lemma no_secret:
  assumes "v (pin_file secret_dir) = None"
  shows "secret_load (store_of memory_locks) secret_dir PIN_FILE_NAME (v, n) = (Inr None, v, n)"
proof -
  have "pin_file secret_dir \<noteq> secret_dir" by (simp add: pin_file_def secret_file_def path_join_def)
  moreover have "secret_path secret_dir PIN_FILE_NAME = Inr (pin_file secret_dir)"
    by (simp add: secret_path_Inr pin_file_def normal_component_def PIN_FILE_NAME_def)
  ultimately show ?thesis
    unfolding store_of_memory_locks
    by (simp add: secret_load_def ensure_secure_directory_def matchE_def bindE_def assms
        enforce_directory_permissions_def SECRET_DIRECTORY_MODE_def memory_store_def)
qed

lemma no_secret_then:
  "v (pin_file secret_dir) = None \<Longrightarrow>
   bindE (secret_load (store_of memory_locks) secret_dir PIN_FILE_NAME) f (v, n) = f None (v, n)"
  by (simp add: bindE_def no_secret)

lemma lock_sample:
  assumes "v (pin_file secret_dir) = None" and "v (path_join secret_dir PEER_LOCK_FILE) = None"
  shows "pins_try_lock memory_locks secret_dir (v, n) = (Inr 3, v(path_join secret_dir PEER_LOCK_FILE \<mapsto> []), n)"
proof -
  have other: "path_join secret_dir PEER_LOCK_FILE \<noteq> secret_dir" by (simp add: path_join_def)
  show ?thesis
    unfolding pins_try_lock_def no_secret_then [where v = v, OF assms(1)]
    using other assms(2)
    by (simp add: bindE_def fs_tryE_def matchE_def owning_def unsafe_lock_def memory_locks_defs MEMBERSHIP_FILE_MODE_def)
qed

lemma save_sample:
  assumes pins: "valid_pins pins" "fm_len pins \<le> 128" and free: "v (pin_file secret_dir) = None"
    and temp: "v (path_join secret_dir (temporary_name PIN_FILE_NAME 7 n)) = None"
  shows "\<exists>w'. pins_save (store_of memory_locks) secret_dir pins (v, n) = (Inr (), w')"
proof -
  obtain doc where doc: "serialize_pins pins = Inr doc" using serialize_pins_err [OF pins(1)] pins(2) by (cases "serialize_pins pins") auto
  have other: "pin_file secret_dir \<noteq> secret_dir" by (simp add: pin_file_def secret_file_def path_join_def)
  have path: "secret_path secret_dir PIN_FILE_NAME = Inr (pin_file secret_dir)"
    by (simp add: secret_path_Inr pin_file_def normal_component_def PIN_FILE_NAME_def)
  have tries: "(128::nat) = Suc 127" by simp
  show ?thesis
    unfolding pins_save_def doc bindE_liftE secret_save_def path store_of_memory_locks secret_write_temporary_and_replace_def tries
      create_temporary_file.simps secret_temporary_path_def
    using other free temp
    by (simp add: ensure_secure_directory_def secret_validate_destination_def matchE_def bindE_def enforce_directory_permissions_def
        write_and_sync_def secret_sync_directory_def fs_tryE_def SECRET_DIRECTORY_MODE_def memory_store_def)
qed

definition sample_key :: spki_sha256 where
  "sample_key = SpkiSha256 (replicate 32 7)"

lemma sample_paths:
  "state_path \<noteq> pin_file secret_dir" "state_path \<noteq> path_join secret_dir PEER_LOCK_FILE"
  "state_path \<noteq> path_join secret_dir (temporary_name PIN_FILE_NAME 7 n)"
  "path_join secret_dir PEER_LOCK_FILE \<noteq> path_join secret_dir (temporary_name PIN_FILE_NAME 7 n)"
  "stores_apart state_path secret_dir"
  by (simp_all add: stores_apart_def temporary_of_def state_path_def secret_dir_def pin_file_def secret_file_def path_join_def
      PIN_FILE_NAME_def PEER_LOCK_FILE_def temporary_name_def)

definition sample_trust :: "(contents \<times> u64) durable_peer_trust" where
  "sample_trust = with_peer_pin_store (network_membership_store (store_of memory_locks) state_path)
     (file_pin_store memory_locks secret_dir) (\<lambda>_. False) (\<lambda>w. (0, w))"

lemma sample_enrolment:
  "\<exists>w'. enroll_key_inner sample_trust (byte_ident 8) (byte_ident 2) sample_key sample_key None sample_files = (Inr True, w')"
proof -
  let ?v = "Map.empty(state_path \<mapsto> sample_document)"
  let ?v' = "?v(path_join secret_dir PEER_LOCK_FILE \<mapsto> [])"
  have lock: "pins_try_lock memory_locks secret_dir (?v, 0) = (Inr 3, ?v', 0)"
    by (rule lock_sample) (use sample_paths in auto)
  have load: "membership_load (store_of memory_locks) state_path (?v', 0) = (Inr sample_registry, ?v', 0)"
    by (rule load_sample) (use sample_paths in auto)
  have approved: "require_peer_approved sample_trust (byte_ident 8) (byte_ident 2) (?v', 0) = (Inr (), ?v', 0)"
    using load
    by (simp add: require_peer_approved_def require_nonzero_peer_identity_def bindE_def sample_trust_def with_peer_pin_store_def
        network_membership_store_def sample_registry_def current_network_def fm_values_def sorted_list_of_fmap_def
        sorted_list_of_fset_eval registry_network_def is_peer_trusted_def)
  have empty: "?v' (pin_file secret_dir) = None" using sample_paths pin_file_not_lock by auto
  have pins: "pins_load (store_of memory_locks) secret_dir (?v', 0) = (Inr pins_new, ?v', 0)"
    unfolding pins_load_def no_secret_then [where v = ?v', OF empty] by simp
  have "\<exists>w'. pins_save (store_of memory_locks) secret_dir (fmupd (byte_ident 8, byte_ident 2) sample_key pins_new) (?v', 0) = (Inr (), w')"
    by (rule save_sample) (use sample_pins_valid empty sample_paths(3,4) [symmetric] in
      \<open>auto simp: sample_pins_def sample_key_def pins_new_def fm_len_fmupd\<close>)
  then obtain w' where save: "pins_save (store_of memory_locks) secret_dir
      (fmupd (byte_ident 8, byte_ident 2) sample_key pins_new) (?v', 0) = (Inr (), w')" by blast
  have stores: "pt_pin_store sample_trust = Some (file_pin_store memory_locks secret_dir)" "\<not> pt_poisoned sample_trust w"
    "ps_try_lock (file_pin_store memory_locks secret_dir) = pins_try_lock memory_locks secret_dir"
    "ps_load (file_pin_store memory_locks secret_dir) = pins_load (store_of memory_locks) secret_dir"
    "ps_save (file_pin_store memory_locks secret_dir) = pins_save (store_of memory_locks) secret_dir" for w
    by (simp_all add: sample_trust_def with_peer_pin_store_def file_pin_store_def)
  have enroll: "enroll_verified (byte_ident 8) (byte_ident 2) sample_key pins_new =
      (Inr True, fmupd (byte_ident 8, byte_ident 2) sample_key pins_new)"
    by (simp add: enroll_verified_def pins_new_def pin_shared_def)
  show ?thesis
    unfolding enroll_key_inner_def guarded_def lock_state_def sample_files_def
    using lock approved pins save enroll by (simp add: stores bindE_def check_enrollment_deadline_def)
qed

theorem peer_trust_sound_witness:
  "\<exists>w'. enroll_key_inner sample_trust (byte_ident 8) (byte_ident 2) sample_key sample_key None sample_files = (Inr True, w') \<and>
     may_control (trust_at state_path secret_dir (fst w')) (byte_ident 8) (byte_ident 2) sample_key"
proof -
  obtain w' where run: "enroll_key_inner sample_trust (byte_ident 8) (byte_ident 2) sample_key sample_key None sample_files = (Inr True, w')"
    using sample_enrolment by blast
  have "silent fst (\<lambda>w :: contents \<times> u64. (0, w))" "spki_ok sample_key"
    by (simp_all add: silent_def triple_def sample_key_def spki_ok_def SPKI_BYTES_def list_all_iff)
  from peer_trust_sound [OF memory_locks_contract this(1) sample_paths(5) this(2) sample_trust_def refl, THEN conjunct2,
      THEN conjunct2, THEN conjunct1, THEN spec, THEN spec, THEN mp, OF run, THEN conjunct2]
  show ?thesis using run by auto
qed

end
