(* ===== verification/Spec2Isabelle.thy ===== *)
theory Spec2Isabelle
  imports Segment_Allocator Membership Topology_Search Neighbor Route_Executor Topology_Recovery_Flow Nap_Admission
    Handshake Peer_Pin Linux_Route_Executor Linux_Forwarding Daemon_Trust
begin

text \<open>
  A verification development of BlueRoute, a mesh of Bluetooth personal area networks (PANs) in Rust.

  \<^bold>\<open>The program.\<close> Nodes connect to each other as clients (PANU) of star-shaped segments whose hub (NAP) forwards for
  them. The crate \<open>blueroute-core\<close> decides: who may be a hub, which links and routes should exist, which addresses
  a segment gets, who is a member. \<open>blueroute-protocol\<close> is the authenticated control channel between two nodes:
  framing, hello handshake, session streams, deadlines, registry and reconnecting. \<open>blueroute-linux\<close> turns the
  decisions into kernel state and keeps the durable files. The daemon composes them and decides which peer may open a
  control session; command line, terminal and desktop programs are its clients.

  \<^bold>\<open>Modelling.\<close> The \<open>Result\<close> of fallible code is a sum with the error on the left and \<open>bindR\<close> for the \<open>?\<close>
  operator; a \<open>for\<close> loop with early return is \<open>foldR\<close>; a method with \<open>&mut self\<close> returns its result and the new
  state, so that what an error leaves behind is part of the model. Machine integers are words with checked, wrapping
  and saturating operations as the code has them. \<open>BTreeMap\<close> and \<open>BTreeSet\<close> are finite maps and sets that iterate in
  key order. Code that drives something outside (a kernel, a Bluetooth backend, a socket, the JSON library) takes a
  record of operations on an arbitrary state; a theorem that needs more than that names the documented contract of
  these operations as a hypothesis, and its witness gives an in-memory implementation that keeps it.

  \<^bold>\<open>Theories.\<close>
  \<^item> \<open>Prelude\<close>, \<open>Errors\<close>: integers, fallible code, effects, containers; \<open>error.rs\<close>.
  \<^item> \<open>Ids\<close>, \<open>Ip_Route\<close>, \<open>Capability\<close>, \<open>Config\<close>: \<open>id.rs\<close>, \<open>route.rs\<close>, \<open>capability.rs\<close>, \<open>health.rs\<close>, \<open>config.rs\<close>.
    Identifiers and display names have canonical texts; aggregated health is the worst contribution.
  \<^item> \<open>Addressing\<close>, \<open>Segment_Allocator\<close>: \<open>addressing.rs\<close>, \<open>segment_allocator.rs\<close>. The collision test is disjointness of
    address blocks (locale \<open>availability_check\<close>); reservations stay disjoint, bounded and inside the pool, and a free
    slot is found when there is one.
  \<^item> \<open>Topology\<close>, \<open>Topology_Search\<close>, \<open>Neighbor\<close>, \<open>Membership\<close>: \<open>topology.rs\<close>, \<open>neighbor.rs\<close>, \<open>forwarding_policy.rs\<close>,
    \<open>membership.rs\<close>. Graph consistency, shortest paths with the fewest hops, reachability classes, the forwarding
    decision, and membership as a refinement of sets.
  \<^item> \<open>Route_Planner\<close>: \<open>route_planner.rs\<close>. The search returns the routes of the best walks, ends on every graph and
    fails only where the metric overflows.
  \<^item> \<open>Route_Table\<close>, \<open>Route_Reconciliation\<close>, \<open>Route_Executor\<close>: \<open>route_reconciliation.rs\<close>, \<open>route_executor.rs\<close>,
    \<open>route_recovery.rs\<close>. The locales \<open>route_diff\<close> and \<open>table_executor\<close> hold what planning and execution of a route
    difference have in common; they are interpreted here and on the Linux routes.
  \<^item> \<open>Topology_Policy\<close>, \<open>Topology_Plan\<close>, \<open>Topology_Executor\<close>, \<open>Topology_Loss\<close>, \<open>Topology_Stability\<close>,
    \<open>Topology_Recovery\<close>, \<open>Topology_Recovery_Flow\<close>: the files of the same names. Hub selection, link transitions,
    their execution with routes, debounced loss, the anti-flap gate, and recovery from a lost hub.
  \<^item> \<open>Nap_Admission\<close>: \<open>nap_admission.rs\<close>, \<open>nap_admission_ledger.rs\<close>, \<open>nap_admission_scope.rs\<close>. The ledger refines a set
    of live tickets (locale \<open>ticketed\<close>, interpreted for the ledger and its scoped owner).
  \<^item> \<open>Control\<close>, \<open>Control_Stream\<close>, \<open>Control_Io\<close>: \<open>control.rs\<close>, \<open>control_stream.rs\<close>, \<open>control_io.rs\<close>. Frames round trip,
    the incremental decoder equals a parser of the whole stream, and frame I/O returns by its deadline over any transport
    that keeps \<open>transport_contract\<close>, with its two timeouts for reads and writes.
  \<^item> \<open>Session\<close>, \<open>Session_Stream\<close>, \<open>Handshake\<close>, \<open>Peer_Pin\<close>: \<open>session.rs\<close>, \<open>session_stream.rs\<close>, \<open>session_writer.rs\<close>,
    \<open>session_activity.rs\<close>, \<open>handshake.rs\<close>, \<open>peer_pin.rs\<close>. Deadlines (a connection that never
    becomes active ends, aborted or not), the session registry, reconnecting, the scope of what a session delivers,
    agreement of writer and reader over sessions of any length, the hello exchange, and pinned keys.
  \<^item> \<open>Linux_Route\<close>, \<open>Linux_Route_Executor\<close>: \<open>route_projection.rs\<close>, \<open>route_reconciliation.rs\<close>, \<open>route_executor.rs\<close> of
    \<open>blueroute-linux\<close>. Route intents become kernel routes on private prefixes, and their execution installs exactly
    them beside the foreign routes.
  \<^item> \<open>Linux_Files\<close>, \<open>Linux_Forwarding\<close>: the file operations the Linux code uses, with Hoare triples for code that runs
    over them, and \<open>forwarding.rs\<close>, \<open>forwarding_reconciliation.rs\<close>: the lease that restores the forwarding switch.
  \<^item> \<open>Utf8\<close>, \<open>Membership_Document\<close>, \<open>Linux_Store\<close>: \<open>membership_store.rs\<close>, \<open>secret_store.rs\<close>, \<open>identity.rs\<close> of
    \<open>blueroute-linux\<close>. The membership text and its migration round trip; a stored file is replaced as a whole whatever
    operation fails (over any file system that keeps \<open>files_contract\<close>); the node identity stays the same.
  \<^item> \<open>Daemon_Pins\<close>, \<open>Daemon_Store\<close>, \<open>Daemon_Trust\<close>: \<open>peer_pin_store.rs\<close>, \<open>current_network\<close> of \<open>single_star.rs\<close>, and
    \<open>peer_trust.rs\<close> of the daemon. The pins round trip through their file; approval, enrolment, forgetting and the check
    of a peer over the two stores, stated on the stored registry and pins.

  \<^bold>\<open>Termination, bounds and fuel.\<close> Loops over collections are structural. The searches are functions with a measure.
  The \<open>walk_back\<close> of a path takes the number of recorded predecessors as fuel, which a path without repetition cannot
  exceed. Loops that wait for a transport are partial functions into \<open>option\<close>; they are proved to return whenever the
  transport keeps its contract, by the bytes left and the time left to the deadline.

  Sums of times in the anti-flap gate are clamped to the last value of the 64-bit clock, and its backoff doubles at most
  63 times, as the code's saturating operations do; the theorem states both.

  \<^bold>\<open>Not modelled.\<close> Serialization glue (\<open>serde\<close> derives), TLS, D-Bus, sockets, netlink and threads: they are
  third-party or operating-system behaviour that the sources only call; an advisory file lock is a call on the lock file,
  and an operation under it is one step. The daemon's network transactions and workers, the BlueZ, NetworkManager and
  PAN adapters, and the user interfaces are sequences of such calls around the decisions above.
\<close>

end
